(* ===== verification/Monitor_Prelude.thy ===== *)
theory Monitor_Prelude
  imports "HOL-Library.Word"
begin

unbundle bit_operations_syntax

text \<open>
  Shared vocabulary of the development: names for the C integer types, the
  collections of rewrite rules the component theories feed, the loop
  ``return the first array element that satisfies a test'', and the generic
  facts on words, lists and counting that more than one component needs.
\<close>

section \<open>Integer types\<close>

text \<open>
  The C types of the program on its LP64 Linux target.  A signed 32-bit value is
  kept as a word as well and read through \<^const>\<open>sint\<close>.
\<close>

type_synonym u32 = "32 word"
type_synonym u64 = "64 word"
type_synonym uintptr = "64 word"
type_synonym i32 = "32 word"

abbreviation UINT32_MAX :: u32 where
  "UINT32_MAX \<equiv> 0xFFFFFFFF"

section \<open>Collections of rewrite rules\<close>

named_theorems frame_simps \<open>fields an operation leaves alone\<close>
named_theorems zero_defs \<open>zero-initialised objects (memset, static storage)\<close>
named_theorems wf_defs \<open>definitions of well-formedness predicates\<close>

section \<open>Words\<close>

lemma unat_Suc_u64:
  fixes w :: u64
  assumes "w \<noteq> -1"
  shows "unat (w + 1) = Suc (unat w)"
  using assms by (metis add.commute unatSuc word_succ_p1 add_eq_0_iff2 minus_equation_iff)

lemma unat_Suc_u32:
  fixes w :: u32
  assumes "unat w < 2 ^ 32 - 1"
  shows "unat (w + 1) = Suc (unat w)"
  using assms by (simp add: unat_word_ariths)

lemma unat_pred:
  fixes w :: "'a :: len word"
  assumes "w \<noteq> 0"
  shows "unat (w - 1) = unat w - 1"
  using assms by (simp add: unat_minus_one)

lemma of_nat_u64_eq_iff:
  assumes "a \<le> b" and "b - a < 2 ^ 64"
  shows "(of_nat a :: u64) = of_nat b \<longleftrightarrow> a = b"
proof
  assume eq: "(of_nat a :: u64) = of_nat b"
  have "(of_nat (b - a) :: u64) = 0"
    using assms(1) eq by (simp add: of_nat_diff)
  then have "2 ^ 64 dvd (b - a)"
    by (simp add: word_of_nat_eq_0_iff)
  then show "a = b"
    using assms dvd_imp_le [of "2 ^ 64" "b - a"] by auto
qed simp

lemma unat_of_nat_diff_u64:
  assumes "a \<le> b" and "b - a < 2 ^ 64"
  shows "unat (of_nat b - of_nat a :: u64) = b - a"
proof -
  have "(of_nat b - of_nat a :: u64) = of_nat (b - a)"
    using assms(1) by (simp add: of_nat_diff)
  then show ?thesis
    using assms(2) by (simp add: unat_of_nat)
qed

section \<open>Array scans\<close>

text \<open>
  The loop \<^verbatim>\<open>for (i = 0; i < n; ++i) if (p(a[i])) return i;\<close> over the
  first \<open>n\<close> elements of an array, with \<^const>\<open>None\<close> for falling out of the loop.
\<close>

primrec first_index :: "('a \<Rightarrow> bool) \<Rightarrow> 'a list \<Rightarrow> nat option" where
  "first_index p [] = None"
| "first_index p (x # xs) = (if p x then Some 0 else map_option Suc (first_index p xs))"

lemma first_index_None_iff: "first_index p xs = None \<longleftrightarrow> (\<forall>x \<in> set xs. \<not> p x)"
  by (induction xs) auto

lemma first_index_SomeD:
  assumes "first_index p xs = Some i"
  shows "i < length xs" and "p (xs ! i)" and "\<And>j. j < i \<Longrightarrow> \<not> p (xs ! j)"
proof -
  have "i < length xs \<and> p (xs ! i) \<and> (\<forall>j < i. \<not> p (xs ! j))"
    using assms
  proof (induction xs arbitrary: i)
    case (Cons x xs)
    show ?case
    proof (cases "p x")
      case False
      with Cons.prems obtain k where k: "first_index p xs = Some k" and i: "i = Suc k"
        by auto
      from Cons.IH [OF k] False i show ?thesis
        by (auto simp: less_Suc_eq_0_disj)
    qed (use Cons.prems in auto)
  qed simp
  then show "i < length xs" and "p (xs ! i)" and "\<And>j. j < i \<Longrightarrow> \<not> p (xs ! j)"
    by auto
qed

lemma first_indexI:
  assumes "i < length xs" and "p (xs ! i)" and "\<And>j. j < i \<Longrightarrow> \<not> p (xs ! j)"
  shows "first_index p xs = Some i"
proof (cases "first_index p xs")
  case None
  with assms(1,2) show ?thesis by (auto simp: first_index_None_iff)
next
  case (Some k)
  have "k = i"
    using first_index_SomeD [OF Some] assms by (metis linorder_neqE_nat)
  with Some show ?thesis by simp
qed

lemma add_Suc_fun: "(+) (Suc i) = (\<lambda>j. Suc (i + j))"
  by (simp add: fun_eq_iff)

section \<open>Array updates\<close>

lemma nth_list_update_if: "xs[i := y] ! j = (if i = j \<and> i < length xs then y else xs ! j)"
  by (cases "i < length xs") (auto simp: nth_list_update list_update_beyond)

section \<open>Counting array elements\<close>

definition count_if :: "('a \<Rightarrow> bool) \<Rightarrow> 'a list \<Rightarrow> nat" where
  "count_if p xs = length (filter p xs)"

lemma count_if_simps [simp]:
  "count_if p [] = 0"
  "count_if p (x # xs) = (if p x then Suc (count_if p xs) else count_if p xs)"
  by (simp_all add: count_if_def)

lemma count_if_le: "count_if p xs \<le> length xs"
  by (simp add: count_if_def)

lemma count_if_update:
  assumes "i < length xs"
  shows "count_if p (xs[i := y]) + (if p (xs ! i) then 1 else 0)
       = count_if p xs + (if p y then 1 else 0)"
  using assms
proof (induction xs arbitrary: i)
  case (Cons x xs)
  then show ?case by (cases i) auto
qed simp

lemma count_if_update_same:
  assumes "p y = p (xs ! i)"
  shows "count_if p (xs[i := y]) = count_if p xs"
proof (cases "i < length xs")
  case True
  then show ?thesis
    using count_if_update [OF True, of p y] assms by (simp split: if_splits)
qed (simp add: list_update_beyond)

lemma count_if_pos:
  assumes "i < length xs" and "p (xs ! i)"
  shows "0 < count_if p xs"
  using assms by (auto simp: count_if_def filter_empty_conv intro: nth_mem)

lemma count_if_replicate: "count_if p (replicate n x) = (if p x then n else 0)"
  by (induction n) auto

end
