(* ===== verification/Monitor_Event.thy ===== *)
theory Monitor_Event
  imports Monitor_Prelude
begin

text \<open>
  \<^verbatim>\<open>include/monitor_event.h\<close>: the event types and the fixed-size event
  structure that travels from the application threads to the verifier.
\<close>

section \<open>Event types\<close>

datatype monitor_event_type =
    MONITOR_EVENT_INVALID
  | MONITOR_EVENT_LOCK_REQUEST
  | MONITOR_EVENT_LOCK_ACQUIRED
  | MONITOR_EVENT_LOCK_FAILED
  | MONITOR_EVENT_UNLOCK_REQUEST
  | MONITOR_EVENT_UNLOCKED
  | MONITOR_EVENT_UNLOCK_FAILED
  | MONITOR_EVENT_THREAD_START
  | MONITOR_EVENT_THREAD_EXIT

text \<open>The enumerators' values: 0 for the first one, then one more each.\<close>

fun event_code :: "monitor_event_type \<Rightarrow> u32" where
  "event_code MONITOR_EVENT_INVALID = 0"
| "event_code MONITOR_EVENT_LOCK_REQUEST = 1"
| "event_code MONITOR_EVENT_LOCK_ACQUIRED = 2"
| "event_code MONITOR_EVENT_LOCK_FAILED = 3"
| "event_code MONITOR_EVENT_UNLOCK_REQUEST = 4"
| "event_code MONITOR_EVENT_UNLOCKED = 5"
| "event_code MONITOR_EVENT_UNLOCK_FAILED = 6"
| "event_code MONITOR_EVENT_THREAD_START = 7"
| "event_code MONITOR_EVENT_THREAD_EXIT = 8"

lemma event_code_inject: "event_code a = event_code b \<longleftrightarrow> a = b"
  by (cases a; cases b) simp_all

text \<open>C compares enumerators by value; the model's type carries the same order.\<close>

instantiation monitor_event_type :: linorder
begin

definition less_eq_monitor_event_type :: "monitor_event_type \<Rightarrow> monitor_event_type \<Rightarrow> bool" where
  "less_eq_monitor_event_type a b \<longleftrightarrow> event_code a \<le> event_code b"

definition less_monitor_event_type :: "monitor_event_type \<Rightarrow> monitor_event_type \<Rightarrow> bool" where
  "less_monitor_event_type a b \<longleftrightarrow> event_code a < event_code b"

instance
  by standard
    (auto simp: less_eq_monitor_event_type_def less_monitor_event_type_def
      simp flip: event_code_inject)

end

section \<open>The event structure\<close>

record monitor_event =
  ev_sequence_id :: u64
  ev_timestamp_ns :: u64
  ev_thread_id :: u64
  ev_object_address :: uintptr
  ev_event_type :: u32
  ev_result :: i32
  ev_flags :: u32
  ev_thread_sequence :: u32

definition zero_event :: monitor_event where
  [zero_defs]: "zero_event =
     \<lparr>ev_sequence_id = 0, ev_timestamp_ns = 0, ev_thread_id = 0, ev_object_address = 0,
      ev_event_type = 0, ev_result = 0, ev_flags = 0, ev_thread_sequence = 0\<rparr>"

end
