(* ===== verification/Fifo_Spec.thy ===== *)
theory Fifo_Spec
  imports Main
begin

text \<open>
  What the transport layer relies on in its queues: the contract of a bounded
  first-in/first-out queue that refuses an element when it is full, and what follows
  from the contract for whole sequences of calls.  \<open>Ring_Buffer\<close> interprets it.
\<close>

section \<open>Call sequences\<close>

datatype 'a fifo_call = Push 'a | Pop

text \<open>
  A sequence of calls on a queue: the elements whose push was accepted, the elements
  popped, both in order, and the queue at the end.
\<close>

primrec fifo_run ::
    "('q \<Rightarrow> 'a \<Rightarrow> bool \<times> 'q) \<Rightarrow> ('q \<Rightarrow> 'a option \<times> 'q) \<Rightarrow> 'a fifo_call list \<Rightarrow> 'q \<Rightarrow>
     'a list \<times> 'a list \<times> 'q" where
  "fifo_run push pop [] q = ([], [], q)"
| "fifo_run push pop (c # cs) q =
     (case c of
        Push x \<Rightarrow>
          (case push q x of (ok, q') \<Rightarrow>
             (case fifo_run push pop cs q' of (ins, outs, r) \<Rightarrow>
                (if ok then x # ins else ins, outs, r)))
      | Pop \<Rightarrow>
          (case pop q of (res, q') \<Rightarrow>
             (case fifo_run push pop cs q' of (ins, outs, r) \<Rightarrow>
                (ins, (case res of None \<Rightarrow> outs | Some x \<Rightarrow> x # outs), r))))"

section \<open>The contract\<close>

locale bounded_fifo =
  fixes try_push :: "'q \<Rightarrow> 'a \<Rightarrow> bool \<times> 'q"
    and try_pop :: "'q \<Rightarrow> 'a option \<times> 'q"
    and inv :: "'q \<Rightarrow> bool"
    and contents :: "'q \<Rightarrow> 'a list"
    and cap :: nat
  assumes capacity: "inv q \<Longrightarrow> length (contents q) \<le> cap"
    and push_full: "inv q \<Longrightarrow> length (contents q) = cap \<Longrightarrow> try_push q x = (False, q)"
    and push_room: "inv q \<Longrightarrow> length (contents q) < cap \<Longrightarrow>
      \<exists>q'. try_push q x = (True, q') \<and> inv q' \<and> contents q' = contents q @ [x]"
    and pop_empty: "inv q \<Longrightarrow> contents q = [] \<Longrightarrow> try_pop q = (None, q)"
    and pop_first: "inv q \<Longrightarrow> contents q = y # ys \<Longrightarrow>
      \<exists>q'. try_pop q = (Some y, q') \<and> inv q' \<and> contents q' = ys"
begin

lemma push_cases:
  assumes "inv q"
  obtains (full) "length (contents q) = cap" and "try_push q x = (False, q)"
  | (room) q' where "length (contents q) < cap" and "try_push q x = (True, q')"
      and "inv q'" and "contents q' = contents q @ [x]"
proof (cases "length (contents q) < cap")
  case True
  with push_room [OF assms this, of x] room show thesis by blast
next
  case False
  then have "length (contents q) = cap"
    using capacity [OF assms] by simp
  with push_full [OF assms this, of x] full show thesis by blast
qed

lemma pop_cases:
  assumes "inv q"
  obtains (empty) "contents q = []" and "try_pop q = (None, q)"
  | (first) y q' where "contents q = y # contents q'" and "try_pop q = (Some y, q')"
      and "inv q'"
proof (cases "contents q")
  case Nil
  with pop_empty [OF assms this] empty show thesis by blast
next
  case (Cons y ys)
  from pop_first [OF assms this] obtain q' where
    "try_pop q = (Some y, q')" "inv q'" "contents q' = ys" by blast
  with Cons first show thesis by metis
qed

lemma push_inv: "inv q \<Longrightarrow> inv (snd (try_push q x))"
  using push_cases [of q x] by (metis snd_conv)

lemma pop_inv: "inv q \<Longrightarrow> inv (snd (try_pop q))"
  using pop_cases [of q] by (metis snd_conv)

lemma push_contents:
  "inv q \<Longrightarrow> contents (snd (try_push q x))
     = (if fst (try_push q x) then contents q @ [x] else contents q)"
  by (erule push_cases [of q x]) simp_all

lemma run_fifo:
  assumes "inv q" and "fifo_run try_push try_pop cs q = (ins, outs, r)"
  shows "inv r \<and> contents q @ ins = outs @ contents r"
  using assms
proof (induction cs arbitrary: q ins outs)
  case (Cons c cs)
  show ?case
  proof (cases c)
    case (Push x)
    from Cons.prems(1) show ?thesis
    proof (cases rule: push_cases [where x = x])
      case full
      then show ?thesis using Push Cons by (auto split: prod.splits)
    next
      case (room q')
      obtain ins' where "fifo_run try_push try_pop cs q' = (ins', outs, r)" and "ins = x # ins'"
        using Push Cons.prems(2) room(2) by (auto split: prod.splits)
      with Cons.IH [OF room(3)] room(4) show ?thesis by auto
    qed
  next
    case Pop
    from Cons.prems(1) show ?thesis
    proof (cases rule: pop_cases)
      case empty
      then have "fifo_run try_push try_pop cs q = (ins, outs, r)"
        using Pop Cons.prems(2) by (auto split: prod.splits)
      with Cons.IH Cons.prems(1) show ?thesis by blast
    next
      case (first y q')
      obtain outs' where "fifo_run try_push try_pop cs q' = (ins, outs', r)" and "outs = y # outs'"
        using Pop Cons.prems(2) first(2) by (auto split: prod.splits)
      with Cons.IH [OF first(3)] first(1) show ?thesis by auto
    qed
  qed
qed simp

end

end
