(* ===== verification/Ring_Buffer.thy ===== *)
theory Ring_Buffer
  imports Monitor_Event Fifo_Spec
begin

text \<open>
  \<^verbatim>\<open>include/ring_buffer.h\<close> and \<^verbatim>\<open>src/ring_buffer.c\<close>: the
  single-producer/single-consumer ring buffer, one call at a time.  \<open>head\<close> and
  \<open>tail\<close> are free-running 64-bit counters that wrap around; the slot of a counter is
  its low eleven bits.  The interleaving of the two sides is in theory
  \<open>Ring_Concurrent\<close>.
\<close>

section \<open>State and operations\<close>

abbreviation SPSC_RING_CAPACITY :: nat where
  "SPSC_RING_CAPACITY \<equiv> 2048"

abbreviation SPSC_RING_MASK :: u64 where
  "SPSC_RING_MASK \<equiv> 2048 - 1"

record spsc_ring_buffer =
  rb_head :: u64
  rb_tail :: u64
  rb_slots :: "monitor_event list"

text \<open>The storage of a ring: static storage duration, so its slots start out zeroed.\<close>

definition zero_ring_buffer :: spsc_ring_buffer where
  [zero_defs]: "zero_ring_buffer =
     \<lparr>rb_head = 0, rb_tail = 0, rb_slots = replicate SPSC_RING_CAPACITY zero_event\<rparr>"

definition spsc_ring_buffer_init :: "spsc_ring_buffer \<Rightarrow> spsc_ring_buffer" where
  "spsc_ring_buffer_init buffer = buffer\<lparr>rb_head := 0, rb_tail := 0\<rparr>"

text \<open>The array index of a counter value.\<close>

definition slot_of :: "u64 \<Rightarrow> nat" where
  "slot_of c = unat (c AND SPSC_RING_MASK)"

definition spsc_ring_buffer_try_push ::
    "spsc_ring_buffer \<Rightarrow> monitor_event \<Rightarrow> bool \<times> spsc_ring_buffer" where
  "spsc_ring_buffer_try_push buffer event =
     (let head = rb_head buffer; tail = rb_tail buffer
      in if of_nat SPSC_RING_CAPACITY \<le> head - tail then (False, buffer)
         else (True, buffer\<lparr>rb_slots := (rb_slots buffer)[slot_of head := event],
                            rb_head := head + 1\<rparr>))"

text \<open>
  The consumer's call delivers the event through its out parameter and leaves that
  parameter alone when the queue is empty: \<^const>\<open>Some\<close> is the return value true
  with the event stored, \<^const>\<open>None\<close> the return value false.
\<close>

definition spsc_ring_buffer_try_pop ::
    "spsc_ring_buffer \<Rightarrow> monitor_event option \<times> spsc_ring_buffer" where
  "spsc_ring_buffer_try_pop buffer =
     (let tail = rb_tail buffer; head = rb_head buffer
      in if tail = head then (None, buffer)
         else (Some (rb_slots buffer ! slot_of tail), buffer\<lparr>rb_tail := tail + 1\<rparr>))"

section \<open>Invariant and abstraction\<close>

text \<open>
  The 64-bit difference of the counters is the fill level; the live events are the
  slots from \<open>tail\<close> up to \<open>head\<close>, oldest first.
\<close>

definition ring_inv :: "spsc_ring_buffer \<Rightarrow> bool" where
  [wf_defs]: "ring_inv b \<longleftrightarrow> length (rb_slots b) = SPSC_RING_CAPACITY \<and>
     unat (rb_head b - rb_tail b) \<le> SPSC_RING_CAPACITY"

definition ring_contents :: "spsc_ring_buffer \<Rightarrow> monitor_event list" where
  "ring_contents b =
     map (\<lambda>i. rb_slots b ! slot_of (rb_tail b + of_nat i)) [0..<unat (rb_head b - rb_tail b)]"

lemma slot_of_add: "slot_of (t + of_nat i) = (unat t + i) mod SPSC_RING_CAPACITY"
proof -
  have m: "(w :: u64) AND 2047 = take_bit 11 w" for w
    by (simp add: take_bit_eq_mask mask_eq_exp_minus_1)
  have "slot_of (t + of_nat i) = unat (t + of_nat i) mod 2048"
    by (simp add: slot_of_def m unsigned_take_bit_eq) (simp add: take_bit_eq_mod)
  also have "\<dots> = (unat t + i) mod 2 ^ 64 mod 2048"
    by (simp add: unat_word_ariths unat_of_nat mod_simps)
  also have "\<dots> = (unat t + i) mod 2048"
    by (rule mod_mod_cancel) simp
  finally show ?thesis .
qed

lemma slot_of_less [simp]: "slot_of c < SPSC_RING_CAPACITY"
  using slot_of_add [of c 0] by simp

lemma slot_of_distinct:
  assumes "i < j" and "j - i < SPSC_RING_CAPACITY"
  shows "slot_of (t + of_nat i) \<noteq> slot_of (t + of_nat j)"
proof
  assume "slot_of (t + of_nat i) = slot_of (t + of_nat j)"
  then have "(unat t + j) mod 2048 = (unat t + i) mod 2048"
    by (simp add: slot_of_add)
  then have "2048 dvd (unat t + j - (unat t + i))"
    using assms(1) by (subst (asm) mod_eq_dvd_iff_nat) auto
  then show False
    using assms by (auto dest: dvd_imp_le)
qed

lemma length_ring_contents: "length (ring_contents b) = unat (rb_head b - rb_tail b)"
  by (simp add: ring_contents_def)

lemma ring_inv_contents_le: "ring_inv b \<Longrightarrow> length (ring_contents b) \<le> SPSC_RING_CAPACITY"
  by (simp add: ring_inv_def length_ring_contents)

section \<open>The operations on the abstract queue\<close>

lemma head_eq_tail_add: "rb_head b = rb_tail b + of_nat (length (ring_contents b))"
  by (simp add: length_ring_contents)

lemma push_full_iff:
  "of_nat SPSC_RING_CAPACITY \<le> rb_head b - rb_tail b \<longleftrightarrow>
     SPSC_RING_CAPACITY \<le> length (ring_contents b)"
  by (simp add: length_ring_contents word_le_nat_alt)

lemma try_push_full:
  assumes "SPSC_RING_CAPACITY \<le> length (ring_contents b)"
  shows "spsc_ring_buffer_try_push b e = (False, b)"
  using assms push_full_iff [of b] by (simp add: spsc_ring_buffer_try_push_def)

lemma try_push_room:
  assumes inv: "ring_inv b" and room: "length (ring_contents b) < SPSC_RING_CAPACITY"
  obtains b' where "spsc_ring_buffer_try_push b e = (True, b')"
    and "ring_inv b'" and "ring_contents b' = ring_contents b @ [e]"
proof -
  let ?n = "length (ring_contents b)"
  define b' where "b' = b\<lparr>rb_slots := (rb_slots b)[slot_of (rb_head b) := e],
                          rb_head := rb_head b + 1\<rparr>"
  have push: "spsc_ring_buffer_try_push b e = (True, b')"
    using room push_full_iff [of b] by (simp add: spsc_ring_buffer_try_push_def b'_def Let_def)
  have len: "unat (rb_head b' - rb_tail b') = Suc ?n"
  proof -
    have "rb_head b' - rb_tail b' = of_nat (Suc ?n)"
      by (simp add: b'_def length_ring_contents)
    then show ?thesis using room by (simp only: unat_of_nat) simp
  qed
  have inv': "ring_inv b'"
    using inv room len by (simp add: ring_inv_def b'_def)
  have elems: "rb_slots b' ! slot_of (rb_tail b + of_nat i) = (ring_contents b @ [e]) ! i"
    if "i < Suc ?n" for i
  proof (cases "i = ?n")
    case True
    then have "slot_of (rb_tail b + of_nat i) = slot_of (rb_head b)"
      by (simp add: length_ring_contents)
    then show ?thesis
      using inv True by (simp add: b'_def ring_inv_def nth_append)
  next
    case False
    then have less: "i < ?n" using that by simp
    then have "slot_of (rb_tail b + of_nat i) \<noteq> slot_of (rb_head b)"
      using slot_of_distinct [of i ?n "rb_tail b"] room by (simp add: length_ring_contents)
    then show ?thesis
      using less by (simp add: b'_def nth_append ring_contents_def)
  qed
  have "ring_contents b' = map ((!) (ring_contents b @ [e])) [0..<Suc ?n]"
    unfolding ring_contents_def [of b'] len
    by (rule map_cong) (simp_all add: elems [symmetric] del: upt_Suc, simp add: b'_def)
  then have "ring_contents b' = ring_contents b @ [e]"
    using map_nth [of "ring_contents b @ [e]"] by simp
  with push inv' that show thesis by blast
qed

lemma try_pop_empty: "ring_contents b = [] \<Longrightarrow> spsc_ring_buffer_try_pop b = (None, b)"
  by (simp add: ring_contents_def spsc_ring_buffer_try_pop_def Let_def unat_eq_0)

lemma try_pop_first:
  assumes inv: "ring_inv b" and ne: "ring_contents b = y # ys"
  obtains b' where "spsc_ring_buffer_try_pop b = (Some y, b')"
    and "ring_inv b'" and "ring_contents b' = ys"
proof -
  define b' where "b' = b\<lparr>rb_tail := rb_tail b + 1\<rparr>"
  have pos: "rb_head b - rb_tail b \<noteq> 0"
    using ne by (auto simp: ring_contents_def)
  have len: "unat (rb_head b - rb_tail b) = Suc (length ys)"
    using ne length_ring_contents [of b] by simp
  have len': "unat (rb_head b' - rb_tail b') = length ys"
    using unat_pred [OF pos] len by (simp add: b'_def algebra_simps)
  have split: "ring_contents b = rb_slots b ! slot_of (rb_tail b) #
      map (\<lambda>i. rb_slots b ! slot_of (rb_tail b + of_nat (Suc i))) [0..<length ys]"
    by (simp only: ring_contents_def len upt_conv_Cons [OF zero_less_Suc] map_Suc_upt [symmetric])
      simp
  have "spsc_ring_buffer_try_pop b = (Some y, b')"
    using ne split pos by (auto simp: spsc_ring_buffer_try_pop_def b'_def Let_def)
  moreover have "ring_inv b'"
    using inv len len' by (simp add: ring_inv_def b'_def)
  moreover have "ring_contents b' = ys"
    using ne split by (simp add: ring_contents_def len') (simp add: b'_def algebra_simps)
  ultimately show thesis by (rule that)
qed

lemma init_ring:
  assumes "length (rb_slots b) = SPSC_RING_CAPACITY"
  shows "ring_inv (spsc_ring_buffer_init b)" and "ring_contents (spsc_ring_buffer_init b) = []"
  using assms by (simp_all add: spsc_ring_buffer_init_def ring_inv_def ring_contents_def)

lemma zero_ring [simp]: "ring_inv zero_ring_buffer" "ring_contents zero_ring_buffer = []"
  by (simp_all add: zero_ring_buffer_def ring_inv_def ring_contents_def)

section \<open>The ring buffer provides the queue contract\<close>

interpretation ring: bounded_fifo
  spsc_ring_buffer_try_push spsc_ring_buffer_try_pop ring_inv ring_contents SPSC_RING_CAPACITY
proof unfold_locales
  fix q x
  assume "ring_inv q" and "length (ring_contents q) < SPSC_RING_CAPACITY"
  then show "\<exists>q'. spsc_ring_buffer_try_push q x = (True, q') \<and> ring_inv q' \<and>
      ring_contents q' = ring_contents q @ [x]"
    by (metis try_push_room)
next
  fix q y ys
  assume "ring_inv q" and "ring_contents q = y # ys"
  then show "\<exists>q'. spsc_ring_buffer_try_pop q = (Some y, q') \<and> ring_inv q' \<and>
      ring_contents q' = ys"
    by (metis try_pop_first)
qed (simp_all add: ring_inv_contents_le try_push_full try_pop_empty)

section \<open>Properties\<close>

text \<open>
  (C24) One \<open>try_push\<close> on any well-formed ring, wherever its 64-bit counters are (also
  across their wrap-around): it succeeds exactly when fewer than 2048 events are stored,
  then appends the event behind the others; a full queue is left exactly as it was
  (DROP\_NEW).
\<close>

theorem try_push_spec:
  assumes "ring_inv b" and "spsc_ring_buffer_try_push b e = (ok, b')"
  shows "ring_inv b' \<and> (ok \<longleftrightarrow> length (ring_contents b) < SPSC_RING_CAPACITY) \<and>
    (if ok then ring_contents b' = ring_contents b @ [e] else b' = b)"
  using assms(1) by (cases rule: ring.push_cases [where x = e]) (use assms in auto)

text \<open>
  (C36) One \<open>try_pop\<close> on any well-formed ring: it fails exactly when no event is stored,
  and otherwise delivers and removes the oldest event and nothing else.
\<close>

theorem try_pop_spec:
  assumes "ring_inv b" and "spsc_ring_buffer_try_pop b = (res, b')"
  shows "ring_inv b' \<and>
    (case res of None \<Rightarrow> ring_contents b = [] \<and> b' = b
               | Some e \<Rightarrow> ring_contents b = e # ring_contents b')"
  using assms(1) by (cases rule: ring.pop_cases) (use assms in auto)

text \<open>
  Any sequence of pushes and pops on an initialised ring: the accepted events are the
  popped events followed by those still stored, in the same order.
\<close>

theorem ring_calls_fifo:
  assumes "length (rb_slots b) = SPSC_RING_CAPACITY"
    and "fifo_run spsc_ring_buffer_try_push spsc_ring_buffer_try_pop cs
           (spsc_ring_buffer_init b) = (accepted, popped, b')"
  shows "accepted = popped @ ring_contents b' \<and>
    length (ring_contents b') \<le> SPSC_RING_CAPACITY"
  using ring.run_fifo [OF init_ring(1) [OF assms(1)] assms(2)] init_ring(2) [OF assms(1)]
    ring_inv_contents_le by simp

text \<open>
  The ring of the witnesses: one stored event, with the producer's counter just past its
  wrap-around and the consumer's counter just before it.
\<close>

definition wrapped_ring :: spsc_ring_buffer where
  "wrapped_ring = zero_ring_buffer\<lparr>rb_head := 0, rb_tail := -1\<rparr>"

lemma wrapped_ring: "ring_inv wrapped_ring" "ring_contents wrapped_ring = [zero_event]"
  by (simp_all add: wrapped_ring_def zero_ring_buffer_def ring_inv_def ring_contents_def)

theorem try_push_spec_witness:
  "ring_inv wrapped_ring \<and> fst (spsc_ring_buffer_try_push wrapped_ring zero_event)"
  using try_push_spec [OF wrapped_ring(1), of zero_event] wrapped_ring
  by (cases "spsc_ring_buffer_try_push wrapped_ring zero_event") auto

theorem try_pop_spec_witness:
  "ring_inv wrapped_ring \<and> fst (spsc_ring_buffer_try_pop wrapped_ring) = Some zero_event"
proof (cases "spsc_ring_buffer_try_pop wrapped_ring")
  case (Pair res b')
  show ?thesis
    using try_pop_spec [OF wrapped_ring(1) Pair] wrapped_ring Pair by (auto split: option.splits)
qed

theorem ring_calls_fifo_witness:
  "length (rb_slots zero_ring_buffer) = SPSC_RING_CAPACITY \<and>
   fst (snd (fifo_run spsc_ring_buffer_try_push spsc_ring_buffer_try_pop
     [Push zero_event, Pop, Pop] (spsc_ring_buffer_init zero_ring_buffer))) = [zero_event]"
proof -
  let ?run = "fifo_run spsc_ring_buffer_try_push spsc_ring_buffer_try_pop
     [Push zero_event, Pop, Pop] (spsc_ring_buffer_init zero_ring_buffer)"
  have len: "length (rb_slots zero_ring_buffer) = SPSC_RING_CAPACITY"
    by (simp add: zero_ring_buffer_def)
  obtain ins outs b' where run: "?run = (ins, outs, b')" by (metis prod_cases3)
  then have "ins = [zero_event]" and "rb_head b' = rb_tail b'"
    by (auto simp: spsc_ring_buffer_try_push_def spsc_ring_buffer_try_pop_def
        spsc_ring_buffer_init_def zero_ring_buffer_def Let_def)
  then show ?thesis
    using ring_calls_fifo [OF len run] run len by (simp add: ring_contents_def)
qed

end
