(* ===== verification/Ring_Concurrent.thy ===== *)
theory Ring_Concurrent
  imports Ring_Buffer
begin

text \<open>
  The ring buffer under concurrency: every atomic access of
  \<open>spsc_ring_buffer_try_push\<close> and \<open>spsc_ring_buffer_try_pop\<close> is a step of
  its own, and the steps of the one producer and the one consumer interleave freely.

  Memory model.  \<open>head\<close> is written by the producer only and \<open>tail\<close> by the
  consumer only, so each has a single modification order, and a side reads its own
  counter exactly.  The acquire load of the other side's counter may be stale: it
  returns any value of the modification order that is not older than the value the
  same side saw last (read-read coherence).  The slots are plain memory; that they
  may be read and written as in an interleaving is justified by
  \<open>slot_access_exclusive\<close>: a write and a read of the same slot are never enabled
  together.
\<close>

section \<open>System state\<close>

datatype producer_pc =
    P_Idle                              \<comment> \<open>outside \<open>try_push\<close>\<close>
  | P_Head monitor_event u64            \<comment> \<open>own \<open>head\<close> loaded\<close>
  | P_Tail monitor_event u64 u64        \<comment> \<open>\<open>tail\<close> loaded too\<close>
  | P_Slot monitor_event u64            \<comment> \<open>slot filled, \<open>head\<close> not yet published\<close>

datatype consumer_pc =
    C_Idle
  | C_Tail u64                          \<comment> \<open>own \<open>tail\<close> loaded\<close>
  | C_Head u64 u64                      \<comment> \<open>\<open>head\<close> loaded too\<close>
  | C_Slot u64 monitor_event            \<comment> \<open>event copied out, \<open>tail\<close> not yet published\<close>

text \<open>
  \<open>published\<close> and \<open>delivered\<close> record the events whose \<open>head\<close> and
  \<open>tail\<close> stores have happened; their lengths are the positions in the two
  modification orders.  \<open>prod_seen\<close> and \<open>cons_seen\<close> are the positions each
  side observed last in the other's order.
\<close>

record spsc_system =
  sys_ring :: spsc_ring_buffer
  prod_pc :: producer_pc
  cons_pc :: consumer_pc
  published :: "monitor_event list"
  delivered :: "monitor_event list"
  prod_seen :: nat
  cons_seen :: nat

definition spsc_start :: "spsc_ring_buffer \<Rightarrow> spsc_system" where
  "spsc_start b =
     \<lparr>sys_ring = spsc_ring_buffer_init b, prod_pc = P_Idle, cons_pc = C_Idle,
      published = [], delivered = [], prod_seen = 0, cons_seen = 0\<rparr>"

text \<open>The own steps a producer still has to take before its call returns, at most.\<close>

fun producer_left :: "producer_pc \<Rightarrow> nat" where
  "producer_left P_Idle = 0"
| "producer_left (P_Head e h) = 3"
| "producer_left (P_Tail e h t) = 2"
| "producer_left (P_Slot e h) = 1"

section \<open>Steps\<close>

inductive push_step :: "spsc_system \<Rightarrow> spsc_system \<Rightarrow> bool" where
  push_load_head: "prod_pc s = P_Idle \<Longrightarrow>
     push_step s (s\<lparr>prod_pc := P_Head e (rb_head (sys_ring s))\<rparr>)"
| push_load_tail: "prod_pc s = P_Head e h \<Longrightarrow> prod_seen s \<le> k \<Longrightarrow> k \<le> length (delivered s) \<Longrightarrow>
     push_step s (s\<lparr>prod_pc := P_Tail e h (of_nat k), prod_seen := k\<rparr>)"
| push_refused: "prod_pc s = P_Tail e h t \<Longrightarrow> of_nat SPSC_RING_CAPACITY \<le> h - t \<Longrightarrow>
     push_step s (s\<lparr>prod_pc := P_Idle\<rparr>)"
| push_write: "prod_pc s = P_Tail e h t \<Longrightarrow> \<not> of_nat SPSC_RING_CAPACITY \<le> h - t \<Longrightarrow>
     push_step s (s\<lparr>prod_pc := P_Slot e h,
       sys_ring := (sys_ring s)\<lparr>rb_slots := (rb_slots (sys_ring s))[slot_of h := e]\<rparr>\<rparr>)"
| push_publish: "prod_pc s = P_Slot e h \<Longrightarrow>
     push_step s (s\<lparr>prod_pc := P_Idle, sys_ring := (sys_ring s)\<lparr>rb_head := h + 1\<rparr>,
       published := published s @ [e]\<rparr>)"

inductive pop_step :: "spsc_system \<Rightarrow> spsc_system \<Rightarrow> bool" where
  pop_load_tail: "cons_pc s = C_Idle \<Longrightarrow>
     pop_step s (s\<lparr>cons_pc := C_Tail (rb_tail (sys_ring s))\<rparr>)"
| pop_load_head: "cons_pc s = C_Tail t \<Longrightarrow> cons_seen s \<le> k \<Longrightarrow> k \<le> length (published s) \<Longrightarrow>
     pop_step s (s\<lparr>cons_pc := C_Head t (of_nat k), cons_seen := k\<rparr>)"
| pop_nothing: "cons_pc s = C_Head t h \<Longrightarrow> t = h \<Longrightarrow>
     pop_step s (s\<lparr>cons_pc := C_Idle\<rparr>)"
| pop_read: "cons_pc s = C_Head t h \<Longrightarrow> t \<noteq> h \<Longrightarrow>
     pop_step s (s\<lparr>cons_pc := C_Slot t (rb_slots (sys_ring s) ! slot_of t)\<rparr>)"
| pop_release: "cons_pc s = C_Slot t e \<Longrightarrow>
     pop_step s (s\<lparr>cons_pc := C_Idle, sys_ring := (sys_ring s)\<lparr>rb_tail := t + 1\<rparr>,
       delivered := delivered s @ [e]\<rparr>)"

inductive spsc_reachable :: "spsc_ring_buffer \<Rightarrow> spsc_system \<Rightarrow> bool" for b where
  start: "spsc_reachable b (spsc_start b)"
| producer: "spsc_reachable b s \<Longrightarrow> push_step s s' \<Longrightarrow> spsc_reachable b s'"
| consumer: "spsc_reachable b s \<Longrightarrow> pop_step s s' \<Longrightarrow> spsc_reachable b s'"

section \<open>The invariant\<close>

definition counters_inv :: "spsc_system \<Rightarrow> bool" where
  [wf_defs]: "counters_inv s \<longleftrightarrow>
     length (rb_slots (sys_ring s)) = SPSC_RING_CAPACITY \<and>
     rb_head (sys_ring s) = of_nat (length (published s)) \<and>
     rb_tail (sys_ring s) = of_nat (length (delivered s)) \<and>
     prod_seen s \<le> length (delivered s) \<and>
     length (published s) \<le> prod_seen s + SPSC_RING_CAPACITY \<and>
     length (delivered s) \<le> cons_seen s \<and>
     cons_seen s \<le> length (published s)"

definition slots_inv :: "spsc_system \<Rightarrow> bool" where
  [wf_defs]: "slots_inv s \<longleftrightarrow>
     delivered s = take (length (delivered s)) (published s) \<and>
     (\<forall>j. length (delivered s) \<le> j \<longrightarrow> j < length (published s) \<longrightarrow>
        rb_slots (sys_ring s) ! slot_of (of_nat j) = published s ! j)"

definition producer_inv :: "spsc_system \<Rightarrow> bool" where
  [wf_defs]: "producer_inv s \<longleftrightarrow>
     (case prod_pc s of
        P_Idle \<Rightarrow> True
      | P_Head e h \<Rightarrow> h = rb_head (sys_ring s)
      | P_Tail e h t \<Rightarrow> h = rb_head (sys_ring s) \<and> t = of_nat (prod_seen s)
      | P_Slot e h \<Rightarrow> h = rb_head (sys_ring s) \<and> rb_slots (sys_ring s) ! slot_of h = e \<and>
          length (published s) < prod_seen s + SPSC_RING_CAPACITY)"

definition consumer_inv :: "spsc_system \<Rightarrow> bool" where
  [wf_defs]: "consumer_inv s \<longleftrightarrow>
     (case cons_pc s of
        C_Idle \<Rightarrow> True
      | C_Tail t \<Rightarrow> t = rb_tail (sys_ring s)
      | C_Head t h \<Rightarrow> t = rb_tail (sys_ring s) \<and> h = of_nat (cons_seen s)
      | C_Slot t e \<Rightarrow> t = rb_tail (sys_ring s) \<and> length (delivered s) < cons_seen s \<and>
          e = published s ! length (delivered s))"

definition spsc_inv :: "spsc_system \<Rightarrow> bool" where
  [wf_defs]: "spsc_inv s \<longleftrightarrow> counters_inv s \<and> slots_inv s \<and> producer_inv s \<and> consumer_inv s"

lemma spsc_inv_start:
  "length (rb_slots b) = SPSC_RING_CAPACITY \<Longrightarrow> spsc_inv (spsc_start b)"
  by (simp add: wf_defs spsc_start_def spsc_ring_buffer_init_def)

text \<open>A slot that the producer may fill is no slot of a live event.\<close>

lemma slot_of_nat_distinct:
  assumes "i < j" and "j - i < SPSC_RING_CAPACITY"
  shows "slot_of (of_nat i) \<noteq> slot_of (of_nat j)"
  using slot_of_distinct [of i j 0] assms by simp

lemma producer_room:
  assumes "counters_inv s" and "h = rb_head (sys_ring s)" and "t = of_nat (prod_seen s)"
    and "\<not> of_nat SPSC_RING_CAPACITY \<le> h - t"
  shows "length (published s) < prod_seen s + SPSC_RING_CAPACITY"
proof (rule ccontr)
  assume "\<not> ?thesis"
  then have "length (published s) - prod_seen s = SPSC_RING_CAPACITY"
    and le: "prod_seen s \<le> length (published s)"
    using assms(1) by (auto simp: counters_inv_def)
  then have "unat (h - t) = SPSC_RING_CAPACITY"
    using assms(1-3) unat_of_nat_diff_u64 [OF le] by (simp add: counters_inv_def)
  with assms(4) show False by (simp add: word_le_nat_alt)
qed

lemma free_slot_not_live:
  assumes "counters_inv s" and "length (published s) < prod_seen s + SPSC_RING_CAPACITY"
    and "length (delivered s) \<le> j" and "j < length (published s)"
  shows "slot_of (rb_head (sys_ring s)) \<noteq> slot_of (of_nat j)"
proof -
  have "length (published s) - j < SPSC_RING_CAPACITY"
    using assms unfolding counters_inv_def by linarith
  with assms(1,4) slot_of_nat_distinct [of j "length (published s)"] show ?thesis
    by (simp add: counters_inv_def)
qed

lemma consumer_has_event:
  assumes "counters_inv s" and "t = rb_tail (sys_ring s)" and "h = of_nat (cons_seen s)"
    and "t \<noteq> h"
  shows "length (delivered s) < cons_seen s"
  using assms by (cases "length (delivered s) = cons_seen s") (auto simp: counters_inv_def)

lemma push_step_inv:
  assumes "push_step s s'" and "spsc_inv s"
  shows "spsc_inv s'"
  using assms
proof (induction rule: push_step.induct)
  case (push_write s e h t)
  from push_write have room: "length (published s) < prod_seen s + SPSC_RING_CAPACITY"
    by (intro producer_room [of s h t]) (auto simp: spsc_inv_def producer_inv_def)
  have "slot_of h \<noteq> slot_of (of_nat j)"
    if "length (delivered s) \<le> j" and "j < length (published s)" for j
    using free_slot_not_live [OF _ room that] push_write
    by (simp add: spsc_inv_def producer_inv_def)
  then show ?case
    using push_write room
    by (auto simp: spsc_inv_def producer_inv_def counters_inv_def slots_inv_def consumer_inv_def
        split: consumer_pc.splits)
next
  case (push_publish s e h)
  then show ?case
    by (auto simp: spsc_inv_def producer_inv_def counters_inv_def slots_inv_def consumer_inv_def
        nth_append less_Suc_eq split: consumer_pc.splits)
qed (auto simp: wf_defs split: consumer_pc.splits)

lemma pop_step_inv:
  assumes "pop_step s s'" and "spsc_inv s"
  shows "spsc_inv s'"
  using assms
proof (induction rule: pop_step.induct)
  case (pop_read s t h)
  from pop_read have "length (delivered s) < cons_seen s"
    by (intro consumer_has_event [of s t h]) (auto simp: spsc_inv_def consumer_inv_def)
  then show ?case
    using pop_read
    by (auto simp: spsc_inv_def producer_inv_def counters_inv_def slots_inv_def consumer_inv_def
        split: producer_pc.splits)
next
  case (pop_release s t e)
  then show ?case
    by (auto simp: spsc_inv_def producer_inv_def counters_inv_def slots_inv_def consumer_inv_def
        take_Suc_conv_app_nth split: producer_pc.splits)
qed (auto simp: wf_defs split: producer_pc.splits)

lemma spsc_reachable_inv:
  assumes "spsc_reachable b s" and "length (rb_slots b) = SPSC_RING_CAPACITY"
  shows "spsc_inv s"
  using assms
  by (induction rule: spsc_reachable.induct) (auto intro: spsc_inv_start push_step_inv pop_step_inv)

lemma spsc_contents:
  assumes "spsc_inv s"
  shows "ring_contents (sys_ring s) = drop (length (delivered s)) (published s)"
proof -
  let ?d = "length (delivered s)" and ?p = "length (published s)"
  have inv: "counters_inv s" "slots_inv s" using assms by (auto simp: spsc_inv_def)
  have le: "?d \<le> ?p" and small: "?p - ?d < 2 ^ 64" using inv(1) by (auto simp: counters_inv_def)
  have len: "unat (rb_head (sys_ring s) - rb_tail (sys_ring s)) = ?p - ?d"
    using inv(1) unat_of_nat_diff_u64 [OF le small] by (simp add: counters_inv_def)
  show ?thesis
  proof (rule nth_equalityI)
    fix i assume "i < length (ring_contents (sys_ring s))"
    then have "i < ?p - ?d" by (simp add: length_ring_contents len)
    then have "ring_contents (sys_ring s) ! i
        = rb_slots (sys_ring s) ! slot_of (rb_tail (sys_ring s) + of_nat i)"
      by (simp add: ring_contents_def len)
    also have "rb_tail (sys_ring s) + of_nat i = of_nat (?d + i)"
      using inv(1) by (simp add: counters_inv_def)
    also have "rb_slots (sys_ring s) ! slot_of (of_nat (?d + i)) = published s ! (?d + i)"
      using inv(2) \<open>i < ?p - ?d\<close> unfolding slots_inv_def by (simp del: of_nat_add)
    finally show "ring_contents (sys_ring s) ! i = drop ?d (published s) ! i"
      using le by simp
  qed (simp add: length_ring_contents len)
qed

section \<open>Properties\<close>

text \<open>
  (C15) However the producer and the consumer interleave, and however stale their views of
  the other side are, the events delivered are exactly the oldest events published, in
  publication order and without loss, duplication or corruption; the events in between
  are what the ring holds, never more than its capacity.
\<close>

theorem spsc_delivers_in_order:
  assumes "length (rb_slots b) = SPSC_RING_CAPACITY" and "spsc_reachable b s"
  shows "published s = delivered s @ ring_contents (sys_ring s) \<and>
     length (ring_contents (sys_ring s)) \<le> SPSC_RING_CAPACITY"
proof -
  have inv: "spsc_inv s" using spsc_reachable_inv assms by blast
  then have "delivered s = take (length (delivered s)) (published s)"
    by (simp add: spsc_inv_def slots_inv_def)
  then have "published s = delivered s @ ring_contents (sys_ring s)"
    using spsc_contents [OF inv] by (metis append_take_drop_id)
  moreover have "length (ring_contents (sys_ring s)) \<le> SPSC_RING_CAPACITY"
    using inv spsc_contents [OF inv] unfolding spsc_inv_def counters_inv_def
    by (simp only: length_drop) linarith
  ultimately show ?thesis ..
qed

text \<open>
  (C16) Freedom from data races on the slots: when the producer is about to fill a slot and
  the consumer is about to copy one, the two slots are different.
\<close>

theorem slot_access_exclusive:
  assumes "length (rb_slots b) = SPSC_RING_CAPACITY" and "spsc_reachable b s"
    and "prod_pc s = P_Tail e h t" and "\<not> of_nat SPSC_RING_CAPACITY \<le> h - t"
    and "cons_pc s = C_Head t' h'" and "t' \<noteq> h'"
  shows "slot_of h \<noteq> slot_of t'"
proof -
  have inv: "spsc_inv s" using spsc_reachable_inv assms by blast
  then have c: "counters_inv s" and h: "h = rb_head (sys_ring s)" and t: "t = of_nat (prod_seen s)"
    and t': "t' = rb_tail (sys_ring s)" and h': "h' = of_nat (cons_seen s)"
    using assms(3,5) by (auto simp: spsc_inv_def producer_inv_def consumer_inv_def)
  have "length (delivered s) < length (published s)"
    using consumer_has_event [OF c t' h' assms(6)] c by (simp add: counters_inv_def)
  then show ?thesis
    using free_slot_not_live [OF c producer_room [OF c h t assms(4)] order.refl] c h t'
    by (simp add: counters_inv_def)
qed

text \<open>
  (C17) The producer never waits: once inside \<open>try_push\<close> it always has an enabled step
  whatever the consumer does, every step of its own brings it closer to returning, and
  no step of the consumer sets it back, so a call is over after at most three steps.
\<close>

theorem producer_never_waits:
  assumes "length (rb_slots b) = SPSC_RING_CAPACITY" and "spsc_reachable b s"
    and "prod_pc s \<noteq> P_Idle"
  shows "(\<exists>s'. push_step s s') \<and>
    (\<forall>s'. push_step s s' \<longrightarrow> producer_left (prod_pc s') < producer_left (prod_pc s)) \<and>
    (\<forall>s'. pop_step s s' \<longrightarrow> prod_pc s' = prod_pc s)"
proof (intro conjI allI impI)
  have inv: "prod_seen s \<le> length (delivered s)"
    using spsc_reachable_inv [OF assms(2,1)] by (simp add: spsc_inv_def counters_inv_def)
  show "\<exists>s'. push_step s s'"
  proof (cases "prod_pc s")
    case (P_Head e h)
    from push_load_tail [OF this order.refl inv] show ?thesis ..
  next
    case (P_Tail e h t)
    then show ?thesis by (cases "of_nat SPSC_RING_CAPACITY \<le> h - t") (blast intro: push_step.intros)+
  qed (use assms(3) in \<open>auto intro: push_step.intros\<close>)
next
  fix s' assume "push_step s s'"
  then show "producer_left (prod_pc s') < producer_left (prod_pc s)"
    using assms(3) by cases auto
next
  fix s' assume "pop_step s s'"
  then show "prod_pc s' = prod_pc s" by cases auto
qed

section \<open>A concrete run\<close>

text \<open>
  The producer publishes one event and starts a second push; the consumer, having seen the
  first event, is about to copy it.  The properties are exercised at this state.
\<close>

definition demo_run :: spsc_system where
  "demo_run = (let s = spsc_start zero_ring_buffer in
     s\<lparr>prod_pc := P_Tail zero_event 1 0, cons_pc := C_Head 0 1,
       sys_ring := zero_ring_buffer\<lparr>rb_slots := (rb_slots zero_ring_buffer)[0 := zero_event],
                                    rb_head := 1\<rparr>,
       published := [zero_event], cons_seen := 1\<rparr>)"

lemma length_zero_slots: "length (rb_slots zero_ring_buffer) = SPSC_RING_CAPACITY"
  by (simp add: zero_ring_buffer_def)

lemma demo_run_reachable: "spsc_reachable zero_ring_buffer demo_run"
proof -
  let ?b = zero_ring_buffer and ?e = zero_event
  note prod = spsc_reachable.producer and cons = spsc_reachable.consumer
  have s0: "spsc_reachable ?b (spsc_start ?b)" by (rule spsc_reachable.start)
  note s1 = prod [OF s0 push_load_head [of "spsc_start ?b" ?e]]
  note s2 = prod [OF s1 push_load_tail [where k = 0 and e = ?e and h = 0]]
  note s3 = prod [OF s2 push_write [where e = ?e and h = 0 and t = 0]]
  note s4 = prod [OF s3 push_publish [where e = ?e and h = 0]]
  note s5 = prod [OF s4 push_load_head [where e = ?e]]
  note s6 = prod [OF s5 push_load_tail [where k = 0 and e = ?e and h = 1]]
  note s7 = cons [OF s6 pop_load_tail]
  note s8 = cons [OF s7 pop_load_head [where k = 1 and t = 0]]
  show ?thesis
    using s8 by (simp add: demo_run_def spsc_start_def spsc_ring_buffer_init_def
        zero_ring_buffer_def slot_of_def Let_def)
qed

theorem spsc_delivers_in_order_witness:
  "length (rb_slots zero_ring_buffer) = SPSC_RING_CAPACITY \<and>
   spsc_reachable zero_ring_buffer demo_run \<and>
   published demo_run = delivered demo_run @ ring_contents (sys_ring demo_run) \<and>
   length (ring_contents (sys_ring demo_run)) \<le> SPSC_RING_CAPACITY"
  using spsc_delivers_in_order [OF length_zero_slots demo_run_reachable]
    length_zero_slots demo_run_reachable by simp

lemma demo_run_pcs: "prod_pc demo_run = P_Tail zero_event 1 0" "cons_pc demo_run = C_Head 0 1"
  by (simp_all add: demo_run_def Let_def)

theorem slot_access_exclusive_witness:
  "spsc_reachable zero_ring_buffer demo_run \<and> prod_pc demo_run = P_Tail zero_event 1 0 \<and>
   \<not> of_nat SPSC_RING_CAPACITY \<le> (1 - 0 :: u64) \<and> cons_pc demo_run = C_Head 0 1 \<and>
   slot_of 1 \<noteq> slot_of 0"
  using slot_access_exclusive [OF length_zero_slots demo_run_reachable demo_run_pcs(1) _
      demo_run_pcs(2)] demo_run_reachable by (simp add: demo_run_pcs word_le_nat_alt)

theorem producer_never_waits_witness:
  "prod_pc demo_run \<noteq> P_Idle \<and> (\<exists>s'. push_step demo_run s')"
  using producer_never_waits [OF length_zero_slots demo_run_reachable]
  by (simp add: demo_run_pcs)

end
