(* ===== verification/C_Stdio.thy ===== *)
theory C_Stdio
  imports Monitor_Prelude
begin

text \<open>
  The parts of the C library that decide what the monitor prints and reads: decimal,
  hexadecimal and pointer conversions of the \<^verbatim>\<open>printf\<close> family (glibc's
  \<^verbatim>\<open>%p\<close>), \<^verbatim>\<open>snprintf\<close> with its truncation, the idiom of
  appending line after line to a fixed buffer, \<^verbatim>\<open>write\<close> to standard error,
  and \<^verbatim>\<open>strtoull\<close> in base 10.  A C string is a \<^typ>\<open>string\<close> without its
  terminating zero byte.
\<close>

section \<open>Conversions\<close>

fun digits_base :: "nat \<Rightarrow> nat \<Rightarrow> nat list" where
  "digits_base b n = (if b < 2 \<or> n < b then [n] else digits_base b (n div b) @ [n mod b])"

declare digits_base.simps [simp del]

definition digit_char :: "nat \<Rightarrow> char" where
  "digit_char d = char_of (if d < 10 then 48 + d else 87 + d)"

text \<open>\<^verbatim>\<open>%lu\<close> and \<^verbatim>\<open>%u\<close>\<close>

definition fmt_nat :: "nat \<Rightarrow> string" where
  "fmt_nat n = map digit_char (digits_base 10 n)"

definition fmt_lu :: "u64 \<Rightarrow> string" where
  "fmt_lu w = fmt_nat (unat w)"

definition fmt_u :: "u32 \<Rightarrow> string" where
  "fmt_u w = fmt_nat (unat w)"

text \<open>\<^verbatim>\<open>%d\<close> and \<^verbatim>\<open>%ld\<close>\<close>

definition fmt_int :: "int \<Rightarrow> string" where
  "fmt_int n = (if n < 0 then ''-'' @ fmt_nat (nat (- n)) else fmt_nat (nat n))"

definition fmt_d :: "i32 \<Rightarrow> string" where
  "fmt_d w = fmt_int (sint w)"

text \<open>\<^verbatim>\<open>%p\<close>, as glibc prints it\<close>

definition fmt_p :: "uintptr \<Rightarrow> string" where
  "fmt_p w = (if w = 0 then ''(nil)'' else ''0x'' @ map digit_char (digits_base 16 (unat w)))"

definition nl :: string where
  "nl = [CHR 0x0A]"

section \<open>Fixed buffers\<close>

text \<open>
  \<^verbatim>\<open>snprintf(buffer, bufsz, ...)\<close> for a text that is already formatted: the return
  value is the length of the whole text, the buffer receives at most \<open>bufsz - 1\<close> bytes.
\<close>

definition snprintf :: "nat \<Rightarrow> string \<Rightarrow> int \<times> string" where
  "snprintf bufsz text = (int (length text), take (bufsz - 1) text)"

text \<open>
  Format into a buffer of \<open>bufsz\<close> bytes and write what the buffer holds: nothing if the
  conversion failed, at most \<open>bufsz - 1\<close> bytes otherwise.
\<close>

definition snprintf_write :: "nat \<Rightarrow> string \<Rightarrow> string list \<Rightarrow> string list" where
  "snprintf_write bufsz text out =
     (case snprintf bufsz text of (written, buffer) \<Rightarrow>
        if written \<le> 0 then out
        else let output_length = (if int bufsz \<le> written then bufsz - 1 else nat written)
             in out @ [take output_length buffer])"

text \<open>
  The line-by-line variant: the buffer is represented by the bytes before
  \<open>position\<close>.  The loop stops when the buffer is full, a conversion fails or a line
  does not fit.
\<close>

fun append_lines :: "nat \<Rightarrow> string list \<Rightarrow> string \<Rightarrow> string" where
  "append_lines bufsz [] buffer = buffer"
| "append_lines bufsz (l # ls) buffer =
     (if bufsz - 1 \<le> length buffer then buffer
      else case snprintf (bufsz - length buffer) l of (written, stored) \<Rightarrow>
        if written \<le> 0 then buffer
        else if int (bufsz - length buffer) \<le> written then buffer @ stored
        else append_lines bufsz ls (buffer @ stored))"

definition append_last :: "nat \<Rightarrow> string \<Rightarrow> string \<Rightarrow> string" where
  "append_last bufsz l buffer =
     (if length buffer < bufsz - 1
      then case snprintf (bufsz - length buffer) l of (written, stored) \<Rightarrow>
             if 0 < written then buffer @ stored else buffer
      else buffer)"

definition snprintf_write_lines ::
    "nat \<Rightarrow> string \<Rightarrow> string list \<Rightarrow> string \<Rightarrow> string list \<Rightarrow> string list" where
  "snprintf_write_lines bufsz header ls footer out =
     (case snprintf bufsz header of (written, buffer) \<Rightarrow>
        if written \<le> 0 then out
        else out @ [append_last bufsz footer (append_lines bufsz ls buffer)])"

section \<open>Parsing\<close>

definition c_isspace :: "char \<Rightarrow> bool" where
  "c_isspace c \<longleftrightarrow> c \<in> set [CHR '' '', CHR 0x09, CHR 0x0A, CHR 0x0B, CHR 0x0C, CHR 0x0D]"

definition c_isdigit :: "char \<Rightarrow> bool" where
  "c_isdigit c \<longleftrightarrow> 48 \<le> (of_char c :: nat) \<and> (of_char c :: nat) \<le> 57"

definition digits_value :: "string \<Rightarrow> nat" where
  "digits_value ds = foldl (\<lambda>acc c. 10 * acc + ((of_char c :: nat) - 48)) 0 ds"

text \<open>
  \<^verbatim>\<open>strtoull(text, &end, 10)\<close>: the value, whether \<^verbatim>\<open>errno\<close> was set,
  and how far \<^verbatim>\<open>end\<close> is from the start of the text.  White space and one sign
  are skipped; without a digit nothing is consumed; a value beyond 64 bits sets
  \<^verbatim>\<open>ERANGE\<close> and yields the maximum; a minus sign negates modulo \<open>2 ^ 64\<close>.
\<close>

definition strtoull :: "string \<Rightarrow> u64 \<times> bool \<times> nat" where
  "strtoull text =
     (let blank = takeWhile c_isspace text;
          rest = dropWhile c_isspace text;
          sign = (case rest of [] \<Rightarrow> [] | c # _ \<Rightarrow> if c = CHR ''+'' \<or> c = CHR ''-'' then [c] else []);
          ds = takeWhile c_isdigit (drop (length sign) rest);
          v = digits_value ds
      in if ds = [] then (0, False, 0)
         else if 2 ^ 64 \<le> v then (-1, True, length blank + length sign + length ds)
         else (if sign = ''-'' then - of_nat v else of_nat v, False,
               length blank + length sign + length ds))"

section \<open>Facts about the conversions\<close>

lemma digits_base_bound: "2 \<le> b \<Longrightarrow> d \<in> set (digits_base b n) \<Longrightarrow> d < b"
proof (induction b n rule: digits_base.induct)
  case (1 b n)
  then show ?case by (auto simp: digits_base.simps [of b n] split: if_splits)
qed

lemma digits_base_not_Nil [simp]: "digits_base b n \<noteq> []"
  by (subst digits_base.simps) simp

lemma length_digits_base:
  "2 \<le> b \<Longrightarrow> n < b ^ Suc k \<Longrightarrow> length (digits_base b n) \<le> Suc k"
proof (induction k arbitrary: n)
  case 0
  then show ?case by (simp add: digits_base.simps)
next
  case (Suc k)
  show ?case
  proof (cases "n < b")
    case False
    have "n div b < b ^ Suc k"
      using Suc.prems by (simp add: less_mult_imp_div_less mult.commute)
    with Suc.IH Suc.prems(1) have "length (digits_base b (n div b)) \<le> Suc k" by blast
    with False Suc.prems(1) show ?thesis by (subst digits_base.simps) simp
  qed (simp add: digits_base.simps)
qed

lemma length_fmt_lu: "length (fmt_lu w) \<le> 20"
proof -
  have "unat w < 2 ^ 64" using unsigned_less [of w] by simp
  then have "unat w < 10 ^ Suc 19" by simp
  then show ?thesis
    unfolding fmt_lu_def fmt_nat_def length_map
    using length_digits_base [of 10 "unat w" 19] by simp
qed

lemma length_fmt_u: "length (fmt_u w) \<le> 10"
proof -
  have "unat w < 2 ^ 32" using unsigned_less [of w] by simp
  then have "unat w < 10 ^ Suc 9" by simp
  then show ?thesis
    unfolding fmt_u_def fmt_nat_def length_map
    using length_digits_base [of 10 "unat w" 9] by simp
qed

lemma length_fmt_p: "length (fmt_p w) \<le> 18"
proof -
  have "unat w < 2 ^ 64" using unsigned_less [of w] by simp
  then have "unat w < 16 ^ Suc 15" by simp
  then have "length (digits_base 16 (unat w)) \<le> 16"
    using length_digits_base [of 16 "unat w" 15] by simp
  then show ?thesis by (simp add: fmt_p_def)
qed

lemma length_fmt_d: "length (fmt_d w) \<le> 11"
proof -
  have "sint w < 2 ^ 31" and "- (2 ^ 31) \<le> sint w"
    using sint_lt [of w] sint_ge [of w] by simp_all
  then have "nat (sint w) < 10 ^ Suc 9" and "nat (- sint w) < 10 ^ Suc 9" by simp_all
  then show ?thesis
    using length_digits_base [of 10 "nat (sint w)" 9] length_digits_base [of 10 "nat (- sint w)" 9]
    by (auto simp: fmt_d_def fmt_int_def fmt_nat_def)
qed

lemmas fmt_lengths = length_fmt_lu length_fmt_u length_fmt_p length_fmt_d

section \<open>Facts about the buffers\<close>

lemma snprintf_write_fits:
  assumes "text \<noteq> []" and "length text < bufsz"
  shows "snprintf_write bufsz text out = out @ [text]"
  using assms by (simp add: snprintf_write_def snprintf_def)

lemma append_lines_fits:
  assumes "\<forall>l \<in> set ls. l \<noteq> []" and "length buffer + length (concat ls) < bufsz"
  shows "append_lines bufsz ls buffer = buffer @ concat ls"
  using assms
proof (induction ls arbitrary: buffer)
  case (Cons l ls)
  have pos: "0 < length l" using Cons.prems(1) by simp
  then have room: "length buffer < bufsz - Suc 0" and fits: "length l < bufsz - length buffer"
    using Cons.prems(2) by (simp_all only: concat.simps length_append)
  have "append_lines bufsz ls (buffer @ l) = (buffer @ l) @ concat ls"
    using Cons.prems by (intro Cons.IH) auto
  with pos room fits show ?case by (auto simp: snprintf_def)
qed simp

lemma snprintf_write_lines_fits:
  assumes "header \<noteq> []" and "\<forall>l \<in> set ls. l \<noteq> []" and "footer \<noteq> []"
    and "length header + length (concat ls) + length footer < bufsz"
  shows "snprintf_write_lines bufsz header ls footer out = out @ [header @ concat ls @ footer]"
proof -
  have "append_lines bufsz ls header = header @ concat ls"
    using assms by (intro append_lines_fits) auto
  moreover have "0 < length footer" using assms(3) by simp
  then have "length header + length (concat ls) < bufsz - Suc 0"
    using assms(4) by linarith
  ultimately show ?thesis
    using assms by (simp add: snprintf_write_lines_def append_last_def snprintf_def)
qed

lemma length_concat_le: "\<forall>l \<in> set ls. length l \<le> k \<Longrightarrow> length (concat ls) \<le> k * length ls"
  by (induction ls) (auto simp: add_mono)

section \<open>Printing and parsing back\<close>

lemma of_char_digit: "d < 10 \<Longrightarrow> (of_char (digit_char d) :: nat) = 48 + d"
  by (simp add: digit_char_def)

lemma fmt_nat_digits: "c \<in> set (fmt_nat n) \<Longrightarrow> c_isdigit c"
proof -
  assume "c \<in> set (fmt_nat n)"
  then obtain d where "d \<in> set (digits_base 10 n)" and "c = digit_char d"
    by (auto simp: fmt_nat_def)
  moreover from this have "d < 10" using digits_base_bound [of 10 d n] by simp
  ultimately show "c_isdigit c" by (simp add: c_isdigit_def of_char_digit)
qed

lemma digits_value_snoc:
  "digits_value (ds @ [c]) = 10 * digits_value ds + ((of_char c :: nat) - 48)"
  by (simp add: digits_value_def)

lemma digits_value_fmt_nat: "digits_value (fmt_nat n) = n"
proof (induction n rule: less_induct)
  case (less n)
  show ?case
  proof (cases "n < 10")
    case True
    then show ?thesis
      by (simp add: fmt_nat_def digits_base.simps digits_value_def of_char_digit)
  next
    case False
    then have "fmt_nat n = fmt_nat (n div 10) @ [digit_char (n mod 10)]"
      by (simp add: fmt_nat_def digits_base.simps [of 10 n])
    moreover have "digits_value (fmt_nat (n div 10)) = n div 10"
      using False by (intro less.IH) simp
    ultimately show ?thesis
      by (simp add: digits_value_snoc of_char_digit)
  qed
qed

lemma isdigit_not_space_sign:
  "c_isdigit c \<Longrightarrow> \<not> c_isspace c \<and> c \<noteq> CHR ''+'' \<and> c \<noteq> CHR ''-''"
  by (auto simp: c_isdigit_def c_isspace_def)

lemma strtoull_digits:
  assumes "ds \<noteq> []" and "\<forall>c \<in> set ds. c_isdigit c"
  shows "strtoull ds = (if 2 ^ 64 \<le> digits_value ds then (-1, True, length ds)
                        else (of_nat (digits_value ds), False, length ds))"
proof -
  obtain c cs where ds: "ds = c # cs" using assms(1) by (cases ds) auto
  then have "\<not> c_isspace c" "c \<noteq> CHR ''+''" "c \<noteq> CHR ''-''"
    using isdigit_not_space_sign [of c] assms(2) by auto
  moreover have "takeWhile c_isdigit ds = ds"
    using assms(2) by (simp add: takeWhile_eq_all_conv)
  ultimately show ?thesis
    using ds by (simp add: strtoull_def Let_def)
qed

lemma strtoull_fmt_nat:
  assumes "n < 2 ^ 64"
  shows "strtoull (fmt_nat n) = (of_nat n, False, length (fmt_nat n))"
proof -
  have "fmt_nat n \<noteq> []" by (simp add: fmt_nat_def)
  then show ?thesis
    using strtoull_digits [of "fmt_nat n"] fmt_nat_digits assms by (simp add: digits_value_fmt_nat)
qed

end
