(* ===== verification/Slot_Table.thy ===== *)
theory Slot_Table
  imports Monitor_Prelude
begin

text \<open>
  The verifier keeps its threads and its mutexes in fixed tables: an entry is used or
  free, a used entry has a key, and a new key takes the first free entry.  This theory
  states what a search of such a table promises and proves once what follows for
  lookups after insertions and updates; \<open>Verifier_State\<close> interprets it for both
  tables.
\<close>

definition keys_distinct :: "('e \<Rightarrow> bool) \<Rightarrow> ('e \<Rightarrow> 'k) \<Rightarrow> 'e list \<Rightarrow> bool" where
  [wf_defs]: "keys_distinct used key xs \<longleftrightarrow>
     (\<forall>i < length xs. \<forall>j < length xs.
        used (xs ! i) \<longrightarrow> used (xs ! j) \<longrightarrow> key (xs ! i) = key (xs ! j) \<longrightarrow> i = j)"

lemma keys_distinctD:
  "keys_distinct used key xs \<Longrightarrow> i < length xs \<Longrightarrow> j < length xs \<Longrightarrow>
   used (xs ! i) \<Longrightarrow> used (xs ! j) \<Longrightarrow> key (xs ! i) = key (xs ! j) \<Longrightarrow> i = j"
  by (auto simp: keys_distinct_def)

lemma keys_distinct_update_same:
  assumes "keys_distinct used key xs" and "used y = used (xs ! i)" and "key y = key (xs ! i)"
  shows "keys_distinct used key (xs[i := y])"
  using assms by (auto simp: keys_distinct_def nth_list_update_if split: if_splits)

lemma keys_distinct_map_same:
  assumes "keys_distinct used key xs"
    and "\<And>x. x \<in> set xs \<Longrightarrow> used (f x) = used x \<and> key (f x) = key x"
  shows "keys_distinct used key (map f xs)"
  using assms by (auto simp: keys_distinct_def)

text \<open>The view of a table as a function on keys: what a lookup yields, with a default.\<close>

definition slot_view ::
    "('k \<Rightarrow> 'e list \<Rightarrow> nat option \<times> nat option) \<Rightarrow> ('e \<Rightarrow> 'v) \<Rightarrow> 'v \<Rightarrow> 'e list \<Rightarrow> 'k \<Rightarrow> 'v" where
  "slot_view scan f d xs k = (case fst (scan k xs) of None \<Rightarrow> d | Some i \<Rightarrow> f (xs ! i))"

text \<open>
  A search for a key reports the entry that holds the key, if any, and the first free
  entry it passed.
\<close>

locale slot_table =
  fixes scan :: "'k \<Rightarrow> 'e list \<Rightarrow> nat option \<times> nat option"
    and used :: "'e \<Rightarrow> bool"
    and key :: "'e \<Rightarrow> 'k"
  assumes scan_found: "fst (scan k xs) = Some i \<Longrightarrow>
      i < length xs \<and> used (xs ! i) \<and> key (xs ! i) = k"
    and scan_missing: "fst (scan k xs) = None \<Longrightarrow> x \<in> set xs \<Longrightarrow> used x \<Longrightarrow> key x \<noteq> k"
    and scan_free: "fst (scan k xs) = None \<Longrightarrow> snd (scan k xs) = Some i \<Longrightarrow>
      i < length xs \<and> \<not> used (xs ! i)"
    and scan_full: "fst (scan k xs) = None \<Longrightarrow> snd (scan k xs) = None \<Longrightarrow>
      x \<in> set xs \<Longrightarrow> used x"
begin

lemma scan_unique:
  assumes "keys_distinct used key xs" and "i < length xs" and "used (xs ! i)"
    and "key (xs ! i) = k"
  shows "fst (scan k xs) = Some i"
proof (cases "fst (scan k xs)")
  case None
  with assms scan_missing [OF None, of "xs ! i"] show ?thesis by simp
next
  case (Some j)
  with assms scan_found [OF Some] show ?thesis by (auto dest: keys_distinctD)
qed

lemma scan_cong:
  assumes "keys_distinct used key xs" and "keys_distinct used key ys"
    and "length ys = length xs"
    and "\<And>i. i < length xs \<Longrightarrow> (used (ys ! i) \<and> key (ys ! i) = k) = (used (xs ! i) \<and> key (xs ! i) = k)"
  shows "fst (scan k ys) = fst (scan k xs)"
proof (cases "fst (scan k xs)")
  case None
  have "fst (scan k ys) = None"
  proof (rule ccontr)
    assume "fst (scan k ys) \<noteq> None"
    then obtain i where "fst (scan k ys) = Some i" by auto
    from scan_found [OF this] assms(3,4) have "i < length xs" "used (xs ! i)" "key (xs ! i) = k"
      by auto
    with scan_missing [OF None, of "xs ! i"] show False by simp
  qed
  with None show ?thesis by simp
next
  case (Some i)
  from scan_found [OF this] assms(3,4) have "i < length ys" "used (ys ! i)" "key (ys ! i) = k"
    by auto
  with scan_unique [OF assms(2)] Some show ?thesis by simp
qed

lemma scan_update_same:
  assumes "keys_distinct used key xs" and "used y = used (xs ! i)" and "key y = key (xs ! i)"
  shows "fst (scan k (xs[i := y])) = fst (scan k xs)"
  using assms keys_distinct_update_same [OF assms]
  by (intro scan_cong) (auto simp: nth_list_update_if)

lemma keys_distinct_insert:
  assumes "keys_distinct used key xs" and "fst (scan (key e) xs) = None"
  shows "keys_distinct used key (xs[i := e])"
proof -
  have "key (xs ! j) \<noteq> key e" if "j < length xs" "used (xs ! j)" for j
    using scan_missing [OF assms(2), of "xs ! j"] that by simp
  then show ?thesis
    using assms(1)
    by (auto simp: keys_distinct_def nth_list_update_if split: if_splits; blast)
qed

lemma scan_insert:
  assumes "keys_distinct used key xs" and "fst (scan (key e) xs) = None"
    and "snd (scan (key e) xs) = Some i" and "used e"
  shows "fst (scan k (xs[i := e])) = (if k = key e then Some i else fst (scan k xs))"
proof -
  note free = scan_free [OF assms(2,3)]
  note dist = keys_distinct_insert [OF assms(1,2), of i]
  show ?thesis
  proof (cases "k = key e")
    case True
    then show ?thesis
      using scan_unique [OF dist, of i] free assms(4) by simp
  next
    case False
    then have "fst (scan k (xs[i := e])) = fst (scan k xs)"
      using free assms(1,4) by (intro scan_cong [OF _ dist]) (auto simp: nth_list_update_if)
    with False show ?thesis by simp
  qed
qed

lemma count_used_insert:
  assumes "fst (scan (key e) xs) = None" and "snd (scan (key e) xs) = Some i" and "used e"
  shows "count_if used (xs[i := e]) = Suc (count_if used xs)"
  using count_if_update [of i xs used e] scan_free [OF assms(1,2)] assms(3) by simp

lemma scan_full_count:
  assumes "fst (scan k xs) = None" and "snd (scan k xs) = None"
  shows "count_if used xs = length xs"
  using scan_full [OF assms] by (simp add: count_if_def)

lemma slot_view_found:
  assumes "keys_distinct used key xs" and "i < length xs" and "used (xs ! i)" and "key (xs ! i) = k"
  shows "slot_view scan f d xs k = f (xs ! i)"
  by (simp add: slot_view_def scan_unique [OF assms])

lemma slot_view_update:
  assumes dist: "keys_distinct used key xs" and i: "i < length xs" "used (xs ! i)" "key (xs ! i) = k"
    and y: "used y" "key y = k"
  shows "slot_view scan f d (xs[i := y]) = (slot_view scan f d xs)(k := f y)"
proof
  fix u
  have same: "fst (scan u (xs[i := y])) = fst (scan u xs)"
    using i y by (intro scan_update_same [OF dist]) simp_all
  show "slot_view scan f d (xs[i := y]) u = ((slot_view scan f d xs)(k := f y)) u"
  proof (cases "u = k")
    case True
    with same scan_unique [OF dist i(1,2), of u] i show ?thesis by (simp add: slot_view_def)
  next
    case False
    have "j \<noteq> i" if "fst (scan u xs) = Some j" for j
      using scan_found [OF that] i False by auto
    then show ?thesis
      using same False by (cases "fst (scan u xs)") (auto simp: slot_view_def nth_list_update_if)
  qed
qed

lemma slot_view_insert:
  assumes dist: "keys_distinct used key xs" and none: "fst (scan (key e) xs) = None"
    and free: "snd (scan (key e) xs) = Some i" and e: "used e" "f e = d"
  shows "slot_view scan f d (xs[i := e]) = slot_view scan f d xs"
proof
  fix u
  note slot = scan_free [OF none free]
  have "j \<noteq> i" if "fst (scan u xs) = Some j" for j
    using scan_found [OF that] slot by auto
  then show "slot_view scan f d (xs[i := e]) u = slot_view scan f d xs u"
    using scan_insert [OF dist none free e(1), of u] none slot e(2)
    by (cases "fst (scan u xs)") (auto simp: slot_view_def nth_list_update_if)
qed

lemma slot_view_map:
  assumes dist: "keys_distinct used key xs"
    and same: "\<And>x. used (g x) = used x" "\<And>x. key (g x) = key x"
    and f: "\<And>x. used x \<Longrightarrow> f (g x) = h (f x)" and d: "h d = d"
  shows "slot_view scan f d (map g xs) u = h (slot_view scan f d xs u)"
proof -
  have scan: "fst (scan u (map g xs)) = fst (scan u xs)"
    using same by (intro scan_cong [OF dist] keys_distinct_map_same [OF dist]) simp_all
  show ?thesis
  proof (cases "fst (scan u xs)")
    case (Some j)
    then show ?thesis using scan scan_found [OF Some] f by (simp add: slot_view_def)
  qed (simp add: slot_view_def scan d)
qed

end

end
