(* ===== verification/Verifier_State.thy ===== *)
theory Verifier_State
  imports Monitor_Event C_Stdio Slot_Table
begin

text \<open>
  \<^verbatim>\<open>src/monitor_verifier.c\<close>, first part: the verifier's records, tables,
  statistics and configuration, and the lookups in its tables.  The file's static
  variables are the fields of one record; a pointer into a table is the index of the
  entry; what the program hands to \<^verbatim>\<open>write(STDERR_FILENO, ...)\<close> is appended to
  \<open>stderr_writes\<close>.
\<close>

section \<open>Records\<close>

abbreviation VERIFIER_MAX_THREADS :: nat where
  "VERIFIER_MAX_THREADS \<equiv> 16"

abbreviation VERIFIER_MAX_MUTEXES :: nat where
  "VERIFIER_MAX_MUTEXES \<equiv> 128"

abbreviation VERIFIER_MAX_HELD_MUTEXES :: nat where
  "VERIFIER_MAX_HELD_MUTEXES \<equiv> 32"

abbreviation DEADLOCK_CONFIRMATIONS_REQUIRED :: u32 where
  "DEADLOCK_CONFIRMATIONS_REQUIRED \<equiv> 2"

abbreviation DEFAULT_MAX_HOLD_NS :: u64 where
  "DEFAULT_MAX_HOLD_NS \<equiv> 100000000"

record verifier_held_mutex =
  hm_address :: uintptr
  hm_first_acquired_timestamp_ns :: u64
  hm_depth :: u32

record verifier_thread_state =
  th_used :: bool
  th_exited :: bool
  th_trace_tainted :: bool
  th_sequence_initialized :: bool
  th_thread_id :: u64
  th_next_expected_sequence :: u32
  th_waiting_mutex :: uintptr
  th_waiting_sequence :: u64
  th_held_mutexes :: "verifier_held_mutex list"
  th_held_count :: u32

record verifier_mutex_state =
  mx_used :: bool
  mx_owner_known :: bool
  mx_address :: uintptr
  mx_owner_thread_id :: u64
  mx_last_state_sequence :: u64

record verifier_state =
  thread_states :: "verifier_thread_state list"
  mutex_states :: "verifier_mutex_state list"
  processed_events :: u64
  deadlock_cycle_violations :: u64
  non_owner_unlock_violations :: u64
  self_deadlock_candidates :: u64
  lock_held_at_exit_violations :: u64
  hold_time_violations :: u64
  state_overflow_events :: u64
  detected_stream_gaps :: u64
  tainted_thread_streams :: u32
  max_hold_ns :: u64
  waiting_thread_count :: u32
  candidate_cycle_mask :: u32
  candidate_cycle_confirmations :: u32
  reported_cycle_mask :: u32
  last_processed_sequence :: u64
  stderr_writes :: "string list"

section \<open>Zero-initialised objects\<close>

definition zero_held_mutex :: verifier_held_mutex where
  [zero_defs]: "zero_held_mutex =
     \<lparr>hm_address = 0, hm_first_acquired_timestamp_ns = 0, hm_depth = 0\<rparr>"

definition zero_thread :: verifier_thread_state where
  [zero_defs]: "zero_thread =
     \<lparr>th_used = False, th_exited = False, th_trace_tainted = False,
      th_sequence_initialized = False, th_thread_id = 0, th_next_expected_sequence = 0,
      th_waiting_mutex = 0, th_waiting_sequence = 0,
      th_held_mutexes = replicate VERIFIER_MAX_HELD_MUTEXES zero_held_mutex,
      th_held_count = 0\<rparr>"

definition zero_mutex :: verifier_mutex_state where
  [zero_defs]: "zero_mutex =
     \<lparr>mx_used = False, mx_owner_known = False, mx_address = 0, mx_owner_thread_id = 0,
      mx_last_state_sequence = 0\<rparr>"

section \<open>Configuration\<close>

text \<open>
  \<open>load_configuration\<close> on the value of the environment variable
  \<^verbatim>\<open>MONITOR_MAX_HOLD_NS\<close> (\<^const>\<open>None\<close> when it is not set).
\<close>

definition load_configuration :: "string option \<Rightarrow> u64" where
  "load_configuration env =
     (case env of
        None \<Rightarrow> DEFAULT_MAX_HOLD_NS
      | Some value \<Rightarrow>
          if value = [] then DEFAULT_MAX_HOLD_NS
          else case strtoull value of (parsed, errno, end_offset) \<Rightarrow>
            if errno \<or> end_offset = 0 \<or> end_offset < length value then DEFAULT_MAX_HOLD_NS
            else parsed)"

section \<open>Initialisation\<close>

text \<open>
  \<open>monitor_verifier_init\<close>: every static variable is reset; what was written to
  standard error before stays written.
\<close>

definition monitor_verifier_init :: "string option \<Rightarrow> verifier_state \<Rightarrow> verifier_state" where
  "monitor_verifier_init env s =
     \<lparr>thread_states = replicate VERIFIER_MAX_THREADS zero_thread,
      mutex_states = replicate VERIFIER_MAX_MUTEXES zero_mutex,
      processed_events = 0,
      deadlock_cycle_violations = 0,
      non_owner_unlock_violations = 0,
      self_deadlock_candidates = 0,
      lock_held_at_exit_violations = 0,
      hold_time_violations = 0,
      state_overflow_events = 0,
      detected_stream_gaps = 0,
      tainted_thread_streams = 0,
      max_hold_ns = load_configuration env,
      waiting_thread_count = 0,
      candidate_cycle_mask = 0,
      candidate_cycle_confirmations = 0,
      reported_cycle_mask = 0,
      last_processed_sequence = 0,
      stderr_writes = stderr_writes s\<rparr>"

section \<open>Lookups\<close>

text \<open>
  The search loop of \<open>find_thread\<close>: entry \<open>i\<close> is the head of the remaining table,
  \<open>free_slot\<close> the first unused entry seen so far.
\<close>

fun find_thread_loop ::
    "u64 \<Rightarrow> nat \<Rightarrow> nat option \<Rightarrow> verifier_thread_state list \<Rightarrow> nat option \<times> nat option" where
  "find_thread_loop tid i free_slot [] = (None, free_slot)"
| "find_thread_loop tid i free_slot (state # rest) =
     (if th_used state then
        (if th_thread_id state = tid then (Some i, free_slot)
         else find_thread_loop tid (Suc i) free_slot rest)
      else find_thread_loop tid (Suc i) (if free_slot = None then Some i else free_slot) rest)"

definition find_thread :: "u64 \<Rightarrow> bool \<Rightarrow> verifier_state \<Rightarrow> nat option \<times> verifier_state" where
  "find_thread tid create s =
     (case find_thread_loop tid 0 None (thread_states s) of
        (Some i, _) \<Rightarrow> (Some i, s)
      | (None, free_slot) \<Rightarrow>
          if \<not> create then (None, s)
          else (case free_slot of
                  None \<Rightarrow> (None, s\<lparr>state_overflow_events := state_overflow_events s + 1\<rparr>)
                | Some i \<Rightarrow>
                    (Some i, s\<lparr>thread_states := (thread_states s)
                       [i := zero_thread\<lparr>th_used := True, th_thread_id := tid\<rparr>]\<rparr>)))"

fun find_mutex_loop ::
    "uintptr \<Rightarrow> nat \<Rightarrow> nat option \<Rightarrow> verifier_mutex_state list \<Rightarrow> nat option \<times> nat option" where
  "find_mutex_loop addr i free_slot [] = (None, free_slot)"
| "find_mutex_loop addr i free_slot (state # rest) =
     (if mx_used state then
        (if mx_address state = addr then (Some i, free_slot)
         else find_mutex_loop addr (Suc i) free_slot rest)
      else find_mutex_loop addr (Suc i) (if free_slot = None then Some i else free_slot) rest)"

definition find_mutex :: "uintptr \<Rightarrow> bool \<Rightarrow> verifier_state \<Rightarrow> nat option \<times> verifier_state" where
  "find_mutex addr create s =
     (case find_mutex_loop addr 0 None (mutex_states s) of
        (Some i, _) \<Rightarrow> (Some i, s)
      | (None, free_slot) \<Rightarrow>
          if \<not> create then (None, s)
          else (case free_slot of
                  None \<Rightarrow> (None, s\<lparr>state_overflow_events := state_overflow_events s + 1\<rparr>)
                | Some i \<Rightarrow>
                    (Some i, s\<lparr>mutex_states := (mutex_states s)
                       [i := zero_mutex\<lparr>mx_used := True, mx_owner_known := False,
                                         mx_address := addr\<rparr>]\<rparr>)))"

text \<open>\<open>thread_index\<close> returns the table index as an \<open>int\<close>, and -1 for no entry.\<close>

definition thread_index :: "u64 \<Rightarrow> verifier_state \<Rightarrow> int" where
  "thread_index tid s =
     (case first_index (\<lambda>t. th_used t \<and> th_thread_id t = tid) (thread_states s) of
        None \<Rightarrow> -1
      | Some i \<Rightarrow> int i)"

section \<open>The tables provide the slot-table contract\<close>

lemma find_thread_loop_fst:
  "fst (find_thread_loop tid i free xs)
     = map_option ((+) i) (first_index (\<lambda>t. th_used t \<and> th_thread_id t = tid) xs)"
  by (induction xs arbitrary: i free) (simp_all add: option.map_comp comp_def add_Suc_fun)

lemma find_thread_loop_snd:
  "fst (find_thread_loop tid i free xs) = None \<Longrightarrow>
   snd (find_thread_loop tid i free xs)
     = (case free of Some k \<Rightarrow> Some k
        | None \<Rightarrow> map_option ((+) i) (first_index (\<lambda>t. \<not> th_used t) xs))"
  by (induction xs arbitrary: i free)
    (auto simp: option.map_comp comp_def add_Suc_fun split: if_splits option.splits)

lemma find_mutex_loop_fst:
  "fst (find_mutex_loop addr i free xs)
     = map_option ((+) i) (first_index (\<lambda>t. mx_used t \<and> mx_address t = addr) xs)"
  by (induction xs arbitrary: i free) (simp_all add: option.map_comp comp_def add_Suc_fun)

lemma find_mutex_loop_snd:
  "fst (find_mutex_loop addr i free xs) = None \<Longrightarrow>
   snd (find_mutex_loop addr i free xs)
     = (case free of Some k \<Rightarrow> Some k
        | None \<Rightarrow> map_option ((+) i) (first_index (\<lambda>t. \<not> mx_used t) xs))"
  by (induction xs arbitrary: i free)
    (auto simp: option.map_comp comp_def add_Suc_fun split: if_splits option.splits)

interpretation threads: slot_table
  "\<lambda>tid. find_thread_loop tid 0 None" th_used th_thread_id
  by unfold_locales
    (auto simp: find_thread_loop_fst find_thread_loop_snd option.map_ident plus_nat.add_0 first_index_None_iff
      dest: first_index_SomeD)

interpretation mutexes: slot_table
  "\<lambda>addr. find_mutex_loop addr 0 None" mx_used mx_address
  by unfold_locales
    (auto simp: find_mutex_loop_fst find_mutex_loop_snd option.map_ident plus_nat.add_0 first_index_None_iff
      dest: first_index_SomeD)

section \<open>Lookups without creation\<close>

definition tables_distinct :: "verifier_state \<Rightarrow> bool" where
  [wf_defs]: "tables_distinct s \<longleftrightarrow>
     keys_distinct th_used th_thread_id (thread_states s) \<and>
     keys_distinct mx_used mx_address (mutex_states s)"

lemma find_thread_False: "find_thread tid False s = (fst (find_thread_loop tid 0 None (thread_states s)), s)"
  by (simp add: find_thread_def split: prod.splits option.splits)

lemma find_mutex_False: "find_mutex a False s = (fst (find_mutex_loop a 0 None (mutex_states s)), s)"
  by (simp add: find_mutex_def split: prod.splits option.splits)

lemma find_thread_SomeD:
  "fst (find_thread tid False s) = Some i \<Longrightarrow>
     i < length (thread_states s) \<and> th_used (thread_states s ! i) \<and> th_thread_id (thread_states s ! i) = tid"
  using threads.scan_found by (simp add: find_thread_False)

lemma find_mutex_SomeD:
  "fst (find_mutex a False s) = Some i \<Longrightarrow>
     i < length (mutex_states s) \<and> mx_used (mutex_states s ! i) \<and> mx_address (mutex_states s ! i) = a"
  using mutexes.scan_found by (simp add: find_mutex_False)

lemma find_thread_unique:
  assumes "tables_distinct s" and "t \<in> set (thread_states s)" and "th_used t"
  obtains i where "fst (find_thread (th_thread_id t) False s) = Some i" and "thread_states s ! i = t"
    and "i < length (thread_states s)"
  using assms threads.scan_unique [of "thread_states s"]
  by (auto simp: find_thread_False tables_distinct_def in_set_conv_nth)

lemma find_mutex_unique:
  assumes "tables_distinct s" and "x \<in> set (mutex_states s)" and "mx_used x"
  obtains i where "fst (find_mutex (mx_address x) False s) = Some i" and "mutex_states s ! i = x"
    and "i < length (mutex_states s)"
  using assms mutexes.scan_unique [of "mutex_states s"]
  by (auto simp: find_mutex_False tables_distinct_def in_set_conv_nth)

lemma thread_index_slot:
  "thread_index tid s = (case fst (find_thread tid False s) of None \<Rightarrow> -1 | Some i \<Rightarrow> int i)"
  by (simp add: thread_index_def find_thread_False find_thread_loop_fst option.map_ident
      split: option.splits)

end
