(* ===== verification/Verifier_Ops.thy ===== *)
theory Verifier_Ops
  imports Verifier_State
begin

text \<open>
  \<^verbatim>\<open>src/monitor_verifier.c\<close>, second part: stream-gap handling, the held-mutex
  array of a thread, its waiting state, and the violation reports.  A function that takes
  a pointer to a table entry takes the entry's index here.
\<close>

section \<open>Entry updates\<close>

definition upd_thread ::
    "nat \<Rightarrow> (verifier_thread_state \<Rightarrow> verifier_thread_state) \<Rightarrow> verifier_state \<Rightarrow> verifier_state" where
  "upd_thread i f s = s\<lparr>thread_states := (thread_states s)[i := f (thread_states s ! i)]\<rparr>"

definition upd_mutex ::
    "nat \<Rightarrow> (verifier_mutex_state \<Rightarrow> verifier_mutex_state) \<Rightarrow> verifier_state \<Rightarrow> verifier_state" where
  "upd_mutex i f s = s\<lparr>mutex_states := (mutex_states s)[i := f (mutex_states s ! i)]\<rparr>"

section \<open>Stream gaps\<close>

definition invalidate_mutex :: "u64 \<Rightarrow> u64 \<Rightarrow> verifier_mutex_state \<Rightarrow> verifier_mutex_state" where
  "invalidate_mutex tid barrier mutex =
     (if \<not> mx_used mutex then mutex
      else if \<not> mx_owner_known mutex then mutex
      else if mx_owner_thread_id mutex \<noteq> tid then mutex
      else mutex\<lparr>mx_owner_known := False, mx_owner_thread_id := 0,
                 mx_last_state_sequence :=
                   (if mx_last_state_sequence mutex < barrier then barrier
                    else mx_last_state_sequence mutex)\<rparr>)"

definition invalidate_mutexes_owned_by_thread ::
    "u64 \<Rightarrow> u64 \<Rightarrow> verifier_state \<Rightarrow> verifier_state" where
  "invalidate_mutexes_owned_by_thread tid barrier s =
     s\<lparr>mutex_states := map (invalidate_mutex tid barrier) (mutex_states s)\<rparr>"

definition mark_thread_stream_tainted :: "nat \<Rightarrow> u64 \<Rightarrow> verifier_state \<Rightarrow> verifier_state" where
  "mark_thread_stream_tainted i barrier s =
     (if th_trace_tainted (thread_states s ! i) then s
      else
        let s1 = upd_thread i (\<lambda>t. t\<lparr>th_trace_tainted := True\<rparr>) s;
            s2 = s1\<lparr>tainted_thread_streams := tainted_thread_streams s1 + 1\<rparr>;
            s3 = (if th_waiting_mutex (thread_states s2 ! i) \<noteq> 0
                  then let w = upd_thread i (\<lambda>t. t\<lparr>th_waiting_mutex := 0, th_waiting_sequence := 0\<rparr>) s2
                       in if waiting_thread_count w \<noteq> 0
                          then w\<lparr>waiting_thread_count := waiting_thread_count w - 1\<rparr> else w
                  else s2);
            s4 = upd_thread i (\<lambda>t. t\<lparr>th_held_mutexes :=
                   replicate VERIFIER_MAX_HELD_MUTEXES zero_held_mutex, th_held_count := 0\<rparr>) s3
        in invalidate_mutexes_owned_by_thread (th_thread_id (thread_states s4 ! i)) barrier s4)"

definition observe_thread_sequence ::
    "monitor_event \<Rightarrow> verifier_state \<Rightarrow> nat option \<times> verifier_state" where
  "observe_thread_sequence event s =
     (case find_thread (ev_thread_id event) True s of
        (None, s1) \<Rightarrow> (None, s1)
      | (Some i, s1) \<Rightarrow>
          if \<not> th_sequence_initialized (thread_states s1 ! i) then
            let s2 = upd_thread i (\<lambda>t. t\<lparr>th_sequence_initialized := True\<rparr>) s1;
                s3 = (if ev_thread_sequence event \<noteq> 0
                      then mark_thread_stream_tainted i (ev_sequence_id event)
                             (s2\<lparr>detected_stream_gaps := detected_stream_gaps s2 + 1\<rparr>)
                      else s2)
            in (Some i, upd_thread i
                  (\<lambda>t. t\<lparr>th_next_expected_sequence := ev_thread_sequence event + 1\<rparr>) s3)
          else
            let s2 = (if ev_thread_sequence event \<noteq> th_next_expected_sequence (thread_states s1 ! i)
                      then mark_thread_stream_tainted i (ev_sequence_id event)
                             (s1\<lparr>detected_stream_gaps := detected_stream_gaps s1 + 1\<rparr>)
                      else s1)
            in (Some i, upd_thread i
                  (\<lambda>t. t\<lparr>th_next_expected_sequence := ev_thread_sequence event + 1\<rparr>) s2))"

section \<open>Held mutexes\<close>

definition find_held_mutex :: "verifier_thread_state \<Rightarrow> uintptr \<Rightarrow> nat option" where
  "find_held_mutex thread addr =
     first_index (\<lambda>h. hm_address h = addr)
       (take (unat (th_held_count thread)) (th_held_mutexes thread))"

definition add_held_mutex :: "nat \<Rightarrow> uintptr \<Rightarrow> u64 \<Rightarrow> verifier_state \<Rightarrow> verifier_state" where
  "add_held_mutex i addr timestamp s =
     (let thread = thread_states s ! i in
      if th_trace_tainted thread then s
      else case find_held_mutex thread addr of
        Some k \<Rightarrow>
          if hm_depth (th_held_mutexes thread ! k) < UINT32_MAX
          then upd_thread i (\<lambda>t. t\<lparr>th_held_mutexes := (th_held_mutexes t)
                 [k := (th_held_mutexes t ! k)\<lparr>hm_depth := hm_depth (th_held_mutexes t ! k) + 1\<rparr>]\<rparr>) s
          else s
      | None \<Rightarrow>
          if of_nat VERIFIER_MAX_HELD_MUTEXES \<le> th_held_count thread
          then s\<lparr>state_overflow_events := state_overflow_events s + 1\<rparr>
          else upd_thread i (\<lambda>t. t\<lparr>th_held_mutexes := (th_held_mutexes t)
                 [unat (th_held_count t) :=
                    \<lparr>hm_address = addr, hm_first_acquired_timestamp_ns = timestamp, hm_depth = 1\<rparr>],
                 th_held_count := th_held_count t + 1\<rparr>) s)"

section \<open>Violation reports\<close>

definition rule_line :: string where
  "rule_line = replicate 40 (CHR ''='') @ nl"

definition violation_head :: "string \<Rightarrow> string" where
  "violation_head name = nl @ rule_line @ ''[monitor][VIOLATION] '' @ name @ nl"

definition event_lines :: "monitor_event \<Rightarrow> string" where
  "event_lines event =
     ''sequence='' @ fmt_lu (ev_sequence_id event) @ nl @
     ''thread=T'' @ fmt_lu (ev_thread_id event) @ nl @
     ''mutex='' @ fmt_p (ev_object_address event) @ nl"

definition self_deadlock_text :: "monitor_event \<Rightarrow> string" where
  "self_deadlock_text event =
     violation_head ''SELF_DEADLOCK_CANDIDATE'' @ event_lines event @
     ''reason=thread requested a mutex it already holds'' @ nl @ rule_line"

definition report_self_deadlock_candidate ::
    "monitor_event \<Rightarrow> verifier_state \<Rightarrow> verifier_state" where
  "report_self_deadlock_candidate event s =
     s\<lparr>self_deadlock_candidates := self_deadlock_candidates s + 1,
       stderr_writes := snprintf_write 768 (self_deadlock_text event) (stderr_writes s)\<rparr>"

definition non_owner_unlock_text :: "monitor_event \<Rightarrow> string" where
  "non_owner_unlock_text event =
     violation_head ''NON_OWNER_UNLOCK'' @ event_lines event @
     ''pthread_result='' @ fmt_d (ev_result event) @ '' (EPERM)'' @ nl @
     ''reason=pthread rejected unlock because caller did not own mutex'' @ nl @ rule_line"

definition report_non_owner_unlock :: "monitor_event \<Rightarrow> verifier_state \<Rightarrow> verifier_state" where
  "report_non_owner_unlock event s =
     s\<lparr>non_owner_unlock_violations := non_owner_unlock_violations s + 1,
       stderr_writes := snprintf_write 768 (non_owner_unlock_text event) (stderr_writes s)\<rparr>"

definition hold_time_text :: "monitor_event \<Rightarrow> u64 \<Rightarrow> u64 \<Rightarrow> string" where
  "hold_time_text event held_ns threshold =
     violation_head ''HOLD_TIME_VIOLATION'' @ event_lines event @
     ''held_ns='' @ fmt_lu held_ns @ nl @
     ''threshold_ns='' @ fmt_lu threshold @ nl @ rule_line"

definition report_hold_time_violation ::
    "monitor_event \<Rightarrow> u64 \<Rightarrow> verifier_state \<Rightarrow> verifier_state" where
  "report_hold_time_violation event held_ns s =
     s\<lparr>hold_time_violations := hold_time_violations s + 1,
       stderr_writes :=
         snprintf_write 768 (hold_time_text event held_ns (max_hold_ns s)) (stderr_writes s)\<rparr>"

definition exit_header :: "monitor_event \<Rightarrow> verifier_thread_state \<Rightarrow> string" where
  "exit_header event thread =
     violation_head ''LOCK_HELD_AT_THREAD_EXIT'' @
     ''sequence='' @ fmt_lu (ev_sequence_id event) @ nl @
     ''thread=T'' @ fmt_lu (ev_thread_id event) @ nl @
     ''held_mutex_count='' @ fmt_u (th_held_count thread) @ nl"

definition held_line :: "verifier_held_mutex \<Rightarrow> string" where
  "held_line h = ''  mutex='' @ fmt_p (hm_address h) @ '' depth='' @ fmt_u (hm_depth h) @ nl"

definition report_lock_held_at_thread_exit ::
    "monitor_event \<Rightarrow> verifier_thread_state \<Rightarrow> verifier_state \<Rightarrow> verifier_state" where
  "report_lock_held_at_thread_exit event thread s =
     s\<lparr>lock_held_at_exit_violations := lock_held_at_exit_violations s + 1,
       stderr_writes :=
         snprintf_write_lines 2048 (exit_header event thread)
           (map held_line (take (unat (th_held_count thread)) (th_held_mutexes thread)))
           rule_line (stderr_writes s)\<rparr>"

section \<open>Mutex release\<close>

text \<open>
  The result says whether the mutex is fully released; a nested acquisition that remains
  is the result false.
\<close>

definition release_held_mutex ::
    "nat \<Rightarrow> monitor_event \<Rightarrow> verifier_state \<Rightarrow> bool \<times> verifier_state" where
  "release_held_mutex i event s =
     (let thread = thread_states s ! i in
      if th_trace_tainted thread then (True, s)
      else case find_held_mutex thread (ev_object_address event) of
        None \<Rightarrow> (True, s)
      | Some index \<Rightarrow>
          let held = th_held_mutexes thread ! index in
          if 1 < hm_depth held
          then (False, upd_thread i (\<lambda>t. t\<lparr>th_held_mutexes := (th_held_mutexes t)
                  [index := held\<lparr>hm_depth := hm_depth held - 1\<rparr>]\<rparr>) s)
          else
            let held_ns = (if hm_first_acquired_timestamp_ns held \<le> ev_timestamp_ns event
                           then ev_timestamp_ns event - hm_first_acquired_timestamp_ns held
                           else 0);
                s1 = (if max_hold_ns s \<noteq> 0 \<and> max_hold_ns s < held_ns
                      then report_hold_time_violation event held_ns s else s);
                last_index = unat (th_held_count thread - 1)
            in (True, upd_thread i (\<lambda>t. t\<lparr>th_held_mutexes := (th_held_mutexes t)
                        [index := th_held_mutexes t ! last_index, last_index := zero_held_mutex],
                      th_held_count := th_held_count t - 1\<rparr>) s1))"

section \<open>Waiting state\<close>

definition set_thread_waiting :: "nat \<Rightarrow> uintptr \<Rightarrow> u64 \<Rightarrow> verifier_state \<Rightarrow> verifier_state" where
  "set_thread_waiting i addr seqno s =
     (let s1 = (if th_waiting_mutex (thread_states s ! i) = 0
                then s\<lparr>waiting_thread_count := waiting_thread_count s + 1\<rparr> else s)
      in upd_thread i (\<lambda>t. t\<lparr>th_waiting_mutex := addr, th_waiting_sequence := seqno\<rparr>) s1)"

definition clear_thread_waiting :: "nat \<Rightarrow> uintptr \<Rightarrow> verifier_state \<Rightarrow> verifier_state" where
  "clear_thread_waiting i addr s =
     (if th_waiting_mutex (thread_states s ! i) \<noteq> addr then s
      else let s1 = upd_thread i (\<lambda>t. t\<lparr>th_waiting_mutex := 0, th_waiting_sequence := 0\<rparr>) s
           in if waiting_thread_count s1 \<noteq> 0
              then s1\<lparr>waiting_thread_count := waiting_thread_count s1 - 1\<rparr> else s1)"

end
