(* ===== verification/Verifier_Deadlock.thy ===== *)
theory Verifier_Deadlock
  imports Verifier_Ops
begin

text \<open>
  \<^verbatim>\<open>src/monitor_verifier.c\<close>, third part: the search for a cycle in the wait-for
  graph, the deadlock report and the check that runs at quiescence.
\<close>

section \<open>The cycle search\<close>

text \<open>
  The caller's out parameters: the two arrays keep what earlier attempts left in them, the
  length and the mask are written on success only.
\<close>

record cycle_out =
  cy_threads :: "u64 list"
  cy_mutexes :: "uintptr list"
  cy_length :: u32
  cy_mask :: u32

definition cycle_mask_of :: "verifier_state \<Rightarrow> u64 list \<Rightarrow> u32" where
  "cycle_mask_of s tids =
     foldl (\<lambda>mask tid.
        let index = thread_index tid s
        in if 0 \<le> index \<and> index < 32 then mask OR push_bit (nat index) 1 else mask) 0 tids"

text \<open>
  One iteration of the loop of \<open>find_cycle_from\<close> per call: \<open>current\<close> is
  \<open>current_thread_id\<close>, \<open>visited\<close> the first \<open>visited_count\<close> elements of the array
  of that name.
\<close>

function find_cycle_loop ::
    "verifier_state \<Rightarrow> u64 \<Rightarrow> nat \<Rightarrow> u64 \<Rightarrow> u64 list \<Rightarrow> cycle_out \<Rightarrow> bool \<times> cycle_out" where
  "find_cycle_loop s start step current visited out =
     (if step < VERIFIER_MAX_THREADS then
        (case fst (find_thread current False s) of
           None \<Rightarrow> (False, out)
         | Some i \<Rightarrow>
             let thread = thread_states s ! i in
             if th_trace_tainted thread \<or> th_exited thread then (False, out)
             else if th_waiting_mutex thread = 0 then (False, out)
             else case fst (find_mutex (th_waiting_mutex thread) False s) of
               None \<Rightarrow> (False, out)
             | Some j \<Rightarrow>
                 let mutex = mutex_states s ! j in
                 if \<not> mx_owner_known mutex \<or> mx_owner_thread_id mutex = 0 then (False, out)
                 else
                   let owner = mx_owner_thread_id mutex in
                   (case fst (find_thread owner False s) of
                      None \<Rightarrow> (False, out)
                    | Some k \<Rightarrow>
                        let owner_thread = thread_states s ! k in
                        if th_trace_tainted owner_thread \<or> th_exited owner_thread then (False, out)
                        else
                          let out1 = out\<lparr>cy_threads := (cy_threads out)[step := current],
                                         cy_mutexes := (cy_mutexes out)[step := th_waiting_mutex thread]\<rparr>;
                              visited1 = visited @ [current]
                          in if owner = start then
                               let length1 = step + 1 in
                               if length1 < 2 then (False, out1)
                               else (True, out1\<lparr>cy_length := of_nat length1,
                                       cy_mask := cycle_mask_of s (take length1 (cy_threads out1))\<rparr>)
                             else if owner \<in> set visited1 then (False, out1)
                             else find_cycle_loop s start (Suc step) owner visited1 out1))
      else (False, out))"
  by pat_completeness auto
termination
  by (relation "measure (\<lambda>(s, start, step, current, visited, out). VERIFIER_MAX_THREADS - step)") auto

declare find_cycle_loop.simps [simp del]

definition find_cycle_from :: "u64 \<Rightarrow> verifier_state \<Rightarrow> cycle_out \<Rightarrow> bool \<times> cycle_out" where
  "find_cycle_from start s out = find_cycle_loop s start 0 start [] out"

fun find_any_cycle_loop ::
    "verifier_state \<Rightarrow> verifier_thread_state list \<Rightarrow> cycle_out \<Rightarrow> bool \<times> cycle_out" where
  "find_any_cycle_loop s [] out = (False, out)"
| "find_any_cycle_loop s (t # ts) out =
     (if \<not> th_used t \<or> th_trace_tainted t \<or> th_waiting_mutex t = 0
      then find_any_cycle_loop s ts out
      else case find_cycle_from (th_thread_id t) s out of
        (found, out1) \<Rightarrow> if found then (True, out1) else find_any_cycle_loop s ts out1)"

definition find_any_cycle :: "verifier_state \<Rightarrow> cycle_out \<Rightarrow> bool \<times> cycle_out" where
  "find_any_cycle s out = find_any_cycle_loop s (thread_states s) out"

section \<open>The report\<close>

definition reported_owner :: "verifier_state \<Rightarrow> uintptr \<Rightarrow> u64" where
  "reported_owner s addr =
     (case fst (find_mutex addr False s) of
        None \<Rightarrow> 0
      | Some j \<Rightarrow> if mx_owner_known (mutex_states s ! j)
                  then mx_owner_thread_id (mutex_states s ! j) else 0)"

definition cycle_line :: "verifier_state \<Rightarrow> u64 \<Rightarrow> uintptr \<Rightarrow> string" where
  "cycle_line s tid addr =
     ''  T'' @ fmt_lu tid @ '' waits for mutex='' @ fmt_p addr @
     '' owned by T'' @ fmt_lu (reported_owner s addr) @ nl"

definition deadlock_header :: "verifier_state \<Rightarrow> u32 \<Rightarrow> string" where
  "deadlock_header s len =
     violation_head ''DEADLOCK_CYCLE'' @
     ''observed_after_seq='' @ fmt_lu (last_processed_sequence s) @ nl @
     ''cycle_length='' @ fmt_u len @ nl"

definition report_deadlock_cycle ::
    "u64 list \<Rightarrow> uintptr list \<Rightarrow> u32 \<Rightarrow> verifier_state \<Rightarrow> verifier_state" where
  "report_deadlock_cycle tids addrs len s =
     s\<lparr>deadlock_cycle_violations := deadlock_cycle_violations s + 1,
       stderr_writes :=
         snprintf_write_lines 2048 (deadlock_header s len)
           (map (\<lambda>i. cycle_line s (tids ! i) (addrs ! i)) [0..<unat len])
           rule_line (stderr_writes s)\<rparr>"

section \<open>The check at quiescence\<close>

definition cycle_out_init :: cycle_out where
  [zero_defs]: "cycle_out_init =
     \<lparr>cy_threads = replicate VERIFIER_MAX_THREADS 0,
      cy_mutexes = replicate VERIFIER_MAX_THREADS 0, cy_length = 0, cy_mask = 0\<rparr>"

definition monitor_verifier_check_deadlocks :: "verifier_state \<Rightarrow> verifier_state" where
  "monitor_verifier_check_deadlocks s =
     (if waiting_thread_count s < 2
      then s\<lparr>candidate_cycle_mask := 0, candidate_cycle_confirmations := 0, reported_cycle_mask := 0\<rparr>
      else case find_any_cycle s cycle_out_init of (found, out) \<Rightarrow>
        if \<not> found
        then s\<lparr>candidate_cycle_mask := 0, candidate_cycle_confirmations := 0, reported_cycle_mask := 0\<rparr>
        else if candidate_cycle_mask s \<noteq> cy_mask out
        then s\<lparr>candidate_cycle_mask := cy_mask out, candidate_cycle_confirmations := 1\<rparr>
        else
          let s1 = (if candidate_cycle_confirmations s < UINT32_MAX
                    then s\<lparr>candidate_cycle_confirmations := candidate_cycle_confirmations s + 1\<rparr>
                    else s)
          in if candidate_cycle_confirmations s1 < DEADLOCK_CONFIRMATIONS_REQUIRED then s1
             else if reported_cycle_mask s1 = cy_mask out then s1
             else report_deadlock_cycle (cy_threads out) (cy_mutexes out) (cy_length out)
                    (s1\<lparr>reported_cycle_mask := cy_mask out\<rparr>))"

section \<open>The wait-for graph\<close>

text \<open>
  The edge the search follows out of a thread, with the mutex it goes through, as the
  lookups compute it, and the wait-for relation it stands for: an untainted, running
  thread waits for a mutex whose known owner is an untainted, running thread.
\<close>

definition wait_edge :: "verifier_state \<Rightarrow> u64 \<Rightarrow> (uintptr \<times> u64) option" where
  "wait_edge s a =
     (case fst (find_thread a False s) of
        None \<Rightarrow> None
      | Some i \<Rightarrow>
          let thread = thread_states s ! i in
          if th_trace_tainted thread \<or> th_exited thread \<or> th_waiting_mutex thread = 0 then None
          else case fst (find_mutex (th_waiting_mutex thread) False s) of
            None \<Rightarrow> None
          | Some j \<Rightarrow>
              let mutex = mutex_states s ! j in
              if \<not> mx_owner_known mutex \<or> mx_owner_thread_id mutex = 0 then None
              else case fst (find_thread (mx_owner_thread_id mutex) False s) of
                None \<Rightarrow> None
              | Some k \<Rightarrow>
                  if th_trace_tainted (thread_states s ! k) \<or> th_exited (thread_states s ! k)
                  then None else Some (th_waiting_mutex thread, mx_owner_thread_id mutex))"

definition running_thread :: "verifier_state \<Rightarrow> u64 \<Rightarrow> verifier_thread_state \<Rightarrow> bool" where
  "running_thread s tid t \<longleftrightarrow> t \<in> set (thread_states s) \<and> th_used t \<and> th_thread_id t = tid \<and>
     \<not> th_trace_tainted t \<and> \<not> th_exited t"

definition waits_for :: "verifier_state \<Rightarrow> u64 \<Rightarrow> uintptr \<Rightarrow> u64 \<Rightarrow> bool" where
  "waits_for s a m b \<longleftrightarrow>
     (\<exists>t. running_thread s a t \<and> th_waiting_mutex t = m \<and> m \<noteq> 0) \<and>
     (\<exists>x \<in> set (mutex_states s). mx_used x \<and> mx_address x = m \<and> mx_owner_known x \<and>
        mx_owner_thread_id x = b \<and> b \<noteq> 0) \<and>
     (\<exists>t. running_thread s b t)"

text \<open>
  A deadlock: at least two different threads, each of which waits for a mutex owned by the
  next one, and the last for a mutex owned by the first.
\<close>

definition wait_cycle :: "verifier_state \<Rightarrow> u64 list \<Rightarrow> uintptr list \<Rightarrow> bool" where
  "wait_cycle s ts ms \<longleftrightarrow> 2 \<le> length ts \<and> length ms = length ts \<and> distinct ts \<and>
     (\<forall>i < length ts. waits_for s (ts ! i) (ms ! i) (ts ! (Suc i mod length ts)))"

text \<open>
  The state of the search loop: the threads visited so far are a path of the wait-for
  graph from the start to the current thread, recorded in the out parameters; and the
  path it has found when it succeeds.
\<close>

definition walk :: "verifier_state \<Rightarrow> u64 \<Rightarrow> nat \<Rightarrow> u64 \<Rightarrow> u64 list \<Rightarrow> cycle_out \<Rightarrow> bool" where
  "walk s start step cur visited out \<longleftrightarrow>
     length (cy_threads out) = VERIFIER_MAX_THREADS \<and> length (cy_mutexes out) = VERIFIER_MAX_THREADS \<and>
     step \<le> VERIFIER_MAX_THREADS \<and>
     take step (cy_threads out) = visited \<and> distinct (visited @ [cur]) \<and>
     (visited @ [cur]) ! 0 = start \<and>
     (\<forall>i < step. wait_edge s (visited ! i) = Some (cy_mutexes out ! i, (visited @ [cur]) ! Suc i))"

definition closed_walk :: "verifier_state \<Rightarrow> cycle_out \<Rightarrow> bool" where
  "closed_walk s out \<longleftrightarrow> (\<exists>len. 2 \<le> len \<and> len \<le> VERIFIER_MAX_THREADS \<and> cy_length out = of_nat len \<and>
     len \<le> length (cy_threads out) \<and> len \<le> length (cy_mutexes out) \<and>
     distinct (take len (cy_threads out)) \<and>
     cy_mask out = cycle_mask_of s (take len (cy_threads out)) \<and>
     (\<forall>i < len. wait_edge s (cy_threads out ! i)
        = Some (cy_mutexes out ! i, cy_threads out ! (Suc i mod len))))"

section \<open>The search finds exactly the cycles\<close>

lemma wait_edge_sound:
  assumes "wait_edge s a = Some (m, b)"
  shows "waits_for s a m b"
proof -
  from assms obtain i j k where f: "fst (find_thread a False s) = Some i"
      "fst (find_mutex m False s) = Some j" "fst (find_thread b False s) = Some k"
    and "\<not> th_trace_tainted (thread_states s ! i)" "\<not> th_exited (thread_states s ! i)"
      "th_waiting_mutex (thread_states s ! i) = m" "m \<noteq> 0"
      "mx_owner_known (mutex_states s ! j)" "mx_owner_thread_id (mutex_states s ! j) = b" "b \<noteq> 0"
      "\<not> th_trace_tainted (thread_states s ! k)" "\<not> th_exited (thread_states s ! k)"
    by (auto simp: wait_edge_def Let_def split: option.splits if_splits)
  then show ?thesis
    using find_thread_SomeD [OF f(1)] find_mutex_SomeD [OF f(2)] find_thread_SomeD [OF f(3)]
    unfolding waits_for_def running_thread_def by (metis nth_mem)
qed

lemma wait_edge_complete:
  assumes d: "tables_distinct s" and w: "waits_for s a m b"
  shows "wait_edge s a = Some (m, b)"
proof -
  from w obtain t x u where t: "running_thread s a t" "th_waiting_mutex t = m" "m \<noteq> 0"
    and x: "x \<in> set (mutex_states s)" "mx_used x" "mx_address x = m" "mx_owner_known x"
      "mx_owner_thread_id x = b" "b \<noteq> 0"
    and u: "running_thread s b u"
    by (auto simp: waits_for_def)
  obtain i where i: "fst (find_thread a False s) = Some i" "thread_states s ! i = t"
    using find_thread_unique [OF d] t(1) by (metis running_thread_def)
  obtain j where j: "fst (find_mutex m False s) = Some j" "mutex_states s ! j = x"
    using find_mutex_unique [OF d] x by metis
  obtain k where k: "fst (find_thread b False s) = Some k" "thread_states s ! k = u"
    using find_thread_unique [OF d] u(1) by (metis running_thread_def)
  show ?thesis
    using t x u i j k by (simp add: wait_edge_def running_thread_def)
qed

lemma find_cycle_loop_edge:
  "find_cycle_loop s start step cur visited out =
     (if step < VERIFIER_MAX_THREADS then
        (case wait_edge s cur of
           None \<Rightarrow> (False, out)
         | Some (m, owner) \<Rightarrow>
             let out1 = out\<lparr>cy_threads := (cy_threads out)[step := cur],
                            cy_mutexes := (cy_mutexes out)[step := m]\<rparr>
             in if owner = start
                then (if step = 0 then (False, out1)
                      else (True, out1\<lparr>cy_length := of_nat (Suc step),
                              cy_mask := cycle_mask_of s (take (Suc step) (cy_threads out1))\<rparr>))
                else if owner \<in> set (visited @ [cur]) then (False, out1)
                else find_cycle_loop s start (Suc step) owner (visited @ [cur]) out1)
      else (False, out))"
  (is "_ = ?rhs")
proof (cases "fst (find_thread cur False s)")
  case None
  then show ?thesis by (subst find_cycle_loop.simps) (simp add: wait_edge_def)
next
  case i: (Some i)
  let ?m = "th_waiting_mutex (thread_states s ! i)"
  show ?thesis
  proof (cases "fst (find_mutex ?m False s)")
    case None
    with i show ?thesis by (subst find_cycle_loop.simps) (simp add: wait_edge_def Let_def)
  next
    case j: (Some j)
    let ?owner = "mx_owner_thread_id (mutex_states s ! j)"
    show ?thesis
      using i j
      by (subst find_cycle_loop.simps, cases "fst (find_thread ?owner False s)")
        (simp_all add: wait_edge_def Let_def)
  qed
qed

lemma walk_step:
  assumes "walk s start step cur visited out" and "step < VERIFIER_MAX_THREADS"
    and "wait_edge s cur = Some (m, owner)" and "owner \<notin> set (visited @ [cur])"
  shows "walk s start (Suc step) owner (visited @ [cur])
    (out\<lparr>cy_threads := (cy_threads out)[step := cur], cy_mutexes := (cy_mutexes out)[step := m]\<rparr>)"
proof -
  have len: "length visited = step" using assms by (auto simp: walk_def)
  show ?thesis
    using assms len
    by (auto simp: walk_def take_Suc_conv_app_nth nth_append less_Suc_eq)
qed

lemma walk_close:
  assumes "walk s start step cur visited out" and "step < VERIFIER_MAX_THREADS" and "0 < step"
    and "wait_edge s cur = Some (m, start)"
  shows "closed_walk s (out\<lparr>cy_threads := (cy_threads out)[step := cur],
      cy_mutexes := (cy_mutexes out)[step := m], cy_length := of_nat (Suc step),
      cy_mask := cycle_mask_of s (take (Suc step) ((cy_threads out)[step := cur]))\<rparr>)"
proof -
  have len: "length visited = step" using assms by (auto simp: walk_def)
  have vis: "visited ! i = cy_threads out ! i" if "i < step" for i
    using assms(1) that by (auto simp: walk_def)
  let ?ts = "(cy_threads out)[step := cur]" and ?ms = "(cy_mutexes out)[step := m]"
  have ts: "take (Suc step) ?ts = visited @ [cur]" and lens: "length ?ts = VERIFIER_MAX_THREADS"
      "length ?ms = VERIFIER_MAX_THREADS"
    using assms(1,2) by (auto simp: walk_def take_Suc_conv_app_nth)
  have edge: "wait_edge s (?ts ! i) = Some (?ms ! i, ?ts ! (Suc i mod Suc step))"
    if "i < Suc step" for i
  proof (cases "i = step")
    case True
    then show ?thesis
      using assms len vis [of 0] by (auto simp: walk_def nth_append nth_list_update_if)
  next
    case False
    then have i: "i < step" using that by simp
    have "?ts ! Suc i = (visited @ [cur]) ! Suc i"
      using i lens by (simp flip: ts)
    moreover have "wait_edge s (visited ! i) = Some (cy_mutexes out ! i, (visited @ [cur]) ! Suc i)"
      using assms(1) i by (simp add: walk_def)
    ultimately show ?thesis
      using i vis [OF i] by (simp add: nth_list_update_if)
  qed
  show ?thesis
    unfolding closed_walk_def
    using assms(1-3) ts lens edge by (intro exI [of _ "Suc step"]) (simp add: walk_def)
qed


lemma find_cycle_loop_sound:
  assumes "walk s start step cur visited out"
    and "find_cycle_loop s start step cur visited out = (True, out')"
  shows "closed_walk s out'"
  using assms
proof (induction "VERIFIER_MAX_THREADS - step" arbitrary: step cur visited out)
  case 0
  then show ?case by (simp add: find_cycle_loop_edge [of s start step])
next
  case (Suc n)
  then have less: "step < VERIFIER_MAX_THREADS" by simp
  with Suc.prems(2) obtain m owner where e: "wait_edge s cur = Some (m, owner)"
    by (cases "wait_edge s cur") (auto simp: find_cycle_loop_edge [of s start step])
  let ?out1 = "out\<lparr>cy_threads := (cy_threads out)[step := cur], cy_mutexes := (cy_mutexes out)[step := m]\<rparr>"
  show ?case
  proof (cases "owner = start")
    case True
    then have "0 < step" and "out' = ?out1\<lparr>cy_length := of_nat (Suc step),
        cy_mask := cycle_mask_of s (take (Suc step) (cy_threads ?out1))\<rparr>"
      using Suc.prems(2) less e
      by (auto simp: find_cycle_loop_edge [of s start step] Let_def split: if_splits)
    with walk_close [OF Suc.prems(1) less] e True show ?thesis by simp
  next
    case False
    then have fresh: "owner \<notin> set (visited @ [cur])"
      and rec: "find_cycle_loop s start (Suc step) owner (visited @ [cur]) ?out1 = (True, out')"
      using Suc.prems(2) less e
      by (auto simp: find_cycle_loop_edge [of s start step] Let_def split: if_splits)
    show ?thesis
      using Suc.hyps(1) [OF _ walk_step [OF Suc.prems(1) less e fresh] rec] Suc.hyps(2) by simp
  qed
qed

lemma find_cycle_loop_lengths:
  "find_cycle_loop s start step cur visited out = (b, out') \<Longrightarrow>
   length (cy_threads out') = length (cy_threads out) \<and>
   length (cy_mutexes out') = length (cy_mutexes out)"
proof (induction "VERIFIER_MAX_THREADS - step" arbitrary: step cur visited out)
  case 0
  then show ?case by (simp add: find_cycle_loop_edge [of s start step])
next
  case (Suc n)
  show ?case
  proof (cases "wait_edge s cur")
    case (Some e)
    obtain m owner where e: "e = (m, owner)" by force
    let ?out1 = "out\<lparr>cy_threads := (cy_threads out)[step := cur], cy_mutexes := (cy_mutexes out)[step := m]\<rparr>"
    have IH: "find_cycle_loop s start (Suc step) owner (visited @ [cur]) ?out1 = (b, out') \<Longrightarrow>
        length (cy_threads out') = length (cy_threads ?out1) \<and>
        length (cy_mutexes out') = length (cy_mutexes ?out1)"
      using Suc.hyps by (intro Suc.hyps(1)) auto
    show ?thesis
      using Suc.prems IH Some e
      by (auto simp: find_cycle_loop_edge [of s start step] Let_def split: if_splits)
  qed (use Suc.prems in \<open>simp add: find_cycle_loop_edge [of s start step] split: if_splits\<close>)
qed

lemma find_cycle_loop_complete:
  assumes d: "distinct ts" and L: "2 \<le> length ts" "length ts \<le> VERIFIER_MAX_THREADS"
    and e: "\<And>i. i < length ts \<Longrightarrow> wait_edge s (ts ! i) = Some (ms ! i, ts ! (Suc i mod length ts))"
    and step: "step < length ts"
  shows "fst (find_cycle_loop s (ts ! 0) step (ts ! step) (take step ts) out)"
  using step
proof (induction "length ts - step" arbitrary: step out)
  case (Suc n)
  have less: "step < VERIFIER_MAX_THREADS" using Suc.prems L(2) by simp
  show ?case
  proof (cases "Suc step = length ts")
    case True
    then show ?thesis
      using e [OF Suc.prems] less L(1) by (subst find_cycle_loop_edge) (simp add: Let_def)
  next
    case False
    then have next_less: "Suc step < length ts" using Suc.prems by simp
    have "0 < length ts" using next_less by linarith
    then have ne: "ts ! Suc step \<noteq> ts ! 0"
      using nth_eq_iff_index_eq [OF d next_less] by simp
    have fresh: "ts ! Suc step \<notin> set (take step ts @ [ts ! step])"
      using d next_less by (auto simp: in_set_conv_nth nth_eq_iff_index_eq)
    have "fst (find_cycle_loop s (ts ! 0) (Suc step) (ts ! Suc step) (take (Suc step) ts) out1)" for out1
      using Suc.hyps next_less by (intro Suc.hyps(1)) auto
    then show ?thesis
      using e [OF Suc.prems] less next_less ne fresh Suc.prems
      by (subst find_cycle_loop_edge) (simp add: Let_def take_Suc_conv_app_nth)
  qed
qed simp

lemma find_any_cycle_loop_sound:
  assumes "find_any_cycle_loop s ts out = (True, out')"
    and "length (cy_threads out) = VERIFIER_MAX_THREADS"
    and "length (cy_mutexes out) = VERIFIER_MAX_THREADS"
  shows "closed_walk s out'"
  using assms
proof (induction ts arbitrary: out)
  case (Cons t ts)
  show ?case
  proof (cases "\<not> th_used t \<or> th_trace_tainted t \<or> th_waiting_mutex t = 0")
    case False
    obtain found out1 where f: "find_cycle_from (th_thread_id t) s out = (found, out1)" by force
    have w: "walk s (th_thread_id t) 0 (th_thread_id t) [] out"
      using Cons.prems by (simp add: walk_def)
    show ?thesis
    proof (cases found)
      case True
      then show ?thesis
        using Cons.prems(1) False f find_cycle_loop_sound [OF w] by (simp add: find_cycle_from_def)
    next
      case not_found: False
      have "length (cy_threads out1) = VERIFIER_MAX_THREADS \<and> length (cy_mutexes out1) = VERIFIER_MAX_THREADS"
        using find_cycle_loop_lengths f Cons.prems(2,3) by (metis find_cycle_from_def)
      then show ?thesis using Cons False f not_found by simp
    qed
  qed (use Cons in simp)
qed simp

lemma find_any_cycle_loop_complete:
  assumes "t \<in> set ts" and "th_used t" and "\<not> th_trace_tainted t" and "th_waiting_mutex t \<noteq> 0"
    and "\<And>out. fst (find_cycle_from (th_thread_id t) s out)"
  shows "fst (find_any_cycle_loop s ts out)"
  using assms
proof (induction ts arbitrary: out)
  case (Cons u ts)
  show ?case
  proof (cases "u = t")
    case True
    then show ?thesis using Cons.prems(2-4) Cons.prems(5) [of out] by (auto split: prod.splits)
  next
    case False
    then have "t \<in> set ts" using Cons.prems(1) by simp
    with Cons show ?thesis by (auto split: prod.splits)
  qed
qed simp


lemma foldl_or_bit:
  fixes acc :: u32
  shows "bit (foldl (\<lambda>mask tid. if 0 \<le> f tid \<and> f tid < 32 then mask OR push_bit (nat (f tid)) 1 else mask) acc tids) k
   \<longleftrightarrow> bit acc k \<or> (k < 32 \<and> (\<exists>tid \<in> set tids. f tid = int k))"
proof (induction tids arbitrary: acc)
  case (Cons tid tids)
  have "bit (push_bit (nat (f tid)) (1 :: u32)) k \<longleftrightarrow> k < 32 \<and> k = nat (f tid)"
    by (auto simp: bit_exp_iff)
  then show ?case
    using Cons.IH by (auto simp: bit_or_iff)
qed simp

lemma cycle_mask_bit:
  "bit (cycle_mask_of s tids) k \<longleftrightarrow> k < 32 \<and> (\<exists>tid \<in> set tids. fst (find_thread tid False s) = Some k)"
  by (auto simp: cycle_mask_of_def Let_def foldl_or_bit thread_index_slot split: option.splits)

lemma wait_cycle_in_table:
  assumes "wait_cycle s ts ms" and "a \<in> set ts"
  obtains t where "running_thread s a t" and "th_waiting_mutex t \<noteq> 0"
  using assms by (auto simp: wait_cycle_def waits_for_def in_set_conv_nth)

lemma wait_cycle_length:
  assumes "wait_cycle s ts ms" and "length (thread_states s) = VERIFIER_MAX_THREADS"
  shows "length ts \<le> VERIFIER_MAX_THREADS"
proof -
  have "set ts \<subseteq> th_thread_id ` set (thread_states s)"
    using wait_cycle_in_table [OF assms(1)] by (metis image_eqI running_thread_def subsetI)
  then have "card (set ts) \<le> card (th_thread_id ` set (thread_states s))"
    by (simp add: card_mono)
  also have "\<dots> \<le> VERIFIER_MAX_THREADS"
    using card_image_le [of "set (thread_states s)"] card_length [of "thread_states s"] assms(2)
    by (metis List.finite_set order.trans)
  finally show ?thesis
    using assms(1) by (simp add: wait_cycle_def distinct_card)
qed

lemma find_any_cycle_sound:
  assumes "find_any_cycle s cycle_out_init = (True, out)"
  shows "wait_cycle s (take (unat (cy_length out)) (cy_threads out)) (take (unat (cy_length out)) (cy_mutexes out)) \<and>
    cy_mask out = cycle_mask_of s (take (unat (cy_length out)) (cy_threads out)) \<and>
    unat (cy_length out) \<le> VERIFIER_MAX_THREADS"
proof -
  have "closed_walk s out"
    using find_any_cycle_loop_sound [of s "thread_states s" cycle_out_init out] assms
    by (simp add: find_any_cycle_def cycle_out_init_def)
  then obtain len where len: "2 \<le> len" "len \<le> VERIFIER_MAX_THREADS" "cy_length out = of_nat len"
    "len \<le> length (cy_threads out)" "len \<le> length (cy_mutexes out)"
    "distinct (take len (cy_threads out))" "cy_mask out = cycle_mask_of s (take len (cy_threads out))"
    and edges: "\<forall>i < len. wait_edge s (cy_threads out ! i) = Some (cy_mutexes out ! i, cy_threads out ! (Suc i mod len))"
    by (auto simp: closed_walk_def)
  have n: "unat (cy_length out) = len"
    using len(2,3) by (simp add: unat_of_nat)
  have "waits_for s (cy_threads out ! i) (cy_mutexes out ! i) (cy_threads out ! (Suc i mod len))" if "i < len" for i
    using edges that by (intro wait_edge_sound) simp
  moreover have "Suc i mod len < len" for i using len(1) by simp
  ultimately show ?thesis
    using len(1,2,4-7) by (simp add: n wait_cycle_def)
qed

lemma find_any_cycle_complete:
  assumes d: "tables_distinct s" and l: "length (thread_states s) = VERIFIER_MAX_THREADS"
    and c: "wait_cycle s ts ms"
  shows "fst (find_any_cycle s out)"
proof -
  have L: "2 \<le> length ts" "distinct ts" using c by (auto simp: wait_cycle_def)
  then have pos: "0 < length ts" by linarith
  then have "ts ! 0 \<in> set ts" by (rule nth_mem)
  then obtain t where t: "running_thread s (ts ! 0) t" "th_waiting_mutex t \<noteq> 0"
    using wait_cycle_in_table [OF c] by blast
  have "wait_edge s (ts ! i) = Some (ms ! i, ts ! (Suc i mod length ts))" if "i < length ts" for i
    using c that by (intro wait_edge_complete [OF d]) (auto simp: wait_cycle_def)
  then have "fst (find_cycle_from (th_thread_id t) s out1)" for out1
    using find_cycle_loop_complete [OF L(2,1) wait_cycle_length [OF c l], of s ms 0 out1] t pos
    by (simp add: find_cycle_from_def running_thread_def)
  then show ?thesis
    unfolding find_any_cycle_def
    using t by (intro find_any_cycle_loop_complete [of t]) (auto simp: running_thread_def)
qed

lemma wait_cycle_mask_nonzero:
  assumes d: "tables_distinct s" and l: "length (thread_states s) = VERIFIER_MAX_THREADS"
    and c: "wait_cycle s ts ms"
  shows "cycle_mask_of s ts \<noteq> 0"
proof -
  have "ts ! 0 \<in> set ts" using c by (intro nth_mem) (auto simp: wait_cycle_def)
  then obtain t where t: "running_thread s (ts ! 0) t"
    using wait_cycle_in_table [OF c] by blast
  then obtain i where "fst (find_thread (ts ! 0) False s) = Some i" "i < VERIFIER_MAX_THREADS"
    using find_thread_unique [OF d, of t] l by (auto simp: running_thread_def)
  then have "bit (cycle_mask_of s ts) i"
    using \<open>ts ! 0 \<in> set ts\<close> by (auto simp: cycle_mask_bit)
  then show ?thesis by auto
qed

end
