(* ===== verification/Verifier_Events.thy ===== *)
theory Verifier_Events
  imports Verifier_Deadlock
begin

text \<open>
  \<^verbatim>\<open>src/monitor_verifier.c\<close>, last part: the event handlers, event processing and
  the summary.
\<close>

section \<open>Handlers\<close>

definition EPERM :: i32 where
  "EPERM = 1"

definition handle_thread_start :: "monitor_event \<Rightarrow> verifier_state \<Rightarrow> verifier_state" where
  "handle_thread_start event s =
     (case find_thread (ev_thread_id event) True s of
        (None, s1) \<Rightarrow> s1
      | (Some i, s1) \<Rightarrow> upd_thread i (\<lambda>t. t\<lparr>th_exited := False\<rparr>) s1)"

definition handle_thread_exit :: "monitor_event \<Rightarrow> verifier_state \<Rightarrow> verifier_state" where
  "handle_thread_exit event s =
     (case find_thread (ev_thread_id event) True s of
        (None, s1) \<Rightarrow> s1
      | (Some i, s1) \<Rightarrow>
          let thread = thread_states s1 ! i;
              s2 = (if \<not> th_trace_tainted thread \<and> th_held_count thread \<noteq> 0
                    then report_lock_held_at_thread_exit event thread s1 else s1);
              s3 = (if th_waiting_mutex (thread_states s2 ! i) \<noteq> 0
                    then clear_thread_waiting i (th_waiting_mutex (thread_states s2 ! i)) s2 else s2)
          in upd_thread i (\<lambda>t. t\<lparr>th_exited := True\<rparr>) s3)"

definition handle_lock_request :: "monitor_event \<Rightarrow> verifier_state \<Rightarrow> verifier_state" where
  "handle_lock_request event s =
     (case find_thread (ev_thread_id event) True s of
        (None, s1) \<Rightarrow> s1
      | (Some i, s1) \<Rightarrow>
          let s2 = snd (find_mutex (ev_object_address event) True s1);
              thread = thread_states s2 ! i;
              s3 = (if \<not> th_trace_tainted thread
                    then (if find_held_mutex thread (ev_object_address event) \<noteq> None
                          then report_self_deadlock_candidate event s2 else s2)
                    else s2)
          in set_thread_waiting i (ev_object_address event) (ev_sequence_id event) s3)"

text \<open>
  The guarded update of a mutex's ownership that \<open>handle_lock_acquired\<close> and
  \<open>handle_unlocked\<close> share: only an event at least as new as the newest accepted
  one changes it.
\<close>

definition accept_owner :: "u64 \<Rightarrow> u64 \<Rightarrow> verifier_mutex_state \<Rightarrow> verifier_mutex_state" where
  "accept_owner seqno owner m =
     (if mx_last_state_sequence m \<le> seqno
      then m\<lparr>mx_owner_known := True, mx_owner_thread_id := owner, mx_last_state_sequence := seqno\<rparr>
      else m)"

definition handle_lock_acquired :: "monitor_event \<Rightarrow> verifier_state \<Rightarrow> verifier_state" where
  "handle_lock_acquired event s =
     (case find_thread (ev_thread_id event) True s of (thread, s1) \<Rightarrow>
      case find_mutex (ev_object_address event) True s1 of (mutex, s2) \<Rightarrow>
      (case (thread, mutex) of
         (Some i, Some j) \<Rightarrow>
           let s3 = clear_thread_waiting i (ev_object_address event) s2;
               s4 = add_held_mutex i (ev_object_address event) (ev_timestamp_ns event) s3
           in upd_mutex j (accept_owner (ev_sequence_id event) (ev_thread_id event)) s4
       | _ \<Rightarrow> s2))"

definition handle_lock_failed :: "monitor_event \<Rightarrow> verifier_state \<Rightarrow> verifier_state" where
  "handle_lock_failed event s =
     (case find_thread (ev_thread_id event) False s of
        (None, s1) \<Rightarrow> s1
      | (Some i, s1) \<Rightarrow> clear_thread_waiting i (ev_object_address event) s1)"

definition handle_unlocked :: "monitor_event \<Rightarrow> verifier_state \<Rightarrow> verifier_state" where
  "handle_unlocked event s =
     (case find_thread (ev_thread_id event) False s of (thread, s1) \<Rightarrow>
      case find_mutex (ev_object_address event) True s1 of (mutex, s2) \<Rightarrow>
      case (case thread of None \<Rightarrow> (True, s2) | Some i \<Rightarrow> release_held_mutex i event s2) of
        (fully_released, s3) \<Rightarrow>
      (case mutex of
         None \<Rightarrow> s3
       | Some j \<Rightarrow>
           upd_mutex j (accept_owner (ev_sequence_id event)
                          (if fully_released then 0 else ev_thread_id event)) s3))"

definition handle_unlock_failed :: "monitor_event \<Rightarrow> verifier_state \<Rightarrow> verifier_state" where
  "handle_unlock_failed event s =
     (if ev_result event = EPERM then report_non_owner_unlock event s else s)"

section \<open>Event processing\<close>

text \<open>
  The dispatch of \<open>monitor_verifier_process_event\<close> on the event type; a type without a
  handler, also one outside the enumeration, changes nothing.
\<close>

definition dispatch_event :: "monitor_event \<Rightarrow> verifier_state \<Rightarrow> verifier_state" where
  "dispatch_event event s =
     (if ev_event_type event = event_code MONITOR_EVENT_THREAD_START then handle_thread_start event s
      else if ev_event_type event = event_code MONITOR_EVENT_THREAD_EXIT then handle_thread_exit event s
      else if ev_event_type event = event_code MONITOR_EVENT_LOCK_REQUEST then handle_lock_request event s
      else if ev_event_type event = event_code MONITOR_EVENT_LOCK_ACQUIRED then handle_lock_acquired event s
      else if ev_event_type event = event_code MONITOR_EVENT_LOCK_FAILED then handle_lock_failed event s
      else if ev_event_type event = event_code MONITOR_EVENT_UNLOCKED then handle_unlocked event s
      else if ev_event_type event = event_code MONITOR_EVENT_UNLOCK_FAILED then handle_unlock_failed event s
      else s)"

definition monitor_verifier_process_event ::
    "monitor_event option \<Rightarrow> verifier_state \<Rightarrow> verifier_state" where
  "monitor_verifier_process_event event_ptr s =
     (case event_ptr of
        None \<Rightarrow> s
      | Some event \<Rightarrow>
          let s1 = s\<lparr>processed_events := processed_events s + 1\<rparr>;
              s2 = (if last_processed_sequence s1 < ev_sequence_id event
                    then s1\<lparr>last_processed_sequence := ev_sequence_id event\<rparr> else s1)
          in case observe_thread_sequence event s2 of
               (None, s3) \<Rightarrow> s3
             | (Some _, s3) \<Rightarrow>
                 dispatch_event event
                   (s3\<lparr>candidate_cycle_mask := 0, candidate_cycle_confirmations := 0\<rparr>))"

section \<open>Summary\<close>

definition total_violations :: "verifier_state \<Rightarrow> u64" where
  "total_violations s =
     deadlock_cycle_violations s + non_owner_unlock_violations s + self_deadlock_candidates s +
     lock_held_at_exit_violations s + hold_time_violations s"

definition verifier_complete :: "verifier_state \<Rightarrow> bool" where
  "verifier_complete s \<longleftrightarrow> state_overflow_events s = 0 \<and> tainted_thread_streams s = 0"

definition summary_text :: "bool \<Rightarrow> verifier_state \<Rightarrow> string" where
  "summary_text trace_complete s =
     nl @ ''=== Runtime verifier summary ==='' @ nl @
     ''Processed events              : '' @ fmt_lu (processed_events s) @ nl @ nl @
     ''Violations:'' @ nl @
     ''  DEADLOCK_CYCLE              : '' @ fmt_lu (deadlock_cycle_violations s) @ nl @
     ''  NON_OWNER_UNLOCK            : '' @ fmt_lu (non_owner_unlock_violations s) @ nl @
     ''  SELF_DEADLOCK_CANDIDATE     : '' @ fmt_lu (self_deadlock_candidates s) @ nl @
     ''  LOCK_HELD_AT_THREAD_EXIT    : '' @ fmt_lu (lock_held_at_exit_violations s) @ nl @
     ''  HOLD_TIME_VIOLATION         : '' @ fmt_lu (hold_time_violations s) @ nl @ nl @
     ''Total violations              : '' @ fmt_lu (total_violations s) @ nl @
     ''Waiting threads               : '' @ fmt_u (waiting_thread_count s) @ nl @
     ''Detected stream gaps          : '' @ fmt_lu (detected_stream_gaps s) @ nl @
     ''Tainted thread streams        : '' @ fmt_u (tainted_thread_streams s) @ nl @
     ''State overflow events         : '' @ fmt_lu (state_overflow_events s) @ nl @
     ''Hold-time threshold           : '' @ fmt_lu (max_hold_ns s) @ '' ns'' @ nl @
     ''Verifier state                : '' @
       (if verifier_complete s then ''COMPLETE'' else ''DEGRADED'') @ nl @
     ''Interpretation                : '' @
       (if trace_complete \<and> verifier_complete s then ''AUTHORITATIVE''
        else ''INCOMPLETE TRACE - conclusions are provisional'') @ nl"

definition monitor_verifier_print_summary :: "bool \<Rightarrow> verifier_state \<Rightarrow> verifier_state" where
  "monitor_verifier_print_summary trace_complete s =
     s\<lparr>stderr_writes := snprintf_write 1792 (summary_text trace_complete s) (stderr_writes s)\<rparr>"

end
