(* ===== verification/Verifier_Inv.thy ===== *)
theory Verifier_Inv
  imports Verifier_Events
begin

text \<open>
  The verifier's invariant and its preservation: both tables keep their size and have no
  duplicate keys, free entries are zero, the live prefix of every held-mutex array has
  distinct addresses and positive depths and the rest of the array is zero, a tainted
  thread holds nothing, and the taint counter counts the tainted entries.  Closed forms
  of the stream operations (\<open>mark_tainted_eq\<close>, \<open>observe_eq\<close>, \<open>add_held_eq\<close>,
  \<open>release_held_eq\<close>) are proved on the way and carry the later theories.
\<close>

section \<open>Removing an array element by moving the last one into its place\<close>

definition swap_remove :: "nat \<Rightarrow> 'a list \<Rightarrow> 'a list" where
  "swap_remove k xs = (butlast xs)[k := last xs]"

lemma swap_remove_set:
  assumes "distinct xs" and "k < length xs"
  shows "set (swap_remove k xs) = set xs - {xs ! k}" and "distinct (swap_remove k xs)"
proof -
  obtain ys z where xs: "xs = ys @ [z]" using assms(2) by (cases xs rule: rev_cases) auto
  have "set (swap_remove k xs) = set xs - {xs ! k} \<and> distinct (swap_remove k xs)"
  proof (cases "k = length ys")
    case True
    then show ?thesis using assms xs by (auto simp: swap_remove_def list_update_beyond)
  next
    case False
    then have k: "k < length ys" using assms(2) xs by simp
    have "ys ! k \<noteq> z" using assms(1) xs k by auto
    then show ?thesis
      using assms xs k by (auto simp: swap_remove_def set_update_distinct nth_append distinct_list_update)
  qed
  then show "set (swap_remove k xs) = set xs - {xs ! k}" and "distinct (swap_remove k xs)" by auto
qed

lemma take_swap_remove:
  assumes "k < n" and "n \<le> length hs"
  shows "take (n - 1) (hs[k := hs ! (n - 1), n - 1 := z]) = swap_remove k (take n hs)"
    and "drop (n - 1) (hs[k := hs ! (n - 1), n - 1 := z]) = z # drop n hs"
proof -
  have last: "hs ! (n - 1) = last (take n hs)" using assms by (subst last_conv_nth) auto
  have "take (n - 1) hs = butlast (take n hs)" using assms by (simp add: butlast_take)
  with last show "take (n - 1) (hs[k := hs ! (n - 1), n - 1 := z]) = swap_remove k (take n hs)"
    by (simp add: swap_remove_def take_update_swap list_update_beyond)
  let ?ys = "hs[k := hs ! (n - 1), n - 1 := z]"
  have "drop (n - 1) ?ys = ?ys ! (n - 1) # drop n ?ys"
    using assms Cons_nth_drop_Suc [of "n - 1" ?ys] by (simp del: Cons_nth_drop_Suc)
  then show "drop (n - 1) ?ys = z # drop n hs"
    using assms by (simp add: nth_list_update_if) linarith
qed

section \<open>Invariant\<close>

definition live_held :: "verifier_thread_state \<Rightarrow> verifier_held_mutex list" where
  "live_held t = take (unat (th_held_count t)) (th_held_mutexes t)"

definition thread_wf :: "verifier_thread_state \<Rightarrow> bool" where
  "thread_wf t \<longleftrightarrow>
     length (th_held_mutexes t) = VERIFIER_MAX_HELD_MUTEXES \<and>
     unat (th_held_count t) \<le> VERIFIER_MAX_HELD_MUTEXES \<and>
     distinct (map hm_address (live_held t)) \<and>
     (\<forall>h \<in> set (live_held t). hm_depth h \<noteq> 0) \<and>
     (\<forall>h \<in> set (drop (unat (th_held_count t)) (th_held_mutexes t)). h = zero_held_mutex) \<and>
     (th_trace_tainted t \<longrightarrow> th_held_count t = 0) \<and>
     (\<not> th_used t \<longrightarrow> t = zero_thread)"

definition mutex_wf :: "verifier_mutex_state \<Rightarrow> bool" where
  "mutex_wf m \<longleftrightarrow> (\<not> mx_used m \<longrightarrow> m = zero_mutex) \<and>
     (\<not> mx_owner_known m \<longrightarrow> mx_owner_thread_id m = 0)"

definition verifier_wf :: "verifier_state \<Rightarrow> bool" where
  "verifier_wf s \<longleftrightarrow>
     length (thread_states s) = VERIFIER_MAX_THREADS \<and>
     length (mutex_states s) = VERIFIER_MAX_MUTEXES \<and>
     (\<forall>t \<in> set (thread_states s). thread_wf t) \<and>
     (\<forall>m \<in> set (mutex_states s). mutex_wf m) \<and>
     tables_distinct s \<and>
     tainted_thread_streams s = of_nat (count_if th_trace_tainted (thread_states s))"

definition waiting_count_ok :: "verifier_state \<Rightarrow> bool" where
  "waiting_count_ok s \<longleftrightarrow>
     waiting_thread_count s = of_nat (count_if (\<lambda>t. th_waiting_mutex t \<noteq> 0) (thread_states s))"

lemma thread_wf_zero: "thread_wf zero_thread"
  by (simp add: thread_wf_def zero_thread_def live_held_def)

lemma thread_wf_new: "thread_wf (zero_thread\<lparr>th_used := True, th_thread_id := tid\<rparr>)"
  by (simp add: thread_wf_def zero_thread_def live_held_def)

lemma wf_init: "verifier_wf (monitor_verifier_init env s)"
  by (simp add: verifier_wf_def monitor_verifier_init_def tables_distinct_def keys_distinct_def
      thread_wf_zero count_if_replicate mutex_wf_def) (simp add: zero_defs)

lemma wf_cong:
  assumes "thread_states s' = thread_states s" and "mutex_states s' = mutex_states s"
    and "tainted_thread_streams s' = tainted_thread_streams s"
  shows "verifier_wf s' = verifier_wf s"
  using assms by (simp add: verifier_wf_def tables_distinct_def)

lemma wf_other_fields [simp]:
  "verifier_wf (s\<lparr>processed_events := x\<rparr>) = verifier_wf s"
  "verifier_wf (s\<lparr>deadlock_cycle_violations := x\<rparr>) = verifier_wf s"
  "verifier_wf (s\<lparr>non_owner_unlock_violations := x\<rparr>) = verifier_wf s"
  "verifier_wf (s\<lparr>self_deadlock_candidates := x\<rparr>) = verifier_wf s"
  "verifier_wf (s\<lparr>lock_held_at_exit_violations := x\<rparr>) = verifier_wf s"
  "verifier_wf (s\<lparr>hold_time_violations := x\<rparr>) = verifier_wf s"
  "verifier_wf (s\<lparr>state_overflow_events := x\<rparr>) = verifier_wf s"
  "verifier_wf (s\<lparr>detected_stream_gaps := x\<rparr>) = verifier_wf s"
  "verifier_wf (s\<lparr>waiting_thread_count := y\<rparr>) = verifier_wf s"
  "verifier_wf (s\<lparr>candidate_cycle_mask := y\<rparr>) = verifier_wf s"
  "verifier_wf (s\<lparr>candidate_cycle_confirmations := y\<rparr>) = verifier_wf s"
  "verifier_wf (s\<lparr>reported_cycle_mask := y\<rparr>) = verifier_wf s"
  "verifier_wf (s\<lparr>last_processed_sequence := x\<rparr>) = verifier_wf s"
  "verifier_wf (s\<lparr>stderr_writes := z\<rparr>) = verifier_wf s"
  by (rule wf_cong; simp)+

lemma wf_upd_thread:
  assumes wf: "verifier_wf s" and i: "i < VERIFIER_MAX_THREADS"
    and t: "thread_wf (f (thread_states s ! i))"
    and same: "th_used (f (thread_states s ! i)) = th_used (thread_states s ! i)"
      "th_thread_id (f (thread_states s ! i)) = th_thread_id (thread_states s ! i)"
      "th_trace_tainted (f (thread_states s ! i)) = th_trace_tainted (thread_states s ! i)"
  shows "verifier_wf (upd_thread i f s)"
  using assms set_update_subset_insert [of "thread_states s" i "f (thread_states s ! i)"]
  by (auto simp: verifier_wf_def upd_thread_def tables_distinct_def keys_distinct_update_same
      count_if_update_same)

lemma wf_upd_mutex:
  assumes wf: "verifier_wf s" and m: "mutex_wf (f (mutex_states s ! j))"
    and same: "mx_used (f (mutex_states s ! j)) = mx_used (mutex_states s ! j)"
      "mx_address (f (mutex_states s ! j)) = mx_address (mutex_states s ! j)"
  shows "verifier_wf (upd_mutex j f s)"
  using assms set_update_subset_insert [of "mutex_states s" j "f (mutex_states s ! j)"]
  by (auto simp: verifier_wf_def upd_mutex_def tables_distinct_def keys_distinct_update_same)

lemma wf_threadD: "verifier_wf s \<Longrightarrow> i < VERIFIER_MAX_THREADS \<Longrightarrow> thread_wf (thread_states s ! i)"
  by (simp add: verifier_wf_def)

lemma wf_mutexD: "verifier_wf s \<Longrightarrow> j < VERIFIER_MAX_MUTEXES \<Longrightarrow> mutex_wf (mutex_states s ! j)"
  by (simp add: verifier_wf_def)


section \<open>Table entries by key\<close>

definition thread_slot :: "verifier_state \<Rightarrow> u64 \<Rightarrow> nat \<Rightarrow> bool" where
  "thread_slot s tid i \<longleftrightarrow> i < length (thread_states s) \<and> th_used (thread_states s ! i) \<and>
     th_thread_id (thread_states s ! i) = tid"

definition mutex_slot :: "verifier_state \<Rightarrow> uintptr \<Rightarrow> nat \<Rightarrow> bool" where
  "mutex_slot s addr j \<longleftrightarrow> j < length (mutex_states s) \<and> mx_used (mutex_states s ! j) \<and>
     mx_address (mutex_states s ! j) = addr"

lemma thread_slot_lt: "verifier_wf s \<Longrightarrow> thread_slot s tid i \<Longrightarrow> i < VERIFIER_MAX_THREADS"
  by (simp add: verifier_wf_def thread_slot_def)

lemma mutex_slot_lt: "verifier_wf s \<Longrightarrow> mutex_slot s a j \<Longrightarrow> j < VERIFIER_MAX_MUTEXES"
  by (simp add: verifier_wf_def mutex_slot_def)

lemma thread_slot_wf: "verifier_wf s \<Longrightarrow> thread_slot s tid i \<Longrightarrow> thread_wf (thread_states s ! i)"
  by (simp add: verifier_wf_def thread_slot_def)

lemma thread_slot_find:
  assumes "verifier_wf s" and "thread_slot s tid i"
  shows "find_thread tid c s = (Some i, s)"
proof -
  have "fst (find_thread_loop tid 0 None (thread_states s)) = Some i"
    using assms threads.scan_unique by (simp add: verifier_wf_def tables_distinct_def thread_slot_def)
  then show ?thesis
    by (cases "find_thread_loop tid 0 None (thread_states s)") (simp add: find_thread_def)
qed

lemma mutex_slot_find:
  assumes "verifier_wf s" and "mutex_slot s addr j"
  shows "find_mutex addr c s = (Some j, s)"
proof -
  have "fst (find_mutex_loop addr 0 None (mutex_states s)) = Some j"
    using assms mutexes.scan_unique by (simp add: verifier_wf_def tables_distinct_def mutex_slot_def)
  then show ?thesis
    by (cases "find_mutex_loop addr 0 None (mutex_states s)") (simp add: find_mutex_def)
qed

lemma thread_slot_unique:
  "verifier_wf s \<Longrightarrow> thread_slot s tid i \<Longrightarrow> thread_slot s tid k \<Longrightarrow> i = k"
  using thread_slot_find [of s tid i True] thread_slot_find [of s tid k True] by simp

abbreviation new_thread :: "u64 \<Rightarrow> verifier_thread_state" where
  "new_thread tid \<equiv> zero_thread\<lparr>th_used := True, th_thread_id := tid\<rparr>"

abbreviation new_mutex :: "uintptr \<Rightarrow> verifier_mutex_state" where
  "new_mutex addr \<equiv> zero_mutex\<lparr>mx_used := True, mx_owner_known := False, mx_address := addr\<rparr>"

lemma find_thread_create:
  assumes wf: "verifier_wf s"
  obtains (Known) i where "find_thread tid True s = (Some i, s)" and "thread_slot s tid i"
  | (New) i where "find_thread tid True s =
        (Some i, s\<lparr>thread_states := (thread_states s)[i := new_thread tid]\<rparr>)"
      and "\<And>k. \<not> thread_slot s tid k" and "i < VERIFIER_MAX_THREADS" and "\<not> th_used (thread_states s ! i)"
  | (Full) "find_thread tid True s = (None, s\<lparr>state_overflow_events := state_overflow_events s + 1\<rparr>)"
      and "\<And>k. \<not> thread_slot s tid k" and "count_if th_used (thread_states s) = VERIFIER_MAX_THREADS"
proof (cases "find_thread_loop tid 0 None (thread_states s)")
  case (Pair found free)
  have len: "length (thread_states s) = VERIFIER_MAX_THREADS" using wf by (simp add: verifier_wf_def)
  show ?thesis
  proof (cases found)
    case (Some i)
    with Pair threads.scan_found [of tid "thread_states s" i] show ?thesis
      by (intro Known) (simp_all add: find_thread_def thread_slot_def)
  next
    case None
    have nos: "\<not> thread_slot s tid k" for k
      using threads.scan_missing [of tid "thread_states s" "thread_states s ! k"] Pair None
      by (auto simp: thread_slot_def)
    show ?thesis
    proof (cases free)
      case (Some i)
      with Pair None nos len threads.scan_free [of tid "thread_states s" i] show ?thesis
        by (intro New) (auto simp: find_thread_def)
    next
      case None2: None
      with Pair None nos len threads.scan_full_count [of tid "thread_states s"] show ?thesis
        by (intro Full) (simp_all add: find_thread_def)
    qed
  qed
qed

lemma find_mutex_create:
  assumes wf: "verifier_wf s"
  obtains (Known) j where "find_mutex addr True s = (Some j, s)" and "mutex_slot s addr j"
  | (New) j where "find_mutex addr True s =
        (Some j, s\<lparr>mutex_states := (mutex_states s)[j := new_mutex addr]\<rparr>)"
      and "\<And>k. \<not> mutex_slot s addr k" and "j < VERIFIER_MAX_MUTEXES" and "\<not> mx_used (mutex_states s ! j)"
  | (Full) "find_mutex addr True s = (None, s\<lparr>state_overflow_events := state_overflow_events s + 1\<rparr>)"
      and "\<And>k. \<not> mutex_slot s addr k" and "count_if mx_used (mutex_states s) = VERIFIER_MAX_MUTEXES"
proof (cases "find_mutex_loop addr 0 None (mutex_states s)")
  case (Pair found free)
  have len: "length (mutex_states s) = VERIFIER_MAX_MUTEXES" using wf by (simp add: verifier_wf_def)
  show ?thesis
  proof (cases found)
    case (Some i)
    with Pair mutexes.scan_found [of addr "mutex_states s" i] show ?thesis
      by (intro Known) (simp_all add: find_mutex_def mutex_slot_def)
  next
    case None
    have nos: "\<not> mutex_slot s addr k" for k
      using mutexes.scan_missing [of addr "mutex_states s" "mutex_states s ! k"] Pair None
      by (auto simp: mutex_slot_def)
    show ?thesis
    proof (cases free)
      case (Some i)
      with Pair None nos len mutexes.scan_free [of addr "mutex_states s" i] show ?thesis
        by (intro New) (auto simp: find_mutex_def)
    next
      case None2: None
      with Pair None nos len mutexes.scan_full_count [of addr "mutex_states s"] show ?thesis
        by (intro Full) (simp_all add: find_mutex_def)
    qed
  qed
qed


section \<open>Frame of the primitives\<close>

lemma upd_thread_fields [simp]:
  "thread_states (upd_thread i f s) = (thread_states s)[i := f (thread_states s ! i)]"
  "mutex_states (upd_thread i f s) = mutex_states s"
  "processed_events (upd_thread i f s) = processed_events s"
  "deadlock_cycle_violations (upd_thread i f s) = deadlock_cycle_violations s"
  "non_owner_unlock_violations (upd_thread i f s) = non_owner_unlock_violations s"
  "self_deadlock_candidates (upd_thread i f s) = self_deadlock_candidates s"
  "lock_held_at_exit_violations (upd_thread i f s) = lock_held_at_exit_violations s"
  "hold_time_violations (upd_thread i f s) = hold_time_violations s"
  "state_overflow_events (upd_thread i f s) = state_overflow_events s"
  "detected_stream_gaps (upd_thread i f s) = detected_stream_gaps s"
  "tainted_thread_streams (upd_thread i f s) = tainted_thread_streams s"
  "max_hold_ns (upd_thread i f s) = max_hold_ns s"
  "waiting_thread_count (upd_thread i f s) = waiting_thread_count s"
  "candidate_cycle_mask (upd_thread i f s) = candidate_cycle_mask s"
  "candidate_cycle_confirmations (upd_thread i f s) = candidate_cycle_confirmations s"
  "reported_cycle_mask (upd_thread i f s) = reported_cycle_mask s"
  "last_processed_sequence (upd_thread i f s) = last_processed_sequence s"
  "stderr_writes (upd_thread i f s) = stderr_writes s"
  by (simp_all add: upd_thread_def)

lemma upd_mutex_fields [simp]:
  "thread_states (upd_mutex i g s) = thread_states s"
  "mutex_states (upd_mutex i g s) = (mutex_states s)[i := g (mutex_states s ! i)]"
  "processed_events (upd_mutex i g s) = processed_events s"
  "deadlock_cycle_violations (upd_mutex i g s) = deadlock_cycle_violations s"
  "non_owner_unlock_violations (upd_mutex i g s) = non_owner_unlock_violations s"
  "self_deadlock_candidates (upd_mutex i g s) = self_deadlock_candidates s"
  "lock_held_at_exit_violations (upd_mutex i g s) = lock_held_at_exit_violations s"
  "hold_time_violations (upd_mutex i g s) = hold_time_violations s"
  "state_overflow_events (upd_mutex i g s) = state_overflow_events s"
  "detected_stream_gaps (upd_mutex i g s) = detected_stream_gaps s"
  "tainted_thread_streams (upd_mutex i g s) = tainted_thread_streams s"
  "max_hold_ns (upd_mutex i g s) = max_hold_ns s"
  "waiting_thread_count (upd_mutex i g s) = waiting_thread_count s"
  "candidate_cycle_mask (upd_mutex i g s) = candidate_cycle_mask s"
  "candidate_cycle_confirmations (upd_mutex i g s) = candidate_cycle_confirmations s"
  "reported_cycle_mask (upd_mutex i g s) = reported_cycle_mask s"
  "last_processed_sequence (upd_mutex i g s) = last_processed_sequence s"
  "stderr_writes (upd_mutex i g s) = stderr_writes s"
  by (simp_all add: upd_mutex_def)

section \<open>Every primitive keeps the invariant\<close>

lemma thread_wf_fields [simp]:
  assumes "th_used t"
  shows "thread_wf (t\<lparr>th_exited := b\<rparr>) = thread_wf t"
    and "thread_wf (t\<lparr>th_sequence_initialized := b\<rparr>) = thread_wf t"
    and "thread_wf (t\<lparr>th_next_expected_sequence := n\<rparr>) = thread_wf t"
    and "thread_wf (t\<lparr>th_waiting_mutex := a, th_waiting_sequence := q\<rparr>) = thread_wf t"
  using assms by (simp_all add: thread_wf_def live_held_def)

lemma thread_wf_zero_entry: "thread_wf t \<Longrightarrow> \<not> th_used t \<Longrightarrow> t = zero_thread"
  by (simp add: thread_wf_def)

lemma wf_find_thread:
  assumes "verifier_wf s"
  shows "verifier_wf (snd (find_thread tid c s))"
proof (cases c)
  case True
  from assms show ?thesis
  proof (cases rule: find_thread_create [where tid = tid])
    case (New i)
    have free: "thread_states s ! i = zero_thread"
      using New assms wf_threadD thread_wf_zero_entry by blast
    have none: "fst (find_thread_loop tid 0 None (thread_states s)) = None"
      using New(2) threads.scan_found [of tid "thread_states s"]
      by (cases "fst (find_thread_loop tid 0 None (thread_states s))") (auto simp: thread_slot_def)
    show ?thesis
      using assms New True free none thread_wf_new [of tid] set_update_subset_insert [of "thread_states s" i "new_thread tid"]
        threads.keys_distinct_insert [of "thread_states s" "new_thread tid" i]
      by (auto simp: verifier_wf_def tables_distinct_def count_if_update_same zero_thread_def)
  qed (use assms True in simp_all)
qed (simp add: find_thread_False assms)

lemma wf_find_mutex:
  assumes "verifier_wf s"
  shows "verifier_wf (snd (find_mutex a c s))"
proof (cases c)
  case True
  from assms show ?thesis
  proof (cases rule: find_mutex_create [where addr = a])
    case (New i)
    have none: "fst (find_mutex_loop a 0 None (mutex_states s)) = None"
      using New(2) mutexes.scan_found [of a "mutex_states s"]
      by (cases "fst (find_mutex_loop a 0 None (mutex_states s))") (auto simp: mutex_slot_def)
    have "mutex_wf (new_mutex a)" by (simp add: mutex_wf_def zero_mutex_def)
    then show ?thesis
      using assms New True none set_update_subset_insert [of "mutex_states s" i "new_mutex a"]
        mutexes.keys_distinct_insert [of "mutex_states s" "new_mutex a" i]
      by (auto simp: verifier_wf_def tables_distinct_def)
  qed (use assms True in simp_all)
qed (simp add: find_mutex_False assms)

lemma wf_set_waiting:
  "verifier_wf s \<Longrightarrow> thread_slot s tid i \<Longrightarrow> verifier_wf (set_thread_waiting i a q s)"
  by (auto simp: set_thread_waiting_def Let_def thread_slot_def verifier_wf_def[of s] intro!: wf_upd_thread)

lemma wf_clear_waiting:
  "verifier_wf s \<Longrightarrow> thread_slot s tid i \<Longrightarrow> verifier_wf (clear_thread_waiting i a s)"
  by (auto simp: clear_thread_waiting_def Let_def thread_slot_def verifier_wf_def[of s] intro!: wf_upd_thread)


section \<open>The held-mutex array\<close>

lemma find_held_NoneD: "find_held_mutex t a = None \<Longrightarrow> h \<in> set (live_held t) \<Longrightarrow> hm_address h \<noteq> a"
  by (simp add: find_held_mutex_def live_held_def first_index_None_iff)

lemma find_held_SomeD:
  assumes "thread_wf t" and "find_held_mutex t a = Some k"
  shows "k < unat (th_held_count t)" and "k < length (th_held_mutexes t)"
    and "hm_address (th_held_mutexes t ! k) = a" and "live_held t ! k = th_held_mutexes t ! k"
    and "th_held_mutexes t ! k \<in> set (live_held t)"
proof -
  note k = first_index_SomeD [OF assms(2) [unfolded find_held_mutex_def]]
  show "k < unat (th_held_count t)" and "k < length (th_held_mutexes t)"
    and "hm_address (th_held_mutexes t ! k) = a" and "live_held t ! k = th_held_mutexes t ! k"
    using k by (simp_all add: live_held_def)
  then show "th_held_mutexes t ! k \<in> set (live_held t)"
    using k(1) nth_mem [of k "live_held t"] by (simp add: live_held_def)
qed

lemma thread_wf_count:
  assumes "thread_wf t"
  shows "unat (th_held_count t) \<le> 32" and "length (th_held_mutexes t) = 32"
  using assms by (simp_all add: thread_wf_def)

lemma length_live_held: "thread_wf t \<Longrightarrow> length (live_held t) = unat (th_held_count t)"
  by (simp add: thread_wf_def live_held_def)

definition bump_held :: "nat \<Rightarrow> u32 \<Rightarrow> verifier_thread_state \<Rightarrow> verifier_thread_state" where
  "bump_held k d t = t\<lparr>th_held_mutexes := (th_held_mutexes t)[k := (th_held_mutexes t ! k)\<lparr>hm_depth := d\<rparr>]\<rparr>"

lemma live_bump_held:
  assumes "thread_wf t" and "k < unat (th_held_count t)"
  shows "live_held (bump_held k d t) = (live_held t)[k := (live_held t ! k)\<lparr>hm_depth := d\<rparr>]"
  using assms by (simp add: live_held_def bump_held_def take_update_swap)

lemma map_update_same: "f y = f (xs ! k) \<Longrightarrow> map f (xs[k := y]) = map f xs"
  by (cases "k < length xs") (auto simp: map_update list_update_beyond intro: list_update_same_conv [THEN iffD2])

lemma thread_wf_bump:
  assumes wf: "thread_wf t" and used: "th_used t" and k: "k < unat (th_held_count t)" and d: "d \<noteq> 0"
  shows "thread_wf (bump_held k d t)"
proof -
  let ?t = "bump_held k d t"
  have "map hm_address (live_held ?t) = map hm_address (live_held t)"
    by (simp add: live_bump_held [OF wf k] map_update_same)
  moreover have "hm_depth h \<noteq> 0" if "h \<in> set (live_held ?t)" for h
  proof -
    have "h \<in> insert ((live_held t ! k)\<lparr>hm_depth := d\<rparr>) (set (live_held t))"
      using that set_update_subset_insert unfolding live_bump_held [OF wf k] by fastforce
    with wf d show ?thesis by (auto simp: thread_wf_def)
  qed
  moreover have "drop (unat (th_held_count t)) (th_held_mutexes ?t) = drop (unat (th_held_count t)) (th_held_mutexes t)"
    using k by (simp add: bump_held_def)
  ultimately show ?thesis
    using wf used by (simp add: thread_wf_def) (simp add: bump_held_def)
qed

definition push_held :: "uintptr \<Rightarrow> u64 \<Rightarrow> verifier_thread_state \<Rightarrow> verifier_thread_state" where
  "push_held a ts t = t\<lparr>th_held_mutexes := (th_held_mutexes t)
     [unat (th_held_count t) := \<lparr>hm_address = a, hm_first_acquired_timestamp_ns = ts, hm_depth = 1\<rparr>],
     th_held_count := th_held_count t + 1\<rparr>"

lemma unat_held_Suc:
  assumes "thread_wf t"
  shows "unat (th_held_count t + 1) = Suc (unat (th_held_count t))"
  using thread_wf_count [OF assms] by (intro unat_Suc_u32) simp

lemma live_push_held:
  assumes "thread_wf t" and "unat (th_held_count t) < 32"
  shows "live_held (push_held a ts t) =
    live_held t @ [\<lparr>hm_address = a, hm_first_acquired_timestamp_ns = ts, hm_depth = 1\<rparr>]"
  using assms thread_wf_count [OF assms(1)] unat_held_Suc [OF assms(1)]
  by (simp add: live_held_def push_held_def take_Suc_conv_app_nth)

lemma thread_wf_push:
  assumes wf: "thread_wf t" and used: "th_used t" and nt: "\<not> th_trace_tainted t"
    and n: "unat (th_held_count t) < 32" and new: "find_held_mutex t a = None"
  shows "thread_wf (push_held a ts t)"
proof -
  let ?t = "push_held a ts t"
  have "set (drop (Suc (unat (th_held_count t))) (th_held_mutexes t)) \<subseteq> set (drop (unat (th_held_count t)) (th_held_mutexes t))"
    by (rule set_drop_subset_set_drop) simp
  then have z: "\<forall>h \<in> set (drop (Suc (unat (th_held_count t))) (th_held_mutexes ?t)). h = zero_held_mutex"
    using wf by (auto simp: push_held_def thread_wf_def)
  have "distinct (map hm_address (live_held ?t))"
    using wf find_held_NoneD [OF new] by (auto simp: live_push_held [OF wf n] thread_wf_def)
  moreover have "\<forall>h \<in> set (live_held ?t). hm_depth h \<noteq> 0"
    using wf by (auto simp: live_push_held [OF wf n] thread_wf_def)
  moreover have "th_used ?t" "\<not> th_trace_tainted ?t" "length (th_held_mutexes ?t) = 32"
    "unat (th_held_count ?t) = Suc (unat (th_held_count t))"
    using used nt thread_wf_count [OF wf] unat_held_Suc [OF wf] by (simp_all add: push_held_def)
  ultimately show ?thesis
    using n z by (simp add: thread_wf_def)
qed

definition drop_held :: "nat \<Rightarrow> verifier_thread_state \<Rightarrow> verifier_thread_state" where
  "drop_held k t = t\<lparr>th_held_mutexes := (th_held_mutexes t)
     [k := th_held_mutexes t ! unat (th_held_count t - 1), unat (th_held_count t - 1) := zero_held_mutex],
     th_held_count := th_held_count t - 1\<rparr>"

lemma drop_held_arrays:
  assumes wf: "thread_wf t" and k: "k < unat (th_held_count t)"
  shows "live_held (drop_held k t) = swap_remove k (live_held t)"
    and "drop (unat (th_held_count (drop_held k t))) (th_held_mutexes (drop_held k t))
         = zero_held_mutex # drop (unat (th_held_count t)) (th_held_mutexes t)"
proof -
  have n: "unat (th_held_count t - 1) = unat (th_held_count t) - 1" using k by (intro unat_pred) auto
  have le: "unat (th_held_count t) \<le> length (th_held_mutexes t)" using thread_wf_count [OF wf] by simp
  show "live_held (drop_held k t) = swap_remove k (live_held t)"
    using take_swap_remove(1) [OF k le] n by (simp add: live_held_def drop_held_def)
  show "drop (unat (th_held_count (drop_held k t))) (th_held_mutexes (drop_held k t))
         = zero_held_mutex # drop (unat (th_held_count t)) (th_held_mutexes t)"
    using take_swap_remove(2) [OF k le] n by (simp add: drop_held_def)
qed

lemma map_swap_remove: "k < length xs \<Longrightarrow> map f (swap_remove k xs) = swap_remove k (map f xs)"
  by (cases xs rule: rev_cases) (simp_all add: swap_remove_def map_update)

lemma thread_wf_drop:
  assumes wf: "thread_wf t" and used: "th_used t" and k: "k < unat (th_held_count t)"
  shows "thread_wf (drop_held k t)"
proof -
  note arr = drop_held_arrays [OF wf k]
  have kl: "k < length (live_held t)" using k length_live_held [OF wf] by simp
  have d: "distinct (map hm_address (live_held t))" using wf by (simp add: thread_wf_def)
  then have dl: "distinct (live_held t)" by (simp add: distinct_map)
  have "unat (th_held_count (drop_held k t)) \<le> 32"
  proof -
    have "th_held_count t \<noteq> 0" using k by auto
    then show ?thesis using thread_wf_count [OF wf] unat_pred [of "th_held_count t"] by (simp add: drop_held_def)
  qed
  moreover have "distinct (map hm_address (swap_remove k (live_held t)))"
    using swap_remove_set(2) [OF d] kl by (simp add: map_swap_remove)
  moreover have "\<forall>h \<in> set (swap_remove k (live_held t)). hm_depth h \<noteq> 0"
    using swap_remove_set(1) [OF dl kl] wf by (auto simp: thread_wf_def)
  moreover have "th_trace_tainted t \<longrightarrow> th_held_count (drop_held k t) = 0"
    using wf k by (auto simp: thread_wf_def)
  ultimately show ?thesis
    using wf used by (simp add: thread_wf_def arr) (simp add: drop_held_def)
qed


section \<open>Stream operations\<close>

lemma add_held_eq:
  "add_held_mutex i a ts s =
     (let t = thread_states s ! i in
      if th_trace_tainted t then s
      else case find_held_mutex t a of
        Some k \<Rightarrow> if hm_depth (th_held_mutexes t ! k) < UINT32_MAX
                  then upd_thread i (bump_held k (hm_depth (th_held_mutexes t ! k) + 1)) s else s
      | None \<Rightarrow> if 32 \<le> th_held_count t
                then s\<lparr>state_overflow_events := state_overflow_events s + 1\<rparr>
                else upd_thread i (push_held a ts) s)"
  by (simp add: add_held_mutex_def upd_thread_def bump_held_def push_held_def Let_def split: option.splits)

lemma release_held_eq:
  "release_held_mutex i e s =
     (let t = thread_states s ! i in
      if th_trace_tainted t then (True, s)
      else case find_held_mutex t (ev_object_address e) of
        None \<Rightarrow> (True, s)
      | Some k \<Rightarrow>
          let h = th_held_mutexes t ! k in
          if 1 < hm_depth h then (False, upd_thread i (bump_held k (hm_depth h - 1)) s)
          else let held_ns = (if hm_first_acquired_timestamp_ns h \<le> ev_timestamp_ns e
                              then ev_timestamp_ns e - hm_first_acquired_timestamp_ns h else 0)
               in (True, upd_thread i (drop_held k)
                    (if max_hold_ns s \<noteq> 0 \<and> max_hold_ns s < held_ns
                     then report_hold_time_violation e held_ns s else s)))"
  by (simp add: release_held_mutex_def upd_thread_def bump_held_def drop_held_def Let_def
      report_hold_time_violation_def split: option.splits)

lemma held_keep [simp]:
  "th_used (bump_held k d t) = th_used t" "th_thread_id (bump_held k d t) = th_thread_id t"
  "th_trace_tainted (bump_held k d t) = th_trace_tainted t" "th_waiting_mutex (bump_held k d t) = th_waiting_mutex t"
  "th_used (push_held a ts t) = th_used t" "th_thread_id (push_held a ts t) = th_thread_id t"
  "th_trace_tainted (push_held a ts t) = th_trace_tainted t" "th_waiting_mutex (push_held a ts t) = th_waiting_mutex t"
  "th_used (drop_held k t) = th_used t" "th_thread_id (drop_held k t) = th_thread_id t"
  "th_trace_tainted (drop_held k t) = th_trace_tainted t" "th_waiting_mutex (drop_held k t) = th_waiting_mutex t"
  by (simp_all add: bump_held_def push_held_def drop_held_def)

lemma wf_report [simp]:
  "verifier_wf (report_hold_time_violation e n s) = verifier_wf s"
  "verifier_wf (report_self_deadlock_candidate e s) = verifier_wf s"
  "verifier_wf (report_non_owner_unlock e s) = verifier_wf s"
  "verifier_wf (report_lock_held_at_thread_exit e t s) = verifier_wf s"
  "verifier_wf (report_deadlock_cycle ts ms len s) = verifier_wf s"
  by (simp_all add: report_hold_time_violation_def report_self_deadlock_candidate_def
      report_non_owner_unlock_def report_lock_held_at_thread_exit_def report_deadlock_cycle_def)

lemma depth_inc: "(d :: u32) < UINT32_MAX \<Longrightarrow> d + 1 \<noteq> 0"
  by (auto simp: add_eq_0_iff2)

lemma wf_add_held:
  assumes wf: "verifier_wf s" and slot: "thread_slot s tid i"
  shows "verifier_wf (add_held_mutex i a ts s)"
proof -
  let ?t = "thread_states s ! i"
  have i: "i < VERIFIER_MAX_THREADS" using assms by (rule thread_slot_lt)
  have t: "thread_wf ?t" "th_used ?t" using assms by (auto simp: thread_slot_wf thread_slot_def)
  show ?thesis
  proof (cases "find_held_mutex ?t a")
    case None
    have "unat (th_held_count ?t) < 32" if "\<not> 32 \<le> th_held_count ?t"
      using that by (simp add: word_le_nat_alt)
    with None t show ?thesis
      by (auto simp: add_held_eq Let_def wf i intro!: wf_upd_thread thread_wf_push)
  next
    case (Some k)
    then show ?thesis
      using find_held_SomeD [OF t(1) Some] t
      by (auto simp: add_held_eq Let_def wf i depth_inc intro!: wf_upd_thread thread_wf_bump)
  qed
qed

lemma wf_release_held:
  assumes wf: "verifier_wf s" and slot: "thread_slot s tid i"
  shows "verifier_wf (snd (release_held_mutex i e s))"
proof -
  let ?t = "thread_states s ! i"
  have i: "i < VERIFIER_MAX_THREADS" using assms by (rule thread_slot_lt)
  have t: "thread_wf ?t" "th_used ?t" using assms by (auto simp: thread_slot_wf thread_slot_def)
  show ?thesis
  proof (cases "find_held_mutex ?t (ev_object_address e)")
    case (Some k)
    have "d - 1 \<noteq> 0" if "1 < d" for d :: u32 using that by auto
    with Some show ?thesis
      using find_held_SomeD [OF t(1) Some] t
      by (auto simp: release_held_eq Let_def wf i report_hold_time_violation_def intro!: wf_upd_thread thread_wf_bump thread_wf_drop)
  qed (simp add: release_held_eq wf Let_def)
qed

section \<open>Tainting\<close>

definition taint_thread :: "verifier_thread_state \<Rightarrow> verifier_thread_state" where
  "taint_thread t =
     (if th_waiting_mutex t \<noteq> 0
      then t\<lparr>th_trace_tainted := True, th_waiting_mutex := 0, th_waiting_sequence := 0\<rparr>
      else t\<lparr>th_trace_tainted := True\<rparr>)
       \<lparr>th_held_mutexes := replicate VERIFIER_MAX_HELD_MUTEXES zero_held_mutex, th_held_count := 0\<rparr>"

lemma taint_thread_fields [simp]:
  "th_used (taint_thread t) = th_used t" "th_thread_id (taint_thread t) = th_thread_id t"
  "th_trace_tainted (taint_thread t)" "th_waiting_mutex (taint_thread t) = 0"
  "th_exited (taint_thread t) = th_exited t" "th_held_count (taint_thread t) = 0"
  "th_next_expected_sequence (taint_thread t) = th_next_expected_sequence t"
  "th_sequence_initialized (taint_thread t) = th_sequence_initialized t"
  by (simp_all add: taint_thread_def)

lemma live_taint [simp]: "live_held (taint_thread t) = []"
  by (simp add: live_held_def)

lemma thread_wf_taint: "th_used t \<Longrightarrow> thread_wf (taint_thread t)"
  by (simp add: thread_wf_def) (simp add: taint_thread_def)

lemma mark_tainted_eq:
  assumes "i < length (thread_states s)" and "\<not> th_trace_tainted (thread_states s ! i)"
  shows "mark_thread_stream_tainted i b s =
    s\<lparr>thread_states := (thread_states s)[i := taint_thread (thread_states s ! i)],
      mutex_states := map (invalidate_mutex (th_thread_id (thread_states s ! i)) b) (mutex_states s),
      tainted_thread_streams := tainted_thread_streams s + 1,
      waiting_thread_count := (if th_waiting_mutex (thread_states s ! i) \<noteq> 0 \<and> waiting_thread_count s \<noteq> 0
                               then waiting_thread_count s - 1 else waiting_thread_count s)\<rparr>"
  using assms
  by (intro verifier_state.equality)
    (simp_all add: mark_thread_stream_tainted_def Let_def upd_thread_def
      invalidate_mutexes_owned_by_thread_def taint_thread_def)

lemma invalidate_mutex_keep [simp]:
  "mx_used (invalidate_mutex tid b m) = mx_used m"
  "mx_address (invalidate_mutex tid b m) = mx_address m"
  by (simp_all add: invalidate_mutex_def)

lemma mutex_wf_invalidate: "mutex_wf m \<Longrightarrow> mutex_wf (invalidate_mutex tid b m)"
  by (auto simp: mutex_wf_def invalidate_mutex_def)

lemma wf_mark_tainted:
  assumes wf: "verifier_wf s" and slot: "thread_slot s tid i"
  shows "verifier_wf (mark_thread_stream_tainted i b s)"
proof (cases "th_trace_tainted (thread_states s ! i)")
  case False
  let ?t = "taint_thread (thread_states s ! i)"
  have i: "i < length (thread_states s)" using slot by (simp add: thread_slot_def)
  have t: "thread_wf ?t" using slot by (simp add: thread_wf_taint thread_slot_def)
  have "count_if th_trace_tainted ((thread_states s)[i := ?t]) = Suc (count_if th_trace_tainted (thread_states s))"
    using count_if_update [OF i, of th_trace_tainted ?t] False by simp
  moreover have "keys_distinct mx_used mx_address (map (invalidate_mutex u b) (mutex_states s))" for u
    using wf by (intro keys_distinct_map_same) (auto simp: verifier_wf_def tables_distinct_def)
  ultimately show ?thesis
    using wf t set_update_subset_insert [of "thread_states s" i ?t]
    by (auto simp: mark_tainted_eq [OF i False] verifier_wf_def tables_distinct_def keys_distinct_update_same
        mutex_wf_invalidate)
qed (simp add: mark_thread_stream_tainted_def wf)

lemma thread_slot_mark [simp]:
  "thread_slot (mark_thread_stream_tainted k b s) tid i = thread_slot s tid i"
proof (cases "th_trace_tainted (thread_states s ! k)")
  case False
  then show ?thesis
    by (auto simp: mark_thread_stream_tainted_def Let_def invalidate_mutexes_owned_by_thread_def
       thread_slot_def nth_list_update_if)
qed (simp add: mark_thread_stream_tainted_def)

lemma thread_slot_cong: "thread_states s' = thread_states s \<Longrightarrow> thread_slot s' = thread_slot s"
  by (simp add: fun_eq_iff thread_slot_def)

lemma thread_slot_other_fields [simp]:
  "thread_slot (s\<lparr>mutex_states := ms\<rparr>) = thread_slot s"
  "thread_slot (s\<lparr>processed_events := x\<rparr>) = thread_slot s"
  "thread_slot (s\<lparr>state_overflow_events := x\<rparr>) = thread_slot s"
  "thread_slot (s\<lparr>detected_stream_gaps := x\<rparr>) = thread_slot s"
  "thread_slot (s\<lparr>waiting_thread_count := y\<rparr>) = thread_slot s"
  "thread_slot (s\<lparr>candidate_cycle_mask := y\<rparr>) = thread_slot s"
  "thread_slot (s\<lparr>candidate_cycle_confirmations := y\<rparr>) = thread_slot s"
  "thread_slot (s\<lparr>last_processed_sequence := x\<rparr>) = thread_slot s"
  "thread_slot (upd_mutex j g s) = thread_slot s"
  by (rule thread_slot_cong; simp)+

lemma thread_slot_upd:
  assumes "th_used (f (thread_states s ! k)) = th_used (thread_states s ! k)"
    and "th_thread_id (f (thread_states s ! k)) = th_thread_id (thread_states s ! k)"
  shows "thread_slot (upd_thread k f s) = thread_slot s"
  using assms by (auto simp: fun_eq_iff thread_slot_def nth_list_update_if)

lemma thread_slot_ops [simp]:
  "thread_slot (set_thread_waiting k a q s) = thread_slot s"
  "thread_slot (clear_thread_waiting k a s) = thread_slot s"
  "thread_slot (report_hold_time_violation e n s) = thread_slot s"
  "thread_slot (report_self_deadlock_candidate e s) = thread_slot s"
  "thread_slot (report_non_owner_unlock e s) = thread_slot s"
  "thread_slot (report_lock_held_at_thread_exit e t s) = thread_slot s"
  "thread_slot (add_held_mutex k a ts s) = thread_slot s"
  "thread_slot (snd (release_held_mutex k e s)) = thread_slot s"
  "thread_slot (snd (find_mutex a c s)) = thread_slot s"
proof -
  show rep: "thread_slot (report_hold_time_violation e n s) = thread_slot s"
    "thread_slot (report_self_deadlock_candidate e s) = thread_slot s"
    "thread_slot (report_non_owner_unlock e s) = thread_slot s"
    "thread_slot (report_lock_held_at_thread_exit e t s) = thread_slot s" for e n t s
    by (rule thread_slot_cong; simp add: report_hold_time_violation_def report_self_deadlock_candidate_def
        report_non_owner_unlock_def report_lock_held_at_thread_exit_def)+
  show "thread_slot (set_thread_waiting k a q s) = thread_slot s"
    "thread_slot (clear_thread_waiting k a s) = thread_slot s"
    by (simp_all add: set_thread_waiting_def clear_thread_waiting_def Let_def thread_slot_upd)
  show "thread_slot (add_held_mutex k a ts s) = thread_slot s"
    by (simp add: add_held_eq Let_def thread_slot_upd split: option.splits)
  show "thread_slot (snd (release_held_mutex k e s)) = thread_slot s"
    by (simp add: release_held_eq Let_def thread_slot_upd rep split: option.splits)
  show "thread_slot (snd (find_mutex a c s)) = thread_slot s"
    by (rule thread_slot_cong) (simp add: find_mutex_def split: option.splits prod.splits)
qed

section \<open>Sequence tracking\<close>

definition expected_seq :: "verifier_thread_state \<Rightarrow> u32" where
  "expected_seq t = (if th_sequence_initialized t then th_next_expected_sequence t else 0)"

definition observed :: "u32 \<Rightarrow> verifier_thread_state \<Rightarrow> verifier_thread_state" where
  "observed n t = t\<lparr>th_sequence_initialized := True, th_next_expected_sequence := n + 1\<rparr>"

lemma observed_fields [simp]:
  "th_used (observed n t) = th_used t" "th_thread_id (observed n t) = th_thread_id t"
  "th_trace_tainted (observed n t) = th_trace_tainted t" "th_waiting_mutex (observed n t) = th_waiting_mutex t"
  "th_exited (observed n t) = th_exited t" "th_held_count (observed n t) = th_held_count t"
  "th_held_mutexes (observed n t) = th_held_mutexes t" "live_held (observed n t) = live_held t"
  "expected_seq (observed n t) = n + 1" "th_waiting_sequence (observed n t) = th_waiting_sequence t"
  by (simp_all add: observed_def live_held_def expected_seq_def)

lemma thread_wf_observed: "th_used t \<Longrightarrow> thread_wf (observed n t) = thread_wf t"
  by (simp add: observed_def thread_wf_def live_held_def)

definition note_gap :: "nat \<Rightarrow> u64 \<Rightarrow> verifier_state \<Rightarrow> verifier_state" where
  "note_gap i b s = mark_thread_stream_tainted i b (s\<lparr>detected_stream_gaps := detected_stream_gaps s + 1\<rparr>)"

lemma taint_init:
  "taint_thread (t\<lparr>th_sequence_initialized := v\<rparr>) = (taint_thread t)\<lparr>th_sequence_initialized := v\<rparr>"
  by (intro verifier_thread_state.equality) (simp_all add: taint_thread_def)

lemma mark_upd_init:
  assumes "i < length (thread_states s)"
  shows "mark_thread_stream_tainted i b (upd_thread i (\<lambda>t. t\<lparr>th_sequence_initialized := v\<rparr>) s)
    = upd_thread i (\<lambda>t. t\<lparr>th_sequence_initialized := v\<rparr>) (mark_thread_stream_tainted i b s)"
proof (cases "th_trace_tainted (thread_states s ! i)")
  case True
  with assms show ?thesis by (simp add: mark_thread_stream_tainted_def)
next
  case False
  with assms show ?thesis
    by (intro verifier_state.equality) (simp_all add: mark_tainted_eq taint_init)
qed

lemma length_mark [simp]: "length (thread_states (mark_thread_stream_tainted i b s)) = length (thread_states s)"
  by (simp add: mark_thread_stream_tainted_def Let_def invalidate_mutexes_owned_by_thread_def)

lemma upd_thread_twice:
  "i < length (thread_states s) \<Longrightarrow> upd_thread i f (upd_thread i g s) = upd_thread i (\<lambda>t. f (g t)) s"
  by (simp add: upd_thread_def)

lemma find_thread_slot:
  assumes "verifier_wf s" and "find_thread tid True s = (Some i, s1)"
  shows "thread_slot s1 tid i" and "verifier_wf s1"
proof -
  have "length (thread_states s) = VERIFIER_MAX_THREADS" using assms(1) by (simp add: verifier_wf_def)
  with assms(1) show "thread_slot s1 tid i"
    using assms(2) by (cases rule: find_thread_create [where tid = tid])
      (auto simp: thread_slot_def)
  show "verifier_wf s1" using wf_find_thread [OF assms(1), of tid True] assms(2) by simp
qed

lemma observe_eq:
  assumes wf: "verifier_wf s"
  shows "observe_thread_sequence e s =
    (case find_thread (ev_thread_id e) True s of
       (None, s1) \<Rightarrow> (None, s1)
     | (Some i, s1) \<Rightarrow>
         (Some i, upd_thread i (observed (ev_thread_sequence e))
           (if ev_thread_sequence e = expected_seq (thread_states s1 ! i) then s1
            else note_gap i (ev_sequence_id e) s1)))"
proof (cases "find_thread (ev_thread_id e) True s")
  case (Pair r s1)
  show ?thesis
  proof (cases r)
    case (Some i)
    have i: "i < length (thread_states s1)"
      using find_thread_slot(1) [OF wf] Pair Some by (simp add: thread_slot_def)
    have noinit: "upd_thread i f s = s" if "f (thread_states s ! i) = thread_states s ! i" for f s
      using that by (simp add: upd_thread_def)
    have comp: "observed (ev_thread_sequence e) =
      (\<lambda>t. (t\<lparr>th_sequence_initialized := True\<rparr>)\<lparr>th_next_expected_sequence := ev_thread_sequence e + 1\<rparr>)"
      by (simp add: observed_def fun_eq_iff)
    show ?thesis
    proof (cases "th_sequence_initialized (thread_states s1 ! i)")
      case False
      have gap: "upd_thread i g s1\<lparr>detected_stream_gaps := x\<rparr> = upd_thread i g (s1\<lparr>detected_stream_gaps := x\<rparr>)" for g x
        by (simp add: upd_thread_def)
      from False show ?thesis
        using Pair Some i
        by (simp add: observe_thread_sequence_def Let_def expected_seq_def comp note_gap_def gap
            mark_upd_init upd_thread_twice)
    next
      case True
      have idle: "(t\<lparr>th_sequence_initialized := True\<rparr>) = t" if "th_sequence_initialized t" for t
        using that by (intro verifier_thread_state.equality) simp_all
      have "th_sequence_initialized (thread_states (mark_thread_stream_tainted i b s1') ! i)"
        if "th_sequence_initialized (thread_states s1' ! i)" "i < length (thread_states s1')" for b s1'
        using that by (cases "th_trace_tainted (thread_states s1' ! i)")
          (simp_all add: mark_tainted_eq, simp add: mark_thread_stream_tainted_def)
      with True i show ?thesis
        using Pair Some
        by (simp add: observe_thread_sequence_def Let_def expected_seq_def note_gap_def comp upd_thread_def idle)
    qed
  qed (simp add: observe_thread_sequence_def Pair)
qed

lemma wf_note_gap: "verifier_wf s \<Longrightarrow> thread_slot s tid i \<Longrightarrow> verifier_wf (note_gap i b s)"
  unfolding note_gap_def by (rule wf_mark_tainted) simp_all

lemma slot_note_gap [simp]: "thread_slot (note_gap i b s) = thread_slot s"
  by (simp add: note_gap_def fun_eq_iff)

lemma observe_slot:
  assumes wf: "verifier_wf s" and ob: "observe_thread_sequence e s = (Some i, s1)"
  shows "thread_slot s1 (ev_thread_id e) i" and "verifier_wf s1"
proof -
  obtain s0 where f: "find_thread (ev_thread_id e) True s = (Some i, s0)"
    and s1: "s1 = upd_thread i (observed (ev_thread_sequence e))
           (if ev_thread_sequence e = expected_seq (thread_states s0 ! i) then s0
            else note_gap i (ev_sequence_id e) s0)"
    using ob by (auto simp: observe_eq [OF wf] split: prod.splits option.splits)
  note slot = find_thread_slot [OF wf f]
  let ?m = "if ev_thread_sequence e = expected_seq (thread_states s0 ! i) then s0
            else note_gap i (ev_sequence_id e) s0"
  have m: "verifier_wf ?m" "thread_slot ?m (ev_thread_id e) i" using slot wf_note_gap by auto
  show "thread_slot s1 (ev_thread_id e) i" using m by (simp add: s1 thread_slot_upd)
  show "verifier_wf s1" unfolding s1 using m thread_slot_lt [OF m] thread_slot_wf [OF m]
    by (intro wf_upd_thread) (auto simp: thread_wf_observed thread_slot_def)
qed

section \<open>Every handler keeps the invariant\<close>

lemma wf_upd_exited:
  "verifier_wf s \<Longrightarrow> thread_slot s tid i \<Longrightarrow> verifier_wf (upd_thread i (\<lambda>t. t\<lparr>th_exited := b\<rparr>) s)"
  by (rule wf_upd_thread) (auto simp: thread_slot_lt thread_slot_wf, auto simp: thread_slot_def thread_slot_wf wf_threadD verifier_wf_def)

lemma accept_owner_keep [simp]:
  "mx_used (accept_owner q o1 m) = mx_used m" "mx_address (accept_owner q o1 m) = mx_address m"
  by (simp_all add: accept_owner_def)

lemma wf_accept_owner:
  assumes "verifier_wf s" and "mutex_slot s a j"
  shows "verifier_wf (upd_mutex j (accept_owner q o1) s)"
  using assms mutex_slot_lt [OF assms] wf_mutexD [of s j]
  by (intro wf_upd_mutex) (auto simp: mutex_wf_def accept_owner_def mutex_slot_def)

lemma mutex_slot_cong: "mutex_states s' = mutex_states s \<Longrightarrow> mutex_slot s' = mutex_slot s"
  by (simp add: fun_eq_iff mutex_slot_def)

lemma mutex_states_ops [simp]:
  "mutex_states (set_thread_waiting k a q s) = mutex_states s"
  "mutex_states (clear_thread_waiting k a s) = mutex_states s"
  "mutex_states (report_hold_time_violation e n s) = mutex_states s"
  "mutex_states (report_self_deadlock_candidate e s) = mutex_states s"
  "mutex_states (report_non_owner_unlock e s) = mutex_states s"
  "mutex_states (report_lock_held_at_thread_exit e t s) = mutex_states s"
  "mutex_states (add_held_mutex k a ts s) = mutex_states s"
  "mutex_states (snd (release_held_mutex k e s)) = mutex_states s"
  by (simp_all add: set_thread_waiting_def clear_thread_waiting_def report_hold_time_violation_def
      report_self_deadlock_candidate_def report_non_owner_unlock_def report_lock_held_at_thread_exit_def
      add_held_eq release_held_eq Let_def split: option.splits)

lemma find_mutex_slot:
  assumes "verifier_wf s" and "find_mutex a True s = (Some j, s1)"
  shows "mutex_slot s1 a j" and "verifier_wf s1"
proof -
  have "length (mutex_states s) = VERIFIER_MAX_MUTEXES" using assms(1) by (simp add: verifier_wf_def)
  with assms(1) show "mutex_slot s1 a j"
    using assms(2) by (cases rule: find_mutex_create [where addr = a])
      (auto simp: mutex_slot_def)
  show "verifier_wf s1" using wf_find_mutex [OF assms(1), of a True] assms(2) by simp
qed

lemma wf_handle_thread_start: "verifier_wf s \<Longrightarrow> verifier_wf (handle_thread_start e s)"
  by (cases "find_thread (ev_thread_id e) True s" rule: prod.exhaust)
    (use wf_find_thread [of s "ev_thread_id e" True] in
      \<open>auto simp: handle_thread_start_def intro: wf_upd_exited find_thread_slot split: option.splits\<close>)

lemma wf_handle_thread_exit:
  assumes "verifier_wf s" and "thread_slot s (ev_thread_id e) i"
  shows "verifier_wf (handle_thread_exit e s)"
  using assms
  by (auto simp: handle_thread_exit_def thread_slot_find Let_def intro!: wf_upd_exited wf_clear_waiting)

lemma wf_handle_lock_request:
  assumes "verifier_wf s" and "thread_slot s (ev_thread_id e) i"
  shows "verifier_wf (handle_lock_request e s)"
  using assms wf_find_mutex
  by (auto simp: handle_lock_request_def thread_slot_find Let_def intro!: wf_set_waiting)

lemma wf_handle_lock_acquired:
  assumes wf: "verifier_wf s" and slot: "thread_slot s (ev_thread_id e) i"
  shows "verifier_wf (handle_lock_acquired e s)"
proof (cases "find_mutex (ev_object_address e) True s")
  case (Pair m s2)
  have s2: "verifier_wf s2" "thread_slot s2 (ev_thread_id e) i"
    using wf_find_mutex [OF wf, of "ev_object_address e" True] thread_slot_ops(9) [of "ev_object_address e" True s] slot Pair
    by auto
  show ?thesis
  proof (cases m)
    case (Some j)
    have "mutex_slot s2 (ev_object_address e) j" using find_mutex_slot(1) [OF wf] Pair Some by simp
    then show ?thesis
      using s2 Pair Some wf slot
      by (auto simp: handle_lock_acquired_def thread_slot_find Let_def mutex_slot_def
          intro!: wf_accept_owner [where a = "ev_object_address e"] wf_add_held wf_clear_waiting)
  qed (use s2 Pair wf slot in \<open>simp add: handle_lock_acquired_def thread_slot_find\<close>)
qed

lemma wf_handle_unlocked:
  assumes wf: "verifier_wf s" and slot: "thread_slot s (ev_thread_id e) i"
  shows "verifier_wf (handle_unlocked e s)"
proof (cases "find_mutex (ev_object_address e) True s")
  case (Pair m s2)
  have s2: "verifier_wf s2" "thread_slot s2 (ev_thread_id e) i"
    using wf_find_mutex [OF wf, of "ev_object_address e" True] thread_slot_ops(9) [of "ev_object_address e" True s] slot Pair
    by auto
  obtain r s3 where r: "release_held_mutex i e s2 = (r, s3)" by (cases "release_held_mutex i e s2")
  have s3: "verifier_wf s3" "mutex_states s3 = mutex_states s2"
    using wf_release_held [OF s2, of e] mutex_states_ops(8) [of i e s2] r by simp_all
  show ?thesis
  proof (cases m)
    case (Some j)
    have "mutex_slot s2 (ev_object_address e) j" using find_mutex_slot(1) [OF wf] Pair Some by simp
    then show ?thesis
      using s3 Pair Some wf slot r
      by (auto simp: handle_unlocked_def thread_slot_find Let_def mutex_slot_def
          intro!: wf_accept_owner [where a = "ev_object_address e"])
  qed (use s3 Pair wf slot r in \<open>simp add: handle_unlocked_def thread_slot_find\<close>)
qed

lemma wf_dispatch:
  assumes "verifier_wf s" and "thread_slot s (ev_thread_id e) i"
  shows "verifier_wf (dispatch_event e s)"
  using assms
  by (simp add: dispatch_event_def wf_handle_thread_start wf_handle_thread_exit wf_handle_lock_request
      wf_handle_lock_acquired wf_handle_unlocked handle_lock_failed_def handle_unlock_failed_def
      thread_slot_find wf_clear_waiting)

lemma process_event_cases:
  assumes wf: "verifier_wf s"
  obtains (Full) "monitor_verifier_process_event (Some e) s =
      s\<lparr>processed_events := processed_events s + 1,
        last_processed_sequence := max (last_processed_sequence s) (ev_sequence_id e),
        state_overflow_events := state_overflow_events s + 1\<rparr>"
      and "\<And>k. \<not> thread_slot s (ev_thread_id e) k"
      and "count_if th_used (thread_states s) = VERIFIER_MAX_THREADS"
  | (Ok) i s1 where
      "observe_thread_sequence e (s\<lparr>processed_events := processed_events s + 1,
        last_processed_sequence := max (last_processed_sequence s) (ev_sequence_id e)\<rparr>) = (Some i, s1)"
      and "monitor_verifier_process_event (Some e) s =
         dispatch_event e (s1\<lparr>candidate_cycle_mask := 0, candidate_cycle_confirmations := 0\<rparr>)"
      and "verifier_wf s1" and "thread_slot s1 (ev_thread_id e) i"
proof -
  let ?s = "s\<lparr>processed_events := processed_events s + 1,
        last_processed_sequence := max (last_processed_sequence s) (ev_sequence_id e)\<rparr>"
  have wf': "verifier_wf ?s" using wf by simp
  have p: "monitor_verifier_process_event (Some e) s =
    (case observe_thread_sequence e ?s of (None, s3) \<Rightarrow> s3
             | (Some _, s3) \<Rightarrow> dispatch_event e (s3\<lparr>candidate_cycle_mask := 0, candidate_cycle_confirmations := 0\<rparr>))"
    by (auto simp: monitor_verifier_process_event_def Let_def max_def)
  show ?thesis
  proof (cases "observe_thread_sequence e ?s")
    case (Pair r s1)
    show ?thesis
    proof (cases r)
      case (Some i)
      with Pair p observe_slot [OF wf'] show ?thesis by (intro Ok) simp_all
    next
      case None
      from wf' show ?thesis
      proof (cases rule: find_thread_create [where tid = "ev_thread_id e"])
        case Full
        then show ?thesis
          using p that(1) by (simp add: observe_eq [OF wf'])
      qed (use Pair None in \<open>simp_all add: observe_eq [OF wf']\<close>)
    qed
  qed
qed

lemma wf_process_Some: "verifier_wf s \<Longrightarrow> verifier_wf (monitor_verifier_process_event (Some e) s)"
  by (cases rule: process_event_cases [where e = e and s = s]) (simp_all add: wf_dispatch)

lemma wf_process_event: "verifier_wf s \<Longrightarrow> verifier_wf (monitor_verifier_process_event e s)"
  by (cases e) (simp_all add: wf_process_Some, simp add: monitor_verifier_process_event_def)

lemma wf_check_deadlocks: "verifier_wf s \<Longrightarrow> verifier_wf (monitor_verifier_check_deadlocks s)"
  by (simp add: monitor_verifier_check_deadlocks_def Let_def split: prod.splits)

end
