(* ===== verification/Verifier_Waiting.thy ===== *)
theory Verifier_Waiting
  imports Verifier_Inv
begin

text \<open>
  The counter of waiting threads, which \<open>monitor_verifier_check_deadlocks\<close> tests before
  it searches for a cycle, is the number of entries with a waiting state.
\<close>

section \<open>The number of waiting threads\<close>

abbreviation is_waiting :: "verifier_thread_state \<Rightarrow> bool" where
  "is_waiting \<equiv> \<lambda>t. th_waiting_mutex t \<noteq> 0"

lemma waiting_ok_cong:
  assumes "thread_states s' = thread_states s" and "waiting_thread_count s' = waiting_thread_count s"
  shows "waiting_count_ok s' = waiting_count_ok s"
  using assms by (simp add: waiting_count_ok_def)

lemma waiting_ok_other_fields [simp]:
  "waiting_count_ok (s\<lparr>mutex_states := ms\<rparr>) = waiting_count_ok s"
  "waiting_count_ok (s\<lparr>processed_events := x\<rparr>) = waiting_count_ok s"
  "waiting_count_ok (s\<lparr>state_overflow_events := x\<rparr>) = waiting_count_ok s"
  "waiting_count_ok (s\<lparr>detected_stream_gaps := x\<rparr>) = waiting_count_ok s"
  "waiting_count_ok (s\<lparr>candidate_cycle_mask := y\<rparr>) = waiting_count_ok s"
  "waiting_count_ok (s\<lparr>candidate_cycle_confirmations := y\<rparr>) = waiting_count_ok s"
  "waiting_count_ok (s\<lparr>reported_cycle_mask := y\<rparr>) = waiting_count_ok s"
  "waiting_count_ok (s\<lparr>last_processed_sequence := x\<rparr>) = waiting_count_ok s"
  "waiting_count_ok (report_hold_time_violation e n s) = waiting_count_ok s"
  "waiting_count_ok (report_self_deadlock_candidate e s) = waiting_count_ok s"
  "waiting_count_ok (report_non_owner_unlock e s) = waiting_count_ok s"
  "waiting_count_ok (report_lock_held_at_thread_exit e t s) = waiting_count_ok s"
  "waiting_count_ok (report_deadlock_cycle ts as len s) = waiting_count_ok s"
  "waiting_count_ok (upd_mutex j g s) = waiting_count_ok s"
  "waiting_count_ok (snd (find_mutex a c s)) = waiting_count_ok s"
  by (rule waiting_ok_cong; simp add: report_hold_time_violation_def report_self_deadlock_candidate_def
      report_non_owner_unlock_def report_lock_held_at_thread_exit_def report_deadlock_cycle_def
      find_mutex_def split: option.splits prod.splits)+

lemma waiting_ok_upd_same:
  "is_waiting (f (thread_states s ! i)) = is_waiting (thread_states s ! i) \<Longrightarrow>
   waiting_count_ok (upd_thread i f s) = waiting_count_ok s"
  by (simp add: waiting_count_ok_def count_if_update_same)

lemma waiting_ok_stop:
  assumes ok: "waiting_count_ok s" and i: "i < length (thread_states s)"
    and len: "length (thread_states s) = VERIFIER_MAX_THREADS"
    and w: "is_waiting (thread_states s ! i)" and t: "\<not> is_waiting t"
  shows "waiting_thread_count s \<noteq> 0"
    and "of_nat (count_if is_waiting ((thread_states s)[i := t])) = waiting_thread_count s - 1"
proof -
  let ?n = "count_if is_waiting (thread_states s)"
  have n: "count_if is_waiting ((thread_states s)[i := t]) = ?n - 1" and pos: "0 < ?n"
    using count_if_update [OF i, of is_waiting t] w t by simp_all
  have "?n \<le> 16" using count_if_le [of is_waiting "thread_states s"] len by simp
  then show "waiting_thread_count s \<noteq> 0"
    using ok pos by (auto simp: waiting_count_ok_def word_of_nat_eq_0_iff dest!: dvd_imp_le)
  show "of_nat (count_if is_waiting ((thread_states s)[i := t])) = waiting_thread_count s - 1"
    using ok pos unfolding n by (simp add: waiting_count_ok_def of_nat_diff)
qed

lemma waiting_ok_clear:
  assumes ok: "waiting_count_ok s" and wf: "verifier_wf s" and slot: "thread_slot s tid i" and a: "a \<noteq> 0"
  shows "waiting_count_ok (clear_thread_waiting i a s)"
  using waiting_ok_stop [OF ok, of i "(thread_states s ! i)\<lparr>th_waiting_mutex := 0, th_waiting_sequence := 0\<rparr>"] assms
  by (auto simp: clear_thread_waiting_def Let_def waiting_count_ok_def thread_slot_def verifier_wf_def)

lemma waiting_ok_set:
  assumes ok: "waiting_count_ok s" and wf: "verifier_wf s" and slot: "thread_slot s tid i" and a: "a \<noteq> 0"
  shows "waiting_count_ok (set_thread_waiting i a q s)"
proof -
  let ?t = "(thread_states s ! i)\<lparr>th_waiting_mutex := a, th_waiting_sequence := q\<rparr>"
  have i: "i < length (thread_states s)" using slot by (simp add: thread_slot_def)
  show ?thesis
    using count_if_update [OF i, of is_waiting ?t] ok a
    by (simp add: set_thread_waiting_def Let_def waiting_count_ok_def split: if_splits)
qed

lemma waiting_ok_gap:
  assumes ok: "waiting_count_ok s" and wf: "verifier_wf s" and slot: "thread_slot s tid i"
  shows "waiting_count_ok (note_gap i b s)"
proof (cases "th_trace_tainted (thread_states s ! i)")
  case True
  then show ?thesis using ok by (simp add: note_gap_def mark_thread_stream_tainted_def)
next
  case False
  have i: "i < length (thread_states s)" and len: "length (thread_states s) = VERIFIER_MAX_THREADS"
    using slot wf by (simp_all add: thread_slot_def verifier_wf_def)
  show ?thesis
    using False i ok waiting_ok_stop [OF ok i len, of "taint_thread (thread_states s ! i)"]
    by (cases "is_waiting (thread_states s ! i)")
      (simp_all add: note_gap_def mark_tainted_eq waiting_count_ok_def count_if_update_same)
qed

lemma waiting_ok_find_thread:
  assumes ok: "waiting_count_ok s" and wf: "verifier_wf s"
  shows "waiting_count_ok (snd (find_thread tid c s))"
proof (cases c)
  case True
  from wf show ?thesis
  proof (cases rule: find_thread_create [where tid = tid])
    case (New i)
    have "thread_states s ! i = zero_thread"
      using New wf wf_threadD thread_wf_zero_entry by blast
    with True New ok show ?thesis
      by (simp add: waiting_count_ok_def count_if_update_same zero_thread_def)
  qed (use ok True in simp_all)
qed (simp add: find_thread_False ok)

lemma waiting_ok_observe:
  assumes ok: "waiting_count_ok s" and wf: "verifier_wf s"
  shows "waiting_count_ok (snd (observe_thread_sequence e s))"
proof (cases "find_thread (ev_thread_id e) True s")
  case (Pair r s1)
  have s1: "waiting_count_ok s1" using waiting_ok_find_thread [OF ok wf, of "ev_thread_id e" True] Pair by simp
  show ?thesis
  proof (cases r)
    case (Some i)
    have "waiting_count_ok (note_gap i (ev_sequence_id e) s1)"
      using find_thread_slot [OF wf] Pair Some s1 waiting_ok_gap by blast
    with s1 Pair Some show ?thesis
      by (simp add: observe_eq [OF wf] waiting_ok_upd_same)
  qed (simp add: observe_eq [OF wf] Pair s1)
qed

text \<open>
  The events that set or clear a waiting state name a mutex, never the null pointer.
\<close>

definition lock_address_ok :: "monitor_event \<Rightarrow> bool" where
  "lock_address_ok e \<longleftrightarrow>
     (ev_event_type e \<in> event_code ` {MONITOR_EVENT_LOCK_REQUEST, MONITOR_EVENT_LOCK_ACQUIRED,
        MONITOR_EVENT_LOCK_FAILED} \<longrightarrow> ev_object_address e \<noteq> 0)"

lemma waiting_ok_add_held [simp]: "waiting_count_ok (add_held_mutex i a ts s) = waiting_count_ok s"
  by (simp add: add_held_eq Let_def waiting_ok_upd_same split: option.splits)

lemma waiting_ok_release [simp]: "waiting_count_ok (snd (release_held_mutex i e s)) = waiting_count_ok s"
  by (simp add: release_held_eq Let_def waiting_ok_upd_same split: option.splits)

lemma waiting_ok_acquired:
  assumes ok: "waiting_count_ok s" and wf: "verifier_wf s" and slot: "thread_slot s (ev_thread_id e) i"
    and a: "ev_object_address e \<noteq> 0"
  shows "waiting_count_ok (handle_lock_acquired e s)"
proof (cases "find_mutex (ev_object_address e) True s")
  case (Pair m s2)
  have s2: "verifier_wf s2" "thread_slot s2 (ev_thread_id e) i" "waiting_count_ok s2"
    using wf_find_mutex [OF wf, of "ev_object_address e" True] slot Pair ok
      thread_slot_ops(9) [of "ev_object_address e" True s] waiting_ok_other_fields(15) [of "ev_object_address e" True s]
    by auto
  then show ?thesis
    using Pair wf slot a waiting_ok_clear [OF s2(3) s2(1,2) a]
    by (simp add: handle_lock_acquired_def thread_slot_find Let_def split: option.splits)
qed

lemma waiting_ok_unlocked:
  assumes ok: "waiting_count_ok s" and wf: "verifier_wf s" and slot: "thread_slot s (ev_thread_id e) i"
  shows "waiting_count_ok (handle_unlocked e s)"
proof (cases "find_mutex (ev_object_address e) True s")
  case (Pair m s2)
  obtain r s3 where r: "release_held_mutex i e s2 = (r, s3)" by (cases "release_held_mutex i e s2")
  have "waiting_count_ok s3"
    using ok r waiting_ok_other_fields(15) [of "ev_object_address e" True s] waiting_ok_release [of i e s2] Pair
    by simp
  then show ?thesis
    using Pair wf slot r by (simp add: handle_unlocked_def thread_slot_find split: option.splits)
qed

lemma waiting_ok_dispatch:
  assumes ok: "waiting_count_ok s" and wf: "verifier_wf s" and slot: "thread_slot s (ev_thread_id e) i"
    and a: "lock_address_ok e"
  shows "waiting_count_ok (dispatch_event e s)"
proof -
  have exit: "waiting_count_ok (handle_thread_exit e s)"
    using assms by (auto simp: handle_thread_exit_def thread_slot_find Let_def waiting_ok_upd_same
        intro!: waiting_ok_clear)
  have req: "waiting_count_ok (handle_lock_request e s)" if "ev_object_address e \<noteq> 0"
    using that assms wf_find_mutex [OF wf]
    by (auto simp: handle_lock_request_def thread_slot_find Let_def intro!: waiting_ok_set)
  show ?thesis
    using assms exit req waiting_ok_acquired [OF ok wf slot] waiting_ok_unlocked [OF ok wf slot]
      waiting_ok_clear [OF ok wf slot]
    by (simp add: dispatch_event_def handle_thread_start_def thread_slot_find waiting_ok_upd_same
        handle_lock_failed_def handle_unlock_failed_def lock_address_ok_def)
qed

lemma waiting_ok_process:
  assumes ok: "waiting_count_ok s" and wf: "verifier_wf s" and a: "lock_address_ok e"
  shows "waiting_count_ok (monitor_verifier_process_event (Some e) s)"
  using wf
proof (cases rule: process_event_cases [where e = e])
  case (Ok i s1)
  have "waiting_count_ok s1"
    using waiting_ok_observe [of "s\<lparr>processed_events := processed_events s + 1,
        last_processed_sequence := max (last_processed_sequence s) (ev_sequence_id e)\<rparr>" e] Ok(1) ok wf by simp
  with Ok a show ?thesis by (simp add: waiting_ok_dispatch [where i = i])
qed (use ok in simp)

lemma waiting_ok_check: "waiting_count_ok s \<Longrightarrow> waiting_count_ok (monitor_verifier_check_deadlocks s)"
  by (simp add: monitor_verifier_check_deadlocks_def Let_def split: prod.splits)

lemma waiting_ok_init: "waiting_count_ok (monitor_verifier_init env s)"
  by (simp add: waiting_count_ok_def monitor_verifier_init_def count_if_replicate) (simp add: zero_thread_def)

end
