(* ===== verification/Monitor_Spec.thy ===== *)
theory Monitor_Spec
  imports Monitor_Event
begin

text \<open>
  What the verifier promises, without tables, slots, counters or text: one view per thread,
  one view per mutex, and what an event does to them.  A thread reacts to its own events
  only; what it learns about the ownership of a mutex it publishes with the event's
  sequence number, and the newest publication wins.  The specification has no capacity;
  \<open>Verifier_Refine\<close> shows that the tables of \<^verbatim>\<open>src/monitor_verifier.c\<close>
  implement it as long as no table overflows.
\<close>

section \<open>Views\<close>

record spec_thread =
  sp_exited :: bool
  sp_tainted :: bool
  sp_expected :: u32
  sp_waiting :: "uintptr option"
  sp_held :: "uintptr \<rightharpoonup> u64 \<times> u32"

datatype ownership = Unknown | Free | Owned u64

record spec_mutex =
  sm_owner :: ownership
  sm_stamp :: u64

datatype violation_kind =
  DEADLOCK_CYCLE | NON_OWNER_UNLOCK | SELF_DEADLOCK_CANDIDATE | LOCK_HELD_AT_THREAD_EXIT
| HOLD_TIME_VIOLATION

definition fresh_thread :: spec_thread where
  "fresh_thread = \<lparr>sp_exited = False, sp_tainted = False, sp_expected = 0, sp_waiting = None,
                   sp_held = Map.empty\<rparr>"

definition fresh_mutex :: spec_mutex where
  "fresh_mutex = \<lparr>sm_owner = Unknown, sm_stamp = 0\<rparr>"

definition ptr_opt :: "uintptr \<Rightarrow> uintptr option" where
  "ptr_opt a = (if a = 0 then None else Some a)"

definition owner_of :: "u64 \<Rightarrow> ownership" where
  "owner_of tid = (if tid = 0 then Free else Owned tid)"

section \<open>What an event does to its thread\<close>

definition spec_observe :: "u32 \<Rightarrow> spec_thread \<Rightarrow> spec_thread" where
  "spec_observe n t =
     (if n = sp_expected t \<or> sp_tainted t then t\<lparr>sp_expected := n + 1\<rparr>
      else t\<lparr>sp_tainted := True, sp_expected := n + 1, sp_waiting := None, sp_held := Map.empty\<rparr>)"

definition spec_clear_waiting :: "uintptr \<Rightarrow> spec_thread \<Rightarrow> spec_thread" where
  "spec_clear_waiting a t = (if sp_waiting t = ptr_opt a then t\<lparr>sp_waiting := None\<rparr> else t)"

definition spec_acquire :: "uintptr \<Rightarrow> u64 \<Rightarrow> spec_thread \<Rightarrow> spec_thread" where
  "spec_acquire a ts t =
     (if sp_tainted t then t
      else t\<lparr>sp_held := (sp_held t)(a \<mapsto>
              (case sp_held t a of None \<Rightarrow> (ts, 1)
               | Some (first, d) \<Rightarrow> (first, if d < UINT32_MAX then d + 1 else d)))\<rparr>)"

definition spec_nested :: "uintptr \<Rightarrow> spec_thread \<Rightarrow> bool" where
  "spec_nested a t \<longleftrightarrow>
     \<not> sp_tainted t \<and> (case sp_held t a of None \<Rightarrow> False | Some (first, d) \<Rightarrow> 1 < d)"

definition spec_release :: "uintptr \<Rightarrow> spec_thread \<Rightarrow> spec_thread" where
  "spec_release a t =
     (if sp_tainted t then t
      else case sp_held t a of
        None \<Rightarrow> t
      | Some (first, d) \<Rightarrow>
          t\<lparr>sp_held := (sp_held t)(a := if 1 < d then Some (first, d - 1) else None)\<rparr>)"

definition spec_thread_step :: "monitor_event \<Rightarrow> spec_thread \<Rightarrow> spec_thread" where
  "spec_thread_step e t =
     (let a = ev_object_address e; k = ev_event_type e in
      if k = event_code MONITOR_EVENT_THREAD_START then t\<lparr>sp_exited := False\<rparr>
      else if k = event_code MONITOR_EVENT_THREAD_EXIT then t\<lparr>sp_exited := True, sp_waiting := None\<rparr>
      else if k = event_code MONITOR_EVENT_LOCK_REQUEST then t\<lparr>sp_waiting := ptr_opt a\<rparr>
      else if k = event_code MONITOR_EVENT_LOCK_ACQUIRED
      then spec_acquire a (ev_timestamp_ns e) (spec_clear_waiting a t)
      else if k = event_code MONITOR_EVENT_LOCK_FAILED then spec_clear_waiting a t
      else if k = event_code MONITOR_EVENT_UNLOCKED then spec_release a t
      else t)"

section \<open>Violations\<close>

text \<open>A hold time that would be negative counts as zero; a threshold of zero turns the rule off.\<close>

definition held_too_long :: "u64 \<Rightarrow> u64 \<Rightarrow> u64 \<Rightarrow> bool" where
  "held_too_long max_hold first now \<longleftrightarrow>
     max_hold \<noteq> 0 \<and> unat first \<le> unat now \<and> unat max_hold < unat now - unat first"

definition spec_violation :: "u64 \<Rightarrow> monitor_event \<Rightarrow> spec_thread \<Rightarrow> violation_kind option" where
  "spec_violation max_hold e t =
     (let a = ev_object_address e; k = ev_event_type e in
      if k = event_code MONITOR_EVENT_LOCK_REQUEST \<and> \<not> sp_tainted t \<and> sp_held t a \<noteq> None
      then Some SELF_DEADLOCK_CANDIDATE
      else if k = event_code MONITOR_EVENT_THREAD_EXIT \<and> \<not> sp_tainted t \<and> sp_held t \<noteq> Map.empty
      then Some LOCK_HELD_AT_THREAD_EXIT
      else if k = event_code MONITOR_EVENT_UNLOCKED \<and> \<not> sp_tainted t \<and>
              (case sp_held t a of None \<Rightarrow> False
               | Some (first, d) \<Rightarrow> d \<le> 1 \<and> held_too_long max_hold first (ev_timestamp_ns e))
      then Some HOLD_TIME_VIOLATION
      else if k = event_code MONITOR_EVENT_UNLOCK_FAILED \<and> sint (ev_result e) = 1
      then Some NON_OWNER_UNLOCK
      else None)"

section \<open>What an event publishes about a mutex\<close>

definition spec_publish :: "monitor_event \<Rightarrow> spec_thread \<Rightarrow> ownership option" where
  "spec_publish e t =
     (if ev_event_type e = event_code MONITOR_EVENT_LOCK_ACQUIRED then Some (owner_of (ev_thread_id e))
      else if ev_event_type e = event_code MONITOR_EVENT_UNLOCKED
      then Some (if spec_nested (ev_object_address e) t then owner_of (ev_thread_id e) else Free)
      else None)"

definition spec_accept :: "u64 \<Rightarrow> ownership \<Rightarrow> spec_mutex \<Rightarrow> spec_mutex" where
  "spec_accept q w m = (if sm_stamp m \<le> q then \<lparr>sm_owner = w, sm_stamp = q\<rparr> else m)"

definition spec_forget :: "u64 \<Rightarrow> u64 \<Rightarrow> spec_mutex \<Rightarrow> spec_mutex" where
  "spec_forget tid q m =
     (if sm_owner m = owner_of tid then \<lparr>sm_owner = Unknown, sm_stamp = max (sm_stamp m) q\<rparr> else m)"

section \<open>The monitor\<close>

record monitor_view =
  view_thread :: "u64 \<Rightarrow> spec_thread"
  view_mutex :: "uintptr \<Rightarrow> spec_mutex"

definition initial_view :: monitor_view where
  "initial_view = \<lparr>view_thread = (\<lambda>_. fresh_thread), view_mutex = (\<lambda>_. fresh_mutex)\<rparr>"

definition spec_gap :: "monitor_event \<Rightarrow> spec_thread \<Rightarrow> bool" where
  "spec_gap e t \<longleftrightarrow> ev_thread_sequence e \<noteq> sp_expected t \<and> \<not> sp_tainted t"

definition spec_note :: "monitor_event \<Rightarrow> monitor_view \<Rightarrow> monitor_view" where
  "spec_note e v =
     (let tid = ev_thread_id e; t = view_thread v tid in
      \<lparr>view_thread = (view_thread v)(tid := spec_observe (ev_thread_sequence e) t),
       view_mutex = (if spec_gap e t then spec_forget tid (ev_sequence_id e) \<circ> view_mutex v
                     else view_mutex v)\<rparr>)"

definition spec_dispatch :: "monitor_event \<Rightarrow> monitor_view \<Rightarrow> monitor_view" where
  "spec_dispatch e v =
     (let tid = ev_thread_id e; a = ev_object_address e; t = view_thread v tid in
      \<lparr>view_thread = (view_thread v)(tid := spec_thread_step e t),
       view_mutex = (case spec_publish e t of
          None \<Rightarrow> view_mutex v
        | Some w \<Rightarrow> (view_mutex v)(a := spec_accept (ev_sequence_id e) w (view_mutex v a)))\<rparr>)"

definition spec_process :: "monitor_event \<Rightarrow> monitor_view \<Rightarrow> monitor_view" where
  "spec_process e v = spec_dispatch e (spec_note e v)"

definition spec_verdict :: "u64 \<Rightarrow> monitor_event \<Rightarrow> monitor_view \<Rightarrow> violation_kind option" where
  "spec_verdict max_hold e v =
     spec_violation max_hold e (view_thread (spec_note e v) (ev_thread_id e))"

end
