(* ===== verification/Verifier_Refine.thy ===== *)
theory Verifier_Refine
  imports Verifier_Waiting Monitor_Spec
begin

text \<open>
  The verifier's tables implement \<open>Monitor_Spec\<close>: the abstraction reads each table
  as a function on keys (an absent key is a fresh thread or mutex, so creating an entry
  is invisible) and the live prefix of a held-mutex array as a map.  As long as an event
  does not overflow a table, processing it is one step of the specification.
\<close>

section \<open>The abstraction\<close>

definition held_view :: "verifier_thread_state \<Rightarrow> uintptr \<rightharpoonup> u64 \<times> u32" where
  "held_view t =
     map_of (map (\<lambda>h. (hm_address h, hm_first_acquired_timestamp_ns h, hm_depth h)) (live_held t))"

definition abs_thread :: "verifier_thread_state \<Rightarrow> spec_thread" where
  "abs_thread t =
     \<lparr>sp_exited = th_exited t, sp_tainted = th_trace_tainted t, sp_expected = expected_seq t,
      sp_waiting = ptr_opt (th_waiting_mutex t), sp_held = held_view t\<rparr>"

definition abs_mutex :: "verifier_mutex_state \<Rightarrow> spec_mutex" where
  "abs_mutex m =
     \<lparr>sm_owner = (if mx_owner_known m then owner_of (mx_owner_thread_id m) else Unknown),
      sm_stamp = mx_last_state_sequence m\<rparr>"

definition thread_view :: "verifier_state \<Rightarrow> u64 \<Rightarrow> spec_thread" where
  "thread_view s = slot_view (\<lambda>tid. find_thread_loop tid 0 None) abs_thread fresh_thread (thread_states s)"

definition mutex_view :: "verifier_state \<Rightarrow> uintptr \<Rightarrow> spec_mutex" where
  "mutex_view s = slot_view (\<lambda>a. find_mutex_loop a 0 None) abs_mutex fresh_mutex (mutex_states s)"

definition abs_view :: "verifier_state \<Rightarrow> monitor_view" where
  "abs_view s = \<lparr>view_thread = thread_view s, view_mutex = mutex_view s\<rparr>"

section \<open>Views of updated tables\<close>

lemma wf_distinct:
  assumes "verifier_wf s"
  shows "keys_distinct th_used th_thread_id (thread_states s)"
    and "keys_distinct mx_used mx_address (mutex_states s)"
  using assms by (simp_all add: verifier_wf_def tables_distinct_def)

lemma thread_view_slot:
  "verifier_wf s \<Longrightarrow> thread_slot s tid i \<Longrightarrow> thread_view s tid = abs_thread (thread_states s ! i)"
  by (simp add: thread_view_def threads.slot_view_found wf_distinct thread_slot_def)

lemma mutex_view_slot:
  "verifier_wf s \<Longrightarrow> mutex_slot s a j \<Longrightarrow> mutex_view s a = abs_mutex (mutex_states s ! j)"
  by (simp add: mutex_view_def mutexes.slot_view_found wf_distinct mutex_slot_def)

lemma thread_view_cong: "thread_states s' = thread_states s \<Longrightarrow> thread_view s' = thread_view s"
  by (simp add: thread_view_def)

lemma mutex_view_cong: "mutex_states s' = mutex_states s \<Longrightarrow> mutex_view s' = mutex_view s"
  by (simp add: mutex_view_def)

lemma thread_view_upd:
  assumes "verifier_wf s" and "thread_slot s tid i"
    and "th_used (f (thread_states s ! i))" and "th_thread_id (f (thread_states s ! i)) = tid"
  shows "thread_view (upd_thread i f s) = (thread_view s)(tid := abs_thread (f (thread_states s ! i)))"
  using assms unfolding thread_view_def upd_thread_fields
  by (intro threads.slot_view_update) (simp_all add: wf_distinct thread_slot_def)

lemma mutex_view_upd:
  assumes "verifier_wf s" and "mutex_slot s a j"
    and "mx_used (f (mutex_states s ! j))" and "mx_address (f (mutex_states s ! j)) = a"
  shows "mutex_view (upd_mutex j f s) = (mutex_view s)(a := abs_mutex (f (mutex_states s ! j)))"
  using assms unfolding mutex_view_def upd_mutex_fields
  by (intro mutexes.slot_view_update) (simp_all add: wf_distinct mutex_slot_def)

lemma abs_new_thread: "abs_thread (new_thread tid) = fresh_thread"
  by (simp add: abs_thread_def fresh_thread_def zero_thread_def expected_seq_def ptr_opt_def
      held_view_def live_held_def)

lemma abs_new_mutex: "abs_mutex (new_mutex a) = fresh_mutex"
  by (simp add: abs_mutex_def fresh_mutex_def zero_mutex_def)

lemma thread_view_find:
  assumes wf: "verifier_wf s"
  shows "thread_view (snd (find_thread tid c s)) = thread_view s"
proof (cases "find_thread_loop tid 0 None (thread_states s)")
  case (Pair found free)
  have "thread_view (s\<lparr>thread_states := (thread_states s)[i := new_thread tid]\<rparr>) = thread_view s"
    if "found = None" "free = Some i" for i
    using that Pair threads.slot_view_insert [OF wf_distinct(1) [OF wf], of "new_thread tid" i abs_thread]
    by (simp add: thread_view_def abs_new_thread)
  then show ?thesis
    using Pair by (auto simp: find_thread_def intro: thread_view_cong split: option.splits)
qed

lemma mutex_view_find:
  assumes wf: "verifier_wf s"
  shows "mutex_view (snd (find_mutex a c s)) = mutex_view s"
proof (cases "find_mutex_loop a 0 None (mutex_states s)")
  case (Pair found free)
  have "mutex_view (s\<lparr>mutex_states := (mutex_states s)[j := new_mutex a]\<rparr>) = mutex_view s"
    if "found = None" "free = Some j" for j
    using that Pair mutexes.slot_view_insert [OF wf_distinct(2) [OF wf], of "new_mutex a" j abs_mutex]
    by (simp add: mutex_view_def abs_new_mutex)
  then show ?thesis
    using Pair by (auto simp: find_mutex_def intro: mutex_view_cong split: option.splits)
qed

lemma other_view_find [simp]:
  "mutex_view (snd (find_thread tid c s)) = mutex_view s"
  "thread_view (snd (find_mutex a c s)) = thread_view s"
  by (auto simp: find_thread_def find_mutex_def split: option.splits prod.splits
      intro!: mutex_view_cong thread_view_cong)

section \<open>The held-mutex array as a map\<close>

lemma map_of_update_nth:
  assumes "distinct (map fst xs)" and "k < length xs" and "fst y = fst (xs ! k)"
  shows "map_of (xs[k := y]) = (map_of xs)(fst y \<mapsto> snd y)"
  using assms
proof (induction xs arbitrary: k)
  case (Cons x xs)
  show ?case
  proof (cases k)
    case 0
    with Cons.prems show ?thesis by (cases x, cases y) auto
  next
    case (Suc j)
    have "fst x \<noteq> fst y" using Cons.prems Suc by (metis distinct.simps(2) length_Cons list.map(2) nth_Cons_Suc nth_map nth_mem length_map Suc_less_eq)
    with Cons Suc show ?thesis by (cases x, cases y) (auto simp: fun_eq_iff)
  qed
qed simp

lemma held_view_Some:
  assumes "thread_wf t" and "find_held_mutex t a = Some k"
  shows "held_view t a =
    Some (hm_first_acquired_timestamp_ns (th_held_mutexes t ! k), hm_depth (th_held_mutexes t ! k))"
  using find_held_SomeD [OF assms] assms(1)
  by (auto simp: held_view_def thread_wf_def map_of_eq_Some_iff comp_def intro!: image_eqI)

lemma held_view_None: "find_held_mutex t a = None \<Longrightarrow> held_view t a = None"
  by (auto simp: held_view_def map_of_eq_None_iff dest: find_held_NoneD)

lemma held_view_bump:
  assumes wf: "thread_wf t" and k: "find_held_mutex t a = Some k"
  shows "held_view (bump_held k d t) =
    (held_view t)(a \<mapsto> (hm_first_acquired_timestamp_ns (th_held_mutexes t ! k), d))"
proof -
  let ?f = "\<lambda>h. (hm_address h, hm_first_acquired_timestamp_ns h, hm_depth h)"
  note held = find_held_SomeD [OF wf k]
  have "distinct (map fst (map ?f (live_held t)))" using wf by (simp add: thread_wf_def comp_def)
  then show ?thesis
    using held length_live_held [OF wf] map_of_update_nth [of "map ?f (live_held t)" k "?f ((live_held t ! k)\<lparr>hm_depth := d\<rparr>)"]
    by (simp add: held_view_def live_bump_held [OF wf] map_update)
qed

lemma held_view_push:
  assumes wf: "thread_wf t" and n: "unat (th_held_count t) < 32" and new: "find_held_mutex t a = None"
  shows "held_view (push_held a ts t) = (held_view t)(a \<mapsto> (ts, 1))"
  using held_view_None [OF new]
  by (auto simp: held_view_def live_push_held [OF wf n] map_add_def fun_eq_iff split: option.splits)

lemma map_of_swap_remove:
  assumes d: "distinct (map fst xs)" and k: "k < length xs"
  shows "map_of (swap_remove k xs) = (map_of xs)(fst (xs ! k) := None)"
proof
  fix u
  have dx: "distinct xs" using d by (rule distinct_map [THEN iffD1, THEN conjunct1])
  have dr: "distinct (map fst (swap_remove k xs))"
    using swap_remove_set(2) [OF d] k by (simp add: map_swap_remove)
  show "map_of (swap_remove k xs) u = ((map_of xs)(fst (xs ! k) := None)) u"
  proof (cases "u = fst (xs ! k)")
    case True
    have "set (map fst (swap_remove k xs)) = set (map fst xs) - {u}"
      using swap_remove_set(1) [OF d, of k] k True by (simp add: map_swap_remove)
    then have "u \<notin> fst ` set (swap_remove k xs)" by simp
    with True show ?thesis by (simp add: map_of_eq_None_iff)
  next
    case False
    have "map_of (swap_remove k xs) u = Some v \<longleftrightarrow> map_of xs u = Some v" for v
    proof -
      have "(u, v) \<noteq> xs ! k" using False by (cases "xs ! k") auto
      then show ?thesis
        unfolding map_of_eq_Some_iff [OF d] map_of_eq_Some_iff [OF dr] swap_remove_set(1) [OF dx k] by blast
    qed
    then have "map_of (swap_remove k xs) u = map_of xs u"
      by (cases "map_of xs u"; cases "map_of (swap_remove k xs) u") auto
    with False show ?thesis by simp
  qed
qed

lemma held_view_drop:
  assumes wf: "thread_wf t" and k: "find_held_mutex t a = Some k"
  shows "held_view (drop_held k t) = (held_view t)(a := None)"
proof -
  let ?f = "\<lambda>h. (hm_address h, hm_first_acquired_timestamp_ns h, hm_depth h)"
  note held = find_held_SomeD [OF wf k]
  have kl: "k < length (live_held t)" using held length_live_held [OF wf] by simp
  have "distinct (map fst (map ?f (live_held t)))" using wf by (simp add: thread_wf_def comp_def)
  from map_of_swap_remove [OF this, of k] show ?thesis
    using held kl by (simp add: held_view_def drop_held_arrays [OF wf] map_swap_remove)
qed

lemma held_view_empty_iff: "thread_wf t \<Longrightarrow> held_view t = Map.empty \<longleftrightarrow> th_held_count t = 0"
  using length_live_held [of t] by (simp add: held_view_def unat_eq_zero) (metis length_0_conv unat_eq_zero)

section \<open>Operations on one thread\<close>

lemma live_held_cong:
  "th_held_mutexes t' = th_held_mutexes t \<Longrightarrow> th_held_count t' = th_held_count t \<Longrightarrow> held_view t' = held_view t"
  by (simp add: held_view_def live_held_def)

lemma held_view_fields [simp]:
  "held_view (t\<lparr>th_exited := b\<rparr>) = held_view t"
  "held_view (t\<lparr>th_waiting_mutex := a, th_waiting_sequence := q\<rparr>) = held_view t"
  "held_view (observed n t) = held_view t"
  "held_view (taint_thread t) = Map.empty"
  by (simp_all add: held_view_def live_held_def)

lemma expected_fields [simp]:
  "expected_seq (t\<lparr>th_exited := b\<rparr>) = expected_seq t"
  "expected_seq (t\<lparr>th_waiting_mutex := a, th_waiting_sequence := q\<rparr>) = expected_seq t"
  "expected_seq (bump_held k d t) = expected_seq t" "expected_seq (push_held a ts t) = expected_seq t"
  "expected_seq (drop_held k t) = expected_seq t" "expected_seq (taint_thread t) = expected_seq t"
  "th_exited (bump_held k d t) = th_exited t" "th_exited (push_held a ts t) = th_exited t"
  "th_exited (drop_held k t) = th_exited t"
  by (simp_all add: expected_seq_def bump_held_def push_held_def drop_held_def)

lemma ptr_opt_simps [simp]: "ptr_opt 0 = None" "ptr_opt a = ptr_opt b \<longleftrightarrow> a = b"
  by (simp_all add: ptr_opt_def)

lemma owner_of_inject [simp]: "owner_of a = owner_of b \<longleftrightarrow> a = b" "Unknown \<noteq> owner_of a" "owner_of a \<noteq> Unknown"
  by (simp_all add: owner_of_def)

lemma abs_thread_sel [simp]:
  "sp_tainted (abs_thread t) = th_trace_tainted t" "sp_exited (abs_thread t) = th_exited t"
  "sp_expected (abs_thread t) = expected_seq t" "sp_waiting (abs_thread t) = ptr_opt (th_waiting_mutex t)"
  "sp_held (abs_thread t) = held_view t"
  by (simp_all add: abs_thread_def)

lemma abs_observed:
  "abs_thread (observed n (if n = expected_seq t \<or> th_trace_tainted t then t else taint_thread t)) = spec_observe n (abs_thread t)"
  by (simp add: abs_thread_def spec_observe_def)

lemma abs_mutex_invalidate:
  "mx_used m \<Longrightarrow> abs_mutex (invalidate_mutex tid q m) = spec_forget tid q (abs_mutex m)"
  by (auto simp: abs_mutex_def invalidate_mutex_def spec_forget_def max_def)

lemma abs_accept_owner: "abs_mutex (accept_owner q u m) = spec_accept q (owner_of u) (abs_mutex m)"
  by (simp add: abs_mutex_def accept_owner_def spec_accept_def)

lemma view_clear_waiting:
  assumes "verifier_wf s" and "thread_slot s tid i"
  shows "thread_view (clear_thread_waiting i a s) = (thread_view s)(tid := spec_clear_waiting a (thread_view s tid))"
proof -
  have "thread_view (clear_thread_waiting i a s) =
      thread_view (if th_waiting_mutex (thread_states s ! i) = a
        then upd_thread i (\<lambda>t. t\<lparr>th_waiting_mutex := 0, th_waiting_sequence := 0\<rparr>) s else s)"
    by (rule thread_view_cong) (simp add: clear_thread_waiting_def Let_def)
  with assms show ?thesis
    by (auto simp: thread_view_upd thread_view_slot thread_slot_def spec_clear_waiting_def abs_thread_def fun_eq_iff)
qed

lemma view_set_waiting:
  assumes "verifier_wf s" and "thread_slot s tid i"
  shows "thread_view (set_thread_waiting i a q s) = (thread_view s)(tid := thread_view s tid\<lparr>sp_waiting := ptr_opt a\<rparr>)"
proof -
  have "thread_view (set_thread_waiting i a q s) =
      thread_view (upd_thread i (\<lambda>t. t\<lparr>th_waiting_mutex := a, th_waiting_sequence := q\<rparr>) s)"
    by (rule thread_view_cong) (simp add: set_thread_waiting_def Let_def)
  with assms show ?thesis
    by (auto simp: thread_view_upd thread_view_slot thread_slot_def abs_thread_def fun_eq_iff)
qed

lemma view_add_held:
  assumes wf: "verifier_wf s" and slot: "thread_slot s tid i"
    and ok: "state_overflow_events (add_held_mutex i a ts s) = state_overflow_events s"
  shows "thread_view (add_held_mutex i a ts s) = (thread_view s)(tid := spec_acquire a ts (thread_view s tid))"
proof -
  let ?t = "thread_states s ! i"
  have t: "thread_wf ?t" "th_used ?t" "th_thread_id ?t = tid" "thread_view s tid = abs_thread ?t"
    using assms by (auto simp: thread_slot_wf thread_view_slot thread_slot_def)
  show ?thesis
  proof (cases "th_trace_tainted ?t")
    case True
    then show ?thesis using t by (simp add: add_held_mutex_def spec_acquire_def fun_eq_iff)
  next
    case False
    show ?thesis
    proof (cases "find_held_mutex ?t a")
      case None
      with False ok have "\<not> 32 \<le> th_held_count ?t" by (auto simp: add_held_eq Let_def split: if_splits)
      moreover from this have "unat (th_held_count ?t) < 32" by (simp add: word_le_nat_alt)
      ultimately show ?thesis
        using False None t held_view_None [OF None] held_view_push [OF t(1) _ None]
        by (simp add: add_held_eq Let_def thread_view_upd [OF wf slot] spec_acquire_def abs_thread_def)
    next
      case (Some k)
      then show ?thesis
        using False t held_view_Some [OF t(1) Some] held_view_bump [OF t(1) Some]
        by (auto simp: add_held_eq Let_def thread_view_upd [OF wf slot] spec_acquire_def abs_thread_def fun_eq_iff)
    qed
  qed
qed

lemma view_release_held:
  assumes wf: "verifier_wf s" and slot: "thread_slot s (ev_thread_id e) i"
  shows "thread_view (snd (release_held_mutex i e s)) =
      (thread_view s)(ev_thread_id e := spec_release (ev_object_address e) (thread_view s (ev_thread_id e)))"
    and "fst (release_held_mutex i e s) \<longleftrightarrow> \<not> spec_nested (ev_object_address e) (thread_view s (ev_thread_id e))"
proof -
  let ?t = "thread_states s ! i" and ?a = "ev_object_address e" and ?tid = "ev_thread_id e"
  have t: "thread_wf ?t" "th_used ?t" "th_thread_id ?t = ?tid" "thread_view s ?tid = abs_thread ?t"
    using assms by (auto simp: thread_slot_wf thread_view_slot thread_slot_def)
  have both: "thread_view (snd (release_held_mutex i e s)) = (thread_view s)(?tid := spec_release ?a (thread_view s ?tid)) \<and>
     (fst (release_held_mutex i e s) \<longleftrightarrow> \<not> spec_nested ?a (thread_view s ?tid))"
  proof (cases "th_trace_tainted ?t")
    case True
    then show ?thesis using t by (simp add: release_held_mutex_def spec_release_def spec_nested_def fun_eq_iff)
  next
    case False
    show ?thesis
    proof (cases "find_held_mutex ?t ?a")
      case None
      with False t held_view_None [OF None] show ?thesis
        by (simp add: release_held_eq spec_release_def spec_nested_def fun_eq_iff)
    next
      case (Some k)
      have rep: "thread_view (upd_thread i f (report_hold_time_violation e n s)) = thread_view (upd_thread i f s)" for f n
        by (rule thread_view_cong) (simp add: report_hold_time_violation_def)
      show ?thesis
        using Some False t held_view_Some [OF t(1) Some] held_view_bump [OF t(1) Some] held_view_drop [OF t(1) Some]
        by (simp add: release_held_eq Let_def thread_view_upd [OF wf slot] spec_release_def spec_nested_def rep
            abs_thread_def)
    qed
  qed
  then show "thread_view (snd (release_held_mutex i e s)) = (thread_view s)(?tid := spec_release ?a (thread_view s ?tid))"
    and "fst (release_held_mutex i e s) \<longleftrightarrow> \<not> spec_nested ?a (thread_view s ?tid)" by blast+
qed

section \<open>Observing the sequence number\<close>

lemma view_note_gap:
  assumes wf: "verifier_wf s" and slot: "thread_slot s tid i"
  shows "thread_view (note_gap i q s) = (if sp_tainted (thread_view s tid) then thread_view s
           else (thread_view s)(tid := abs_thread (taint_thread (thread_states s ! i))))"
    and "mutex_view (note_gap i q s) = (if sp_tainted (thread_view s tid) then mutex_view s
           else spec_forget tid q \<circ> mutex_view s)"
proof -
  let ?t = "thread_states s ! i"
  have t: "th_used ?t" "th_thread_id ?t = tid" "thread_view s tid = abs_thread ?t" "i < length (thread_states s)"
    using assms by (auto simp: thread_view_slot thread_slot_def)
  let ?A = "thread_view (note_gap i q s) = (if sp_tainted (thread_view s tid) then thread_view s
           else (thread_view s)(tid := abs_thread (taint_thread ?t)))"
  let ?B = "mutex_view (note_gap i q s) = (if sp_tainted (thread_view s tid) then mutex_view s
           else spec_forget tid q \<circ> mutex_view s)"
  have "?A \<and> ?B"
  proof (cases "th_trace_tainted ?t")
    case True
    then have "note_gap i q s = s\<lparr>detected_stream_gaps := detected_stream_gaps s + 1\<rparr>"
      by (simp add: note_gap_def mark_thread_stream_tainted_def)
    with True t show ?thesis by (simp add: thread_view_def mutex_view_def)
  next
    case False
    have "thread_view (note_gap i q s) = thread_view (upd_thread i taint_thread s)"
      using False t by (intro thread_view_cong) (simp add: note_gap_def mark_tainted_eq)
    then have A: ?A using False t by (simp add: thread_view_upd [OF wf slot])
    have "mutex_view (note_gap i q s) a = spec_forget tid q (mutex_view s a)" for a
      using False t mutexes.slot_view_map [OF wf_distinct(2) [OF wf], of "invalidate_mutex tid q" abs_mutex
          "spec_forget tid q" fresh_mutex a]
      by (simp add: mutex_view_def note_gap_def mark_tainted_eq abs_mutex_invalidate spec_forget_def fresh_mutex_def)
    with A False t show ?thesis by (simp add: fun_eq_iff)
  qed
  then show ?A and ?B by blast+
qed

lemma view_observe:
  assumes wf: "verifier_wf s" and ob: "observe_thread_sequence e s = (Some i, s1)"
  shows "abs_view s1 = spec_note e (abs_view s)"
proof -
  let ?tid = "ev_thread_id e" and ?n = "ev_thread_sequence e" and ?q = "ev_sequence_id e"
  obtain s0 where f: "find_thread ?tid True s = (Some i, s0)"
    and s1: "s1 = upd_thread i (observed ?n)
           (if ?n = expected_seq (thread_states s0 ! i) then s0 else note_gap i ?q s0)"
    using ob by (auto simp: observe_eq [OF wf] split: prod.splits option.splits)
  note slot = find_thread_slot [OF wf f]
  let ?t = "thread_states s0 ! i"
  have views: "thread_view s0 = thread_view s" "mutex_view s0 = mutex_view s"
    using thread_view_find [OF wf, of ?tid True] other_view_find(1) [of ?tid True s] f by simp_all
  have t: "th_used ?t" "th_thread_id ?t = ?tid" "thread_view s ?tid = abs_thread ?t" "i < length (thread_states s0)"
    using slot by (auto simp: views [symmetric] thread_view_slot thread_slot_def)
  have mv: "mutex_view s1 = mutex_view (if ?n = expected_seq ?t then s0 else note_gap i ?q s0)"
    unfolding s1 by (rule mutex_view_cong) simp
  have gslot: "verifier_wf (note_gap i ?q s0)" "thread_slot (note_gap i ?q s0) ?tid i"
    using slot wf_note_gap by auto
  have gth: "thread_states (note_gap i ?q s0) ! i = (if th_trace_tainted ?t then ?t else taint_thread ?t)"
    using t by (simp add: note_gap_def mark_tainted_eq) (simp add: mark_thread_stream_tainted_def)
  have tv: "thread_view s1 = (thread_view s)(?tid := spec_observe ?n (abs_thread ?t))"
  proof (cases "?n = expected_seq ?t")
    case True
    then show ?thesis
      using t by (simp add: s1 thread_view_upd [OF slot(2,1)] views abs_observed [symmetric])
  next
    case False
    then show ?thesis
      using t gth abs_observed [of ?n ?t]
      by (simp add: s1 thread_view_upd [OF gslot] view_note_gap(1) [OF slot(2,1)] views)
  qed
  show ?thesis
    using tv mv t by (simp add: abs_view_def spec_note_def spec_gap_def Let_def view_note_gap(2) [OF slot(2,1)] views)
qed

section \<open>Handlers\<close>

lemma abs_view_cong:
  "thread_states s' = thread_states s \<Longrightarrow> mutex_states s' = mutex_states s \<Longrightarrow> abs_view s' = abs_view s"
  by (simp add: abs_view_def thread_view_def mutex_view_def)

lemma abs_view_candidate [simp]:
  "abs_view (s\<lparr>candidate_cycle_mask := x, candidate_cycle_confirmations := y\<rparr>) = abs_view s"
  by (rule abs_view_cong) simp_all

lemma view_report [simp]:
  "thread_view (report_hold_time_violation e n s) = thread_view s"
  "thread_view (report_self_deadlock_candidate e s) = thread_view s"
  "thread_view (report_non_owner_unlock e s) = thread_view s"
  "thread_view (report_lock_held_at_thread_exit e t s) = thread_view s"
  by (rule thread_view_cong; simp add: report_hold_time_violation_def report_self_deadlock_candidate_def
      report_non_owner_unlock_def report_lock_held_at_thread_exit_def)+

lemma overflow_ops [simp]:
  "state_overflow_events (set_thread_waiting i a q s) = state_overflow_events s"
  "state_overflow_events (clear_thread_waiting i a s) = state_overflow_events s"
  "state_overflow_events (snd (release_held_mutex i e s)) = state_overflow_events s"
  "state_overflow_events (report_hold_time_violation e n s) = state_overflow_events s"
  "state_overflow_events (report_self_deadlock_candidate e s) = state_overflow_events s"
  "state_overflow_events (report_non_owner_unlock e s) = state_overflow_events s"
  "state_overflow_events (report_lock_held_at_thread_exit e t s) = state_overflow_events s"
  by (simp_all add: set_thread_waiting_def clear_thread_waiting_def release_held_eq Let_def
      report_hold_time_violation_def report_self_deadlock_candidate_def
      report_non_owner_unlock_def report_lock_held_at_thread_exit_def split: option.splits)

lemma overflow_note_gap [simp]: "state_overflow_events (note_gap i q s) = state_overflow_events s"
  by (simp add: note_gap_def mark_thread_stream_tainted_def Let_def invalidate_mutexes_owned_by_thread_def)

lemma mutex_view_ops [simp]:
  "mutex_view (set_thread_waiting i a q s) = mutex_view s"
  "mutex_view (clear_thread_waiting i a s) = mutex_view s"
  "mutex_view (report_self_deadlock_candidate e s) = mutex_view s"
  "mutex_view (report_lock_held_at_thread_exit e t s) = mutex_view s"
  "mutex_view (report_non_owner_unlock e s) = mutex_view s"
  "mutex_view (add_held_mutex i a ts s) = mutex_view s"
  "mutex_view (snd (release_held_mutex i e s)) = mutex_view s"
  "mutex_view (upd_thread i f s) = mutex_view s"
  by (rule mutex_view_cong; simp)+

lemma find_mutex_state:
  assumes wf: "verifier_wf s" and slot: "thread_slot s tid i" and f: "find_mutex a True s = (m, s2)"
  shows "verifier_wf s2" and "thread_slot s2 tid i" and "thread_view s2 = thread_view s"
    and "mutex_view s2 = mutex_view s" and "m = Some j \<Longrightarrow> mutex_slot s2 a j"
    and "max_hold_ns s2 = max_hold_ns s"
    and "state_overflow_events s2 = state_overflow_events s + (if m = None then 1 else 0)"
proof -
  show "verifier_wf s2" "thread_slot s2 tid i" "thread_view s2 = thread_view s" "mutex_view s2 = mutex_view s"
    "max_hold_ns s2 = max_hold_ns s"
    using wf_find_mutex [OF wf, of a True] thread_slot_ops(9) [of a True s] slot other_view_find(2) [of a True s]
      mutex_view_find [OF wf, of a True] f
    by (auto simp: find_mutex_def split: prod.splits option.splits)
  show "m = Some j \<Longrightarrow> mutex_slot s2 a j" using find_mutex_slot(1) [OF wf] f by blast
  show "state_overflow_events s2 = state_overflow_events s + (if m = None then 1 else 0)"
    using f by (auto simp: find_mutex_def split: prod.splits option.splits)
qed

lemma dispatch_view_exit:
  assumes wf: "verifier_wf s" and slot: "thread_slot s (ev_thread_id e) i"
  shows "thread_view (handle_thread_exit e s) =
     (thread_view s)(ev_thread_id e := thread_view s (ev_thread_id e)\<lparr>sp_exited := True, sp_waiting := None\<rparr>)"
  and "mutex_view (handle_thread_exit e s) = mutex_view s"
proof -
  let ?t = "thread_states s ! i"
  let ?f = "\<lambda>t. (if th_waiting_mutex t \<noteq> 0 then t\<lparr>th_waiting_mutex := 0, th_waiting_sequence := 0\<rparr> else t)
                \<lparr>th_exited := True\<rparr>"
  have i: "i < length (thread_states s)" using slot by (simp add: thread_slot_def)
  have "thread_states (handle_thread_exit e s) = thread_states (upd_thread i ?f s)"
    using i by (simp add: handle_thread_exit_def thread_slot_find [OF wf slot] Let_def
        clear_thread_waiting_def report_lock_held_at_thread_exit_def)
  then have "thread_view (handle_thread_exit e s) = thread_view (upd_thread i ?f s)"
    by (rule thread_view_cong)
  also have "\<dots> = (thread_view s)(ev_thread_id e := abs_thread (?f ?t))"
    using slot by (intro thread_view_upd [OF wf slot]) (simp_all add: thread_slot_def)
  also have "abs_thread (?f ?t) = thread_view s (ev_thread_id e)\<lparr>sp_exited := True, sp_waiting := None\<rparr>"
    by (simp add: thread_view_slot [OF wf slot] abs_thread_def)
  finally show "thread_view (handle_thread_exit e s) =
     (thread_view s)(ev_thread_id e := thread_view s (ev_thread_id e)\<lparr>sp_exited := True, sp_waiting := None\<rparr>)" .
  show "mutex_view (handle_thread_exit e s) = mutex_view s"
    by (rule mutex_view_cong) (simp add: handle_thread_exit_def thread_slot_find [OF wf slot] Let_def)
qed

lemma overflow_add_held:
  "state_overflow_events (add_held_mutex i a ts s) \<in> {state_overflow_events s, state_overflow_events s + 1}"
  by (simp add: add_held_eq Let_def split: option.splits)

lemma handle_start_view:
  assumes wf: "verifier_wf s" and slot: "thread_slot s (ev_thread_id e) i"
  shows "thread_view (handle_thread_start e s) =
     (thread_view s)(ev_thread_id e := thread_view s (ev_thread_id e)\<lparr>sp_exited := False\<rparr>)"
  and "mutex_view (handle_thread_start e s) = mutex_view s"
proof -
  have "thread_view (upd_thread i (\<lambda>t. t\<lparr>th_exited := False\<rparr>) s) =
     (thread_view s)(ev_thread_id e := abs_thread ((thread_states s ! i)\<lparr>th_exited := False\<rparr>))"
    using slot by (intro thread_view_upd [OF wf slot]) (simp_all add: thread_slot_def)
  then show "thread_view (handle_thread_start e s) =
     (thread_view s)(ev_thread_id e := thread_view s (ev_thread_id e)\<lparr>sp_exited := False\<rparr>)"
    and "mutex_view (handle_thread_start e s) = mutex_view s"
    by (simp_all add: handle_thread_start_def thread_slot_find [OF wf slot] thread_view_slot [OF wf slot] abs_thread_def)
qed

lemma handle_request_view:
  assumes wf: "verifier_wf s" and slot: "thread_slot s (ev_thread_id e) i"
  shows "thread_view (handle_lock_request e s) =
     (thread_view s)(ev_thread_id e := thread_view s (ev_thread_id e)\<lparr>sp_waiting := ptr_opt (ev_object_address e)\<rparr>)"
  and "mutex_view (handle_lock_request e s) = mutex_view s"
proof -
  obtain m s2 where f: "find_mutex (ev_object_address e) True s = (m, s2)" by (cases "find_mutex (ev_object_address e) True s")
  note s2 = find_mutex_state [OF wf slot f]
  let ?t = "thread_states s2 ! i"
  let ?s3 = "if \<not> th_trace_tainted ?t \<and> find_held_mutex ?t (ev_object_address e) \<noteq> None
             then report_self_deadlock_candidate e s2 else s2"
  have eq: "handle_lock_request e s = set_thread_waiting i (ev_object_address e) (ev_sequence_id e) ?s3"
    by (simp add: handle_lock_request_def thread_slot_find [OF wf slot] f Let_def)
  have s3: "verifier_wf ?s3" "thread_slot ?s3 (ev_thread_id e) i" "thread_view ?s3 = thread_view s" "mutex_view ?s3 = mutex_view s"
    using s2 by simp_all
  show "thread_view (handle_lock_request e s) =
     (thread_view s)(ev_thread_id e := thread_view s (ev_thread_id e)\<lparr>sp_waiting := ptr_opt (ev_object_address e)\<rparr>)"
    unfolding eq by (subst view_set_waiting [OF s3(1,2)]) (simp only: s3)
  show "mutex_view (handle_lock_request e s) = mutex_view s"
    unfolding eq mutex_view_ops(1) by (rule s3)
qed

lemma handle_acquired_view:
  assumes wf: "verifier_wf s" and slot: "thread_slot s (ev_thread_id e) i"
    and ok: "state_overflow_events (handle_lock_acquired e s) = state_overflow_events s"
  shows "thread_view (handle_lock_acquired e s) =
     (thread_view s)(ev_thread_id e := spec_acquire (ev_object_address e) (ev_timestamp_ns e)
        (spec_clear_waiting (ev_object_address e) (thread_view s (ev_thread_id e))))"
  and "mutex_view (handle_lock_acquired e s) = (mutex_view s)(ev_object_address e :=
        spec_accept (ev_sequence_id e) (owner_of (ev_thread_id e)) (mutex_view s (ev_object_address e)))"
proof -
  let ?a = "ev_object_address e" and ?ts = "ev_timestamp_ns e" and ?tid = "ev_thread_id e"
  obtain m s2 where f: "find_mutex ?a True s = (m, s2)" by (cases "find_mutex ?a True s")
  note s2 = find_mutex_state [OF wf slot f]
  obtain j where j: "m = Some j"
    using ok s2(7) by (cases m) (simp_all add: handle_lock_acquired_def thread_slot_find [OF wf slot] f)
  let ?s3 = "clear_thread_waiting i ?a s2"
  let ?s4 = "add_held_mutex i ?a ?ts ?s3"
  have eq: "handle_lock_acquired e s = upd_mutex j (accept_owner (ev_sequence_id e) ?tid) ?s4"
    by (simp add: handle_lock_acquired_def thread_slot_find [OF wf slot] f j Let_def)
  have s3: "verifier_wf ?s3" "thread_slot ?s3 ?tid i" using s2 wf_clear_waiting by auto
  have s4: "verifier_wf ?s4" using s3 by (rule wf_add_held)
  have ok4: "state_overflow_events ?s4 = state_overflow_events ?s3"
    using ok s2(7) j by (simp add: eq)
  have mslot: "mutex_slot ?s4 ?a j" using s2(5) [OF j] by (simp add: mutex_slot_def)
  have "thread_view ?s4 = (thread_view s)(?tid := spec_acquire ?a ?ts (spec_clear_waiting ?a (thread_view s ?tid)))"
    unfolding view_add_held [OF s3 ok4] view_clear_waiting [OF s2(1,2)] s2(3) by simp
  moreover have "thread_view (handle_lock_acquired e s) = thread_view ?s4"
    unfolding eq by (rule thread_view_cong) simp
  ultimately show "thread_view (handle_lock_acquired e s) =
     (thread_view s)(?tid := spec_acquire ?a ?ts (spec_clear_waiting ?a (thread_view s ?tid)))" by simp
  have mv: "mutex_view ?s4 = mutex_view s" using s2(4) by simp
  show "mutex_view (handle_lock_acquired e s) = (mutex_view s)(?a :=
        spec_accept (ev_sequence_id e) (owner_of ?tid) (mutex_view s ?a))"
    unfolding eq using mslot
    by (subst mutex_view_upd [OF s4 mslot])
      (simp_all only: mv abs_accept_owner mutex_view_slot [OF s4 mslot, symmetric] accept_owner_keep mutex_slot_def)
qed

lemma handle_unlocked_view:
  assumes wf: "verifier_wf s" and slot: "thread_slot s (ev_thread_id e) i"
    and ok: "state_overflow_events (handle_unlocked e s) = state_overflow_events s"
  shows "thread_view (handle_unlocked e s) =
     (thread_view s)(ev_thread_id e := spec_release (ev_object_address e) (thread_view s (ev_thread_id e)))"
  and "mutex_view (handle_unlocked e s) = (mutex_view s)(ev_object_address e :=
        spec_accept (ev_sequence_id e)
          (if spec_nested (ev_object_address e) (thread_view s (ev_thread_id e)) then owner_of (ev_thread_id e) else Free)
          (mutex_view s (ev_object_address e)))"
proof -
  let ?a = "ev_object_address e" and ?tid = "ev_thread_id e"
  obtain m s2 where f: "find_mutex ?a True s = (m, s2)" by (cases "find_mutex ?a True s")
  note s2 = find_mutex_state [OF wf slot f]
  obtain r s3 where r: "release_held_mutex i e s2 = (r, s3)" by (cases "release_held_mutex i e s2")
  have s3: "verifier_wf s3" "mutex_view s3 = mutex_view s" "mutex_states s3 = mutex_states s2"
      "state_overflow_events s3 = state_overflow_events s2"
    using wf_release_held [OF s2(1,2), of e] mutex_view_ops(7) [of i e s2] s2(4) mutex_states_ops(8) [of i e s2]
      overflow_ops(3) [of i e s2] r by simp_all
  obtain j where j: "m = Some j"
    using ok s2(7) s3 r by (cases m) (simp_all add: handle_unlocked_def thread_slot_find [OF wf slot] f)
  have eq: "handle_unlocked e s = upd_mutex j (accept_owner (ev_sequence_id e) (if r then 0 else ?tid)) s3"
    by (simp add: handle_unlocked_def thread_slot_find [OF wf slot] f j r)
  have mslot: "mutex_slot s3 ?a j" using s2(5) [OF j] s3(3) by (simp add: mutex_slot_def)
  have tv: "thread_view s3 = (thread_view s)(?tid := spec_release ?a (thread_view s ?tid))"
    and rr: "r \<longleftrightarrow> \<not> spec_nested ?a (thread_view s ?tid)"
    using view_release_held [OF s2(1,2)] r s2(3) by simp_all
  have "thread_view (handle_unlocked e s) = thread_view s3"
    unfolding eq by (rule thread_view_cong) simp
  with tv show "thread_view (handle_unlocked e s) = (thread_view s)(?tid := spec_release ?a (thread_view s ?tid))" by simp
  have free: "owner_of 0 = Free" by (simp add: owner_of_def)
  have "mutex_view (handle_unlocked e s) = (mutex_view s)(?a :=
      spec_accept (ev_sequence_id e) (owner_of (if r then 0 else ?tid)) (mutex_view s ?a))"
    unfolding eq using mslot
    by (subst mutex_view_upd [OF s3(1) mslot])
      (simp_all only: s3(2) abs_accept_owner mutex_view_slot [OF s3(1) mslot, symmetric] accept_owner_keep mutex_slot_def)
  then show "mutex_view (handle_unlocked e s) = (mutex_view s)(?a :=
      spec_accept (ev_sequence_id e) (if spec_nested ?a (thread_view s ?tid) then owner_of ?tid else Free) (mutex_view s ?a))"
    using rr free by (simp add: if_distrib [of owner_of])
qed

lemma dispatch_refines:
  assumes wf: "verifier_wf s" and slot: "thread_slot s (ev_thread_id e) i"
    and ok: "state_overflow_events (dispatch_event e s) = state_overflow_events s"
  shows "abs_view (dispatch_event e s) = spec_dispatch e (abs_view s)"
proof -
  have failed: "thread_view (handle_lock_failed e s) =
      (thread_view s)(ev_thread_id e := spec_clear_waiting (ev_object_address e) (thread_view s (ev_thread_id e)))"
    "mutex_view (handle_lock_failed e s) = mutex_view s"
    using view_clear_waiting [OF wf slot] by (simp_all add: handle_lock_failed_def thread_slot_find [OF wf slot])
  have ufail: "thread_view (handle_unlock_failed e s) = thread_view s" "mutex_view (handle_unlock_failed e s) = mutex_view s"
    by (simp_all add: handle_unlock_failed_def)
  note views = handle_start_view [OF wf slot] dispatch_view_exit [OF wf slot] handle_request_view [OF wf slot]
    failed ufail
  show ?thesis
    using ok handle_acquired_view [OF wf slot] handle_unlocked_view [OF wf slot]
    by (simp add: dispatch_event_def abs_view_def spec_dispatch_def spec_thread_step_def spec_publish_def Let_def views
        fun_upd_idem split del: if_split split: if_splits)
qed

section \<open>Table overflow is counted at most once per event\<close>

lemma overflow_dispatch:
  assumes wf: "verifier_wf s" and slot: "thread_slot s (ev_thread_id e) i"
  shows "state_overflow_events (dispatch_event e s) \<in> {state_overflow_events s, state_overflow_events s + 1}"
proof -
  let ?a = "ev_object_address e"
  obtain m s2 where f: "find_mutex ?a True s = (m, s2)" by (cases "find_mutex ?a True s")
  note s2 = find_mutex_state [OF wf slot f]
  obtain r s3 where r: "release_held_mutex i e s2 = (r, s3)" by (cases "release_held_mutex i e s2")
  have s3: "state_overflow_events s3 = state_overflow_events s2" using overflow_ops(3) [of i e s2] r by simp
  have acq: "state_overflow_events (handle_lock_acquired e s) \<in> {state_overflow_events s, state_overflow_events s + 1}"
    using overflow_add_held [of i ?a "ev_timestamp_ns e" "clear_thread_waiting i ?a s2"] s2(7)
    by (cases m) (simp_all add: handle_lock_acquired_def thread_slot_find [OF wf slot] f Let_def)
  have unl: "state_overflow_events (handle_unlocked e s) \<in> {state_overflow_events s, state_overflow_events s + 1}"
    using s2(7) s3 r by (cases m) (simp_all add: handle_unlocked_def thread_slot_find [OF wf slot] f)
  have req: "state_overflow_events (handle_lock_request e s) \<in> {state_overflow_events s, state_overflow_events s + 1}"
    using s2(7) by (simp add: handle_lock_request_def thread_slot_find [OF wf slot] f Let_def)
  show ?thesis
    using acq unl req
    by (simp add: dispatch_event_def handle_thread_start_def handle_thread_exit_def handle_lock_failed_def
        handle_unlock_failed_def thread_slot_find [OF wf slot] Let_def)
qed

lemma overflow_observe:
  assumes wf: "verifier_wf s" and ob: "observe_thread_sequence e s = (Some i, s1)"
  shows "state_overflow_events s1 = state_overflow_events s"
  using ob wf by (auto simp: observe_eq [OF wf] find_thread_def split: prod.splits option.splits if_splits)

lemma overflow_process:
  assumes wf: "verifier_wf s"
  shows "state_overflow_events (monitor_verifier_process_event (Some e) s)
    \<in> {state_overflow_events s, state_overflow_events s + 1}"
  using wf
proof (cases rule: process_event_cases [where e = e])
  case (Ok i s1)
  have o1: "state_overflow_events s1 = state_overflow_events s"
    using overflow_observe [OF _ Ok(1)] wf by simp
  show ?thesis
    using overflow_dispatch [of "s1\<lparr>candidate_cycle_mask := 0, candidate_cycle_confirmations := 0\<rparr>" e i] Ok o1 by simp
qed simp

section \<open>The verifier implements the specification\<close>

lemma process_refines:
  assumes wf: "verifier_wf s"
    and ok: "state_overflow_events (monitor_verifier_process_event (Some e) s) = state_overflow_events s"
  shows "abs_view (monitor_verifier_process_event (Some e) s) = spec_process e (abs_view s)"
  using wf
proof (cases rule: process_event_cases [where e = e])
  case Full
  with ok show ?thesis by simp
next
  case (Ok i s1)
  let ?s = "s\<lparr>processed_events := processed_events s + 1,
        last_processed_sequence := max (last_processed_sequence s) (ev_sequence_id e)\<rparr>"
  have wf': "verifier_wf ?s" using wf by simp
  have v: "abs_view ?s = abs_view s" by (rule abs_view_cong) simp_all
  have o1: "state_overflow_events s1 = state_overflow_events s" using overflow_observe [OF wf' Ok(1)] by simp
  show ?thesis
    using dispatch_refines [of "s1\<lparr>candidate_cycle_mask := 0, candidate_cycle_confirmations := 0\<rparr>" e i]
      Ok ok o1 view_observe [OF wf' Ok(1)] v
    by (simp add: spec_process_def)
qed

end
