(* ===== verification/Verifier_Reports.thy ===== *)
theory Verifier_Reports
  imports Verifier_Refine
begin

text \<open>
  What the verifier tells the user about one event: every report fits its buffer, so it is
  written whole, and the counters and reports are those the specification's verdict asks
  for.
\<close>

section \<open>Reports fit their buffers\<close>

lemma length_rule_line [simp]: "length rule_line = 41"
  by (simp add: rule_line_def nl_def)

lemma length_event_lines: "length (event_lines e) \<le> 84"
  using fmt_lengths(1) [of "ev_sequence_id e"] fmt_lengths(1) [of "ev_thread_id e"] fmt_lengths(3) [of "ev_object_address e"]
  by (simp add: event_lines_def nl_def)

lemma length_violation_head [simp]: "length (violation_head name) = 64 + length name"
  by (simp add: violation_head_def nl_def)

lemma report_text_lengths:
  "length (self_deadlock_text e) < 768" "length (non_owner_unlock_text e) < 768"
  "length (hold_time_text e h m) < 768"
  using length_event_lines [of e] fmt_lengths(4) [of "ev_result e"] fmt_lengths(1) [of h] fmt_lengths(1) [of m]
  by (simp_all add: self_deadlock_text_def non_owner_unlock_text_def hold_time_text_def nl_def)

lemma length_held_line: "length (held_line h) \<le> 44"
  using fmt_lengths(3) [of "hm_address h"] fmt_lengths(2) [of "hm_depth h"]
  by (simp add: held_line_def nl_def)

lemma exit_header_length: "length (exit_header e t) \<le> 182"
  using fmt_lengths(1) [of "ev_sequence_id e"] fmt_lengths(1) [of "ev_thread_id e"] fmt_lengths(2) [of "th_held_count t"]
  by (simp add: exit_header_def nl_def)

definition exit_text :: "monitor_event \<Rightarrow> verifier_thread_state \<Rightarrow> string" where
  "exit_text e t = exit_header e t @ concat (map held_line (live_held t)) @ rule_line"

lemma exit_report_fits:
  assumes "thread_wf t"
  shows "snprintf_write_lines 2048 (exit_header e t)
           (map held_line (take (unat (th_held_count t)) (th_held_mutexes t))) rule_line out
         = out @ [exit_text e t]"
proof -
  let ?ls = "map held_line (live_held t)"
  have "length (concat ?ls) \<le> 44 * length ?ls"
    by (rule length_concat_le) (auto simp: length_held_line)
  also have "\<dots> \<le> 44 * 32" using length_live_held [OF assms] thread_wf_count(1) [OF assms] by simp
  finally have "length (exit_header e t) + length (concat ?ls) + length rule_line < 2048"
    using exit_header_length [of e t] by (simp only: length_rule_line)
  moreover have "exit_header e t \<noteq> []" "\<forall>l \<in> set ?ls. l \<noteq> []" "rule_line \<noteq> []"
    by (auto simp: exit_header_def violation_head_def nl_def held_line_def rule_line_def)
  ultimately show ?thesis
    using snprintf_write_lines_fits [of "exit_header e t" ?ls rule_line 2048 out]
    by (simp add: exit_text_def live_held_def)
qed

lemma text_not_Nil: "self_deadlock_text e \<noteq> []" "non_owner_unlock_text e \<noteq> []" "hold_time_text e h m \<noteq> []"
  by (simp_all add: self_deadlock_text_def non_owner_unlock_text_def hold_time_text_def violation_head_def nl_def)

lemmas report_fits =
  snprintf_write_fits [OF text_not_Nil(1) report_text_lengths(1)]
  snprintf_write_fits [OF text_not_Nil(2) report_text_lengths(2)]
  snprintf_write_fits [OF text_not_Nil(3) report_text_lengths(3)]

section \<open>Counters and reports\<close>

definition counter :: "violation_kind \<Rightarrow> verifier_state \<Rightarrow> u64" where
  "counter k s =
     (case k of
        DEADLOCK_CYCLE \<Rightarrow> deadlock_cycle_violations s
      | NON_OWNER_UNLOCK \<Rightarrow> non_owner_unlock_violations s
      | SELF_DEADLOCK_CANDIDATE \<Rightarrow> self_deadlock_candidates s
      | LOCK_HELD_AT_THREAD_EXIT \<Rightarrow> lock_held_at_exit_violations s
      | HOLD_TIME_VIOLATION \<Rightarrow> hold_time_violations s)"

text \<open>What the verifier has told: its counters and the reports it wrote.\<close>

definition told :: "verifier_state \<Rightarrow> (violation_kind \<Rightarrow> u64) \<times> string list" where
  "told s = (\<lambda>k. counter k s, stderr_writes s)"

definition tell :: "violation_kind \<Rightarrow> string \<Rightarrow> (violation_kind \<Rightarrow> u64) \<times> string list
    \<Rightarrow> (violation_kind \<Rightarrow> u64) \<times> string list" where
  "tell k text p = ((fst p)(k := fst p k + 1), snd p @ [text])"

lemma told_ops [simp]:
  "told (upd_thread i f s) = told s" "told (upd_mutex j g s) = told s"
  "told (s\<lparr>processed_events := x\<rparr>) = told s" "told (s\<lparr>last_processed_sequence := x\<rparr>) = told s"
  "told (s\<lparr>state_overflow_events := x\<rparr>) = told s" "told (s\<lparr>waiting_thread_count := y\<rparr>) = told s"
  "told (s\<lparr>candidate_cycle_mask := y\<rparr>) = told s" "told (s\<lparr>candidate_cycle_confirmations := y\<rparr>) = told s"
  "told (s\<lparr>reported_cycle_mask := y\<rparr>) = told s" "told (s\<lparr>thread_states := ts\<rparr>) = told s"
  "told (s\<lparr>mutex_states := ms\<rparr>) = told s"
  by (simp_all add: told_def counter_def fun_eq_iff split: violation_kind.splits)

lemma told_prims [simp]:
  "told (snd (find_mutex a c s)) = told s" "told (snd (find_thread tid c s)) = told s"
  "told (set_thread_waiting i a q s) = told s" "told (clear_thread_waiting i a s) = told s"
  "told (add_held_mutex i a t0 s) = told s" "told (note_gap i q s) = told s"
proof -
  show "told (snd (find_mutex a c s)) = told s" "told (snd (find_thread tid c s)) = told s"
    by (simp_all add: find_mutex_def find_thread_def split: prod.splits option.splits)
  show "told (set_thread_waiting i a q s) = told s" "told (clear_thread_waiting i a s) = told s"
    "told (add_held_mutex i a t0 s) = told s"
    by (simp_all add: set_thread_waiting_def clear_thread_waiting_def add_held_mutex_def Let_def split: option.splits)
  show "told (note_gap i q s) = told s"
    by (simp add: told_def counter_def note_gap_def mark_thread_stream_tainted_def Let_def
        invalidate_mutexes_owned_by_thread_def fun_eq_iff split: violation_kind.splits)
qed

lemma told_reports [simp]:
  "told (report_self_deadlock_candidate e s) = tell SELF_DEADLOCK_CANDIDATE (self_deadlock_text e) (told s)"
  "told (report_non_owner_unlock e s) = tell NON_OWNER_UNLOCK (non_owner_unlock_text e) (told s)"
  "told (report_hold_time_violation e n s) = tell HOLD_TIME_VIOLATION (hold_time_text e n (max_hold_ns s)) (told s)"
  "thread_wf t \<Longrightarrow>
   told (report_lock_held_at_thread_exit e t s) = tell LOCK_HELD_AT_THREAD_EXIT (exit_text e t) (told s)"
  by (simp_all add: told_def tell_def report_self_deadlock_candidate_def report_non_owner_unlock_def
      report_hold_time_violation_def report_lock_held_at_thread_exit_def report_fits exit_report_fits
      fun_eq_iff counter_def split: violation_kind.splits)

section \<open>Reports follow the specification\<close>

definition report_of :: "u64 \<Rightarrow> monitor_event \<Rightarrow> verifier_thread_state \<Rightarrow> violation_kind \<Rightarrow> string" where
  "report_of max_hold e t k =
     (case k of
        NON_OWNER_UNLOCK \<Rightarrow> non_owner_unlock_text e
      | SELF_DEADLOCK_CANDIDATE \<Rightarrow> self_deadlock_text e
      | LOCK_HELD_AT_THREAD_EXIT \<Rightarrow> exit_text e t
      | HOLD_TIME_VIOLATION \<Rightarrow>
          hold_time_text e (case held_view t (ev_object_address e) of None \<Rightarrow> 0
             | Some (first, _) \<Rightarrow> ev_timestamp_ns e - first) max_hold
      | DEADLOCK_CYCLE \<Rightarrow> [])"

definition tell_verdict where
  "tell_verdict max_hold e t v p =
     (case v of None \<Rightarrow> p | Some k \<Rightarrow> tell k (report_of max_hold e t k) p)"

lemma held_too_long_word:
  "held_too_long m f n \<longleftrightarrow> m \<noteq> 0 \<and> m < (if f \<le> n then n - f else 0)"
  by (auto simp: held_too_long_def word_le_nat_alt word_less_nat_alt unat_sub)

lemma told_release:
  assumes wf: "thread_wf (thread_states s ! i)"
  shows "told (snd (release_held_mutex i e s)) =
    (let t = thread_states s ! i in
     if \<not> th_trace_tainted t \<and> (case held_view t (ev_object_address e) of None \<Rightarrow> False
          | Some (first, d) \<Rightarrow> d \<le> 1 \<and> held_too_long (max_hold_ns s) first (ev_timestamp_ns e))
     then tell HOLD_TIME_VIOLATION (report_of (max_hold_ns s) e t HOLD_TIME_VIOLATION) (told s) else told s)"
proof (cases "find_held_mutex (thread_states s ! i) (ev_object_address e)")
  case None
  with held_view_None [OF None] show ?thesis by (simp add: release_held_eq Let_def)
next
  case (Some k)
  with held_view_Some [OF wf Some] show ?thesis
    by (auto simp: release_held_eq Let_def held_too_long_word report_of_def not_less)
qed

lemma view_eq_thread:
  "verifier_wf s \<Longrightarrow> thread_slot s tid i \<Longrightarrow> abs_thread (thread_states s ! i) = thread_view s tid"
  by (simp add: thread_view_slot)

lemma find_held_iff:
  "thread_wf t \<Longrightarrow> find_held_mutex t a \<noteq> None \<longleftrightarrow> held_view t a \<noteq> None"
  using held_view_Some [of t a] held_view_None [of t a] by (cases "find_held_mutex t a") auto

lemma EPERM_sint: "r = EPERM \<longleftrightarrow> sint r = 1"
proof -
  have e: "sint EPERM = 1" by (simp add: EPERM_def)
  have "r = EPERM" if "sint r = sint EPERM" using that by (rule signed_word_eqI)
  with e show ?thesis by auto
qed

lemma thread_entry_find_mutex:
  assumes "find_mutex a True s = (m, s2)"
  shows "thread_states s2 = thread_states s" and "max_hold_ns s2 = max_hold_ns s" and "told s2 = told s"
  using assms told_prims(1) [of a True s] by (auto simp: find_mutex_def split: prod.splits option.splits)

lemma told_dispatch:
  assumes wf: "verifier_wf s" and slot: "thread_slot s (ev_thread_id e) i"
  shows "told (dispatch_event e s) =
    tell_verdict (max_hold_ns s) e (thread_states s ! i)
      (spec_violation (max_hold_ns s) e (abs_thread (thread_states s ! i))) (told s)"
proof -
  let ?t = "thread_states s ! i" and ?a = "ev_object_address e"
  obtain m s2 where f: "find_mutex ?a True s = (m, s2)" by (cases "find_mutex ?a True s")
  note s2 = thread_entry_find_mutex [OF f]
  have t: "thread_wf ?t" using wf slot by (rule thread_slot_wf)
  obtain r s3 where r: "release_held_mutex i e s2 = (r, s3)" by (cases "release_held_mutex i e s2")
  have acq: "told (handle_lock_acquired e s) = told s"
    using s2 by (simp add: handle_lock_acquired_def thread_slot_find [OF wf slot] f Let_def split: option.splits)
  have unl: "told (handle_unlocked e s) = told (snd (release_held_mutex i e s2))"
    using r by (simp add: handle_unlocked_def thread_slot_find [OF wf slot] f split: option.splits)
  have req: "told (handle_lock_request e s) =
      (if \<not> th_trace_tainted ?t \<and> held_view ?t ?a \<noteq> None then tell SELF_DEADLOCK_CANDIDATE (self_deadlock_text e) (told s) else told s)"
    using s2 find_held_iff [OF t, of ?a]
    by (auto simp: handle_lock_request_def thread_slot_find [OF wf slot] f Let_def)
  have ext: "told (handle_thread_exit e s) =
      (if \<not> th_trace_tainted ?t \<and> held_view ?t \<noteq> Map.empty then tell LOCK_HELD_AT_THREAD_EXIT (exit_text e ?t) (told s) else told s)"
    using held_view_empty_iff [OF t] t by (auto simp: handle_thread_exit_def thread_slot_find [OF wf slot] Let_def)
  have oth: "told (handle_thread_start e s) = told s" "told (handle_lock_failed e s) = told s"
    "told (handle_unlock_failed e s) =
       (if sint (ev_result e) = 1 then tell NON_OWNER_UNLOCK (non_owner_unlock_text e) (told s) else told s)"
    by (simp_all add: handle_thread_start_def handle_lock_failed_def handle_unlock_failed_def
        thread_slot_find [OF wf slot] EPERM_sint)
  show ?thesis
    using told_release [of s2 i e, unfolded s2] t
    by (simp add: dispatch_event_def spec_violation_def tell_verdict_def Let_def acq unl req ext oth report_of_def)
qed

lemma hold_config [simp]:
  "max_hold_ns (note_gap i q s) = max_hold_ns s" "max_hold_ns (snd (find_thread tid c s)) = max_hold_ns s"
  by (simp_all add: note_gap_def mark_thread_stream_tainted_def Let_def invalidate_mutexes_owned_by_thread_def
      find_thread_def split: prod.splits option.splits)

lemma observe_told:
  assumes wf: "verifier_wf s" and ob: "observe_thread_sequence e s = (Some i, s1)"
  shows "told s1 = told s" and "max_hold_ns s1 = max_hold_ns s"
proof -
  obtain s0 where f: "find_thread (ev_thread_id e) True s = (Some i, s0)"
    and s1: "s1 = upd_thread i (observed (ev_thread_sequence e))
           (if ev_thread_sequence e = expected_seq (thread_states s0 ! i) then s0
            else note_gap i (ev_sequence_id e) s0)"
    using ob by (auto simp: observe_eq [OF wf] split: prod.splits option.splits)
  show "told s1 = told s" and "max_hold_ns s1 = max_hold_ns s"
    using told_prims(2) [of "ev_thread_id e" True s] hold_config(2) [of "ev_thread_id e" True s] f
    by (simp_all add: s1)
qed

lemma told_process:
  assumes wf: "verifier_wf s"
    and ok: "state_overflow_events (monitor_verifier_process_event (Some e) s) = state_overflow_events s"
  obtains t where "abs_thread t = view_thread (spec_note e (abs_view s)) (ev_thread_id e)" and "thread_wf t"
    and "told (monitor_verifier_process_event (Some e) s) =
      tell_verdict (max_hold_ns s) e t (spec_verdict (max_hold_ns s) e (abs_view s)) (told s)"
  using wf
proof (cases rule: process_event_cases [where e = e])
  case Full
  with ok show ?thesis by simp
next
  case (Ok i s1)
  let ?s = "s\<lparr>processed_events := processed_events s + 1,
        last_processed_sequence := max (last_processed_sequence s) (ev_sequence_id e)\<rparr>"
  have wf': "verifier_wf ?s" using wf by simp
  have v: "abs_view ?s = abs_view s" by (rule abs_view_cong) simp_all
  note s1 = observe_told [OF wf' Ok(1)]
  let ?t = "thread_states s1 ! i"
  have view: "abs_thread ?t = view_thread (spec_note e (abs_view s)) (ev_thread_id e)"
    using view_observe [OF wf' Ok(1)] v thread_view_slot [OF Ok(3,4)]
    by (metis abs_view_def monitor_view.select_convs(1))
  moreover have "told (monitor_verifier_process_event (Some e) s) =
      tell_verdict (max_hold_ns s) e ?t (spec_verdict (max_hold_ns s) e (abs_view s)) (told s)"
    using told_dispatch [of "s1\<lparr>candidate_cycle_mask := 0, candidate_cycle_confirmations := 0\<rparr>" e i] Ok s1 view
    by (simp add: spec_verdict_def)
  ultimately show ?thesis using that thread_slot_wf [OF Ok(3,4)] by blast
qed

end
