(* ===== verification/Verifier_Run.thy ===== *)
theory Verifier_Run
  imports Verifier_Reports "HOL-Library.Multiset"
begin

text \<open>
  Sequences of events.  A run that overflows no table is a run of the specification, and
  events of different threads commute in it when no stream has a gap: the order in which
  the consumer interleaves the threads' streams is irrelevant.
\<close>

section \<open>Sequences of events\<close>

primrec process_events :: "monitor_event list \<Rightarrow> verifier_state \<Rightarrow> verifier_state" where
  "process_events [] s = s"
| "process_events (e # es) s = process_events es (monitor_verifier_process_event (Some e) s)"

primrec spec_run :: "monitor_event list \<Rightarrow> monitor_view \<Rightarrow> monitor_view" where
  "spec_run [] v = v"
| "spec_run (e # es) v = spec_run es (spec_process e v)"

primrec spec_verdicts :: "u64 \<Rightarrow> monitor_event list \<Rightarrow> monitor_view \<Rightarrow> violation_kind list" where
  "spec_verdicts mh [] v = []"
| "spec_verdicts mh (e # es) v =
     (case spec_verdict mh e v of None \<Rightarrow> [] | Some k \<Rightarrow> [k]) @ spec_verdicts mh es (spec_process e v)"

text \<open>The thread-local part of processing one event, and freedom from sequence gaps.\<close>

definition thread_event :: "monitor_event \<Rightarrow> spec_thread \<Rightarrow> spec_thread" where
  "thread_event e t = spec_thread_step e (spec_observe (ev_thread_sequence e) t)"

primrec gap_free :: "monitor_event list \<Rightarrow> monitor_view \<Rightarrow> bool" where
  "gap_free [] v \<longleftrightarrow> True"
| "gap_free (e # es) v \<longleftrightarrow> \<not> spec_gap e (view_thread v (ev_thread_id e)) \<and> gap_free es (spec_process e v)"

abbreviation of_thread :: "u64 \<Rightarrow> monitor_event list \<Rightarrow> monitor_event list" where
  "of_thread tid es \<equiv> filter (\<lambda>e. ev_thread_id e = tid) es"

section \<open>Refinement of sequences\<close>

lemma wf_process_events: "verifier_wf s \<Longrightarrow> verifier_wf (process_events es s)"
  by (induction es arbitrary: s) (simp_all add: wf_process_event)

lemma max_hold_upd [simp]:
  "max_hold_ns (set_thread_waiting i a q s) = max_hold_ns s" "max_hold_ns (clear_thread_waiting i a s) = max_hold_ns s"
  "max_hold_ns (add_held_mutex i a t0 s) = max_hold_ns s" "max_hold_ns (snd (release_held_mutex i e s)) = max_hold_ns s"
  "max_hold_ns (snd (find_mutex a c s)) = max_hold_ns s"
  "max_hold_ns (report_hold_time_violation e n s) = max_hold_ns s"
  "max_hold_ns (report_self_deadlock_candidate e s) = max_hold_ns s"
  "max_hold_ns (report_non_owner_unlock e s) = max_hold_ns s"
  "max_hold_ns (report_lock_held_at_thread_exit e t s) = max_hold_ns s"
  by (simp_all add: set_thread_waiting_def clear_thread_waiting_def add_held_eq release_held_eq find_mutex_def Let_def
      report_hold_time_violation_def report_self_deadlock_candidate_def report_non_owner_unlock_def
      report_lock_held_at_thread_exit_def split: option.splits prod.splits)

lemma max_hold_dispatch:
  assumes wf: "verifier_wf s" and slot: "thread_slot s (ev_thread_id e) i"
  shows "max_hold_ns (dispatch_event e s) = max_hold_ns s"
proof -
  obtain m s2 where f: "find_mutex (ev_object_address e) True s = (m, s2)" by (cases "find_mutex (ev_object_address e) True s")
  have s2: "max_hold_ns s2 = max_hold_ns s" using thread_entry_find_mutex [OF f] by simp
  obtain r s3 where r: "release_held_mutex i e s2 = (r, s3)" by (cases "release_held_mutex i e s2")
  have s3: "max_hold_ns s3 = max_hold_ns s2" using max_hold_upd(4) [of i e s2] r by simp
  show ?thesis
    using s2 s3 r
    by (simp add: dispatch_event_def handle_thread_start_def handle_thread_exit_def handle_lock_request_def
        handle_lock_acquired_def handle_lock_failed_def handle_unlocked_def handle_unlock_failed_def
        thread_slot_find [OF wf slot] f Let_def split: option.splits)
qed

lemma max_hold_process:
  assumes wf: "verifier_wf s"
  shows "max_hold_ns (monitor_verifier_process_event (Some e) s) = max_hold_ns s"
  using wf
proof (cases rule: process_event_cases [where e = e])
  case (Ok i s1)
  with observe_told(2) [OF _ Ok(1)] wf show ?thesis
    by (simp add: max_hold_dispatch [where i = i])
qed simp

lemma overflow_mono:
  assumes "verifier_wf s" and "unat (state_overflow_events s) + length es < 2 ^ 64"
  shows "unat (state_overflow_events s) \<le> unat (state_overflow_events (process_events es s))"
  using assms
proof (induction es arbitrary: s)
  case (Cons e es)
  let ?s = "monitor_verifier_process_event (Some e) s"
  have "unat (state_overflow_events s + 1) = Suc (unat (state_overflow_events s))"
    using Cons.prems(2) by (simp add: unat_word_ariths)
  then have "unat (state_overflow_events ?s) \<in> {unat (state_overflow_events s), Suc (unat (state_overflow_events s))}"
    using overflow_process [OF Cons.prems(1), of e] by auto
  moreover from this have "unat (state_overflow_events ?s) \<le> unat (state_overflow_events (process_events es ?s))"
    using Cons.prems by (intro Cons.IH wf_process_event) auto
  ultimately show ?case by auto
qed simp

lemma no_overflow_step:
  assumes wf: "verifier_wf s" and z: "state_overflow_events s = 0" and n: "length (e # es) < 2 ^ 64"
    and fin: "state_overflow_events (process_events (e # es) s) = 0"
  shows "state_overflow_events (monitor_verifier_process_event (Some e) s) = 0"
proof -
  let ?s = "monitor_verifier_process_event (Some e) s"
  have "state_overflow_events ?s = 0 \<or> state_overflow_events ?s = 1"
    using overflow_process [OF wf, of e] z by auto
  then show ?thesis
  proof
    assume one: "state_overflow_events ?s = 1"
    then have "unat (state_overflow_events ?s) \<le> unat (state_overflow_events (process_events es ?s))"
      using wf n by (intro overflow_mono wf_process_event) simp_all
    with fin one show ?thesis by simp
  qed
qed

theorem run_refines:
  assumes "verifier_wf s" and "state_overflow_events s = 0" and "length es < 2 ^ 64"
    and "state_overflow_events (process_events es s) = 0"
  shows "abs_view (process_events es s) = spec_run es (abs_view s)"
    and "counter k (process_events es s) =
           counter k s + of_nat (count_list (spec_verdicts (max_hold_ns s) es (abs_view s)) k)"
proof -
  have "abs_view (process_events es s) = spec_run es (abs_view s) \<and>
    counter k (process_events es s) =
           counter k s + of_nat (count_list (spec_verdicts (max_hold_ns s) es (abs_view s)) k)"
    using assms
  proof (induction es arbitrary: s)
    case (Cons e es)
    let ?s = "monitor_verifier_process_event (Some e) s"
    have z: "state_overflow_events ?s = 0" using no_overflow_step Cons.prems by blast
    then have ok: "state_overflow_events ?s = state_overflow_events s" using Cons.prems by simp
    have v: "abs_view ?s = spec_process e (abs_view s)" using process_refines [OF Cons.prems(1) ok] .
    obtain t where "told ?s = tell_verdict (max_hold_ns s) e t (spec_verdict (max_hold_ns s) e (abs_view s)) (told s)"
      using told_process [OF Cons.prems(1) ok] by metis
    then have c: "counter k ?s = counter k s + of_nat (count_list (case spec_verdict (max_hold_ns s) e (abs_view s) of None \<Rightarrow> [] | Some k \<Rightarrow> [k]) k)"
      by (auto simp: told_def tell_verdict_def tell_def fun_eq_iff split: option.splits if_splits)
    have "abs_view (process_events es ?s) = spec_run es (abs_view ?s) \<and>
      counter k (process_events es ?s) = counter k ?s + of_nat (count_list (spec_verdicts (max_hold_ns ?s) es (abs_view ?s)) k)"
      using Cons.prems z wf_process_event by (intro Cons.IH) simp_all
    then show ?case using v c max_hold_process [OF Cons.prems(1), of e] by (simp add: add.assoc)
  qed simp
  then show "abs_view (process_events es s) = spec_run es (abs_view s)"
    and "counter k (process_events es s) =
           counter k s + of_nat (count_list (spec_verdicts (max_hold_ns s) es (abs_view s)) k)" by blast+
qed

section \<open>Events of different threads commute\<close>

lemma process_view_thread:
  "view_thread (spec_process e v) = (view_thread v)(ev_thread_id e := thread_event e (view_thread v (ev_thread_id e)))"
  by (simp add: spec_process_def spec_dispatch_def spec_note_def thread_event_def Let_def)

definition publication :: "monitor_event \<Rightarrow> spec_thread \<Rightarrow> ownership option" where
  "publication e t = spec_publish e (spec_observe (ev_thread_sequence e) t)"

definition publish_to :: "monitor_event \<Rightarrow> ownership option \<Rightarrow> (uintptr \<Rightarrow> spec_mutex) \<Rightarrow> uintptr \<Rightarrow> spec_mutex" where
  "publish_to e w m = (case w of None \<Rightarrow> m
     | Some o1 \<Rightarrow> m(ev_object_address e := spec_accept (ev_sequence_id e) o1 (m (ev_object_address e))))"

lemma process_view_mutex:
  assumes "\<not> spec_gap e (view_thread v (ev_thread_id e))"
  shows "view_mutex (spec_process e v) =
    publish_to e (publication e (view_thread v (ev_thread_id e))) (view_mutex v)"
  using assms
  by (simp add: spec_process_def spec_dispatch_def spec_note_def publication_def publish_to_def Let_def
      split: option.splits)

lemma verdict_local:
  "view_thread v (ev_thread_id e) = view_thread v' (ev_thread_id e) \<Longrightarrow> spec_verdict mh e v = spec_verdict mh e v'"
  by (simp add: spec_verdict_def spec_note_def Let_def)

lemma publish_commute:
  "ev_sequence_id e \<noteq> ev_sequence_id f \<Longrightarrow> publish_to e w (publish_to f x m) = publish_to f x (publish_to e w m)"
  by (auto simp: publish_to_def spec_accept_def fun_eq_iff split: option.splits)

lemma process_commute:
  assumes tid: "ev_thread_id e \<noteq> ev_thread_id f" and seqs: "ev_sequence_id e \<noteq> ev_sequence_id f"
    and gf: "gap_free [e, f] v"
  shows "spec_run [e, f] v = spec_run [f, e] v" and "gap_free [f, e] v"
    and "mset (spec_verdicts mh [e, f] v) = mset (spec_verdicts mh [f, e] v)"
proof -
  let ?e = "view_thread v (ev_thread_id e)" and ?f = "view_thread v (ev_thread_id f)"
  have g: "\<not> spec_gap e ?e" "\<not> spec_gap f ?f" using gf tid by (simp_all add: process_view_thread)
  then show "gap_free [f, e] v" using tid by (simp add: process_view_thread)
  have "view_thread (spec_run [e, f] v) = view_thread (spec_run [f, e] v)"
    using tid by (simp add: process_view_thread fun_upd_twist)
  moreover have "view_mutex (spec_run [e, f] v) = view_mutex (spec_run [f, e] v)"
    using tid g publish_commute [OF seqs] by (simp add: process_view_mutex process_view_thread)
  ultimately show "spec_run [e, f] v = spec_run [f, e] v" by simp
  have "spec_verdict mh f (spec_process e v) = spec_verdict mh f v" "spec_verdict mh e (spec_process f v) = spec_verdict mh e v"
    using tid by (auto intro!: verdict_local simp: process_view_thread)
  then show "mset (spec_verdicts mh [e, f] v) = mset (spec_verdicts mh [f, e] v)"
    by (simp split: option.splits)
qed

lemma spec_run_append: "spec_run (xs @ ys) v = spec_run ys (spec_run xs v)"
  by (induction xs arbitrary: v) simp_all

lemma spec_verdicts_append:
  "spec_verdicts mh (xs @ ys) v = spec_verdicts mh xs v @ spec_verdicts mh ys (spec_run xs v)"
  by (induction xs arbitrary: v) simp_all

lemma gap_free_append: "gap_free (xs @ ys) v \<longleftrightarrow> gap_free xs v \<and> gap_free ys (spec_run xs v)"
  by (induction xs arbitrary: v) simp_all

lemma event_to_front:
  assumes "\<forall>f \<in> set xs. ev_thread_id f \<noteq> ev_thread_id e \<and> ev_sequence_id f \<noteq> ev_sequence_id e"
    and "gap_free (e # xs) v"
  shows "spec_run (xs @ [e]) v = spec_run (e # xs) v \<and> gap_free (xs @ [e]) v \<and>
    mset (spec_verdicts mh (xs @ [e]) v) = mset (spec_verdicts mh (e # xs) v)"
  using assms
proof (induction xs arbitrary: v)
  case (Cons f xs)
  have ef: "ev_thread_id e \<noteq> ev_thread_id f" "ev_sequence_id e \<noteq> ev_sequence_id f" using Cons.prems(1) by auto
  have gf: "gap_free [e, f] v" using Cons.prems(2) by simp
  note c = process_commute [OF ef gf]
  have "gap_free (e # xs) (spec_process f v)"
    using Cons.prems(2) c(1,2) by simp
  from Cons.IH [OF _ this] Cons.prems(1)
  have ih: "spec_run (xs @ [e]) (spec_process f v) = spec_run (e # xs) (spec_process f v)"
    "gap_free (xs @ [e]) (spec_process f v)"
    "mset (spec_verdicts mh (xs @ [e]) (spec_process f v)) = mset (spec_verdicts mh (e # xs) (spec_process f v))"
    by auto
  have "spec_run (e # f # xs) v = spec_run (f # e # xs) v" using c(1) by simp
  moreover have "mset (spec_verdicts mh (e # f # xs) v) = mset (spec_verdicts mh (f # e # xs) v)"
    using c(1) c(3) [of mh] spec_verdicts_append [of mh "[e, f]" xs v] spec_verdicts_append [of mh "[f, e]" xs v]
    by simp
  ultimately show ?case using ih c(2) by simp
qed simp

text \<open>
  Two event sequences in which every thread's events appear in the same order.
\<close>

definition same_streams :: "monitor_event list \<Rightarrow> monitor_event list \<Rightarrow> bool" where
  "same_streams es fs \<longleftrightarrow> (\<forall>tid. of_thread tid es = of_thread tid fs)"

lemma same_streams_set:
  assumes "same_streams es fs"
  shows "set es = set fs"
proof (rule set_eqI)
  fix x
  have "x \<in> set (of_thread (ev_thread_id x) es) \<longleftrightarrow> x \<in> set (of_thread (ev_thread_id x) fs)"
    using assms by (simp only: same_streams_def)
  then show "x \<in> set es \<longleftrightarrow> x \<in> set fs" by simp
qed

lemma streams_interleave:
  assumes "same_streams es fs" and "distinct (map ev_sequence_id es)" and "distinct (map ev_sequence_id fs)"
    and "gap_free es v"
  shows "spec_run fs v = spec_run es v \<and> gap_free fs v \<and>
    mset (spec_verdicts mh fs v) = mset (spec_verdicts mh es v)"
  using assms
proof (induction es arbitrary: fs v)
  case Nil
  then have "fs = []" using same_streams_set [OF Nil(1)] by simp
  then show ?case by simp
next
  case (Cons e es)
  let ?tid = "ev_thread_id e"
  have "e \<in> set fs" using same_streams_set [OF Cons.prems(1)] by auto
  moreover have "of_thread ?tid fs = e # of_thread ?tid es" using Cons.prems(1) by (simp add: same_streams_def) (metis (full_types))
  then obtain xs ys where fs: "fs = xs @ e # ys" and xs: "\<forall>f \<in> set xs. ev_thread_id f \<noteq> ?tid"
    and ys: "of_thread ?tid ys = of_thread ?tid es"
    by (auto simp: filter_eq_Cons_iff)
  have rest: "same_streams es (xs @ ys)"
    unfolding same_streams_def
  proof
    fix tid
    have "of_thread tid (e # es) = of_thread tid fs" using Cons.prems(1) by (simp add: same_streams_def)
    moreover have "of_thread ?tid xs = []" using xs by (simp add: filter_empty_conv)
    ultimately show "of_thread tid es = of_thread tid (xs @ ys)" by (cases "tid = ?tid") (auto simp: fs)
  qed
  have gf: "gap_free es (spec_process e v)" using Cons.prems(4) by simp
  have ih: "spec_run (xs @ ys) (spec_process e v) = spec_run es (spec_process e v)"
    "gap_free (xs @ ys) (spec_process e v)"
    "mset (spec_verdicts mh (xs @ ys) (spec_process e v)) = mset (spec_verdicts mh es (spec_process e v))"
    using Cons.IH [OF rest _ _ gf] Cons.prems(2,3) by (auto simp: fs)
  have front: "spec_run (xs @ [e]) v = spec_run (e # xs) v \<and> gap_free (xs @ [e]) v \<and>
      mset (spec_verdicts mh (xs @ [e]) v) = mset (spec_verdicts mh (e # xs) v)"
  proof (rule event_to_front)
    show "\<forall>f \<in> set xs. ev_thread_id f \<noteq> ?tid \<and> ev_sequence_id f \<noteq> ev_sequence_id e"
      using xs Cons.prems(3) by (auto simp: fs) (metis image_eqI)
    show "gap_free (e # xs) v" using Cons.prems(4) ih(2) by (simp add: gap_free_append)
  qed
  have split: "fs = (xs @ [e]) @ ys" by (simp add: fs)
  have "spec_run fs v = spec_run (e # es) v"
    unfolding split spec_run_append [of "xs @ [e]"] using front ih(1) by (simp add: spec_run_append)
  moreover have "gap_free fs v"
    unfolding split gap_free_append [of "xs @ [e]"] using front ih(2) by (simp add: gap_free_append)
  moreover have "mset (spec_verdicts mh fs v) = mset (spec_verdicts mh (e # es) v)"
    unfolding split spec_verdicts_append [of mh "xs @ [e]"] mset_append
    using front ih(3) by (simp add: spec_verdicts_append)
  ultimately show ?case by blast
qed

section \<open>A complete trace has no gap\<close>

lemma tainted_stays:
  "sp_tainted (view_thread v tid) \<Longrightarrow> sp_tainted (view_thread (spec_run es v) tid)"
proof (induction es arbitrary: v)
  case (Cons e es)
  have step: "sp_tainted (thread_event e t)" if "sp_tainted t" for t
    using that by (auto simp: thread_event_def spec_observe_def spec_thread_step_def spec_acquire_def
        spec_clear_waiting_def spec_release_def Let_def split: option.splits)
  have "sp_tainted (view_thread (spec_process e v) tid)"
    using Cons.prems step by (auto simp: process_view_thread)
  then show ?case using Cons.IH by simp
qed simp

lemma gap_taints: "spec_gap e t \<Longrightarrow> sp_tainted (thread_event e t)"
  by (auto simp: thread_event_def spec_gap_def spec_observe_def spec_thread_step_def spec_acquire_def
        spec_clear_waiting_def spec_release_def Let_def split: option.splits)

lemma untainted_gap_free:
  assumes "\<And>tid. \<not> sp_tainted (view_thread (spec_run es v) tid)"
  shows "gap_free es v"
  using assms
proof (induction es arbitrary: v)
  case (Cons e es)
  have "\<not> spec_gap e (view_thread v (ev_thread_id e))"
    using Cons.prems [of "ev_thread_id e"] tainted_stays gap_taints by (force simp: process_view_thread)
  with Cons show ?case by simp
qed simp

lemma untainted_view:
  assumes wf: "verifier_wf s" and z: "tainted_thread_streams s = 0"
  shows "\<not> sp_tainted (view_thread (abs_view s) tid)"
proof -
  have "count_if th_trace_tainted (thread_states s) \<le> 16"
    using count_if_le [of th_trace_tainted "thread_states s"] wf by (simp add: verifier_wf_def)
  moreover have "(of_nat (count_if th_trace_tainted (thread_states s)) :: u32) = 0"
    using wf z by (simp add: verifier_wf_def)
  ultimately have "count_if th_trace_tainted (thread_states s) = 0"
    by (auto simp: word_of_nat_eq_0_iff dest!: dvd_imp_le)
  then have nt: "\<not> th_trace_tainted t" if "t \<in> set (thread_states s)" for t
    using that by (auto simp: count_if_def filter_empty_conv)
  show ?thesis
  proof (cases "fst (find_thread_loop tid 0 None (thread_states s))")
    case (Some i)
    then show ?thesis
      using threads.scan_found [OF Some] nt by (simp add: abs_view_def thread_view_def slot_view_def)
  qed (simp add: abs_view_def thread_view_def slot_view_def fresh_thread_def)
qed

lemma abs_init: "abs_view (monitor_verifier_init env s) = initial_view"
proof -
  have "fst (find_thread_loop tid 0 None (replicate 16 zero_thread)) = None" for tid
    using threads.scan_found [of tid "replicate 16 zero_thread"]
    by (cases "fst (find_thread_loop tid 0 None (replicate 16 zero_thread))") (auto simp: zero_thread_def)
  moreover have "fst (find_mutex_loop a 0 None (replicate 128 zero_mutex)) = None" for a
    using mutexes.scan_found [of a "replicate 128 zero_mutex"]
    by (cases "fst (find_mutex_loop a 0 None (replicate 128 zero_mutex))") (auto simp: zero_mutex_def)
  ultimately show ?thesis
    by (simp add: abs_view_def initial_view_def thread_view_def mutex_view_def slot_view_def fun_eq_iff
        monitor_verifier_init_def)
qed

end
