(* ===== verification/Verifier_Trace.thy ===== *)
theory Verifier_Trace
  imports Verifier_Run
begin

text \<open>
  Properties of whole runs of \<^verbatim>\<open>src/monitor_verifier.c\<close>: refinement of the
  specification, independence of the interleaving, exact detection of stream gaps, the
  invariants of reachable states, the verdict on one event, and what a tainted stream can
  still cause.
\<close>

section \<open>Concrete traces\<close>

text \<open>
  The static variables before \<open>monitor_verifier_init\<close> runs, and small traces in which
  the hypotheses of the theorems hold.
\<close>

definition verifier_boot :: verifier_state where
  [zero_defs]: "verifier_boot =
     \<lparr>thread_states = replicate VERIFIER_MAX_THREADS zero_thread,
      mutex_states = replicate VERIFIER_MAX_MUTEXES zero_mutex,
      processed_events = 0, deadlock_cycle_violations = 0, non_owner_unlock_violations = 0,
      self_deadlock_candidates = 0, lock_held_at_exit_violations = 0, hold_time_violations = 0,
      state_overflow_events = 0, detected_stream_gaps = 0, tainted_thread_streams = 0,
      max_hold_ns = DEFAULT_MAX_HOLD_NS, waiting_thread_count = 0, candidate_cycle_mask = 0,
      candidate_cycle_confirmations = 0, reported_cycle_mask = 0, last_processed_sequence = 0,
      stderr_writes = []\<rparr>"

abbreviation verifier_start :: verifier_state where
  "verifier_start \<equiv> monitor_verifier_init None verifier_boot"

definition trace_event ::
    "u64 \<Rightarrow> u64 \<Rightarrow> u32 \<Rightarrow> monitor_event_type \<Rightarrow> uintptr \<Rightarrow> u64 \<Rightarrow> monitor_event" where
  "trace_event q tid n k a now =
     \<lparr>ev_sequence_id = q, ev_timestamp_ns = now, ev_thread_id = tid, ev_object_address = a,
      ev_event_type = event_code k, ev_result = 0, ev_flags = 0, ev_thread_sequence = n\<rparr>"

text \<open>Thread 11 takes mutex 64 and requests it again; thread 12 asks for it in between.\<close>

definition self_trace :: "monitor_event list" where
  "self_trace =
     [trace_event 0 11 0 MONITOR_EVENT_LOCK_REQUEST 64 10,
      trace_event 1 11 1 MONITOR_EVENT_LOCK_ACQUIRED 64 11,
      trace_event 2 12 0 MONITOR_EVENT_LOCK_REQUEST 64 12,
      trace_event 3 11 2 MONITOR_EVENT_LOCK_REQUEST 64 14]"

definition self_trace_shuffled :: "monitor_event list" where
  "self_trace_shuffled =
     [trace_event 2 12 0 MONITOR_EVENT_LOCK_REQUEST 64 12,
      trace_event 0 11 0 MONITOR_EVENT_LOCK_REQUEST 64 10,
      trace_event 1 11 1 MONITOR_EVENT_LOCK_ACQUIRED 64 11,
      trace_event 3 11 2 MONITOR_EVENT_LOCK_REQUEST 64 14]"

lemma self_trace_complete: "verifier_complete (process_events self_trace verifier_start)"
  by code_simp

lemma self_trace_shuffled_ok:
  "state_overflow_events (process_events self_trace_shuffled verifier_start) = 0"
  by code_simp

section \<open>Runs of the verifier\<close>

lemma init_fields:
  "state_overflow_events (monitor_verifier_init env s) = 0"
  "max_hold_ns (monitor_verifier_init env s) = load_configuration env"
  "counter k (monitor_verifier_init env s) = 0"
  by (simp_all add: monitor_verifier_init_def counter_def split: violation_kind.splits)

text \<open>
  (C5) Refinement of whole runs.  If a run of fewer than 2^64 events over a freshly
  initialised verifier counted no table overflow, then the verifier's final view of every
  thread and of every mutex is the one the capacity-free specification computes, and each
  violation counter is the number of verdicts of its kind the specification gives.
\<close>

theorem complete_run_refines:
  assumes "length es < 2 ^ 64"
    and "state_overflow_events (process_events es (monitor_verifier_init env s)) = 0"
  shows "abs_view (process_events es (monitor_verifier_init env s)) = spec_run es initial_view \<and>
    counter k (process_events es (monitor_verifier_init env s)) =
      of_nat (count_list (spec_verdicts (load_configuration env) es initial_view) k)"
  using run_refines(1) [OF wf_init [of env s], where es = es] run_refines(2) [OF wf_init [of env s], where es = es and k = k] assms by (simp add: init_fields abs_init)

theorem complete_run_refines_witness:
  "counter SELF_DEADLOCK_CANDIDATE (process_events self_trace verifier_start) =
     of_nat (count_list (spec_verdicts 100000000 self_trace initial_view) SELF_DEADLOCK_CANDIDATE)"
proof -
  have "length self_trace < 2 ^ 64" by (simp add: self_trace_def)
  moreover have "state_overflow_events (process_events self_trace verifier_start) = 0"
    using self_trace_complete by (simp add: verifier_complete_def)
  ultimately show ?thesis
    using complete_run_refines [of self_trace None verifier_boot SELF_DEADLOCK_CANDIDATE]
    by (simp add: load_configuration_def)
qed

section \<open>Interleaving\<close>

lemma count_of_thread: "count (mset (of_thread (ev_thread_id x) es)) x = count (mset es) x"
  by (induction es) auto

lemma same_streams_mset: "same_streams es fs \<Longrightarrow> mset es = mset fs"
  by (rule multiset_eqI) (metis count_of_thread same_streams_def)

lemma same_streams_seqs:
  assumes "same_streams es fs" and "distinct (map ev_sequence_id es)"
  shows "distinct (map ev_sequence_id fs)" and "length fs = length es"
proof -
  have "mset (map ev_sequence_id es) = mset (map ev_sequence_id fs)"
    using same_streams_mset [OF assms(1)] by simp
  then show "distinct (map ev_sequence_id fs)" using assms(2) by (metis mset_eq_imp_distinct_iff)
  show "length fs = length es" using same_streams_mset [OF assms(1)] by (metis size_mset)
qed

lemma complete_iff_untainted:
  assumes wf: "verifier_wf s"
  shows "tainted_thread_streams s = 0 \<longleftrightarrow> (\<forall>tid. \<not> sp_tainted (view_thread (abs_view s) tid))"
proof
  assume r: "\<forall>tid. \<not> sp_tainted (view_thread (abs_view s) tid)"
  have "\<not> th_trace_tainted t" if t: "t \<in> set (thread_states s)" for t
  proof (cases "th_used t")
    case True
    from t obtain i where "i < length (thread_states s)" "thread_states s ! i = t" by (auto simp: in_set_conv_nth)
    with True have "thread_slot s (th_thread_id t) i" by (simp add: thread_slot_def)
    with r wf show ?thesis using thread_view_slot [OF wf, of "th_thread_id t" i] \<open>thread_states s ! i = t\<close>
      by (metis abs_thread_sel(1) abs_view_def monitor_view.select_convs(1))
  next
    case False
    then have "t = zero_thread" using wf t by (auto simp: verifier_wf_def thread_wf_def)
    then show ?thesis by (simp add: zero_thread_def)
  qed
  then have "count_if th_trace_tainted (thread_states s) = 0" by (simp add: count_if_def filter_empty_conv)
  then show "tainted_thread_streams s = 0" using wf by (simp add: verifier_wf_def)
qed (use untainted_view [OF wf] in blast)

text \<open>
  (C6) The consumer drains one ring after the other, so the verifier sees the threads'
  streams in an arbitrary interleaving.  On a complete trace (no overflow, no gap) with
  distinct sequence numbers the interleaving is irrelevant: every other order that keeps
  each thread's own order leads to the same threads, the same mutex owners, the same
  violation counters, and is complete as well.
\<close>

theorem interleaving_irrelevant:
  assumes "same_streams es fs" and "distinct (map ev_sequence_id es)" and "length es < 2 ^ 64"
    and "verifier_complete (process_events es (monitor_verifier_init env s))"
    and "state_overflow_events (process_events fs (monitor_verifier_init env s)) = 0"
  shows "verifier_complete (process_events fs (monitor_verifier_init env s)) \<and>
    abs_view (process_events fs (monitor_verifier_init env s)) =
      abs_view (process_events es (monitor_verifier_init env s)) \<and>
    counter k (process_events fs (monitor_verifier_init env s)) =
      counter k (process_events es (monitor_verifier_init env s))"
proof -
  let ?s = "monitor_verifier_init env s"
  note fs = same_streams_seqs [OF assms(1,2)]
  have e: "state_overflow_events (process_events es ?s) = 0" "tainted_thread_streams (process_events es ?s) = 0"
    using assms(4) by (simp_all add: verifier_complete_def)
  have ve: "abs_view (process_events es ?s) = spec_run es initial_view"
    and vf: "abs_view (process_events fs ?s) = spec_run fs initial_view"
    and ce: "counter k (process_events es ?s) = of_nat (count_list (spec_verdicts (load_configuration env) es initial_view) k)"
    and cf: "counter k (process_events fs ?s) = of_nat (count_list (spec_verdicts (load_configuration env) fs initial_view) k)"
    using run_refines(1) [OF wf_init [of env s], where es = es] run_refines(2) [OF wf_init [of env s], where es = es and k = k] run_refines(1) [OF wf_init [of env s], where es = fs] run_refines(2) [OF wf_init [of env s], where es = fs and k = k] assms(3,5) e fs
    by (simp_all add: init_fields abs_init)
  have wfs: "verifier_wf (process_events xs ?s)" for xs by (rule wf_process_events [OF wf_init])
  have "gap_free es initial_view"
    using untainted_gap_free complete_iff_untainted [OF wfs] e(2) ve by metis
  from streams_interleave [OF assms(1,2) fs(1) this, of "load_configuration env"]
  have run: "spec_run fs initial_view = spec_run es initial_view"
    and verdicts: "mset (spec_verdicts (load_configuration env) fs initial_view) = mset (spec_verdicts (load_configuration env) es initial_view)"
    by blast+
  have "tainted_thread_streams (process_events fs ?s) = 0"
    using complete_iff_untainted [OF wfs] e(2) ve vf run by metis
  moreover have "count_list (spec_verdicts (load_configuration env) fs initial_view) k
      = count_list (spec_verdicts (load_configuration env) es initial_view) k"
    using verdicts by (metis count_mset)
  ultimately show ?thesis using assms(5) ve vf run ce cf by (simp add: verifier_complete_def)
qed

theorem interleaving_irrelevant_witness:
  "verifier_complete (process_events self_trace_shuffled verifier_start) \<and>
    counter SELF_DEADLOCK_CANDIDATE (process_events self_trace_shuffled verifier_start) =
      counter SELF_DEADLOCK_CANDIDATE (process_events self_trace verifier_start)"
proof -
  have "same_streams self_trace self_trace_shuffled"
    by (auto simp: same_streams_def self_trace_def self_trace_shuffled_def trace_event_def)
  moreover have "distinct (map ev_sequence_id self_trace)" "length self_trace < 2 ^ 64"
    by (simp_all add: self_trace_def trace_event_def)
  ultimately show ?thesis
    using interleaving_irrelevant [of self_trace self_trace_shuffled None verifier_boot SELF_DEADLOCK_CANDIDATE]
      self_trace_complete self_trace_shuffled_ok by simp
qed

section \<open>Sequence gaps\<close>

lemma thread_event_fields:
  "sp_tainted (thread_event e t) \<longleftrightarrow> sp_tainted t \<or> ev_thread_sequence e \<noteq> sp_expected t"
  "sp_expected (thread_event e t) = ev_thread_sequence e + 1"
  by (auto simp: thread_event_def spec_observe_def spec_thread_step_def spec_acquire_def
      spec_clear_waiting_def spec_release_def Let_def split: option.splits)

lemma gap_free_iff:
  assumes "\<forall>tid. \<not> sp_tainted (view_thread v tid)"
  shows "gap_free es v \<longleftrightarrow>
    (\<forall>tid. map ev_thread_sequence (of_thread tid es) =
       map (\<lambda>i. sp_expected (view_thread v tid) + of_nat i) [0..<length (of_thread tid es)])"
  using assms
proof (induction es arbitrary: v)
  case (Cons e es)
  let ?tid = "ev_thread_id e" and ?v = "spec_process e v"
  have shift: "map (\<lambda>i. (c :: u32) + of_nat i) [0..<Suc n] = c # map (\<lambda>i. c + 1 + of_nat i) [0..<n]" for c n
    by (simp add: upt_conv_Cons map_Suc_upt [symmetric] comp_def add.assoc del: upt_Suc)
  show ?case
  proof (cases "ev_thread_sequence e = sp_expected (view_thread v ?tid)")
    case False
    then have "\<not> gap_free (e # es) v" using Cons.prems by (simp add: spec_gap_def)
    moreover have "map ev_thread_sequence (of_thread ?tid (e # es)) \<noteq>
       map (\<lambda>i. sp_expected (view_thread v ?tid) + of_nat i) [0..<length (of_thread ?tid (e # es))]"
      using False by (simp add: shift del: upt_Suc)
    ultimately show ?thesis by blast
  next
    case True
    have unt: "\<forall>tid. \<not> sp_tainted (view_thread ?v tid)"
      using Cons.prems True by (simp add: process_view_thread thread_event_fields)
    have "(map ev_thread_sequence (of_thread tid es) =
        map (\<lambda>i. sp_expected (view_thread ?v tid) + of_nat i) [0..<length (of_thread tid es)]) \<longleftrightarrow>
      (map ev_thread_sequence (of_thread tid (e # es)) =
        map (\<lambda>i. sp_expected (view_thread v tid) + of_nat i) [0..<length (of_thread tid (e # es))])" for tid
      using True by (cases "tid = ?tid") (auto simp: process_view_thread thread_event_fields shift simp del: upt_Suc)
    with Cons.IH [OF unt] True show ?thesis by (simp add: spec_gap_def)
  qed
qed simp

lemma gap_free_untainted:
  assumes "\<forall>tid. \<not> sp_tainted (view_thread v tid)" and "gap_free es v"
  shows "\<not> sp_tainted (view_thread (spec_run es v) tid)"
  using assms
proof (induction es arbitrary: v)
  case (Cons e es)
  have "\<forall>tid. \<not> sp_tainted (view_thread (spec_process e v) tid)"
    using Cons.prems by (simp add: process_view_thread thread_event_fields spec_gap_def)
  with Cons show ?case by simp
qed simp

text \<open>
  (C25) Gap detection is exact.  On a run that overflows no table, no stream is tainted at
  the end exactly when the events of every thread arrived with the consecutive sequence
  numbers 0, 1, 2, ... (counted modulo 2^32, as the 32-bit field does).
\<close>

theorem untainted_iff_contiguous:
  assumes "length es < 2 ^ 64"
    and "state_overflow_events (process_events es (monitor_verifier_init env s)) = 0"
  shows "tainted_thread_streams (process_events es (monitor_verifier_init env s)) = 0 \<longleftrightarrow>
    (\<forall>tid. map ev_thread_sequence (of_thread tid es) = map of_nat [0..<length (of_thread tid es)])"
proof -
  let ?s = "process_events es (monitor_verifier_init env s)"
  have v: "abs_view ?s = spec_run es initial_view"
    using run_refines(1) [OF wf_init [of env s], where es = es] assms by (simp add: init_fields abs_init)
  have wf: "verifier_wf ?s" by (rule wf_process_events [OF wf_init])
  have unt: "\<forall>tid. \<not> sp_tainted (view_thread initial_view tid)"
    by (simp add: initial_view_def fresh_thread_def)
  have "tainted_thread_streams ?s = 0 \<longleftrightarrow> gap_free es initial_view"
    using complete_iff_untainted [OF wf] v untainted_gap_free gap_free_untainted [OF unt] by metis
  also have "\<dots> \<longleftrightarrow> (\<forall>tid. map ev_thread_sequence (of_thread tid es) = map of_nat [0..<length (of_thread tid es)])"
    using gap_free_iff [OF unt] by (simp add: initial_view_def fresh_thread_def)
  finally show ?thesis .
qed

theorem untainted_iff_contiguous_witness:
  "\<forall>tid. map ev_thread_sequence (of_thread tid self_trace) = map of_nat [0..<length (of_thread tid self_trace)]"
proof -
  have c: "state_overflow_events (process_events self_trace verifier_start) = 0"
    "tainted_thread_streams (process_events self_trace verifier_start) = 0"
    using self_trace_complete by (simp_all add: verifier_complete_def)
  moreover have "length self_trace < 2 ^ 64" by (simp add: self_trace_def)
  ultimately show ?thesis
    using untainted_iff_contiguous [of self_trace None verifier_boot] by simp
qed

section \<open>The moment a gap is seen\<close>

lemma gaps_note_gap: "detected_stream_gaps (note_gap i q s) = detected_stream_gaps s + 1"
  by (simp add: note_gap_def mark_thread_stream_tainted_def Let_def invalidate_mutexes_owned_by_thread_def)

lemma gaps_ops [simp]:
  "detected_stream_gaps (set_thread_waiting i a q s) = detected_stream_gaps s"
  "detected_stream_gaps (clear_thread_waiting i a s) = detected_stream_gaps s"
  "detected_stream_gaps (add_held_mutex i a t0 s) = detected_stream_gaps s"
  "detected_stream_gaps (snd (release_held_mutex i e s)) = detected_stream_gaps s"
  "detected_stream_gaps (snd (find_mutex a c s)) = detected_stream_gaps s"
  "detected_stream_gaps (report_hold_time_violation e n s) = detected_stream_gaps s"
  "detected_stream_gaps (report_self_deadlock_candidate e s) = detected_stream_gaps s"
  "detected_stream_gaps (report_non_owner_unlock e s) = detected_stream_gaps s"
  "detected_stream_gaps (report_lock_held_at_thread_exit e t s) = detected_stream_gaps s"
  by (simp_all add: set_thread_waiting_def clear_thread_waiting_def add_held_eq release_held_eq find_mutex_def Let_def
      report_hold_time_violation_def report_self_deadlock_candidate_def report_non_owner_unlock_def
      report_lock_held_at_thread_exit_def split: option.splits prod.splits)

lemma gaps_dispatch:
  assumes wf: "verifier_wf s" and slot: "thread_slot s (ev_thread_id e) i"
  shows "detected_stream_gaps (dispatch_event e s) = detected_stream_gaps s"
proof -
  obtain m s2 where f: "find_mutex (ev_object_address e) True s = (m, s2)" by (cases "find_mutex (ev_object_address e) True s")
  have s2: "detected_stream_gaps s2 = detected_stream_gaps s" using gaps_ops(5) [of "ev_object_address e" True s] f by simp
  obtain r s3 where r: "release_held_mutex i e s2 = (r, s3)" by (cases "release_held_mutex i e s2")
  have s3: "detected_stream_gaps s3 = detected_stream_gaps s2" using gaps_ops(4) [of i e s2] r by simp
  show ?thesis
    using s2 s3 r
    by (simp add: dispatch_event_def handle_thread_start_def handle_thread_exit_def handle_lock_request_def
        handle_lock_acquired_def handle_lock_failed_def handle_unlocked_def handle_unlock_failed_def
        thread_slot_find [OF wf slot] f Let_def split: option.splits)
qed

lemma gaps_process:
  assumes wf: "verifier_wf s"
    and ok: "state_overflow_events (monitor_verifier_process_event (Some e) s) = state_overflow_events s"
  shows "detected_stream_gaps (monitor_verifier_process_event (Some e) s) = detected_stream_gaps s +
    (if ev_thread_sequence e = sp_expected (thread_view s (ev_thread_id e)) then 0 else 1)"
  using wf
proof (cases rule: process_event_cases [where e = e])
  case Full
  with ok show ?thesis by simp
next
  case (Ok i s1)
  let ?s = "s\<lparr>processed_events := processed_events s + 1,
        last_processed_sequence := max (last_processed_sequence s) (ev_sequence_id e)\<rparr>"
  have wf': "verifier_wf ?s" using wf by simp
  obtain s0 where f: "find_thread (ev_thread_id e) True ?s = (Some i, s0)"
    and s1: "s1 = upd_thread i (observed (ev_thread_sequence e))
           (if ev_thread_sequence e = expected_seq (thread_states s0 ! i) then s0 else note_gap i (ev_sequence_id e) s0)"
    using Ok(1) by (auto simp: observe_eq [OF wf'] split: prod.splits option.splits)
  note slot = find_thread_slot [OF wf' f]
  have "thread_view s0 = thread_view ?s" using thread_view_find [OF wf', of "ev_thread_id e" True] f by simp
  also have "thread_view ?s = thread_view s" by (rule thread_view_cong) simp
  finally have "sp_expected (thread_view s (ev_thread_id e)) = expected_seq (thread_states s0 ! i)"
    using thread_view_slot [OF slot(2,1)] by simp
  moreover have "detected_stream_gaps s0 = detected_stream_gaps s"
    using f by (auto simp: find_thread_def split: prod.splits option.splits)
  ultimately show ?thesis
    using Ok(2-) by (simp add: gaps_dispatch [where i = i]) (simp add: s1 gaps_note_gap)
qed

lemma abs_view_sel [simp]: "view_thread (abs_view s) = thread_view s" "view_mutex (abs_view s) = mutex_view s"
  by (simp_all add: abs_view_def)

section \<open>Reachable states\<close>

text \<open>
  The calls the runtime makes: initialisation, processing an event, the deadlock check and
  the summary.  \<open>ok\<close> restricts the events.
\<close>

inductive verifier_reachable :: "(monitor_event \<Rightarrow> bool) \<Rightarrow> verifier_state \<Rightarrow> bool"
  for ok :: "monitor_event \<Rightarrow> bool" where
  init: "verifier_reachable ok (monitor_verifier_init env s)"
| process: "verifier_reachable ok s \<Longrightarrow> (\<And>e. event_ptr = Some e \<Longrightarrow> ok e) \<Longrightarrow>
    verifier_reachable ok (monitor_verifier_process_event event_ptr s)"
| check: "verifier_reachable ok s \<Longrightarrow> verifier_reachable ok (monitor_verifier_check_deadlocks s)"
| summary: "verifier_reachable ok s \<Longrightarrow> verifier_reachable ok (monitor_verifier_print_summary tc s)"

lemma reachable_wf: "verifier_reachable ok s \<Longrightarrow> verifier_wf s"
  by (induction rule: verifier_reachable.induct)
    (simp_all add: wf_init wf_process_event wf_check_deadlocks monitor_verifier_print_summary_def)

lemma reachable_waiting: "verifier_reachable lock_address_ok s \<Longrightarrow> waiting_count_ok s"
proof (induction rule: verifier_reachable.induct)
  case (process s event_ptr)
  then show ?case
    using waiting_ok_process [OF process.IH reachable_wf [OF process.hyps(1)]]
    by (cases event_ptr) (simp_all add: monitor_verifier_process_event_def [of None])
next
  case (summary s tc)
  then show ?case by (simp add: monitor_verifier_print_summary_def waiting_count_ok_def)
qed (simp_all add: waiting_ok_init waiting_ok_check)

lemma reachable_process_events:
  "verifier_reachable ok s \<Longrightarrow> (\<And>e. e \<in> set es \<Longrightarrow> ok e) \<Longrightarrow> verifier_reachable ok (process_events es s)"
proof (induction es arbitrary: s)
  case (Cons e es)
  have "verifier_reachable ok (monitor_verifier_process_event (Some e) s)"
    using Cons.prems by (intro verifier_reachable.process) auto
  with Cons show ?case by simp
qed simp

text \<open>
  (C27) The verifier's invariant holds in every reachable state: the tables keep their sizes
  and have no duplicate keys, free entries are zero, every thread holds at most 32 distinct
  mutexes with positive depth, the array behind them is zero, a tainted thread holds
  nothing, and the taint counter counts the tainted threads.
\<close>

theorem verifier_invariant: "verifier_reachable ok s \<Longrightarrow> verifier_wf s"
  by (rule reachable_wf)

theorem verifier_invariant_witness:
  "verifier_wf (monitor_verifier_check_deadlocks (process_events self_trace verifier_start))"
  by (rule verifier_invariant [of "\<lambda>_. True"])
    (intro verifier_reachable.check reachable_process_events verifier_reachable.init, simp)

text \<open>
  If lock events never carry a null mutex, then the counter that guards the deadlock
  search is, in every reachable state, the number of table entries that wait for a mutex.
\<close>

theorem waiting_count_exact:
  "verifier_reachable lock_address_ok s \<Longrightarrow>
   unat (waiting_thread_count s) = count_if (\<lambda>t. th_waiting_mutex t \<noteq> 0) (thread_states s)"
proof -
  assume r: "verifier_reachable lock_address_ok s"
  have "count_if is_waiting (thread_states s) \<le> 16"
    using count_if_le [of is_waiting "thread_states s"] reachable_wf [OF r] by (simp add: verifier_wf_def)
  then show ?thesis
    using reachable_waiting [OF r] by (simp add: waiting_count_ok_def unat_of_nat)
qed

lemma self_trace_addresses: "e \<in> set self_trace \<Longrightarrow> lock_address_ok e"
  by (auto simp: self_trace_def trace_event_def lock_address_ok_def)

theorem waiting_count_exact_witness:
  "unat (waiting_thread_count (process_events self_trace verifier_start)) =
   count_if (\<lambda>t. th_waiting_mutex t \<noteq> 0) (thread_states (process_events self_trace verifier_start))"
  by (rule waiting_count_exact)
    (intro reachable_process_events verifier_reachable.init self_trace_addresses)

section \<open>One event\<close>

text \<open>
  (C26) The verdict on one event.  An event that overflows no table advances exactly the
  counter of the violation the specification assigns to it and writes exactly one report,
  in full; without a violation no counter moves and nothing is written.
\<close>

theorem event_verdict:
  assumes "verifier_reachable ok s"
    and "state_overflow_events (monitor_verifier_process_event (Some e) s) = state_overflow_events s"
  shows "case spec_verdict (max_hold_ns s) e (abs_view s) of
      None \<Rightarrow> (\<forall>k. counter k (monitor_verifier_process_event (Some e) s) = counter k s) \<and>
              stderr_writes (monitor_verifier_process_event (Some e) s) = stderr_writes s
    | Some v \<Rightarrow> (\<forall>k. counter k (monitor_verifier_process_event (Some e) s) =
                       counter k s + (if k = v then 1 else 0)) \<and>
              (\<exists>t. abs_thread t = view_thread (spec_note e (abs_view s)) (ev_thread_id e) \<and>
                   stderr_writes (monitor_verifier_process_event (Some e) s) =
                     stderr_writes s @ [report_of (max_hold_ns s) e t v])"
proof -
  obtain t where t: "abs_thread t = view_thread (spec_note e (abs_view s)) (ev_thread_id e)"
    and told: "told (monitor_verifier_process_event (Some e) s) =
      tell_verdict (max_hold_ns s) e t (spec_verdict (max_hold_ns s) e (abs_view s)) (told s)"
    using told_process [OF reachable_wf [OF assms(1)] assms(2)] by metis
  show ?thesis
    using told t by (auto simp: told_def tell_verdict_def tell_def fun_eq_iff split: option.splits)
qed

text \<open>The last event of the trace above is a request for a mutex its thread holds.\<close>

theorem event_verdict_witness:
  "counter SELF_DEADLOCK_CANDIDATE
     (monitor_verifier_process_event (Some (last self_trace)) (process_events (butlast self_trace) verifier_start)) =
   counter SELF_DEADLOCK_CANDIDATE (process_events (butlast self_trace) verifier_start) + 1"
proof -
  let ?s = "process_events (butlast self_trace) verifier_start" and ?e = "last self_trace"
  have split: "self_trace = butlast self_trace @ [?e]" by (simp add: self_trace_def)
  have r: "verifier_reachable (\<lambda>_. True) ?s" by (intro reachable_process_events verifier_reachable.init) simp
  have o0: "state_overflow_events ?s = 0" by code_simp
  have o1: "state_overflow_events (monitor_verifier_process_event (Some ?e) ?s) = 0" by code_simp
  have v: "spec_verdict (max_hold_ns ?s) ?e (abs_view ?s) = Some SELF_DEADLOCK_CANDIDATE"
  proof -
    have "abs_view ?s = spec_run (butlast self_trace) initial_view"
      using run_refines(1) [OF wf_init [of None verifier_boot], where es = "butlast self_trace"] o0
      by (simp add: init_fields abs_init self_trace_def)
    then show ?thesis
      by (simp add: self_trace_def trace_event_def spec_verdict_def spec_process_def spec_dispatch_def spec_note_def
          spec_violation_def spec_observe_def spec_gap_def spec_thread_step_def spec_publish_def spec_acquire_def
          spec_clear_waiting_def initial_view_def fresh_thread_def ptr_opt_def Let_def)
  qed
  from event_verdict [OF r, of ?e] o0 o1 v show ?thesis by simp
qed

lemma view_mutex_owner: "sm_owner (mutex_view s a) \<noteq> Owned 0"
  by (simp add: mutex_view_def slot_view_def abs_mutex_def owner_of_def fresh_mutex_def split: option.splits)

text \<open>
  What a gap costs.  When an event of an untainted thread does not carry the expected
  sequence number, the gap is counted, the thread is tainted, nothing is held by it any
  more, and the verifier no longer believes it owns a mutex, except the one this very event
  says it acquired.
\<close>

theorem gap_clears_thread:
  assumes "verifier_reachable ok s"
    and "state_overflow_events (monitor_verifier_process_event (Some e) s) = state_overflow_events s"
    and "ev_thread_sequence e \<noteq> sp_expected (thread_view s (ev_thread_id e))"
    and "\<not> sp_tainted (thread_view s (ev_thread_id e))"
  shows "detected_stream_gaps (monitor_verifier_process_event (Some e) s) = detected_stream_gaps s + 1 \<and>
    sp_tainted (thread_view (monitor_verifier_process_event (Some e) s) (ev_thread_id e)) \<and>
    sp_held (thread_view (monitor_verifier_process_event (Some e) s) (ev_thread_id e)) = Map.empty \<and>
    (\<forall>a. sm_owner (mutex_view (monitor_verifier_process_event (Some e) s) a) = Owned (ev_thread_id e) \<longrightarrow>
         a = ev_object_address e \<and> ev_event_type e = event_code MONITOR_EVENT_LOCK_ACQUIRED)"
proof -
  let ?s = "monitor_verifier_process_event (Some e) s" and ?tid = "ev_thread_id e"
  have wf: "verifier_wf s" using assms(1) by (rule reachable_wf)
  have v: "abs_view ?s = spec_process e (abs_view s)" using process_refines [OF wf assms(2)] .
  then have tv: "thread_view ?s = view_thread (spec_process e (abs_view s))"
    and mv: "mutex_view ?s = view_mutex (spec_process e (abs_view s))"
    by (metis abs_view_def monitor_view.select_convs)+
  have gap: "spec_gap e (thread_view s ?tid)" using assms(3,4) by (simp add: spec_gap_def)
  let ?t = "spec_observe (ev_thread_sequence e) (thread_view s ?tid)"
  have t: "sp_tainted ?t" "sp_held ?t = Map.empty" using assms(3,4) by (simp_all add: spec_observe_def)
  have forget: "sm_owner (spec_forget ?tid (ev_sequence_id e) (mutex_view s a)) \<noteq> Owned ?tid" for a
    using view_mutex_owner [of s a] by (auto simp: spec_forget_def owner_of_def)
  have "detected_stream_gaps ?s = detected_stream_gaps s + 1"
    using gaps_process [OF wf assms(2)] assms(3) by simp
  moreover have "sp_tainted (thread_view ?s ?tid)" "sp_held (thread_view ?s ?tid) = Map.empty"
    using t unfolding tv process_view_thread
    by (simp_all add: abs_view_def thread_event_def spec_thread_step_def spec_acquire_def spec_release_def
        spec_clear_waiting_def Let_def)
  moreover have "a = ev_object_address e \<and> ev_event_type e = event_code MONITOR_EVENT_LOCK_ACQUIRED"
    if "sm_owner (mutex_view ?s a) = Owned ?tid" for a
    using that gap forget [of a] t(1) unfolding mv
    by (auto simp: spec_process_def spec_dispatch_def spec_note_def abs_view_def spec_publish_def spec_accept_def
        spec_nested_def Let_def split: if_splits)
  ultimately show ?thesis by blast
qed

text \<open>The second event of thread 11 is lost.\<close>

theorem gap_clears_thread_witness:
  "sp_tainted (thread_view (process_events [self_trace ! 0, self_trace ! 3] verifier_start) 11)"
proof -
  let ?s = "process_events [self_trace ! 0] verifier_start" and ?e = "self_trace ! 3"
  have r: "verifier_reachable (\<lambda>_. True) ?s" by (intro reachable_process_events verifier_reachable.init) simp
  have o0: "state_overflow_events ?s = 0" by code_simp
  have o1: "state_overflow_events (monitor_verifier_process_event (Some ?e) ?s) = 0" by code_simp
  have "abs_view ?s = spec_run [self_trace ! 0] initial_view"
    using run_refines(1) [OF wf_init [of None verifier_boot], where es = "[self_trace ! 0]"] o0
    by (simp add: init_fields abs_init)
  from arg_cong [OF this, of "\<lambda>v. view_thread v 11"]
  have "thread_view ?s 11 = thread_event (self_trace ! 0) fresh_thread"
    by (simp add: process_view_thread initial_view_def) (simp add: self_trace_def trace_event_def)
  then have "sp_expected (thread_view ?s 11) = 1" "\<not> sp_tainted (thread_view ?s 11)"
    by (simp_all add: thread_event_fields self_trace_def trace_event_def fresh_thread_def)
  then show ?thesis
    using gap_clears_thread [OF r, of ?e] o0 o1 by (simp add: self_trace_def trace_event_def)
qed

text \<open>
  No false alarm from a damaged stream: events of a tainted thread leave every counter
  alone except the one for unlocks the C library itself rejected, and the thread stays
  tainted.
\<close>

theorem tainted_thread_silent:
  assumes "verifier_reachable ok s"
    and "state_overflow_events (monitor_verifier_process_event (Some e) s) = state_overflow_events s"
    and "sp_tainted (thread_view s (ev_thread_id e))" and "k \<noteq> NON_OWNER_UNLOCK"
  shows "counter k (monitor_verifier_process_event (Some e) s) = counter k s \<and>
    sp_tainted (thread_view (monitor_verifier_process_event (Some e) s) (ev_thread_id e))"
proof -
  let ?s = "monitor_verifier_process_event (Some e) s"
  have wf: "verifier_wf s" using assms(1) by (rule reachable_wf)
  have v: "abs_view ?s = spec_process e (abs_view s)" using process_refines [OF wf assms(2)] .
  have "view_thread (abs_view ?s) (ev_thread_id e) = thread_event e (thread_view s (ev_thread_id e))"
    unfolding v process_view_thread by (simp add: abs_view_def)
  then have "sp_tainted (thread_view ?s (ev_thread_id e))"
    using assms(3) by (simp add: abs_view_def thread_event_fields)
  moreover have "spec_verdict (max_hold_ns s) e (abs_view s) \<in> {None, Some NON_OWNER_UNLOCK}"
    using assms(3) by (simp add: spec_verdict_def spec_note_def abs_view_def spec_violation_def spec_observe_def Let_def)
  moreover obtain t where "told ?s =
      tell_verdict (max_hold_ns s) e t (spec_verdict (max_hold_ns s) e (abs_view s)) (told s)"
    using told_process [OF wf assms(2)] by metis
  ultimately show ?thesis
    using assms(4) by (auto simp: told_def tell_verdict_def tell_def fun_eq_iff)
qed

theorem tainted_thread_silent_witness:
  "counter SELF_DEADLOCK_CANDIDATE (process_events [self_trace ! 1, self_trace ! 3] verifier_start) =
   counter SELF_DEADLOCK_CANDIDATE (process_events [self_trace ! 1] verifier_start)"
proof -
  let ?s = "process_events [self_trace ! 1] verifier_start" and ?e = "self_trace ! 3"
  have r: "verifier_reachable (\<lambda>_. True) ?s" by (intro reachable_process_events verifier_reachable.init) simp
  have o0: "state_overflow_events ?s = 0" by code_simp
  have o1: "state_overflow_events (monitor_verifier_process_event (Some ?e) ?s) = 0" by code_simp
  have "abs_view ?s = spec_run [self_trace ! 1] initial_view"
    using run_refines(1) [OF wf_init [of None verifier_boot], where es = "[self_trace ! 1]"] o0
    by (simp add: init_fields abs_init)
  from arg_cong [OF this, of "\<lambda>v. view_thread v 11"]
  have "thread_view ?s 11 = thread_event (self_trace ! 1) fresh_thread"
    by (simp add: process_view_thread initial_view_def) (simp add: self_trace_def trace_event_def)
  then have "sp_tainted (thread_view ?s (ev_thread_id ?e))"
    by (simp add: thread_event_fields self_trace_def trace_event_def fresh_thread_def)
  then show ?thesis
    using tainted_thread_silent [OF r, of ?e SELF_DEADLOCK_CANDIDATE] o0 o1 by simp
qed

end
