(* ===== verification/Verifier_Checks.thy ===== *)
theory Verifier_Checks
  imports Verifier_Trace
begin

text \<open>
  The deadlock check of \<^verbatim>\<open>src/monitor_verifier.c\<close>: the cycle search is exact,
  a report is always about a real cycle, a persistent deadlock is reported once, and the
  limit of comparing only the first cycle found.
\<close>

section \<open>The search reads the tables only\<close>

definition same_tables :: "verifier_state \<Rightarrow> verifier_state \<Rightarrow> bool" where
  "same_tables s s' \<longleftrightarrow> thread_states s' = thread_states s \<and> mutex_states s' = mutex_states s"

lemma same_tables_lookup:
  assumes "same_tables s s'"
  shows "wait_edge s' tid = wait_edge s tid" and "cycle_mask_of s' ts = cycle_mask_of s ts"
    and "reported_owner s' a = reported_owner s a" and "wait_cycle s' ts ms = wait_cycle s ts ms"
proof -
  have eqs: "thread_states s' = thread_states s" "mutex_states s' = mutex_states s"
    using assms by (simp_all add: same_tables_def)
  show "wait_edge s' tid = wait_edge s tid" and "cycle_mask_of s' ts = cycle_mask_of s ts"
    and "reported_owner s' a = reported_owner s a" and "wait_cycle s' ts ms = wait_cycle s ts ms"
    unfolding wait_edge_def find_thread_False find_mutex_False cycle_mask_of_def thread_index_def reported_owner_def
      wait_cycle_def waits_for_def running_thread_def eqs fst_conv by (rule refl)+
qed

lemma find_cycle_loop_tables:
  assumes "same_tables s s'"
  shows "find_cycle_loop s' start step cur visited out = find_cycle_loop s start step cur visited out"
proof (induction "VERIFIER_MAX_THREADS - step" arbitrary: step cur visited out)
  case 0
  then show ?case by (simp add: find_cycle_loop_edge [of s] find_cycle_loop_edge [of s'])
next
  case (Suc n)
  have "find_cycle_loop s' start (Suc step) c v o1 = find_cycle_loop s start (Suc step) c v o1" for c v o1
    using Suc.hyps(2) by (intro Suc.hyps(1)) simp
  note ih = this
  show ?case
    unfolding find_cycle_loop_edge [of s _ step] find_cycle_loop_edge [of s' _ step] ih
      same_tables_lookup(1,2) [OF assms] by (rule refl)
qed

lemma find_any_cycle_tables:
  assumes "same_tables s s'"
  shows "find_any_cycle s' out = find_any_cycle s out"
proof -
  have "find_any_cycle_loop s' ts out = find_any_cycle_loop s ts out" for ts
    by (induction ts arbitrary: out) (simp_all add: find_cycle_from_def find_cycle_loop_tables [OF assms] split: prod.splits)
  then show ?thesis using assms by (simp add: find_any_cycle_def same_tables_def)
qed

lemma same_tables_check: "same_tables s (monitor_verifier_check_deadlocks s)"
  by (simp add: same_tables_def monitor_verifier_check_deadlocks_def report_deadlock_cycle_def Let_def split: prod.splits)

section \<open>The search is exact\<close>

lemma cycle_search_iff:
  assumes "verifier_reachable ok s"
  shows "fst (find_any_cycle s cycle_out_init) \<longleftrightarrow> (\<exists>ts ms. wait_cycle s ts ms)"
    (is "?found \<longleftrightarrow> ?cycle")
proof
  assume ?found
  then obtain out where "find_any_cycle s cycle_out_init = (True, out)"
    by (cases "find_any_cycle s cycle_out_init") simp
  then show ?cycle using find_any_cycle_sound by blast
next
  assume ?cycle
  then show ?found
    using find_any_cycle_complete reachable_wf [OF assms] by (auto simp: verifier_wf_def)
qed

text \<open>
  (C7) In every reachable state the bounded search finds a cycle exactly when there is a
  deadlock: two or more different, running, untainted threads, each of which waits for a
  mutex that the next one owns.  What it returns is such a cycle, with its mask.
\<close>

theorem cycle_search_exact:
  assumes "verifier_reachable ok s"
  shows "fst (find_any_cycle s cycle_out_init) \<longleftrightarrow> (\<exists>ts ms. wait_cycle s ts ms)"
  using assms by (rule cycle_search_iff)

definition deadlock_trace :: "monitor_event list" where
  "deadlock_trace =
     [trace_event 0 11 0 MONITOR_EVENT_LOCK_REQUEST 64 10,
      trace_event 1 11 1 MONITOR_EVENT_LOCK_ACQUIRED 64 11,
      trace_event 2 12 0 MONITOR_EVENT_LOCK_REQUEST 128 12,
      trace_event 3 12 1 MONITOR_EVENT_LOCK_ACQUIRED 128 13,
      trace_event 4 11 2 MONITOR_EVENT_LOCK_REQUEST 128 14,
      trace_event 5 12 2 MONITOR_EVENT_LOCK_REQUEST 64 15]"

lemma deadlock_trace_found: "fst (find_any_cycle (process_events deadlock_trace verifier_start) cycle_out_init)"
  by code_simp

lemma deadlock_trace_reachable:
  "verifier_reachable lock_address_ok (process_events deadlock_trace verifier_start)"
  by (intro reachable_process_events verifier_reachable.init)
    (auto simp: deadlock_trace_def trace_event_def lock_address_ok_def)

theorem cycle_search_exact_witness:
  "\<exists>ts ms. wait_cycle (process_events deadlock_trace verifier_start) ts ms"
  using cycle_search_exact [OF deadlock_trace_reachable] deadlock_trace_found by blast

section \<open>Reports\<close>

definition cycle_report :: "verifier_state \<Rightarrow> u64 list \<Rightarrow> uintptr list \<Rightarrow> string" where
  "cycle_report s ts ms =
     deadlock_header s (of_nat (length ts)) @
     concat (map (\<lambda>i. ''  T'' @ fmt_lu (ts ! i) @ '' waits for mutex='' @ fmt_p (ms ! i) @
                     '' owned by T'' @ fmt_lu (ts ! (Suc i mod length ts)) @ nl) [0..<length ts]) @
     rule_line"

lemma length_cycle_line: "length (cycle_line s tid a) \<le> 90"
  using fmt_lengths(1) [of tid] fmt_lengths(1) [of "reported_owner s a"] fmt_lengths(3) [of a]
  by (simp add: cycle_line_def nl_def)

lemma length_deadlock_header: "length (deadlock_header s n) \<le> 144"
  using fmt_lengths(1) [of "last_processed_sequence s"] fmt_lengths(2) [of n]
  by (simp add: deadlock_header_def nl_def)

lemma deadlock_report_fits:
  assumes "unat n \<le> VERIFIER_MAX_THREADS"
  shows "snprintf_write_lines 2048 (deadlock_header s n) (map (\<lambda>i. cycle_line s (ts ! i) (ms ! i)) [0..<unat n]) rule_line out
    = out @ [deadlock_header s n @ concat (map (\<lambda>i. cycle_line s (ts ! i) (ms ! i)) [0..<unat n]) @ rule_line]"
proof (rule snprintf_write_lines_fits)
  let ?ls = "map (\<lambda>i. cycle_line s (ts ! i) (ms ! i)) [0..<unat n]"
  have "length (concat ?ls) \<le> 90 * length ?ls"
    by (rule length_concat_le) (auto simp: length_cycle_line)
  also have "\<dots> \<le> 90 * 16" using assms by simp
  finally show "length (deadlock_header s n) + length (concat ?ls) + length rule_line < 2048"
    using length_deadlock_header [of s n] by (simp only: length_rule_line)
qed (auto simp: deadlock_header_def violation_head_def nl_def cycle_line_def rule_line_def)

lemma waits_for_owner:
  assumes "tables_distinct s" and "waits_for s a m b"
  shows "reported_owner s m = b"
proof -
  obtain x where x: "x \<in> set (mutex_states s)" "mx_used x" "mx_address x = m" "mx_owner_known x" "mx_owner_thread_id x = b"
    using assms(2) by (auto simp: waits_for_def)
  obtain j where "fst (find_mutex m False s) = Some j" and "mutex_states s ! j = x"
    using find_mutex_unique [OF assms(1) x(1,2)] x(3) by metis
  with x show ?thesis by (simp add: reported_owner_def)
qed

text \<open>A check that counts a deadlock has found a confirmed cycle that was not reported yet.\<close>

lemma check_reports:
  assumes "deadlock_cycle_violations (monitor_verifier_check_deadlocks s) \<noteq> deadlock_cycle_violations s"
  obtains out s2 where "find_any_cycle s cycle_out_init = (True, out)" and "candidate_cycle_mask s = cy_mask out"
    and "reported_cycle_mask s \<noteq> cy_mask out"
    and "monitor_verifier_check_deadlocks s = report_deadlock_cycle (cy_threads out) (cy_mutexes out) (cy_length out) s2"
    and "same_tables s s2" and "reported_cycle_mask s2 = cy_mask out"
    and "deadlock_cycle_violations s2 = deadlock_cycle_violations s" and "stderr_writes s2 = stderr_writes s"
    and "\<And>n. deadlock_header s2 n = deadlock_header s n"
proof -
  obtain found out where f: "find_any_cycle s cycle_out_init = (found, out)" by (cases "find_any_cycle s cycle_out_init")
  let ?s1 = "if candidate_cycle_confirmations s < UINT32_MAX
             then s\<lparr>candidate_cycle_confirmations := candidate_cycle_confirmations s + 1\<rparr> else s"
  let ?s2 = "?s1\<lparr>reported_cycle_mask := cy_mask out\<rparr>"
  have "found" "candidate_cycle_mask s = cy_mask out" "reported_cycle_mask s \<noteq> cy_mask out"
    "monitor_verifier_check_deadlocks s = report_deadlock_cycle (cy_threads out) (cy_mutexes out) (cy_length out) ?s2"
    using assms f by (auto simp: monitor_verifier_check_deadlocks_def Let_def split: if_splits)
  with f show thesis by (intro that [of out ?s2]) (simp_all add: same_tables_def deadlock_header_def)
qed

text \<open>The cycle it found, cut to its length, and the owners named in the report's lines.\<close>

lemma found_cycle_length:
  assumes "find_any_cycle s cycle_out_init = (True, out)"
  shows "unat (cy_length out) \<le> length (cy_threads out)"
proof -
  have "closed_walk s out"
    using find_any_cycle_loop_sound [of s "thread_states s" cycle_out_init out] assms
    by (simp add: find_any_cycle_def cycle_out_init_def)
  then show ?thesis by (auto simp: closed_walk_def unat_of_nat)
qed

lemma reported_lines:
  assumes "tables_distinct s" and c: "wait_cycle s (take n threads) (take n mutexes)" and len: "n \<le> length threads" and st: "same_tables s s2"
  defines "ts \<equiv> take n threads" and "ms \<equiv> take n mutexes"
  shows "map (\<lambda>i. cycle_line s2 (threads ! i) (mutexes ! i)) [0..<n] =
      map (\<lambda>i. ''  T'' @ fmt_lu (ts ! i) @ '' waits for mutex='' @ fmt_p (ms ! i) @
                     '' owned by T'' @ fmt_lu (ts ! (Suc i mod length ts)) @ nl) [0..<n]"
proof (rule map_cong [OF refl])
  fix i assume "i \<in> set [0..<n]"
  then have i: "i < n" by simp
  then have "waits_for s (ts ! i) (ms ! i) (ts ! (Suc i mod length ts))" using c len by (simp add: wait_cycle_def ts_def ms_def)
  from waits_for_owner [OF assms(1) this] have "reported_owner s (ms ! i) = ts ! (Suc i mod length ts)" .
  moreover have "threads ! i = ts ! i" "mutexes ! i = ms ! i" using i by (simp_all add: ts_def ms_def)
  ultimately show "cycle_line s2 (threads ! i) (mutexes ! i) = ''  T'' @ fmt_lu (ts ! i) @
      '' waits for mutex='' @ fmt_p (ms ! i) @ '' owned by T'' @ fmt_lu (ts ! (Suc i mod length ts)) @ nl"
    by (simp add: cycle_line_def same_tables_lookup(3) [OF st])
qed

text \<open>
  (C8) Every deadlock report is about a real deadlock.  If the check counts one more
  deadlock, then there is a cycle of the wait-for graph that the previous check had already
  seen (its mask is the candidate) and that was not reported before, and exactly one report
  is written, in full, that names its threads in order, the mutex each waits for and the
  next thread as the owner.
\<close>

theorem deadlock_report_sound:
  assumes "verifier_reachable ok s"
    and "deadlock_cycle_violations (monitor_verifier_check_deadlocks s) \<noteq> deadlock_cycle_violations s"
  shows "\<exists>ts ms. wait_cycle s ts ms \<and> candidate_cycle_mask s = cycle_mask_of s ts \<and>
    reported_cycle_mask s \<noteq> cycle_mask_of s ts \<and>
    reported_cycle_mask (monitor_verifier_check_deadlocks s) = cycle_mask_of s ts \<and>
    deadlock_cycle_violations (monitor_verifier_check_deadlocks s) = deadlock_cycle_violations s + 1 \<and>
    stderr_writes (monitor_verifier_check_deadlocks s) = stderr_writes s @ [cycle_report s ts ms]"
proof -
  obtain out s2 where o: "find_any_cycle s cycle_out_init = (True, out)" "candidate_cycle_mask s = cy_mask out"
    "reported_cycle_mask s \<noteq> cy_mask out"
    and eq: "monitor_verifier_check_deadlocks s = report_deadlock_cycle (cy_threads out) (cy_mutexes out) (cy_length out) s2"
    and s2: "same_tables s s2" "reported_cycle_mask s2 = cy_mask out" "deadlock_cycle_violations s2 = deadlock_cycle_violations s"
      "stderr_writes s2 = stderr_writes s" "\<And>n. deadlock_header s2 n = deadlock_header s n"
    using check_reports [OF assms(2)] by blast
  define n where "n = unat (cy_length out)"
  define ts where "ts = take n (cy_threads out)"
  define ms where "ms = take n (cy_mutexes out)"
  have c: "wait_cycle s ts ms" "cy_mask out = cycle_mask_of s ts" "n \<le> VERIFIER_MAX_THREADS"
    using find_any_cycle_sound [OF o(1)] by (simp_all add: n_def ts_def ms_def)
  have dist: "tables_distinct s" using reachable_wf [OF assms(1)] by (simp add: verifier_wf_def)
  have l: "n \<le> length (cy_threads out)" using found_cycle_length [OF o(1)] by (simp add: n_def)
  then have len: "length ts = n" by (simp add: ts_def)
  note lines = reported_lines [OF dist c(1) [unfolded ts_def ms_def] l s2(1), folded ts_def ms_def]
  have hdr: "deadlock_header s2 (cy_length out) = deadlock_header s (of_nat (length ts))" by (simp add: s2(5) len n_def)
  have writes: "stderr_writes (monitor_verifier_check_deadlocks s) = stderr_writes s @ [cycle_report s ts ms]"
    unfolding eq report_deadlock_cycle_def
    using deadlock_report_fits [of "cy_length out" s2 "cy_threads out" "cy_mutexes out" "stderr_writes s",
        folded n_def, OF c(3), unfolded hdr lines]
    by (simp only: n_def [symmetric] hdr lines cycle_report_def len verifier_state.simps) (simp add: s2)
  show ?thesis
    by (rule exI [of _ ts], rule exI [of _ ms])
      (use c o(2,3) s2 writes in \<open>simp add: eq report_deadlock_cycle_def\<close>)
qed

section \<open>A deadlock is reported, and once\<close>

lemma two_waiting:
  assumes "i < length ts" "j < length ts" "i \<noteq> j" "p (ts ! i)" "p (ts ! j)"
  shows "2 \<le> count_if p ts"
proof -
  have "card {i, j} \<le> card {k. k < length ts \<and> p (ts ! k)}"
    using assms by (intro card_mono) auto
  then show ?thesis using assms(3) by (simp add: count_if_def length_filter_conv_card)
qed

lemma cycle_waiting_count:
  assumes r: "verifier_reachable lock_address_ok s" and c: "wait_cycle s ts ms"
  shows "\<not> waiting_thread_count s < 2"
proof -
  have wf: "verifier_wf s" using r by (rule reachable_wf)
  have ts: "2 \<le> length ts" "distinct ts" using c by (auto simp: wait_cycle_def)
  then have pos: "0 < length ts" "Suc 0 < length ts" by linarith+
  then have mem: "ts ! 0 \<in> set ts" "ts ! 1 \<in> set ts" by (auto intro: nth_mem)
  have ne: "ts ! 0 \<noteq> ts ! 1" using ts pos by (simp add: nth_eq_iff_index_eq)
  obtain t where t: "running_thread s (ts ! 0) t" "is_waiting t" using wait_cycle_in_table [OF c mem(1)] by blast
  obtain u where u: "running_thread s (ts ! 1) u" "is_waiting u" using wait_cycle_in_table [OF c mem(2)] by blast
  obtain i where i: "i < length (thread_states s)" "thread_states s ! i = t"
    using t(1) by (auto simp: running_thread_def in_set_conv_nth)
  obtain j where j: "j < length (thread_states s)" "thread_states s ! j = u"
    using u(1) by (auto simp: running_thread_def in_set_conv_nth)
  have "i \<noteq> j" using t(1) u(1) i j ne by (auto simp: running_thread_def)
  then have "2 \<le> count_if is_waiting (thread_states s)" using i j t(2) u(2) by (intro two_waiting) auto
  moreover have "count_if is_waiting (thread_states s) \<le> 16"
    using count_if_le [of is_waiting "thread_states s"] wf by (simp add: verifier_wf_def)
  ultimately show ?thesis
    using reachable_waiting [OF r] by (simp add: waiting_count_ok_def word_less_nat_alt unat_of_nat)
qed

lemma check_silent:
  assumes "find_any_cycle s cycle_out_init = (True, out)" and "reported_cycle_mask s = cy_mask out"
    and "\<not> waiting_thread_count s < 2"
  shows "deadlock_cycle_violations ((monitor_verifier_check_deadlocks ^^ n) s) = deadlock_cycle_violations s"
proof -
  let ?c = monitor_verifier_check_deadlocks
  have step: "reported_cycle_mask (?c s) = cy_mask out \<and> \<not> waiting_thread_count (?c s) < 2 \<and>
      find_any_cycle (?c s) cycle_out_init = (True, out) \<and> deadlock_cycle_violations (?c s) = deadlock_cycle_violations s"
    if "find_any_cycle s cycle_out_init = (True, out)" "reported_cycle_mask s = cy_mask out" "\<not> waiting_thread_count s < 2" for s
    using that find_any_cycle_tables [OF same_tables_check [of s]]
    by (simp add: monitor_verifier_check_deadlocks_def Let_def)
  have "find_any_cycle ((?c ^^ n) s) cycle_out_init = (True, out) \<and> reported_cycle_mask ((?c ^^ n) s) = cy_mask out \<and>
    \<not> waiting_thread_count ((?c ^^ n) s) < 2 \<and> deadlock_cycle_violations ((?c ^^ n) s) = deadlock_cycle_violations s"
    by (induction n) (use assms step in simp_all)
  then show ?thesis by blast
qed

lemma confirmed_report:
  assumes "verifier_reachable lock_address_ok s" and "wait_cycle s ts ms"
    and "candidate_cycle_mask s = 0" and "reported_cycle_mask s = 0"
  obtains out where "monitor_verifier_check_deadlocks s =
      s\<lparr>candidate_cycle_mask := cy_mask out, candidate_cycle_confirmations := 1\<rparr>"
    and "monitor_verifier_check_deadlocks (monitor_verifier_check_deadlocks s) =
      report_deadlock_cycle (cy_threads out) (cy_mutexes out) (cy_length out)
        (s\<lparr>candidate_cycle_mask := cy_mask out, candidate_cycle_confirmations := 2, reported_cycle_mask := cy_mask out\<rparr>)"
    and "find_any_cycle (monitor_verifier_check_deadlocks (monitor_verifier_check_deadlocks s)) cycle_out_init = (True, out)"
    and "\<not> waiting_thread_count s < 2"
proof -
  let ?c = monitor_verifier_check_deadlocks
  have d: "tables_distinct s" "length (thread_states s) = VERIFIER_MAX_THREADS"
    using reachable_wf [OF assms(1)] by (simp_all add: verifier_wf_def)
  have w: "\<not> waiting_thread_count s < 2" using cycle_waiting_count [OF assms(1,2)] .
  obtain out where f: "find_any_cycle s cycle_out_init = (True, out)"
    using find_any_cycle_complete [OF d assms(2), of cycle_out_init] by (cases "find_any_cycle s cycle_out_init") simp
  have m: "cy_mask out \<noteq> 0"
    using find_any_cycle_sound [OF f] wait_cycle_mask_nonzero [OF d] by metis
  let ?s1 = "s\<lparr>candidate_cycle_mask := cy_mask out, candidate_cycle_confirmations := 1\<rparr>"
  have s1: "?c s = ?s1" using f m w assms(3) by (simp add: monitor_verifier_check_deadlocks_def)
  have f1: "find_any_cycle ?s1 cycle_out_init = (True, out)"
    using find_any_cycle_tables [of s ?s1] f by (simp add: same_tables_def)
  have s2: "?c ?s1 = report_deadlock_cycle (cy_threads out) (cy_mutexes out) (cy_length out)
      (s\<lparr>candidate_cycle_mask := cy_mask out, candidate_cycle_confirmations := 2, reported_cycle_mask := cy_mask out\<rparr>)"
    using f1 m w assms(4) by (simp add: monitor_verifier_check_deadlocks_def Let_def)
  have "find_any_cycle (?c ?s1) cycle_out_init = (True, out)"
    using find_any_cycle_tables [OF same_tables_check [of ?s1]] f1 by simp
  then show ?thesis
    by (intro that [of out]) (simp_all only: s1 s2 w verifier_state.simps not_False_eq_True)
qed

lemma persistent_deadlock:
  assumes "verifier_reachable lock_address_ok s" and "wait_cycle s ts ms"
    and "candidate_cycle_mask s = 0" and "reported_cycle_mask s = 0"
  shows "deadlock_cycle_violations (monitor_verifier_check_deadlocks s) = deadlock_cycle_violations s \<and>
    deadlock_cycle_violations ((monitor_verifier_check_deadlocks ^^ (2 + n)) s) = deadlock_cycle_violations s + 1"
proof -
  let ?c = monitor_verifier_check_deadlocks
  obtain out where s1: "?c s = s\<lparr>candidate_cycle_mask := cy_mask out, candidate_cycle_confirmations := 1\<rparr>"
    and s2: "?c (?c s) = report_deadlock_cycle (cy_threads out) (cy_mutexes out) (cy_length out)
        (s\<lparr>candidate_cycle_mask := cy_mask out, candidate_cycle_confirmations := 2, reported_cycle_mask := cy_mask out\<rparr>)"
    and f: "find_any_cycle (?c (?c s)) cycle_out_init = (True, out)" and w: "\<not> waiting_thread_count s < 2"
    using confirmed_report [OF assms] .
  from f have "deadlock_cycle_violations ((?c ^^ n) (?c (?c s))) = deadlock_cycle_violations (?c (?c s))"
    by (rule check_silent) (use w in \<open>simp_all add: s2 report_deadlock_cycle_def\<close>)
  moreover have "(?c ^^ (2 + n)) s = (?c ^^ n) (?c (?c s))"
    by (simp add: funpow_Suc_right del: funpow.simps)
  ultimately show ?thesis by (simp add: s2 report_deadlock_cycle_def) (simp add: s1)
qed

text \<open>
  (C14) A deadlock that persists is reported, and only once.  In a reachable state with a
  cycle, no candidate (as after every processed event) and nothing reported yet, the first
  check at quiescence reports nothing, the second reports the deadlock, and however many
  checks follow without an event, it stays one report.
\<close>

theorem deadlock_reported_once:
  assumes "verifier_reachable lock_address_ok s" and "wait_cycle s ts ms"
    and "candidate_cycle_mask s = 0" and "reported_cycle_mask s = 0"
  shows "deadlock_cycle_violations (monitor_verifier_check_deadlocks s) = deadlock_cycle_violations s \<and>
    deadlock_cycle_violations ((monitor_verifier_check_deadlocks ^^ (2 + n)) s) = deadlock_cycle_violations s + 1"
  using assms by (rule persistent_deadlock)

lemma second_check_counts:
  assumes "verifier_reachable lock_address_ok s" and "wait_cycle s ts ms"
    and "candidate_cycle_mask s = 0" and "reported_cycle_mask s = 0"
  shows "deadlock_cycle_violations (monitor_verifier_check_deadlocks (monitor_verifier_check_deadlocks s)) =
    deadlock_cycle_violations (monitor_verifier_check_deadlocks s) + 1"
  by (rule confirmed_report [OF assms]) (simp add: report_deadlock_cycle_def)

lemma second_check_silences:
  assumes "verifier_reachable lock_address_ok s" and "wait_cycle s ts ms"
    and "candidate_cycle_mask s = 0" and "reported_cycle_mask s = 0"
    and "s2 = monitor_verifier_check_deadlocks (monitor_verifier_check_deadlocks s)"
  shows "fst (find_any_cycle s2 cycle_out_init)"
    and "reported_cycle_mask s2 = cy_mask (snd (find_any_cycle s2 cycle_out_init))"
    and "\<not> waiting_thread_count s2 < 2"
  using assms(5) by - (rule confirmed_report [OF assms(1-4)]; simp add: report_deadlock_cycle_def)+

lemma deadlock_trace_masks:
  "candidate_cycle_mask (process_events deadlock_trace verifier_start) = 0"
  "reported_cycle_mask (process_events deadlock_trace verifier_start) = 0"
  by code_simp+

lemma deadlock_trace_cycle:
  obtains ts ms where "wait_cycle (process_events deadlock_trace verifier_start) ts ms"
  using cycle_search_iff [OF deadlock_trace_reachable] deadlock_trace_found by blast

theorem deadlock_reported_once_witness:
  "deadlock_cycle_violations ((monitor_verifier_check_deadlocks ^^ (2 + 40)) (process_events deadlock_trace verifier_start)) =
   deadlock_cycle_violations (process_events deadlock_trace verifier_start) + 1"
proof -
  obtain ts ms where "wait_cycle (process_events deadlock_trace verifier_start) ts ms"
    by (rule deadlock_trace_cycle)
  from deadlock_reported_once [OF deadlock_trace_reachable this deadlock_trace_masks, of 40] show ?thesis by blast
qed

theorem deadlock_report_sound_witness:
  "\<exists>ts ms. wait_cycle (process_events deadlock_trace verifier_start) ts ms \<and>
    stderr_writes (monitor_verifier_check_deadlocks (monitor_verifier_check_deadlocks
        (process_events deadlock_trace verifier_start))) =
    stderr_writes (monitor_verifier_check_deadlocks (process_events deadlock_trace verifier_start)) @
      [cycle_report (monitor_verifier_check_deadlocks (process_events deadlock_trace verifier_start)) ts ms]"
proof -
  let ?s = "process_events deadlock_trace verifier_start" and ?c = monitor_verifier_check_deadlocks
  obtain ts ms where c: "wait_cycle ?s ts ms" by (rule deadlock_trace_cycle)
  have "deadlock_cycle_violations (?c (?c ?s)) \<noteq> deadlock_cycle_violations (?c ?s)"
    using second_check_counts [OF deadlock_trace_reachable c deadlock_trace_masks] by simp
  from deadlock_report_sound [OF verifier_reachable.check [OF deadlock_trace_reachable] this]
  show ?thesis using same_tables_lookup(4) [OF same_tables_check] by blast
qed

section \<open>A reported deadlock hides later ones\<close>

text \<open>
  (C30) The check compares only the first cycle the search finds with the last reported
  one.  As long as that first cycle is the reported one, no number of checks reports any
  other deadlock, however many further cycles exist.
\<close>

theorem reported_cycle_hides_others:
  assumes "fst (find_any_cycle s cycle_out_init)"
    and "reported_cycle_mask s = cy_mask (snd (find_any_cycle s cycle_out_init))"
    and "\<not> waiting_thread_count s < 2"
  shows "deadlock_cycle_violations ((monitor_verifier_check_deadlocks ^^ n) s) = deadlock_cycle_violations s"
  using assms by (intro check_silent [of s "snd (find_any_cycle s cycle_out_init)"]) (auto simp: prod_eq_iff)

theorem reported_cycle_hides_others_witness:
  "deadlock_cycle_violations ((monitor_verifier_check_deadlocks ^^ 7)
     (monitor_verifier_check_deadlocks (monitor_verifier_check_deadlocks (process_events deadlock_trace verifier_start)))) =
   deadlock_cycle_violations
     (monitor_verifier_check_deadlocks (monitor_verifier_check_deadlocks (process_events deadlock_trace verifier_start)))"
proof -
  let ?s = "process_events deadlock_trace verifier_start" and ?c = monitor_verifier_check_deadlocks
  obtain ts ms where c: "wait_cycle ?s ts ms" by (rule deadlock_trace_cycle)
  note s2 = second_check_silences [OF deadlock_trace_reachable c deadlock_trace_masks refl]
  show ?thesis by (rule reported_cycle_hides_others [OF s2])
qed

end
