(* ===== verification/Verifier_Limits.thy ===== *)
theory Verifier_Limits
  imports Verifier_Trace
begin

text \<open>
  Configuration, summary and limits of \<^verbatim>\<open>src/monitor_verifier.c\<close>: the hold-time
  threshold is read back exactly, the summary is whole and calls a result authoritative
  exactly when it is, and what a full thread table and a reused thread id do.
\<close>

section \<open>Configuration\<close>

lemma strtoull_stops:
  assumes "ds \<noteq> []" and "\<forall>d \<in> set ds. c_isdigit d" and "\<not> c_isdigit c"
  shows "snd (snd (strtoull (ds @ c # rest))) = length ds"
proof -
  obtain d ds' where ds: "ds = d # ds'" using assms(1) by (cases ds) auto
  then have d: "\<not> c_isspace d" "d \<noteq> CHR ''+''" "d \<noteq> CHR ''-''"
    using isdigit_not_space_sign [of d] assms(2) by auto
  have "takeWhile c_isdigit (ds @ c # rest) = ds" using assms(2,3) by (simp add: takeWhile_append2)
  with d ds show ?thesis by (simp add: strtoull_def Let_def)
qed

text \<open>
  The configuration.  Every decimal number below 2^64 in the environment variable is
  read back exactly; without the variable, with an empty one, with a number of 2^64 or
  more, or with a number followed by anything else, the default of 100 ms is used.
\<close>

theorem configuration_roundtrip:
  assumes "n < 2 ^ 64" and "2 ^ 64 \<le> m" and "\<not> c_isdigit c"
  shows "load_configuration (Some (fmt_nat n)) = of_nat n \<and>
    load_configuration (Some (fmt_nat m)) = DEFAULT_MAX_HOLD_NS \<and>
    load_configuration (Some (fmt_nat n @ c # rest)) = DEFAULT_MAX_HOLD_NS \<and>
    load_configuration (Some []) = DEFAULT_MAX_HOLD_NS \<and> load_configuration None = DEFAULT_MAX_HOLD_NS"
proof -
  have ne: "fmt_nat k \<noteq> []" for k by (simp add: fmt_nat_def)
  have big: "strtoull (fmt_nat m) = (-1, True, length (fmt_nat m))"
    using strtoull_digits [OF ne, of m] fmt_nat_digits assms(2) by (auto simp: digits_value_fmt_nat)
  have tail: "snd (snd (strtoull (fmt_nat n @ c # rest))) = length (fmt_nat n)"
    using strtoull_stops [OF ne _ assms(3)] fmt_nat_digits by blast
  show ?thesis
    using assms(1) strtoull_fmt_nat [OF assms(1)] big tail ne
    by (auto simp: load_configuration_def split: prod.splits)
qed

theorem configuration_roundtrip_witness:
  "load_configuration (Some (fmt_nat 250)) = 250 \<and> load_configuration (Some (fmt_nat 250 @ ''ms'')) = DEFAULT_MAX_HOLD_NS"
  using configuration_roundtrip [of 250 "2 ^ 64" "CHR ''m''" "''s''"] by (simp add: c_isdigit_def)

section \<open>The summary\<close>

lemma summary_fits: "length (summary_text tc s) < 1792"
  using fmt_lengths(1) [of "processed_events s"] fmt_lengths(1) [of "deadlock_cycle_violations s"]
    fmt_lengths(1) [of "non_owner_unlock_violations s"] fmt_lengths(1) [of "self_deadlock_candidates s"]
    fmt_lengths(1) [of "lock_held_at_exit_violations s"] fmt_lengths(1) [of "hold_time_violations s"]
    fmt_lengths(1) [of "total_violations s"] fmt_lengths(2) [of "waiting_thread_count s"]
    fmt_lengths(1) [of "detected_stream_gaps s"] fmt_lengths(2) [of "tainted_thread_streams s"]
    fmt_lengths(1) [of "state_overflow_events s"] fmt_lengths(1) [of "max_hold_ns s"]
  by (simp add: summary_text_def nl_def)

lemma summary_shape:
  obtains pre where "summary_text tc s = pre @ (if tc \<and> verifier_complete s then ''AUTHORITATIVE''
        else ''INCOMPLETE TRACE - conclusions are provisional'') @ nl"
  by (rule that) (simp only: summary_text_def append_assoc [symmetric])

text \<open>
  (C28) The summary is never truncated, and it calls the results authoritative exactly when
  the runtime says the trace is complete, no table overflowed and no stream was tainted.
\<close>

theorem summary_authoritative_iff:
  "stderr_writes (monitor_verifier_print_summary tc s) = stderr_writes s @ [summary_text tc s] \<and>
   ((\<exists>pre. summary_text tc s = pre @ ''AUTHORITATIVE'' @ nl) \<longleftrightarrow>
     tc \<and> state_overflow_events s = 0 \<and> tainted_thread_streams s = 0)"
proof -
  have "summary_text tc s \<noteq> []" by (simp add: summary_text_def nl_def)
  from snprintf_write_fits [OF this summary_fits]
  have w: "stderr_writes (monitor_verifier_print_summary tc s) = stderr_writes s @ [summary_text tc s]"
    by (simp add: monitor_verifier_print_summary_def)
  obtain pre where pre: "summary_text tc s = pre @ (if tc \<and> verifier_complete s then ''AUTHORITATIVE''
        else ''INCOMPLETE TRACE - conclusions are provisional'') @ nl" by (rule summary_shape)
  have "tc \<and> verifier_complete s" if "summary_text tc s = p @ ''AUTHORITATIVE'' @ nl" for p
  proof (rule ccontr)
    assume "\<not> (tc \<and> verifier_complete s)"
    with pre that have "p @ ''AUTHORITATIVE'' @ nl = pre @ ''INCOMPLETE TRACE - conclusions are provisional'' @ nl"
      by auto
    then have "rev (p @ ''AUTHORITATIVE'' @ nl) = rev (pre @ ''INCOMPLETE TRACE - conclusions are provisional'' @ nl)"
      by (rule arg_cong)
    then show False by (simp add: nl_def)
  qed
  with pre have "(\<exists>p. summary_text tc s = p @ ''AUTHORITATIVE'' @ nl) \<longleftrightarrow> tc \<and> verifier_complete s"
    by (auto split: if_splits)
  with w show ?thesis by (simp add: verifier_complete_def)
qed

section \<open>Limits\<close>

text \<open>
  (C29) When all 16 thread entries belong to other threads, an event changes nothing but
  three statistics: it is counted as processed and as an overflow, and the newest sequence
  number is noted.  No violation is evaluated, and a deadlock candidate survives the event.
\<close>

theorem full_thread_table:
  assumes "\<forall>t \<in> set (thread_states s). th_used t \<and> th_thread_id t \<noteq> ev_thread_id e"
  shows "monitor_verifier_process_event (Some e) s =
    s\<lparr>processed_events := processed_events s + 1,
      last_processed_sequence := max (last_processed_sequence s) (ev_sequence_id e),
      state_overflow_events := state_overflow_events s + 1\<rparr>"
proof -
  have "fst (find_thread_loop tid i f ts) = None \<and> snd (find_thread_loop tid i f ts) = f"
    if "\<forall>t \<in> set ts. th_used t \<and> th_thread_id t \<noteq> tid" for tid i f ts
    using that by (induction ts arbitrary: i f) simp_all
  with assms have "find_thread_loop (ev_thread_id e) 0 None (thread_states s) = (None, None)"
    by (simp add: prod_eq_iff)
  then show ?thesis
    by (auto simp: monitor_verifier_process_event_def observe_thread_sequence_def find_thread_def Let_def max_def
        intro!: verifier_state.equality)
qed

definition crowded :: verifier_state where
  "crowded = verifier_boot\<lparr>thread_states := map (\<lambda>i. new_thread (of_nat i + 100)) [0..<16],
     candidate_cycle_mask := 3\<rparr>"

theorem full_thread_table_witness:
  "candidate_cycle_mask (monitor_verifier_process_event
     (Some (trace_event 7 11 0 MONITOR_EVENT_THREAD_START 0 1)) crowded) = 3"
proof -
  have "\<forall>t \<in> set (thread_states crowded). th_used t \<and> th_thread_id t \<noteq> 11"
    by (simp add: crowded_def upt_rec)
  then show ?thesis
    using full_thread_table [of crowded "trace_event 7 11 0 MONITOR_EVENT_THREAD_START 0 1"]
    by (simp add: trace_event_def crowded_def)
qed

text \<open>
  (C31) Reuse of a thread id.  A thread is known by its kernel id only, and a start event
  does not restart the expected sequence number.  So if an id the verifier has seen before
  (without a gap) is reused by a new thread, whose events start at sequence number 0, the
  verifier counts a gap and taints the new thread, although nothing was lost.
\<close>

theorem thread_id_reuse_taints:
  assumes "verifier_reachable ok s"
    and "state_overflow_events (monitor_verifier_process_event (Some e) s) = state_overflow_events s"
    and "ev_event_type e = event_code MONITOR_EVENT_THREAD_START" and "ev_thread_sequence e = 0"
    and "sp_expected (thread_view s (ev_thread_id e)) \<noteq> 0"
    and "\<not> sp_tainted (thread_view s (ev_thread_id e))"
  shows "sp_tainted (thread_view (monitor_verifier_process_event (Some e) s) (ev_thread_id e)) \<and>
    detected_stream_gaps (monitor_verifier_process_event (Some e) s) = detected_stream_gaps s + 1"
proof -
  let ?s = "monitor_verifier_process_event (Some e) s"
  have wf: "verifier_wf s" using assms(1) by (rule reachable_wf)
  have "view_thread (abs_view ?s) (ev_thread_id e) = thread_event e (thread_view s (ev_thread_id e))"
    unfolding process_refines [OF wf assms(2)] process_view_thread by simp
  then show ?thesis
    using assms(4,5) gaps_process [OF wf assms(2)] by (simp add: thread_event_fields)
qed

definition first_life :: "monitor_event list" where
  "first_life = [trace_event 0 11 0 MONITOR_EVENT_THREAD_START 0 1, trace_event 1 11 1 MONITOR_EVENT_THREAD_EXIT 0 2]"

theorem thread_id_reuse_taints_witness:
  "detected_stream_gaps (monitor_verifier_process_event (Some (trace_event 2 11 0 MONITOR_EVENT_THREAD_START 0 3))
     (process_events first_life verifier_start)) = detected_stream_gaps (process_events first_life verifier_start) + 1"
proof -
  let ?s = "process_events first_life verifier_start" and ?e = "trace_event 2 11 0 MONITOR_EVENT_THREAD_START 0 3"
  have r: "verifier_reachable (\<lambda>_. True) ?s" by (intro reachable_process_events verifier_reachable.init) simp
  have o0: "state_overflow_events ?s = 0" by code_simp
  have o1: "state_overflow_events (monitor_verifier_process_event (Some ?e) ?s) = 0" by code_simp
  have "abs_view ?s = spec_run first_life initial_view"
    using run_refines(1) [OF wf_init [of None verifier_boot], where es = first_life] o0
    by (simp add: init_fields abs_init first_life_def)
  from arg_cong [OF this, of "\<lambda>v. view_thread v 11"]
  have "sp_expected (thread_view ?s 11) = 2" "\<not> sp_tainted (thread_view ?s 11)"
    by (simp_all add: first_life_def process_view_thread trace_event_def thread_event_fields initial_view_def fresh_thread_def)
  then show ?thesis
    using thread_id_reuse_taints [OF r, of ?e] o0 o1 by (simp add: trace_event_def)
qed

end
