(* ===== verification/Runtime.thy ===== *)
theory Runtime
  imports Ring_Buffer Verifier_Events
begin

text \<open>
  \<^verbatim>\<open>include/monitor_runtime.h\<close> and \<^verbatim>\<open>src/monitor_runtime.c\<close>: the
  per-thread transport contexts, event emission, the consumer and the summary.  The
  file's static variables are the fields of one record, which also holds the state of the
  verifier module; a pointer to a context is its index.  Values that come from the
  operating system (thread id, clock, return codes of the pthread calls) are arguments.
  Operations that several threads interleave are cut where they touch shared data;
  \<open>Runtime_Steps\<close> composes the pieces.
\<close>

section \<open>State\<close>

abbreviation MONITOR_MAX_THREADS :: nat where
  "MONITOR_MAX_THREADS \<equiv> 16"

abbreviation MONITOR_DRAIN_BATCH :: nat where
  "MONITOR_DRAIN_BATCH \<equiv> 64"

record monitor_thread_context =
  cx_active :: bool
  cx_thread_id :: u64
  cx_queue :: spsc_ring_buffer
  cx_generated :: u64
  cx_dropped :: u64
  cx_next_thread_sequence :: u32
  cx_consumed :: u64

record runtime_state =
  thread_contexts :: "monitor_thread_context list"
  next_thread_slot :: u32
  global_sequence :: u64
  unregistered_events :: u64
  lifecycle_registration_failures :: u64
  accept_events :: bool
  consumer_running :: bool
  thread_exit_key_ready :: bool
  verifier :: verifier_state

text \<open>
  The thread-local variables, and the value stored under \<open>thread_exit_key\<close>, which
  the C library passes to the destructor when the thread ends.
\<close>

record thread_local =
  tls_context :: "nat option"
  tls_registration_failed :: bool
  tls_internal_thread :: bool
  tls_exit_value :: "nat option"

definition zero_context :: monitor_thread_context where
  [zero_defs]: "zero_context =
     \<lparr>cx_active = False, cx_thread_id = 0, cx_queue = zero_ring_buffer, cx_generated = 0,
      cx_dropped = 0, cx_next_thread_sequence = 0, cx_consumed = 0\<rparr>"

definition fresh_tls :: thread_local where
  [zero_defs]: "fresh_tls =
     \<lparr>tls_context = None, tls_registration_failed = False, tls_internal_thread = False,
      tls_exit_value = None\<rparr>"

definition upd_context ::
    "nat \<Rightarrow> (monitor_thread_context \<Rightarrow> monitor_thread_context) \<Rightarrow> runtime_state \<Rightarrow> runtime_state" where
  "upd_context i f rt = rt\<lparr>thread_contexts := (thread_contexts rt)[i := f (thread_contexts rt ! i)]\<rparr>"

section \<open>Emission\<close>

text \<open>The clock reading is \<^const>\<open>None\<close> when \<^verbatim>\<open>clock_gettime\<close> fails.\<close>

definition timestamp_now_ns :: "(u64 \<times> u64) option \<Rightarrow> u64" where
  "timestamp_now_ns clock =
     (case clock of None \<Rightarrow> 0 | Some (tv_sec, tv_nsec) \<Rightarrow> tv_sec * 1000000000 + tv_nsec)"

text \<open>
  \<open>emit_event_to_context\<close> in two parts: the first reserves the sequence numbers,
  builds the event and counts it; the second offers it to the queue and counts a drop.
\<close>

definition reserve_event ::
    "nat \<Rightarrow> monitor_event_type \<Rightarrow> uintptr \<Rightarrow> i32 \<Rightarrow> (u64 \<times> u64) option \<Rightarrow> runtime_state \<Rightarrow>
     monitor_event \<times> runtime_state" where
  "reserve_event i type addr result clock rt =
     (let context = thread_contexts rt ! i;
          event = \<lparr>ev_sequence_id = global_sequence rt,
                   ev_timestamp_ns = timestamp_now_ns clock,
                   ev_thread_id = cx_thread_id context,
                   ev_object_address = addr,
                   ev_event_type = event_code type,
                   ev_result = result,
                   ev_flags = 0,
                   ev_thread_sequence = cx_next_thread_sequence context\<rparr>
      in (event,
          upd_context i (\<lambda>c. c\<lparr>cx_next_thread_sequence := cx_next_thread_sequence c + 1,
                              cx_generated := cx_generated c + 1\<rparr>)
            (rt\<lparr>global_sequence := global_sequence rt + 1\<rparr>)))"

definition push_event :: "nat \<Rightarrow> monitor_event \<Rightarrow> runtime_state \<Rightarrow> runtime_state" where
  "push_event i event rt =
     (case spsc_ring_buffer_try_push (cx_queue (thread_contexts rt ! i)) event of
        (pushed, queue) \<Rightarrow>
          upd_context i (\<lambda>c. c\<lparr>cx_queue := queue,
             cx_dropped := (if pushed then cx_dropped c else cx_dropped c + 1)\<rparr>) rt)"

definition emit_event_to_context ::
    "nat \<Rightarrow> monitor_event_type \<Rightarrow> uintptr \<Rightarrow> i32 \<Rightarrow> (u64 \<times> u64) option \<Rightarrow> runtime_state \<Rightarrow>
     runtime_state" where
  "emit_event_to_context i type addr result clock rt =
     (case reserve_event i type addr result clock rt of (event, rt1) \<Rightarrow> push_event i event rt1)"

section \<open>Registration\<close>

text \<open>
  The compare-and-swap loop as one step: the exchange that succeeds sees the current
  value.
\<close>

definition claim_thread_slot :: "runtime_state \<Rightarrow> nat option \<times> runtime_state" where
  "claim_thread_slot rt =
     (if of_nat MONITOR_MAX_THREADS \<le> next_thread_slot rt then (None, rt)
      else (Some (unat (next_thread_slot rt)),
            rt\<lparr>next_thread_slot := next_thread_slot rt + 1\<rparr>))"

definition count_unregistered :: "runtime_state \<Rightarrow> runtime_state" where
  "count_unregistered rt = rt\<lparr>unregistered_events := unregistered_events rt + 1\<rparr>"

text \<open>
  The part of \<open>register_current_thread\<close> between the claim and the start event: the
  context is initialised and activated and stored in both thread-local places.
\<close>

definition activate_context ::
    "nat \<Rightarrow> u64 \<Rightarrow> i32 \<Rightarrow> thread_local \<times> runtime_state \<Rightarrow> thread_local \<times> runtime_state" where
  "activate_context slot tid setspecific_rc p =
     (case p of (tls, rt) \<Rightarrow>
      let rt1 = upd_context slot (\<lambda>c. c\<lparr>cx_queue := spsc_ring_buffer_init (cx_queue c),
                  cx_thread_id := tid, cx_generated := 0, cx_dropped := 0,
                  cx_next_thread_sequence := 0, cx_consumed := 0, cx_active := True\<rparr>) rt;
          tls1 = tls\<lparr>tls_context := Some slot\<rparr>
      in if thread_exit_key_ready rt1 then
           (if setspecific_rc \<noteq> 0
            then (tls1, rt1\<lparr>lifecycle_registration_failures := lifecycle_registration_failures rt1 + 1\<rparr>)
            else (tls1\<lparr>tls_exit_value := Some slot\<rparr>, rt1))
         else (tls1, rt1\<lparr>lifecycle_registration_failures := lifecycle_registration_failures rt1 + 1\<rparr>))"

definition register_current_thread ::
    "u64 \<Rightarrow> i32 \<Rightarrow> (u64 \<times> u64) option \<Rightarrow> thread_local \<times> runtime_state \<Rightarrow>
     nat option \<times> thread_local \<times> runtime_state" where
  "register_current_thread tid setspecific_rc clock p =
     (case p of (tls, rt) \<Rightarrow>
        (case tls_context tls of
           Some context \<Rightarrow> (Some context, tls, rt)
         | None \<Rightarrow>
             if tls_registration_failed tls then (None, tls, count_unregistered rt)
             else (case claim_thread_slot rt of
                (None, rt1) \<Rightarrow> (None, tls\<lparr>tls_registration_failed := True\<rparr>, count_unregistered rt1)
              | (Some slot, rt1) \<Rightarrow>
                  (case activate_context slot tid setspecific_rc (tls, rt1) of (tls2, rt2) \<Rightarrow>
                     (Some slot, tls2,
                      emit_event_to_context slot MONITOR_EVENT_THREAD_START 0 0 clock rt2)))))"

section \<open>The producer interface\<close>

definition monitor_runtime_emit ::
    "monitor_event_type \<Rightarrow> uintptr \<Rightarrow> i32 \<Rightarrow> u64 \<Rightarrow> i32 \<Rightarrow> (u64 \<times> u64) option \<Rightarrow> (u64 \<times> u64) option \<Rightarrow>
     thread_local \<times> runtime_state \<Rightarrow> thread_local \<times> runtime_state" where
  "monitor_runtime_emit type addr result tid setspecific_rc start_clock clock p =
     (case p of (tls, rt) \<Rightarrow>
        if \<not> accept_events rt then (tls, rt)
        else if tls_internal_thread tls then (tls, rt)
        else (case register_current_thread tid setspecific_rc start_clock (tls, rt) of
           (None, tls1, rt1) \<Rightarrow> (tls1, rt1)
         | (Some context, tls1, rt1) \<Rightarrow>
             (tls1, emit_event_to_context context type addr result clock rt1)))"

definition monitor_thread_exit_destructor ::
    "(u64 \<times> u64) option \<Rightarrow> nat option \<Rightarrow> thread_local \<times> runtime_state \<Rightarrow> thread_local \<times> runtime_state" where
  "monitor_thread_exit_destructor clock value p =
     (case p of (tls, rt) \<Rightarrow>
        (case value of
           None \<Rightarrow> (tls, rt)
         | Some context \<Rightarrow>
             (tls\<lparr>tls_context := None\<rparr>,
              if accept_events rt
              then emit_event_to_context context MONITOR_EVENT_THREAD_EXIT 0 0 clock rt else rt)))"

definition monitor_runtime_is_internal_thread :: "thread_local \<Rightarrow> bool" where
  "monitor_runtime_is_internal_thread tls = tls_internal_thread tls"

section \<open>The consumer\<close>

text \<open>One iteration of the loop of \<open>drain_context\<close>: pop, process, count.\<close>

definition drain_one :: "nat \<Rightarrow> runtime_state \<Rightarrow> bool \<times> runtime_state" where
  "drain_one i rt =
     (case spsc_ring_buffer_try_pop (cx_queue (thread_contexts rt ! i)) of
        (None, queue) \<Rightarrow> (False, upd_context i (\<lambda>c. c\<lparr>cx_queue := queue\<rparr>) rt)
      | (Some event, queue) \<Rightarrow>
          (True, upd_context i (\<lambda>c. c\<lparr>cx_queue := queue, cx_consumed := cx_consumed c + 1\<rparr>)
             (rt\<lparr>verifier := monitor_verifier_process_event (Some event) (verifier rt)\<rparr>)))"

fun drain_loop :: "nat \<Rightarrow> nat \<Rightarrow> bool \<Rightarrow> runtime_state \<Rightarrow> bool \<times> runtime_state" where
  "drain_loop n i consumed_any rt =
     (case n of 0 \<Rightarrow> (consumed_any, rt)
      | Suc m \<Rightarrow> (case drain_one i rt of
           (False, rt1) \<Rightarrow> (consumed_any, rt1)
         | (True, rt1) \<Rightarrow> drain_loop m i True rt1))"

definition drain_context :: "nat \<Rightarrow> runtime_state \<Rightarrow> bool \<times> runtime_state" where
  "drain_context i rt = drain_loop MONITOR_DRAIN_BATCH i False rt"

text \<open>
  The control points of \<open>monitor_consumer_main\<close>: the start of a round, the scan of the
  contexts, the draining of one of them, the deadlock check and the termination test.
\<close>

datatype consumer_pc =
  C_Round
| C_Scan nat nat bool
| C_Drain nat nat nat bool
| C_Check bool
| C_Test bool
| C_Stopped

definition consumer_step :: "consumer_pc \<times> runtime_state \<Rightarrow> consumer_pc \<times> runtime_state" where
  "consumer_step p =
     (case p of (pc, rt) \<Rightarrow>
        (case pc of
           C_Round \<Rightarrow> (C_Scan (unat (next_thread_slot rt)) 0 False, rt)
         | C_Scan count i consumed_any \<Rightarrow>
             if i < count then
               (if \<not> cx_active (thread_contexts rt ! i) then (C_Scan count (Suc i) consumed_any, rt)
                else (C_Drain count i 0 consumed_any, rt))
             else (C_Check consumed_any, rt)
         | C_Drain count i n consumed_any \<Rightarrow>
             if n < MONITOR_DRAIN_BATCH then
               (case drain_one i rt of
                  (False, rt1) \<Rightarrow> (C_Scan count (Suc i) consumed_any, rt1)
                | (True, rt1) \<Rightarrow> (C_Drain count i (Suc n) True, rt1))
             else (C_Scan count (Suc i) consumed_any, rt)
         | C_Check consumed_any \<Rightarrow>
             (C_Test consumed_any,
              if \<not> consumed_any then rt\<lparr>verifier := monitor_verifier_check_deadlocks (verifier rt)\<rparr> else rt)
         | C_Test consumed_any \<Rightarrow>
             (if \<not> consumer_running rt \<and> \<not> consumed_any then C_Stopped else C_Round, rt)
         | C_Stopped \<Rightarrow> (C_Stopped, rt)))"

section \<open>Transport summary\<close>

definition loss_ppm_of :: "u64 \<Rightarrow> u64 \<Rightarrow> u64" where
  "loss_ppm_of dropped generated =
     (if generated \<noteq> 0 then (dropped * 1000000) div generated else 0)"

definition context_line :: "nat \<Rightarrow> monitor_thread_context \<Rightarrow> string" where
  "context_line i c =
     ''slot='' @ fmt_u (of_nat i) @ '' tid='' @ fmt_lu (cx_thread_id c) @
     '' generated='' @ fmt_lu (cx_generated c) @ '' consumed='' @ fmt_lu (cx_consumed c) @
     '' dropped='' @ fmt_lu (cx_dropped c) @
     '' loss='' @ fmt_lu (loss_ppm_of (cx_dropped c) (cx_generated c)) @ '' ppm'' @ nl"

definition registered_contexts :: "runtime_state \<Rightarrow> (nat \<times> monitor_thread_context) list" where
  "registered_contexts rt =
     filter (\<lambda>(i, c). cx_active c)
       (map (\<lambda>i. (i, thread_contexts rt ! i)) [0..<unat (next_thread_slot rt)])"

definition total_of :: "(monitor_thread_context \<Rightarrow> u64) \<Rightarrow> runtime_state \<Rightarrow> u64" where
  "total_of f rt = foldl (\<lambda>total (i, c). total + f c) 0 (registered_contexts rt)"

definition thread_statistics :: "runtime_state \<Rightarrow> string" where
  "thread_statistics rt =
     foldl (\<lambda>buffer (i, c). append_last 4096 (context_line i c) buffer)
       (snd (snprintf 4096 (nl @ ''=== Per-thread transport statistics ==='' @ nl)))
       (registered_contexts rt)"

definition transport_consistent :: "runtime_state \<Rightarrow> bool" where
  "transport_consistent rt \<longleftrightarrow>
     total_of cx_generated rt = total_of cx_consumed rt + total_of cx_dropped rt"

definition trace_complete :: "runtime_state \<Rightarrow> bool" where
  "trace_complete rt \<longleftrightarrow>
     transport_consistent rt \<and> total_of cx_dropped rt = 0 \<and>
     unregistered_events rt = 0 \<and> lifecycle_registration_failures rt = 0"

definition transport_summary_text :: "runtime_state \<Rightarrow> string" where
  "transport_summary_text rt =
     nl @ ''=== Monitor transport summary ==='' @ nl @
     ''Registered threads : '' @ fmt_u (of_nat (length (registered_contexts rt))) @ '' / '' @ fmt_u 16 @ nl @
     ''Generated events   : '' @ fmt_lu (total_of cx_generated rt) @ nl @
     ''Consumed events    : '' @ fmt_lu (total_of cx_consumed rt) @ nl @
     ''Dropped events     : '' @ fmt_lu (total_of cx_dropped rt) @ nl @
     ''Loss rate          : '' @
       fmt_lu (loss_ppm_of (total_of cx_dropped rt) (total_of cx_generated rt)) @ '' ppm'' @ nl @
     ''Unregistered events: '' @ fmt_lu (unregistered_events rt) @ nl @
     ''Lifecycle failures : '' @ fmt_lu (lifecycle_registration_failures rt) @ nl @
     ''Transport invariant: '' @ (if transport_consistent rt then ''PASS'' else ''FAIL'') @ nl @
     ''Trace integrity    : '' @ (if trace_complete rt then ''COMPLETE'' else ''DEGRADED'') @ nl @
     ''Event size         : '' @ fmt_lu 48 @ '' bytes'' @ nl @
     ''Queue size         : '' @ fmt_lu 98432 @ '' bytes'' @ nl @
     ''Context size       : '' @ fmt_lu 98624 @ '' bytes'' @ nl @
     ''Queue capacity     : '' @ fmt_u 2048 @ '' events'' @ nl @
     ''Drain batch        : '' @ fmt_u 64 @ '' events'' @ nl"

definition print_transport_summary :: "runtime_state \<Rightarrow> bool \<times> runtime_state" where
  "print_transport_summary rt =
     (let out = stderr_writes (verifier rt);
          stats = thread_statistics rt;
          out1 = (if stats \<noteq> [] then out @ [stats] else out)
      in (trace_complete rt,
          rt\<lparr>verifier := (verifier rt)\<lparr>stderr_writes :=
               snprintf_write 1536 (transport_summary_text rt) out1\<rparr>\<rparr>))"

section \<open>Startup and shutdown\<close>

definition monitor_runtime_start ::
    "string option \<Rightarrow> i32 \<Rightarrow> i32 \<Rightarrow> runtime_state \<Rightarrow> i32 \<times> runtime_state" where
  "monitor_runtime_start env key_rc consumer_rc rt =
     (let rt1 = rt\<lparr>next_thread_slot := 0, global_sequence := 0, unregistered_events := 0,
                   lifecycle_registration_failures := 0, accept_events := False,
                   thread_contexts := map (\<lambda>c. c\<lparr>cx_active := False\<rparr>) (thread_contexts rt),
                   verifier := monitor_verifier_init env (verifier rt)\<rparr>
      in if key_rc \<noteq> 0 then (key_rc, rt1)
         else let rt2 = rt1\<lparr>thread_exit_key_ready := True, consumer_running := True\<rparr>
              in if consumer_rc \<noteq> 0
                 then (consumer_rc, rt2\<lparr>thread_exit_key_ready := False, consumer_running := False\<rparr>)
                 else (0, rt2\<lparr>accept_events := True\<rparr>))"

text \<open>
  \<open>monitor_runtime_stop\<close> before and after it joins the consumer thread; in between the
  consumer runs to its end.
\<close>

definition stop_request :: "runtime_state \<Rightarrow> runtime_state" where
  "stop_request rt = rt\<lparr>accept_events := False, consumer_running := False\<rparr>"

definition stop_summary :: "runtime_state \<Rightarrow> runtime_state" where
  "stop_summary rt =
     (case print_transport_summary rt of (complete, rt1) \<Rightarrow>
        let rt2 = rt1\<lparr>verifier := monitor_verifier_print_summary complete (verifier rt1)\<rparr>
        in if thread_exit_key_ready rt2 then rt2\<lparr>thread_exit_key_ready := False\<rparr> else rt2)"

definition monitor_runtime_stop ::
    "(runtime_state \<Rightarrow> runtime_state) \<Rightarrow> runtime_state \<Rightarrow> runtime_state" where
  "monitor_runtime_stop join_consumer rt = stop_summary (join_consumer (stop_request rt))"

end
