(* ===== verification/Runtime_Steps.thy ===== *)
theory Runtime_Steps
  imports Runtime "HOL-Library.Sublist"
begin

text \<open>
  The runtime as a system of threads: application threads that emit events and end, the
  consumer, and the thread that stops the monitor.  A step is one piece of a function of
  \<open>Runtime\<close>; the pieces are cut at the atomic operations on shared data, and every
  interleaving of the steps is a run of the system.  History variables record which
  events were made, which were handed to the verifier and which were dropped.
\<close>

section \<open>The system\<close>

type_synonym request = "monitor_event_type \<times> uintptr \<times> i32"

text \<open>
  The control points of an application thread inside \<open>monitor_runtime_emit\<close>
  (\<open>A_Claimed\<close> to \<open>A_Push\<close>) and inside the exit destructor.  The C library
  clears the value it passes to the destructor, and the thread may still emit events after
  the destructor has returned, from the destructors of other keys: the thread is idle again
  and without a context.
\<close>

datatype app_pc =
  A_Idle
| A_Claimed request nat
| A_Start request nat
| A_StartPush request nat monitor_event
| A_Emit request nat
| A_Push nat monitor_event
| A_Exit nat
| A_ExitPush nat monitor_event

record system =
  sys_rt :: runtime_state
  sys_consumer :: consumer_pc
  sys_tls :: "nat \<Rightarrow> thread_local"
  sys_app :: "nat \<Rightarrow> app_pc"
  sys_owner :: "nat \<Rightarrow> nat option"
  sys_made :: "(nat \<times> monitor_event) list"
  sys_log :: "(nat \<times> monitor_event) list"
  sys_drops :: "nat \<Rightarrow> nat"

definition made_at :: "system \<Rightarrow> nat \<Rightarrow> monitor_event list" where
  "made_at y i = map snd (filter (\<lambda>p. fst p = i) (sys_made y))"

definition log_at :: "system \<Rightarrow> nat \<Rightarrow> monitor_event list" where
  "log_at y i = map snd (filter (\<lambda>p. fst p = i) (sys_log y))"

text \<open>What the pieces do to the histories.\<close>

definition set_app :: "nat \<Rightarrow> app_pc \<Rightarrow> system \<Rightarrow> system" where
  "set_app u pc y = y\<lparr>sys_app := (sys_app y)(u := pc)\<rparr>"

definition set_tls :: "nat \<Rightarrow> thread_local \<Rightarrow> system \<Rightarrow> system" where
  "set_tls u tls y = y\<lparr>sys_tls := (sys_tls y)(u := tls)\<rparr>"

definition do_reserve ::
    "nat \<Rightarrow> monitor_event_type \<Rightarrow> uintptr \<Rightarrow> i32 \<Rightarrow> (u64 \<times> u64) option \<Rightarrow> system \<Rightarrow>
     monitor_event \<times> system" where
  "do_reserve i type addr result clock y =
     (case reserve_event i type addr result clock (sys_rt y) of (event, rt) \<Rightarrow>
        (event, y\<lparr>sys_rt := rt, sys_made := sys_made y @ [(i, event)]\<rparr>))"

definition do_push :: "nat \<Rightarrow> monitor_event \<Rightarrow> system \<Rightarrow> system" where
  "do_push i event y =
     (let pushed = fst (spsc_ring_buffer_try_push (cx_queue (thread_contexts (sys_rt y) ! i)) event)
      in y\<lparr>sys_rt := push_event i event (sys_rt y),
           sys_drops := (if pushed then sys_drops y else (sys_drops y)(i := Suc (sys_drops y i)))\<rparr>)"

definition consumed_now :: "consumer_pc \<Rightarrow> runtime_state \<Rightarrow> (nat \<times> monitor_event) list" where
  "consumed_now pc rt =
     (case pc of
        C_Drain count i n any \<Rightarrow>
          if n < MONITOR_DRAIN_BATCH then
            (case fst (spsc_ring_buffer_try_pop (cx_queue (thread_contexts rt ! i))) of
               None \<Rightarrow> [] | Some event \<Rightarrow> [(i, event)])
          else []
      | _ \<Rightarrow> [])"

definition do_consume :: "system \<Rightarrow> system" where
  "do_consume y =
     (case consumer_step (sys_consumer y, sys_rt y) of (pc, rt) \<Rightarrow>
        y\<lparr>sys_consumer := pc, sys_rt := rt,
          sys_log := sys_log y @ consumed_now (sys_consumer y) (sys_rt y)\<rparr>)"

section \<open>Steps\<close>

text \<open>
  What a step is: a thread begins a call, is refused a context, registers under a thread id,
  works on a call, begins its exit or leaves unnoticed; or the step is the consumer's or the
  stopping thread's.
  A first emission reads \<open>accept_events\<close> and claims its slot in one step: a stop request
  between the two is not represented.
\<close>

datatype sys_label =
  Calls nat request | Refuses nat | Registers nat u64 | Works nat | Ends nat | Leaves nat | Consumes | Stops

inductive sys_act :: "sys_label \<Rightarrow> system \<Rightarrow> system \<Rightarrow> bool" where
  emit_known:
    "sys_app y u = A_Idle \<Longrightarrow> accept_events (sys_rt y) \<Longrightarrow> \<not> tls_internal_thread (sys_tls y u) \<Longrightarrow>
     tls_context (sys_tls y u) = Some c \<Longrightarrow> sys_act (Calls u req) y (set_app u (A_Emit req c) y)"
| emit_rejected:
    "sys_app y u = A_Idle \<Longrightarrow> accept_events (sys_rt y) \<Longrightarrow> \<not> tls_internal_thread (sys_tls y u) \<Longrightarrow>
     tls_context (sys_tls y u) = None \<Longrightarrow>
     tls_registration_failed (sys_tls y u) \<or> fst (claim_thread_slot (sys_rt y)) = None \<Longrightarrow>
     sys_act (Refuses u) y (set_tls u ((sys_tls y u)\<lparr>tls_registration_failed := True\<rparr>)
                   (y\<lparr>sys_rt := count_unregistered (sys_rt y)\<rparr>))"
| emit_claim:
    "sys_app y u = A_Idle \<Longrightarrow> accept_events (sys_rt y) \<Longrightarrow> \<not> tls_internal_thread (sys_tls y u) \<Longrightarrow>
     tls_context (sys_tls y u) = None \<Longrightarrow> \<not> tls_registration_failed (sys_tls y u) \<Longrightarrow>
     claim_thread_slot (sys_rt y) = (Some c, rt) \<Longrightarrow>
     sys_act (Calls u req) y (set_app u (A_Claimed req c) (y\<lparr>sys_rt := rt, sys_owner := (sys_owner y)(c := Some u)\<rparr>))"
| activate:
    "sys_app y u = A_Claimed req c \<Longrightarrow>
     activate_context c tid rc (sys_tls y u, sys_rt y) = (tls, rt) \<Longrightarrow>
     sys_act (Registers u tid) y (set_app u (A_Start req c) (set_tls u tls (y\<lparr>sys_rt := rt\<rparr>)))"
| start_reserve:
    "sys_app y u = A_Start req c \<Longrightarrow>
     do_reserve c MONITOR_EVENT_THREAD_START 0 0 clock y = (event, y') \<Longrightarrow>
     sys_act (Works u) y (set_app u (A_StartPush req c event) y')"
| start_push:
    "sys_app y u = A_StartPush req c event \<Longrightarrow> sys_act (Works u) y (set_app u (A_Emit req c) (do_push c event y))"
| reserve:
    "sys_app y u = A_Emit (type, addr, result) c \<Longrightarrow>
     do_reserve c type addr result clock y = (event, y') \<Longrightarrow> sys_act (Works u) y (set_app u (A_Push c event) y')"
| push:
    "sys_app y u = A_Push c event \<Longrightarrow> sys_act (Works u) y (set_app u A_Idle (do_push c event y))"
| exit_silent:
    "sys_app y u = A_Idle \<Longrightarrow> tls_exit_value (sys_tls y u) = Some c \<Longrightarrow> \<not> accept_events (sys_rt y) \<Longrightarrow>
     sys_act (Leaves u) y (set_tls u ((sys_tls y u)\<lparr>tls_exit_value := None, tls_context := None\<rparr>) y)"
| exit_begin:
    "sys_app y u = A_Idle \<Longrightarrow> tls_exit_value (sys_tls y u) = Some c \<Longrightarrow> accept_events (sys_rt y) \<Longrightarrow>
     sys_act (Ends u) y (set_app u (A_Exit c) (set_tls u ((sys_tls y u)\<lparr>tls_exit_value := None\<rparr>) y))"
| exit_reserve:
    "sys_app y u = A_Exit c \<Longrightarrow>
     do_reserve c MONITOR_EVENT_THREAD_EXIT 0 0 clock y = (event, y') \<Longrightarrow>
     sys_act (Works u) y (set_app u (A_ExitPush c event) y')"
| exit_push:
    "sys_app y u = A_ExitPush c event \<Longrightarrow>
     sys_act (Works u) y (set_tls u ((sys_tls y u)\<lparr>tls_context := None\<rparr>) (set_app u A_Idle (do_push c event y)))"
| consume: "sys_act Consumes y (do_consume y)"
| stop_accepting: "sys_act Stops y (y\<lparr>sys_rt := (sys_rt y)\<lparr>accept_events := False\<rparr>\<rparr>)"
| stop_running: "sys_act Stops y (y\<lparr>sys_rt := (sys_rt y)\<lparr>consumer_running := False\<rparr>\<rparr>)"

definition sys_step :: "system \<Rightarrow> system \<Rightarrow> bool" where
  "sys_step y y' \<longleftrightarrow> (\<exists>l. sys_act l y y')"

lemma sys_stepI: "sys_act l y y' \<Longrightarrow> sys_step y y'"
  by (auto simp: sys_step_def)

lemmas sys_steps = sys_act.intros [THEN sys_stepI]

text \<open>The system right after \<open>monitor_runtime_start\<close> has returned 0.\<close>

definition ring_storage :: "runtime_state \<Rightarrow> bool" where
  "ring_storage rt \<longleftrightarrow> length (thread_contexts rt) = MONITOR_MAX_THREADS \<and>
     (\<forall>c \<in> set (thread_contexts rt). length (rb_slots (cx_queue c)) = SPSC_RING_CAPACITY)"

definition started :: "string option \<Rightarrow> runtime_state \<Rightarrow> system" where
  "started env rt =
     \<lparr>sys_rt = snd (monitor_runtime_start env 0 0 rt), sys_consumer = C_Round,
      sys_tls = (\<lambda>_. fresh_tls), sys_app = (\<lambda>_. A_Idle), sys_owner = (\<lambda>_. None),
      sys_made = [], sys_log = [], sys_drops = (\<lambda>_. 0)\<rparr>"

inductive sys_reachable :: "string option \<Rightarrow> system \<Rightarrow> bool" for env where
  sys_start: "ring_storage rt \<Longrightarrow> sys_reachable env (started env rt)"
| sys_next: "sys_reachable env y \<Longrightarrow> sys_step y y' \<Longrightarrow> sys_reachable env y'"

section \<open>The invariant\<close>

text \<open>The context a thread works on, and the event it is about to push.\<close>

fun pc_slot :: "app_pc \<Rightarrow> nat option" where
  "pc_slot A_Idle = None"
| "pc_slot (A_Claimed req c) = Some c"
| "pc_slot (A_Start req c) = Some c"
| "pc_slot (A_StartPush req c e) = Some c"
| "pc_slot (A_Emit req c) = Some c"
| "pc_slot (A_Push c e) = Some c"
| "pc_slot (A_Exit c) = Some c"
| "pc_slot (A_ExitPush c e) = Some c"

fun pc_pending :: "app_pc \<Rightarrow> monitor_event list" where
  "pc_pending (A_StartPush req c e) = [e]"
| "pc_pending (A_Push c e) = [e]"
| "pc_pending (A_ExitPush c e) = [e]"
| "pc_pending _ = []"

fun pc_claimed :: "app_pc \<Rightarrow> bool" where
  "pc_claimed (A_Claimed req c) = True"
| "pc_claimed _ = False"

definition pending :: "system \<Rightarrow> nat \<Rightarrow> monitor_event list" where
  "pending y i = (case sys_owner y i of None \<Rightarrow> []
     | Some u \<Rightarrow> if pc_slot (sys_app y u) = Some i then pc_pending (sys_app y u) else [])"

definition queued :: "system \<Rightarrow> nat \<Rightarrow> monitor_event list" where
  "queued y i = ring_contents (cx_queue (thread_contexts (sys_rt y) ! i))"

definition claimed :: "system \<Rightarrow> nat \<Rightarrow> bool" where
  "claimed y u \<longleftrightarrow> pc_claimed (sys_app y u)"

definition slot_ok :: "system \<Rightarrow> nat \<Rightarrow> bool" where
  "slot_ok y i \<longleftrightarrow>
     (let c = thread_contexts (sys_rt y) ! i in
      length (rb_slots (cx_queue c)) = SPSC_RING_CAPACITY \<and>
      (if cx_active c
       then ring_inv (cx_queue c) \<and>
            cx_generated c = of_nat (length (made_at y i)) \<and>
            cx_consumed c = of_nat (length (log_at y i)) \<and>
            cx_dropped c = of_nat (sys_drops y i) \<and>
            cx_next_thread_sequence c = of_nat (length (made_at y i)) \<and>
            map ev_thread_sequence (made_at y i) = map of_nat [0..<length (made_at y i)] \<and>
            (\<forall>e \<in> set (made_at y i). ev_thread_id e = cx_thread_id c) \<and>
            subseq (log_at y i @ queued y i @ pending y i) (made_at y i) \<and>
            length (made_at y i) =
              length (log_at y i) + length (queued y i) + length (pending y i) + sys_drops y i
       else made_at y i = [] \<and> log_at y i = [] \<and> sys_drops y i = 0))"

definition thread_ok :: "system \<Rightarrow> nat \<Rightarrow> bool" where
  "thread_ok y u \<longleftrightarrow>
     (\<forall>i. pc_slot (sys_app y u) = Some i \<or> tls_context (sys_tls y u) = Some i \<or>
          tls_exit_value (sys_tls y u) = Some i \<longrightarrow>
        i < unat (next_thread_slot (sys_rt y)) \<and> sys_owner y i = Some u \<and>
        (\<not> claimed y u \<longrightarrow> cx_active (thread_contexts (sys_rt y) ! i))) \<and>
     (\<forall>i. tls_exit_value (sys_tls y u) = Some i \<longrightarrow> tls_context (sys_tls y u) = Some i) \<and>
     (claimed y u \<longrightarrow> tls_context (sys_tls y u) = None \<and>
        (\<forall>i. pc_slot (sys_app y u) = Some i \<longrightarrow> \<not> cx_active (thread_contexts (sys_rt y) ! i)))"

definition drain_ok :: "system \<Rightarrow> bool" where
  "drain_ok y \<longleftrightarrow>
     (case sys_consumer y of
        C_Scan count i any \<Rightarrow> count \<le> unat (next_thread_slot (sys_rt y))
      | C_Drain count i n any \<Rightarrow> count \<le> unat (next_thread_slot (sys_rt y)) \<and> i < count \<and>
          cx_active (thread_contexts (sys_rt y) ! i)
      | _ \<Rightarrow> True)"

definition sys_inv :: "system \<Rightarrow> bool" where
  "sys_inv y \<longleftrightarrow>
     length (thread_contexts (sys_rt y)) = MONITOR_MAX_THREADS \<and>
     unat (next_thread_slot (sys_rt y)) \<le> MONITOR_MAX_THREADS \<and>
     (\<forall>i < MONITOR_MAX_THREADS. slot_ok y i) \<and>
     (\<forall>i < MONITOR_MAX_THREADS. unat (next_thread_slot (sys_rt y)) \<le> i \<longrightarrow>
        \<not> cx_active (thread_contexts (sys_rt y) ! i)) \<and>
     (\<forall>u. thread_ok y u) \<and>
     (\<forall>p \<in> set (sys_made y). fst p < MONITOR_MAX_THREADS) \<and>
     (\<forall>p \<in> set (sys_log y). fst p < MONITOR_MAX_THREADS) \<and>
     global_sequence (sys_rt y) = of_nat (length (sys_made y)) \<and>
     map (ev_sequence_id \<circ> snd) (sys_made y) = map of_nat [0..<length (sys_made y)] \<and>
     drain_ok y"

end
