(* ===== verification/Runtime_Inv.thy ===== *)
theory Runtime_Inv
  imports Runtime_Steps
begin

text \<open>
  The invariant of \<open>Runtime_Steps\<close> is preserved by every step and holds in every
  reachable state: lemmas per step, first for the ones that change one control point, then
  for the ones that change one context.
\<close>

section \<open>The invariant is preserved\<close>

lemma set_app_fields [simp]:
  "sys_rt (set_app u pc y) = sys_rt y" "sys_consumer (set_app u pc y) = sys_consumer y"
  "sys_tls (set_app u pc y) = sys_tls y" "sys_app (set_app u pc y) = (sys_app y)(u := pc)"
  "sys_owner (set_app u pc y) = sys_owner y" "sys_made (set_app u pc y) = sys_made y"
  "sys_log (set_app u pc y) = sys_log y" "sys_drops (set_app u pc y) = sys_drops y"
  "made_at (set_app u pc y) = made_at y" "log_at (set_app u pc y) = log_at y"
  by (simp_all add: set_app_def made_at_def log_at_def fun_eq_iff)

lemma set_tls_fields [simp]:
  "sys_rt (set_tls u t y) = sys_rt y" "sys_consumer (set_tls u t y) = sys_consumer y"
  "sys_tls (set_tls u t y) = (sys_tls y)(u := t)" "sys_app (set_tls u t y) = sys_app y"
  "sys_owner (set_tls u t y) = sys_owner y" "sys_made (set_tls u t y) = sys_made y"
  "sys_log (set_tls u t y) = sys_log y" "sys_drops (set_tls u t y) = sys_drops y"
  "made_at (set_tls u t y) = made_at y" "log_at (set_tls u t y) = log_at y"
  by (simp_all add: set_tls_def made_at_def log_at_def fun_eq_iff)

lemma sys_invD:
  assumes "sys_inv y"
  shows "length (thread_contexts (sys_rt y)) = MONITOR_MAX_THREADS"
    and "unat (next_thread_slot (sys_rt y)) \<le> MONITOR_MAX_THREADS"
    and "i < MONITOR_MAX_THREADS \<Longrightarrow> slot_ok y i"
    and "i < MONITOR_MAX_THREADS \<Longrightarrow> unat (next_thread_slot (sys_rt y)) \<le> i \<Longrightarrow>
      \<not> cx_active (thread_contexts (sys_rt y) ! i)"
    and "thread_ok y u" and "drain_ok y"
  using assms by (simp_all add: sys_inv_def)

text \<open>What \<^const>\<open>slot_ok\<close> and \<^const>\<open>thread_ok\<close> depend on.\<close>

lemma slot_ok_cong:
  assumes "thread_contexts (sys_rt y') ! i = thread_contexts (sys_rt y) ! i" and "made_at y' i = made_at y i"
    and "log_at y' i = log_at y i" and "sys_drops y' i = sys_drops y i"
    and "cx_active (thread_contexts (sys_rt y) ! i) \<Longrightarrow> pending y' i = pending y i"
  shows "slot_ok y' i = slot_ok y i"
  using assms by (simp add: slot_ok_def queued_def Let_def)

definition refers :: "system \<Rightarrow> nat \<Rightarrow> nat \<Rightarrow> bool" where
  "refers y u i \<longleftrightarrow> pc_slot (sys_app y u) = Some i \<or> tls_context (sys_tls y u) = Some i"

lemma thread_okD:
  assumes "thread_ok y u"
  shows "refers y u i \<Longrightarrow> i < unat (next_thread_slot (sys_rt y))" and "refers y u i \<Longrightarrow> sys_owner y i = Some u"
    and "refers y u i \<Longrightarrow> \<not> claimed y u \<Longrightarrow> cx_active (thread_contexts (sys_rt y) ! i)"
    and "tls_exit_value (sys_tls y u) = Some i \<Longrightarrow> tls_context (sys_tls y u) = Some i"
    and "claimed y u \<Longrightarrow> tls_context (sys_tls y u) = None"
    and "claimed y u \<Longrightarrow> refers y u i \<Longrightarrow> \<not> cx_active (thread_contexts (sys_rt y) ! i)"
  using assms by (auto simp: thread_ok_def refers_def)

lemma thread_okI:
  assumes "\<And>i. refers y u i \<Longrightarrow> i < unat (next_thread_slot (sys_rt y))" and "\<And>i. refers y u i \<Longrightarrow> sys_owner y i = Some u"
    and "\<And>i. refers y u i \<Longrightarrow> \<not> claimed y u \<Longrightarrow> cx_active (thread_contexts (sys_rt y) ! i)"
    and "\<And>i. tls_exit_value (sys_tls y u) = Some i \<Longrightarrow> tls_context (sys_tls y u) = Some i"
    and "claimed y u \<Longrightarrow> tls_context (sys_tls y u) = None"
    and "\<And>i. claimed y u \<Longrightarrow> refers y u i \<Longrightarrow> \<not> cx_active (thread_contexts (sys_rt y) ! i)"
  shows "thread_ok y u"
  using assms unfolding thread_ok_def refers_def by blast

lemma thread_ok_cong:
  assumes ok: "thread_ok y u" and "sys_app y' u = sys_app y u" and "sys_tls y' u = sys_tls y u"
    and "unat (next_thread_slot (sys_rt y)) \<le> unat (next_thread_slot (sys_rt y'))"
    and "\<And>i. sys_owner y i = Some u \<Longrightarrow> i < unat (next_thread_slot (sys_rt y)) \<Longrightarrow> sys_owner y' i = Some u \<and>
      cx_active (thread_contexts (sys_rt y') ! i) = cx_active (thread_contexts (sys_rt y) ! i)"
  shows "thread_ok y' u"
proof (rule thread_okI)
  have refs: "refers y' u i = refers y u i" "claimed y' u = claimed y u" for i
    using assms(2,3) by (simp_all add: refers_def claimed_def)
  note d = thread_okD [OF ok]
  fix i
  show "i < unat (next_thread_slot (sys_rt y'))" if "refers y' u i" using d(1) [of i] that assms(4) refs by simp
  show "sys_owner y' i = Some u" if "refers y' u i" using d(1,2) [of i] that assms(5) refs by simp
  show "cx_active (thread_contexts (sys_rt y') ! i)" if "refers y' u i" "\<not> claimed y' u"
    using d(1,2,3) [of i] that assms(5) refs by simp
  show "tls_context (sys_tls y' u) = Some i" if "tls_exit_value (sys_tls y' u) = Some i"
    using d(4) [of i] that assms(3) by simp
  show "tls_context (sys_tls y' u) = None" if "claimed y' u" using d(5) that assms(3) refs by simp
  show "\<not> cx_active (thread_contexts (sys_rt y') ! i)" if "claimed y' u" "refers y' u i"
    using d(1,2,6) [of i] that assms(5) refs by simp
qed

lemma drain_ok_cong:
  assumes "drain_ok y" and "sys_consumer y' = sys_consumer y"
    and "unat (next_thread_slot (sys_rt y)) \<le> unat (next_thread_slot (sys_rt y'))"
    and "\<And>i. cx_active (thread_contexts (sys_rt y) ! i) \<Longrightarrow> cx_active (thread_contexts (sys_rt y') ! i)"
  shows "drain_ok y'"
  using assms by (auto simp: drain_ok_def split: consumer_pc.splits)

lemma pending_set_app:
  "pending (set_app u pc y) i =
     (if sys_owner y i = Some u then (if pc_slot pc = Some i then pc_pending pc else []) else pending y i)"
  by (auto simp: pending_def split: option.splits)

lemma pending_cong: "sys_owner y' i = sys_owner y i \<Longrightarrow> (\<And>u. sys_owner y i = Some u \<Longrightarrow> sys_app y' u = sys_app y u) \<Longrightarrow>
   pending y' i = pending y i"
  by (auto simp: pending_def split: option.splits)

lemma pending_other: "sys_owner y i = Some u \<Longrightarrow> pc_slot (sys_app y u) \<noteq> Some i \<Longrightarrow> pending y i = []"
  by (simp add: pending_def)

lemma pending_own: "sys_owner y i = Some u \<Longrightarrow> pc_slot (sys_app y u) = Some i \<Longrightarrow> pending y i = pc_pending (sys_app y u)"
  by (simp add: pending_def)

lemma pc_pending_slot: "pc_slot pc = None \<Longrightarrow> pc_pending pc = []"
  by (cases pc) simp_all

lemma pending_at_most_one: "length (pending y i) \<le> 1"
proof -
  have "length (pc_pending pc) \<le> 1" for pc by (cases pc) simp_all
  then show ?thesis by (simp add: pending_def split: option.splits)
qed

lemma claimed_set_app: "claimed (set_app u pc y) v = (if v = u then pc_claimed pc else claimed y v)"
  by (simp add: claimed_def)

text \<open>A step of one thread that changes nothing but its control point.\<close>

lemma inv_set_app:
  assumes inv: "sys_inv y" and old: "pc_pending (sys_app y u) = []" "\<not> claimed y u"
    and new: "pc_pending pc = []" "\<not> pc_claimed pc"
    and ref: "\<And>i. pc_slot pc = Some i \<Longrightarrow> pc_slot (sys_app y u) = Some i \<or> tls_context (sys_tls y u) = Some i"
  shows "sys_inv (set_app u pc y)"
proof -
  have "pending (set_app u pc y) i = pending y i" for i
    using old(1) new(1) by (auto simp: pending_def split: option.splits)
  then have "slot_ok (set_app u pc y) i = slot_ok y i" for i by (intro slot_ok_cong) simp_all
  moreover have "thread_ok (set_app u pc y) v" for v
  proof (cases "v = u")
    case True
    note d = thread_okD [OF sys_invD(5) [OF inv, of u]]
    have r: "refers y u i" if "refers (set_app u pc y) u i" for i
      using that ref [of i] by (auto simp: refers_def)
    show ?thesis
      unfolding True using d old(2) new(2) r by (intro thread_okI) (auto simp: claimed_set_app)
  next
    case False
    then show ?thesis by (intro thread_ok_cong [OF sys_invD(5) [OF inv, of v]]) simp_all
  qed
  moreover have "drain_ok (set_app u pc y)" by (rule drain_ok_cong [OF sys_invD(6) [OF inv]]) simp_all
  ultimately show ?thesis using inv by (simp add: sys_inv_def)
qed

lemma inv_set_tls:
  assumes inv: "sys_inv y"
    and ctx: "tls_context t \<in> {None, tls_context (sys_tls y u)}"
    and ex: "tls_exit_value t \<in> {None, tls_exit_value (sys_tls y u)}"
    and both: "tls_exit_value t \<noteq> None \<Longrightarrow> tls_context t = tls_context (sys_tls y u)"
  shows "sys_inv (set_tls u t y)"
proof -
  have pend: "pending (set_tls u t y) = pending y" by (simp add: pending_def fun_eq_iff split: option.splits)
  then have "slot_ok (set_tls u t y) i = slot_ok y i" for i by (intro slot_ok_cong) simp_all
  moreover have "thread_ok (set_tls u t y) v" for v
  proof (cases "v = u")
    case True
    note d = thread_okD [OF sys_invD(5) [OF inv, of u]]
    have r: "refers y u i" if "refers (set_tls u t y) u i" for i
      using that ctx by (auto simp: refers_def)
    have c: "claimed (set_tls u t y) u = claimed y u" by (simp add: claimed_def)
    show ?thesis
      unfolding True
    proof (rule thread_okI)
      show "tls_context (sys_tls (set_tls u t y) u) = Some i" if "tls_exit_value (sys_tls (set_tls u t y) u) = Some i" for i
      proof -
        have "tls_exit_value (sys_tls y u) = Some i" "tls_context t = tls_context (sys_tls y u)"
          using that ex both by (cases "tls_exit_value t"; force)+
        with d(4) show ?thesis by simp
      qed
      show "tls_context (sys_tls (set_tls u t y) u) = None" if "claimed (set_tls u t y) u"
        using that ctx d(5) by (auto simp: c)
    qed (use d r c in auto)
  next
    case False
    then show ?thesis by (intro thread_ok_cong [OF sys_invD(5) [OF inv, of v]]) simp_all
  qed
  moreover have "drain_ok (set_tls u t y)" by (rule drain_ok_cong [OF sys_invD(6) [OF inv]]) simp_all
  ultimately show ?thesis using inv by (simp add: sys_inv_def)
qed

lemma inv_other_rt:
  assumes inv: "sys_inv y" and "thread_contexts rt = thread_contexts (sys_rt y)"
    and "next_thread_slot rt = next_thread_slot (sys_rt y)" and "global_sequence rt = global_sequence (sys_rt y)"
  shows "sys_inv (y\<lparr>sys_rt := rt\<rparr>)"
proof -
  have "slot_ok (y\<lparr>sys_rt := rt\<rparr>) i = slot_ok y i" for i
    using assms by (intro slot_ok_cong) (simp_all add: made_at_def log_at_def pending_def split: option.splits)
  moreover have "thread_ok (y\<lparr>sys_rt := rt\<rparr>) v" for v
    using assms by (intro thread_ok_cong [OF sys_invD(5) [OF inv, of v]]) simp_all
  moreover have "drain_ok (y\<lparr>sys_rt := rt\<rparr>)"
    by (rule drain_ok_cong [OF sys_invD(6) [OF inv]]) (simp_all add: assms)
  ultimately show ?thesis using inv assms by (simp add: sys_inv_def)
qed

text \<open>Claiming and activating a context.\<close>

lemma inv_claim:
  assumes inv: "sys_inv y" and idle: "sys_app y u = A_Idle" and tls: "tls_context (sys_tls y u) = None"
    and claim: "claim_thread_slot (sys_rt y) = (Some c, rt)"
  shows "sys_inv (set_app u (A_Claimed req c) (y\<lparr>sys_rt := rt, sys_owner := (sys_owner y)(c := Some u)\<rparr>))"
    (is "sys_inv ?y")
proof -
  have c: "c = unat (next_thread_slot (sys_rt y))" and rt: "rt = (sys_rt y)\<lparr>next_thread_slot := next_thread_slot (sys_rt y) + 1\<rparr>"
    and lt: "next_thread_slot (sys_rt y) < 16"
    using claim by (auto simp: claim_thread_slot_def split: if_splits)
  have c16: "c < 16" using lt c by (simp add: word_less_nat_alt)
  have nxt: "unat (next_thread_slot rt) = Suc c" using c16 c by (simp add: rt unat_Suc_u32)
  have inactive: "\<not> cx_active (thread_contexts (sys_rt y) ! c)" using sys_invD(4) [OF inv, of c] c c16 by simp
  have pend: "pending ?y i = pending y i" if "i \<noteq> c" for i
    using that idle by (auto simp: pending_def split: option.splits)
  have ctx: "thread_contexts (sys_rt ?y) = thread_contexts (sys_rt y)" "made_at ?y = made_at y" "log_at ?y = log_at y"
    by (simp_all add: rt made_at_def log_at_def fun_eq_iff)
  have "slot_ok ?y i = slot_ok y i" for i
  proof (rule slot_ok_cong)
    show "pending ?y i = pending y i" if "cx_active (thread_contexts (sys_rt y) ! i)"
      using pend [of i] inactive that by metis
  qed (simp_all only: ctx, simp)
  moreover have "thread_ok ?y v" for v
  proof (cases "v = u")
    case True
    have "tls_exit_value (sys_tls y u) = None"
      using thread_okD(4) [OF sys_invD(5) [OF inv, of u]] tls by (cases "tls_exit_value (sys_tls y u)") auto
    with tls nxt inactive show ?thesis
      unfolding True by (intro thread_okI) (auto simp: refers_def claimed_def rt)
  next
    case False
    then show ?thesis
      using nxt c by (intro thread_ok_cong [OF sys_invD(5) [OF inv, of v]]) (auto simp: rt)
  qed
  moreover have "drain_ok ?y"
    by (rule drain_ok_cong [OF sys_invD(6) [OF inv]]) (use nxt c in \<open>auto simp: rt\<close>)
  moreover have "\<not> cx_active (thread_contexts rt ! i)" if "i < 16" "unat (next_thread_slot rt) \<le> i" for i
    using sys_invD(4) [OF inv, of i] that nxt c by (simp add: rt)
  ultimately show ?thesis
    using inv nxt c16 by (simp add: sys_inv_def) (simp add: rt)
qed

lemma history_fields [simp]:
  "made_at (y\<lparr>sys_rt := rt\<rparr>) = made_at y" "log_at (y\<lparr>sys_rt := rt\<rparr>) = log_at y"
  "made_at (do_push c e y) = made_at y" "log_at (do_push c e y) = log_at y"
  by (simp_all add: made_at_def log_at_def do_push_def Let_def fun_eq_iff)

lemma slot_ok_active:
  assumes "cx_active (thread_contexts (sys_rt y) ! i)"
  shows "slot_ok y i \<longleftrightarrow>
    (let c = thread_contexts (sys_rt y) ! i in
     length (rb_slots (cx_queue c)) = SPSC_RING_CAPACITY \<and> ring_inv (cx_queue c) \<and>
     cx_generated c = of_nat (length (made_at y i)) \<and> cx_consumed c = of_nat (length (log_at y i)) \<and>
     cx_dropped c = of_nat (sys_drops y i) \<and> cx_next_thread_sequence c = of_nat (length (made_at y i)) \<and>
     map ev_thread_sequence (made_at y i) = map of_nat [0..<length (made_at y i)] \<and>
     (\<forall>e \<in> set (made_at y i). ev_thread_id e = cx_thread_id c) \<and>
     subseq (log_at y i @ queued y i @ pending y i) (made_at y i) \<and>
     length (made_at y i) = length (log_at y i) + length (queued y i) + length (pending y i) + sys_drops y i)"
  using assms by (simp add: slot_ok_def Let_def)

lemma thread_ok_keep:
  assumes inv: "sys_inv y" and "sys_app y' v = sys_app y v" and "sys_tls y' v = sys_tls y v"
    and "next_thread_slot (sys_rt y') = next_thread_slot (sys_rt y)" and "sys_owner y' = sys_owner y"
    and "\<And>i. sys_owner y i = Some v \<Longrightarrow>
      cx_active (thread_contexts (sys_rt y') ! i) = cx_active (thread_contexts (sys_rt y) ! i)"
  shows "thread_ok y' v"
  by (rule thread_ok_cong [OF sys_invD(5) [OF inv, of v]]) (simp_all add: assms)

lemma inv_activate:
  assumes inv: "sys_inv y" and app: "sys_app y u = A_Claimed req c"
    and act: "activate_context c tid rc (sys_tls y u, sys_rt y) = (tls, rt)"
  shows "sys_inv (set_app u (A_Start req c) (set_tls u tls (y\<lparr>sys_rt := rt\<rparr>)))" (is "sys_inv ?y")
proof -
  let ?old = "thread_contexts (sys_rt y) ! c"
  let ?new = "?old\<lparr>cx_queue := spsc_ring_buffer_init (cx_queue ?old), cx_thread_id := tid, cx_generated := 0,
      cx_dropped := 0, cx_next_thread_sequence := 0, cx_consumed := 0, cx_active := True\<rparr>"
  have rt: "thread_contexts rt = (thread_contexts (sys_rt y))[c := ?new]"
    "next_thread_slot rt = next_thread_slot (sys_rt y)" "global_sequence rt = global_sequence (sys_rt y)"
    and tls: "tls_context tls = Some c" "tls_exit_value tls = tls_exit_value (sys_tls y u) \<or> tls_exit_value tls = Some c"
    using act by (auto simp: activate_context_def upd_context_def Let_def split: if_splits)
  note d = thread_okD [OF sys_invD(5) [OF inv, of u]]
  have ref: "refers y u c" and cl: "claimed y u" using app by (simp_all add: refers_def claimed_def)
  have c: "c < unat (next_thread_slot (sys_rt y))" "sys_owner y c = Some u" "\<not> cx_active ?old"
    using d(1,2,6) ref cl by blast+
  have c16: "c < 16" using c(1) sys_invD(2) [OF inv] by simp
  have exit: "tls_exit_value (sys_tls y u) = None"
    using d(4,5) cl by (cases "tls_exit_value (sys_tls y u)") auto
  have len: "length (thread_contexts (sys_rt y)) = 16" using sys_invD(1) [OF inv] .
  have made: "made_at ?y = made_at y" "log_at ?y = log_at y" by simp_all
  have old: "length (rb_slots (cx_queue ?old)) = 2048" "made_at y c = []" "log_at y c = []" "sys_drops y c = 0"
    using sys_invD(3) [OF inv c16] c(3) by (auto simp: slot_ok_def Let_def)
  have pend: "pending ?y i = (if i = c then [] else pending y i)" for i
    using c(2) app by (auto simp: pending_def split: option.splits)
  have here: "slot_ok ?y c"
    using old c16 len init_ring [OF old(1)]
    by (simp add: slot_ok_def Let_def made queued_def pend rt(1)) (simp add: spsc_ring_buffer_init_def)
  have "slot_ok ?y i" if "i < 16" for i
  proof (cases "i = c")
    case False
    then have "slot_ok ?y i = slot_ok y i" by (intro slot_ok_cong) (simp_all add: rt(1) pend made)
    with sys_invD(3) [OF inv that] show ?thesis by simp
  qed (use here in simp)
  moreover have "thread_ok ?y v" for v
  proof (cases "v = u")
    case True
    have refs: "i = c" if "refers ?y u i" for i
      using that tls by (auto simp: refers_def)
    have act: "cx_active (thread_contexts (sys_rt ?y) ! c)" using c16 len by (simp add: rt)
    show ?thesis
      unfolding True
    proof (rule thread_okI)
      show "i < unat (next_thread_slot (sys_rt ?y))" if "refers ?y u i" for i using refs [OF that] c by (simp add: rt)
      show "sys_owner ?y i = Some u" if "refers ?y u i" for i using refs [OF that] c by simp
      show "cx_active (thread_contexts (sys_rt ?y) ! i)" if "refers ?y u i" for i using refs [OF that] act by simp
    qed (use tls exit in \<open>auto simp: claimed_def\<close>)
  next
    case False
    have "i \<noteq> c" if "sys_owner y i = Some v" for i using that c(2) False by auto
    then have "cx_active (thread_contexts rt ! i) = cx_active (thread_contexts (sys_rt y) ! i)"
      if "sys_owner y i = Some v" for i using that by (metis rt(1) nth_list_update_neq)
    then show ?thesis using False rt(2) by (intro thread_ok_keep [OF inv]) simp_all
  qed
  moreover have "drain_ok ?y"
    by (rule drain_ok_cong [OF sys_invD(6) [OF inv]]) (use c16 len in \<open>auto simp: rt nth_list_update_if\<close>)
  moreover have "\<not> cx_active (thread_contexts rt ! i)" if "i < 16" "unat (next_thread_slot rt) \<le> i" for i
    using sys_invD(4) [OF inv, of i] that c(1) by (auto simp: rt nth_list_update_if)
  ultimately show ?thesis using inv by (simp add: sys_inv_def rt)
qed

lemma pending_move:
  assumes inv: "sys_inv y" and slot: "pc_slot (sys_app y u) = Some c" and new: "pc_slot pc \<in> {None, Some c}"
    and app: "sys_app y' = (sys_app y)(u := pc)" and own: "sys_owner y' = sys_owner y"
  shows "pending y' i = (if i = c then (if pc_slot pc = Some c then pc_pending pc else []) else pending y i)"
proof -
  have "sys_owner y c = Some u"
    using thread_okD(2) [OF sys_invD(5) [OF inv, of u], of c] slot by (simp add: refers_def)
  then show ?thesis
    using slot new by (auto simp: pending_def app own split: option.splits)
qed

lemma active_pc:
  assumes inv: "sys_inv y" and slot: "pc_slot (sys_app y u) = Some c" and nc: "\<not> pc_claimed (sys_app y u)"
  shows "c < 16" and "cx_active (thread_contexts (sys_rt y) ! c)" and "sys_owner y c = Some u"
    and "c < unat (next_thread_slot (sys_rt y))"
proof -
  have ref: "refers y u c" "\<not> claimed y u" using slot nc by (simp_all add: refers_def claimed_def)
  note d = thread_okD [OF sys_invD(5) [OF inv, of u]]
  show "c < unat (next_thread_slot (sys_rt y))" using d(1) ref by blast
  then show "c < 16" using sys_invD(2) [OF inv] by simp
  show "cx_active (thread_contexts (sys_rt y) ! c)" "sys_owner y c = Some u" using d(2,3) ref by blast+
qed

text \<open>
  The common shape of the remaining steps: one context changes, its owner moves on, the
  table of owners and the activity flags stay.
\<close>

lemma inv_one_slot:
  assumes inv: "sys_inv y" and c: "c < 16"
    and rt: "thread_contexts (sys_rt y') = (thread_contexts (sys_rt y))[c := d]"
      "next_thread_slot (sys_rt y') = next_thread_slot (sys_rt y)"
    and d: "cx_active d = cx_active (thread_contexts (sys_rt y) ! c)"
    and own: "sys_owner y' = sys_owner y" and tls: "sys_tls y' = sys_tls y"
    and other: "\<And>i. i \<noteq> c \<Longrightarrow> made_at y' i = made_at y i \<and> log_at y' i = log_at y i \<and>
       sys_drops y' i = sys_drops y i \<and> pending y' i = pending y i"
    and here: "slot_ok y' c"
    and app: "\<And>v. pc_slot (sys_app y' v) \<in> {None, pc_slot (sys_app y v)} \<and>
       pc_claimed (sys_app y' v) = pc_claimed (sys_app y v)"
    and drain: "drain_ok y'"
    and lists: "\<forall>p \<in> set (sys_made y'). fst p < 16" "\<forall>p \<in> set (sys_log y'). fst p < 16"
      "global_sequence (sys_rt y') = of_nat (length (sys_made y'))"
      "map (ev_sequence_id \<circ> snd) (sys_made y') = map of_nat [0..<length (sys_made y')]"
  shows "sys_inv y'"
proof -
  have len: "length (thread_contexts (sys_rt y)) = 16" using sys_invD(1) [OF inv] .
  have act: "cx_active (thread_contexts (sys_rt y') ! i) = cx_active (thread_contexts (sys_rt y) ! i)" for i
    using d by (auto simp: rt nth_list_update_if)
  have "slot_ok y' i" if "i < 16" for i
  proof (cases "i = c")
    case False
    then have "slot_ok y' i = slot_ok y i" using other [OF False] by (intro slot_ok_cong) (simp_all add: rt)
    with sys_invD(3) [OF inv that] show ?thesis by simp
  qed (use here in simp)
  moreover have "thread_ok y' v" for v
  proof -
    note t = thread_okD [OF sys_invD(5) [OF inv, of v]]
    have r: "refers y v i" if "refers y' v i" for i using that app [of v] by (auto simp: refers_def tls)
    have cl: "claimed y' v = claimed y v" using app [of v] by (simp add: claimed_def)
    show ?thesis using t r by (intro thread_okI) (auto simp: cl act own rt(2) tls)
  qed
  moreover have "\<not> cx_active (thread_contexts (sys_rt y') ! i)" if "i < 16" "unat (next_thread_slot (sys_rt y')) \<le> i" for i
    using sys_invD(4) [OF inv, of i] that by (simp add: act rt(2))
  ultimately show ?thesis using inv drain lists len by (simp add: sys_inv_def rt)
qed

lemma drain_ok_active:
  assumes "sys_inv y" and "sys_consumer y' = sys_consumer y" and "next_thread_slot (sys_rt y') = next_thread_slot (sys_rt y)"
    and "thread_contexts (sys_rt y') = (thread_contexts (sys_rt y))[c := d]"
    and "cx_active d = cx_active (thread_contexts (sys_rt y) ! c)"
  shows "drain_ok y'"
  by (rule drain_ok_cong [OF sys_invD(6) [OF assms(1)]]) (auto simp: assms nth_list_update_if)

lemma inv_reserve:
  assumes inv: "sys_inv y" and slot: "pc_slot (sys_app y u) = Some c" and nc: "\<not> pc_claimed (sys_app y u)"
    and old: "pc_pending (sys_app y u) = []"
    and res: "do_reserve c type addr result clock y = (e, y1)"
    and new: "pc_slot pc = Some c" "pc_pending pc = [e]" "\<not> pc_claimed pc"
  shows "sys_inv (set_app u pc y1)" (is "sys_inv ?y")
proof -
  let ?old = "thread_contexts (sys_rt y) ! c"
  let ?d = "?old\<lparr>cx_next_thread_sequence := cx_next_thread_sequence ?old + 1, cx_generated := cx_generated ?old + 1\<rparr>"
  note a = active_pc [OF inv slot nc]
  have len: "length (thread_contexts (sys_rt y)) = 16" using sys_invD(1) [OF inv] .
  have e: "ev_thread_sequence e = cx_next_thread_sequence ?old" "ev_thread_id e = cx_thread_id ?old"
    "ev_sequence_id e = global_sequence (sys_rt y)"
    and y1: "thread_contexts (sys_rt y1) = (thread_contexts (sys_rt y))[c := ?d]"
    "next_thread_slot (sys_rt y1) = next_thread_slot (sys_rt y)"
    "global_sequence (sys_rt y1) = global_sequence (sys_rt y) + 1"
    "sys_made y1 = sys_made y @ [(c, e)]" "sys_log y1 = sys_log y" "sys_drops y1 = sys_drops y"
    "sys_owner y1 = sys_owner y" "sys_tls y1 = sys_tls y" "sys_app y1 = sys_app y" "sys_consumer y1 = sys_consumer y"
    using res by (auto simp: do_reserve_def reserve_event_def upd_context_def Let_def)
  have made: "made_at y1 i = made_at y i @ (if i = c then [e] else [])" and log: "log_at y1 i = log_at y i" for i
    by (auto simp: made_at_def log_at_def y1)
  have pend: "pending ?y i = (if i = c then [e] else pending y i)" for i
    using pending_move [OF inv slot, of pc ?y i] new by (simp add: y1)
  have p0: "pending y c = []" using pending_own [OF a(3) slot] old by simp
  have s: "slot_ok y c" using sys_invD(3) [OF inv a(1)] .
  have sub: "subseq (log_at y c @ queued y c @ [e]) (made_at y c @ [e])"
    using s a(2) p0 list_emb_append_mono [of "(=)" "log_at y c @ queued y c" "made_at y c" "[e]" "[e]"]
    by (simp add: slot_ok_def Let_def)
  have here: "slot_ok ?y c"
    using s a(1,2) len e sub p0
    by (simp add: slot_ok_active Let_def made log pend queued_def y1)
  show ?thesis
  proof (rule inv_one_slot [where d = ?d, OF inv a(1) _ _ _ _ _ _ here])
    show "drain_ok ?y" by (rule drain_ok_active [where c = c and d = ?d, OF inv]) (simp_all add: y1)
    show "map (ev_sequence_id \<circ> snd) (sys_made ?y) = map of_nat [0..<length (sys_made ?y)]"
      "global_sequence (sys_rt ?y) = of_nat (length (sys_made ?y))"
      using inv e(3) by (simp_all add: y1 sys_inv_def)
    show "pc_slot (sys_app ?y v) \<in> {None, pc_slot (sys_app y v)} \<and> pc_claimed (sys_app ?y v) = pc_claimed (sys_app y v)" for v
      using new slot nc by (simp add: y1)
  qed (use a(1) inv in \<open>auto simp: y1 made log pend sys_inv_def\<close>)
qed

lemma inv_push:
  assumes inv: "sys_inv y" and slot: "pc_slot (sys_app y u) = Some c" and pc: "pc_pending (sys_app y u) = [e]"
    and new: "pc_slot pc \<in> {None, Some c}" "pc_pending pc = []" "\<not> pc_claimed pc"
  shows "sys_inv (set_app u pc (do_push c e y))" (is "sys_inv ?y")
proof -
  let ?old = "thread_contexts (sys_rt y) ! c"
  have nc: "\<not> pc_claimed (sys_app y u)" using pc by (cases "sys_app y u") simp_all
  note a = active_pc [OF inv slot nc]
  have len: "length (thread_contexts (sys_rt y)) = 16" using sys_invD(1) [OF inv] .
  have s: "slot_ok y c" using sys_invD(3) [OF inv a(1)] .
  have ri: "ring_inv (cx_queue ?old)" using s a(2) by (simp add: slot_ok_def Let_def)
  obtain ok q where q: "spsc_ring_buffer_try_push (cx_queue ?old) e = (ok, q)" by (cases "spsc_ring_buffer_try_push (cx_queue ?old) e")
  let ?d = "?old\<lparr>cx_queue := q, cx_dropped := (if ok then cx_dropped ?old else cx_dropped ?old + 1)\<rparr>"
  let ?y1 = "do_push c e y"
  have y1: "thread_contexts (sys_rt ?y1) = (thread_contexts (sys_rt y))[c := ?d]"
    "next_thread_slot (sys_rt ?y1) = next_thread_slot (sys_rt y)" "global_sequence (sys_rt ?y1) = global_sequence (sys_rt y)"
    "sys_made ?y1 = sys_made y" "sys_log ?y1 = sys_log y" "sys_owner ?y1 = sys_owner y" "sys_tls ?y1 = sys_tls y"
    "sys_app ?y1 = sys_app y" "sys_consumer ?y1 = sys_consumer y"
    "sys_drops ?y1 = (if ok then sys_drops y else (sys_drops y)(c := Suc (sys_drops y c)))"
    using q by (simp_all add: do_push_def push_event_def upd_context_def Let_def)
  have made: "made_at ?y = made_at y" "log_at ?y = log_at y" by simp_all
  have pend: "pending ?y i = (if i = c then [] else pending y i)" for i
    using pending_move [OF inv slot new(1), of ?y i] new(2) by (simp add: y1)
  have p0: "pending y c = [e]" using pending_own [OF a(3) slot] pc by simp
  have queue: "length (rb_slots q) = 2048" "ring_inv q"
    "ring_contents q = (if ok then ring_contents (cx_queue ?old) @ [e] else ring_contents (cx_queue ?old))"
    using ring.push_inv [OF ri, of e] ring.push_contents [OF ri, of e] q by (simp_all add: ring_inv_def)
  have sub: "subseq (log_at y c @ queued y c) (made_at y c)"
  proof -
    have "subseq ((log_at y c @ queued y c) @ []) ((log_at y c @ queued y c) @ [e])"
      by (rule list_emb_append_mono) simp_all
    moreover have "subseq ((log_at y c @ queued y c) @ [e]) (made_at y c)"
      using s a(2) p0 by (simp add: slot_ok_def Let_def)
    ultimately show ?thesis using subseq_order.trans by fastforce
  qed
  have here: "slot_ok ?y c"
    using s a(1,2) len queue sub p0
    by (cases ok) (simp_all add: slot_ok_active Let_def made pend queued_def y1)
  show ?thesis
  proof (rule inv_one_slot [where d = ?d, OF inv a(1) _ _ _ _ _ _ here])
    show "drain_ok ?y" by (rule drain_ok_active [where c = c and d = ?d, OF inv]) (simp_all add: y1)
    show "pc_slot (sys_app ?y v) \<in> {None, pc_slot (sys_app y v)} \<and> pc_claimed (sys_app ?y v) = pc_claimed (sys_app y v)" for v
      using new slot nc by (auto simp: y1)
  qed (use inv in \<open>auto simp: y1 made pend sys_inv_def\<close>)
qed

text \<open>Steps of the consumer.\<close>

lemma inv_set_consumer:
  assumes inv: "sys_inv y" and drain: "drain_ok (y\<lparr>sys_consumer := pc\<rparr>)"
  shows "sys_inv (y\<lparr>sys_consumer := pc\<rparr>)"
proof -
  have "slot_ok (y\<lparr>sys_consumer := pc\<rparr>) i = slot_ok y i" for i
    by (rule slot_ok_cong) (simp_all add: made_at_def log_at_def pending_def split: option.splits)
  moreover have "thread_ok (y\<lparr>sys_consumer := pc\<rparr>) v" for v by (rule thread_ok_keep [OF inv]) simp_all
  ultimately show ?thesis using inv drain by (simp add: sys_inv_def)
qed

lemma do_consume_simps:
  "sys_consumer y = C_Round \<Longrightarrow> do_consume y = y\<lparr>sys_consumer := C_Scan (unat (next_thread_slot (sys_rt y))) 0 False\<rparr>"
  "sys_consumer y = C_Scan count i any \<Longrightarrow> do_consume y =
     y\<lparr>sys_consumer := (if i < count then if cx_active (thread_contexts (sys_rt y) ! i) then C_Drain count i 0 any
        else C_Scan count (Suc i) any else C_Check any)\<rparr>"
  "sys_consumer y = C_Check any \<Longrightarrow> do_consume y =
     (y\<lparr>sys_rt := if any then sys_rt y else (sys_rt y)\<lparr>verifier := monitor_verifier_check_deadlocks (verifier (sys_rt y))\<rparr>\<rparr>)
       \<lparr>sys_consumer := C_Test any\<rparr>"
  "sys_consumer y = C_Test any \<Longrightarrow> do_consume y =
     y\<lparr>sys_consumer := if \<not> consumer_running (sys_rt y) \<and> \<not> any then C_Stopped else C_Round\<rparr>"
  "sys_consumer y = C_Stopped \<Longrightarrow> do_consume y = y"
  by (simp_all add: do_consume_def consumer_step_def consumed_now_def)

lemma do_consume_batch:
  assumes "sys_consumer y = C_Drain count i n any" and "\<not> n < MONITOR_DRAIN_BATCH"
  shows "do_consume y = y\<lparr>sys_consumer := C_Scan count (Suc i) any\<rparr>"
  using assms by (simp add: do_consume_def consumer_step_def consumed_now_def)

lemma do_consume_empty:
  assumes "sys_consumer y = C_Drain count i n any" and "n < MONITOR_DRAIN_BATCH" and "queued y i = []"
  shows "do_consume y = y\<lparr>sys_consumer := C_Scan count (Suc i) any\<rparr>"
proof -
  have "spsc_ring_buffer_try_pop (cx_queue (thread_contexts (sys_rt y) ! i)) = (None, cx_queue (thread_contexts (sys_rt y) ! i))"
    using assms(3) by (simp add: queued_def try_pop_empty)
  then show ?thesis
    using assms(1,2) by (simp add: do_consume_def consumer_step_def consumed_now_def drain_one_def upd_context_def)
qed

lemma do_consume_event:
  assumes "sys_consumer y = C_Drain count i n any" and "n < MONITOR_DRAIN_BATCH"
    and "spsc_ring_buffer_try_pop (cx_queue (thread_contexts (sys_rt y) ! i)) = (Some e, q)"
  shows "do_consume y =
    y\<lparr>sys_consumer := C_Drain count i (Suc n) True,
      sys_rt := (sys_rt y)\<lparr>verifier := monitor_verifier_process_event (Some e) (verifier (sys_rt y)),
        thread_contexts := (thread_contexts (sys_rt y))[i := (thread_contexts (sys_rt y) ! i)
          \<lparr>cx_queue := q, cx_consumed := cx_consumed (thread_contexts (sys_rt y) ! i) + 1\<rparr>]\<rparr>,
      sys_log := sys_log y @ [(i, e)]\<rparr>"
  using assms by (simp add: do_consume_def consumer_step_def consumed_now_def drain_one_def upd_context_def)

lemma inv_pop:
  assumes inv: "sys_inv y" and pc: "sys_consumer y = C_Drain count i n any" and n: "n < MONITOR_DRAIN_BATCH"
    and pop: "spsc_ring_buffer_try_pop (cx_queue (thread_contexts (sys_rt y) ! i)) = (Some e, q)"
    and q: "ring_contents (cx_queue (thread_contexts (sys_rt y) ! i)) = e # ring_contents q" "ring_inv q"
  shows "sys_inv (do_consume y)" (is "sys_inv ?y")
proof -
  let ?old = "thread_contexts (sys_rt y) ! i"
  let ?d = "?old\<lparr>cx_queue := q, cx_consumed := cx_consumed ?old + 1\<rparr>"
  have len: "length (thread_contexts (sys_rt y)) = 16" using sys_invD(1) [OF inv] .
  have i: "i < 16" "cx_active ?old" using sys_invD(2,6) [OF inv] pc by (auto simp: drain_ok_def)
  note y = do_consume_event [OF pc n pop]
  have rt: "thread_contexts (sys_rt ?y) = (thread_contexts (sys_rt y))[i := ?d]"
    "next_thread_slot (sys_rt ?y) = next_thread_slot (sys_rt y)" "global_sequence (sys_rt ?y) = global_sequence (sys_rt y)"
    "sys_made ?y = sys_made y" "sys_log ?y = sys_log y @ [(i, e)]" "sys_owner ?y = sys_owner y" "sys_tls ?y = sys_tls y"
    "sys_app ?y = sys_app y" "sys_drops ?y = sys_drops y" "sys_consumer ?y = C_Drain count i (Suc n) True"
    by (simp_all add: y)
  have made: "made_at ?y j = made_at y j" and log: "log_at ?y j = log_at y j @ (if j = i then [e] else [])"
    and pend: "pending ?y j = pending y j" for j
    by (auto simp: rt made_at_def log_at_def pending_def split: option.splits)
  have que: "queued y i = e # queued ?y i" using q i(1) len by (simp add: queued_def rt)
  have s: "slot_ok y i" using sys_invD(3) [OF inv i(1)] .
  have act: "cx_active (thread_contexts (sys_rt ?y) ! i)" using i len by (simp add: rt)
  have here: "slot_ok ?y i"
    using s que q(2) i len unfolding slot_ok_active [OF act] slot_ok_active [OF i(2)]
    by (simp add: made log pend Let_def rt) (simp add: ring_inv_def)
  show ?thesis
  proof (rule inv_one_slot [where d = ?d, OF inv i(1) _ _ _ _ _ _ here])
    show "drain_ok ?y" using sys_invD(6) [OF inv] pc i(1) len by (auto simp: rt drain_ok_def)
  qed (use inv i(1) in \<open>auto simp: rt made log pend sys_inv_def\<close>)
qed

lemma inv_consume:
  assumes inv: "sys_inv y"
  shows "sys_inv (do_consume y)"
proof (cases "sys_consumer y")
  case (C_Drain count i n any)
  have d: "i < count" "count \<le> unat (next_thread_slot (sys_rt y))" "cx_active (thread_contexts (sys_rt y) ! i)"
    using sys_invD(6) [OF inv] C_Drain by (simp_all add: drain_ok_def)
  have adv: "sys_inv (y\<lparr>sys_consumer := C_Scan count (Suc i) any\<rparr>)"
    using d by (intro inv_set_consumer [OF inv]) (simp add: drain_ok_def)
  have ri: "ring_inv (cx_queue (thread_contexts (sys_rt y) ! i))"
    using sys_invD(2) [OF inv] sys_invD(3) [OF inv, of i] d by (simp add: slot_ok_active Let_def)
  show ?thesis
  proof (cases "n < MONITOR_DRAIN_BATCH")
    case True
    show ?thesis
    proof (cases rule: ring.pop_cases [OF ri])
      case 1
      with do_consume_empty [OF C_Drain True] adv show ?thesis by (simp add: queued_def)
    next
      case (2 e q)
      then show ?thesis using inv_pop [OF inv C_Drain True] by blast
    qed
  qed (use do_consume_batch [OF C_Drain] adv in simp)
next
  case (C_Check any)
  have "sys_inv (y\<lparr>sys_rt := if any then sys_rt y else (sys_rt y)\<lparr>verifier := monitor_verifier_check_deadlocks (verifier (sys_rt y))\<rparr>\<rparr>)"
    by (rule inv_other_rt [OF inv]) simp_all
  then show ?thesis
    unfolding do_consume_simps(3) [OF C_Check] by (rule inv_set_consumer) (simp add: drain_ok_def)
qed (use inv sys_invD(6) [OF inv] in
     \<open>auto simp: do_consume_simps drain_ok_def split: if_splits intro!: inv_set_consumer\<close>)

section \<open>Reachable states\<close>

lemma inv_started:
  assumes "ring_storage rt"
  shows "sys_inv (started env rt)"
proof -
  have len: "length (thread_contexts rt) = 16" using assms by (simp add: ring_storage_def)
  have "length (rb_slots (cx_queue (thread_contexts rt ! i))) = 2048" if "i < 16" for i
    using assms len that by (simp add: ring_storage_def)
  then have "slot_ok (started env rt) i" if "i < 16" for i
    using that len by (simp add: slot_ok_def started_def monitor_runtime_start_def made_at_def log_at_def Let_def)
  moreover have "thread_ok (started env rt) u" for u
    by (simp add: thread_ok_def started_def claimed_def fresh_tls_def)
  ultimately show ?thesis
    using len by (simp add: sys_inv_def started_def monitor_runtime_start_def drain_ok_def Let_def)
qed

text \<open>The C library has cleared the key's value before it calls the destructor.\<close>

fun pc_exiting :: "app_pc \<Rightarrow> bool" where
  "pc_exiting (A_Exit c) = True"
| "pc_exiting (A_ExitPush c e) = True"
| "pc_exiting _ = False"

definition exit_inv :: "system \<Rightarrow> bool" where
  "exit_inv y \<longleftrightarrow> (\<forall>u. pc_exiting (sys_app y u) \<longrightarrow> tls_exit_value (sys_tls y u) = None)"

lemma do_fields [simp]:
  "sys_app (do_push c e y) = sys_app y" "sys_tls (do_push c e y) = sys_tls y" "sys_owner (do_push c e y) = sys_owner y"
  "sys_app (do_consume y) = sys_app y" "sys_tls (do_consume y) = sys_tls y" "sys_owner (do_consume y) = sys_owner y"
  by (simp_all add: do_push_def do_consume_def Let_def split: prod.splits)

lemma do_reserve_fields:
  "do_reserve c type addr result clock y = (e, y') \<Longrightarrow> sys_app y' = sys_app y \<and> sys_tls y' = sys_tls y"
  by (auto simp: do_reserve_def split: prod.splits)

lemma exit_step: "sys_step y y' \<Longrightarrow> exit_inv y \<Longrightarrow> exit_inv y'"
  unfolding sys_step_def by (elim exE, erule sys_act.cases) (auto simp: exit_inv_def dest!: do_reserve_fields)

lemma inv_act:
  assumes step: "sys_act l y y'" and inv: "sys_inv y" and ex: "exit_inv y"
  shows "sys_inv y'"
  using step
proof cases
  case (emit_known u c req)
  then show ?thesis using inv by (auto intro!: inv_set_app simp: claimed_def)
next
  case (emit_rejected u)
  have "sys_inv (y\<lparr>sys_rt := count_unregistered (sys_rt y)\<rparr>)"
    by (rule inv_other_rt [OF inv]) (simp_all add: count_unregistered_def)
  then show ?thesis unfolding emit_rejected(2) by (rule inv_set_tls) simp_all
next
  case (emit_claim u c rt req)
  then show ?thesis using inv_claim [OF inv] by blast
next
  case (activate u req c tid rc tls rt)
  then show ?thesis using inv_activate [OF inv] by blast
next
  case (start_reserve u req c clock event y1)
  then show ?thesis using inv_reserve [OF inv, of u c] by simp
next
  case (start_push u req c event)
  then show ?thesis using inv_push [OF inv, of u c] by simp
next
  case (reserve u type addr result c clock event y1)
  then show ?thesis using inv_reserve [OF inv, of u c] by simp
next
  case (push u c event)
  then show ?thesis using inv_push [OF inv, of u c] by simp
next
  case (exit_silent u c)
  show ?thesis unfolding exit_silent(2) by (rule inv_set_tls [OF inv]) simp_all
next
  case (exit_begin u c)
  have "tls_context (sys_tls y u) = Some c" using exit_begin thread_okD(4) [OF sys_invD(5) [OF inv, of u]] by blast
  moreover have "sys_inv (set_tls u ((sys_tls y u)\<lparr>tls_exit_value := None\<rparr>) y)"
    by (rule inv_set_tls [OF inv]) simp_all
  ultimately show ?thesis unfolding exit_begin(2) using exit_begin(3)
    by (intro inv_set_app) (simp_all add: claimed_def)
next
  case (exit_reserve u c clock event y1)
  then show ?thesis using inv_reserve [OF inv, of u c] by simp
next
  case (exit_push u c event)
  have "sys_inv (set_app u A_Idle (do_push c event y))" using inv_push [OF inv, of u c] exit_push by simp
  moreover have "tls_exit_value (sys_tls y u) = None" using ex exit_push by (simp add: exit_inv_def)
  ultimately show ?thesis unfolding exit_push(2) by (intro inv_set_tls) simp_all
next
  case consume
  then show ?thesis using inv_consume [OF inv] by simp
next
  case stop_accepting
  show ?thesis unfolding stop_accepting(2) by (rule inv_other_rt [OF inv]) simp_all
next
  case stop_running
  show ?thesis unfolding stop_running(2) by (rule inv_other_rt [OF inv]) simp_all
qed

lemma inv_step: "sys_step y y' \<Longrightarrow> sys_inv y \<Longrightarrow> exit_inv y \<Longrightarrow> sys_inv y'"
  unfolding sys_step_def using inv_act by blast

lemma reachable_inv: "sys_reachable env y \<Longrightarrow> sys_inv y \<and> exit_inv y"
proof (induction rule: sys_reachable.induct)
  case (sys_start rt)
  then show ?case using inv_started by (simp add: exit_inv_def started_def)
next
  case (sys_next y y')
  then show ?case using inv_step exit_step by blast
qed

end
