(* ===== verification/Runtime_Log.thy ===== *)
theory Runtime_Log
  imports Runtime_Inv Verifier_Checks
begin

text \<open>
  What the histories of the runtime say about its counters and about the verifier behind the
  consumer: the verifier's state follows the specification on the events consumed so far,
  the counters add up, and a complete trace hands every event over.
\<close>

section \<open>The verifier behind the consumer\<close>

lemma same_tables_view: "same_tables s s' \<Longrightarrow> abs_view s' = abs_view s"
  by (simp add: same_tables_def abs_view_def thread_view_def mutex_view_def fun_eq_iff)

lemma check_keeps:
  "abs_view (monitor_verifier_check_deadlocks s) = abs_view s"
  "state_overflow_events (monitor_verifier_check_deadlocks s) = state_overflow_events s"
  "max_hold_ns (monitor_verifier_check_deadlocks s) = max_hold_ns s"
  "k \<noteq> DEADLOCK_CYCLE \<Longrightarrow> counter k (monitor_verifier_check_deadlocks s) = counter k s"
  using same_tables_view [OF same_tables_check]
  by (auto simp: monitor_verifier_check_deadlocks_def report_deadlock_cycle_def counter_def Let_def
      split: prod.splits violation_kind.splits)

lemma counter_process:
  assumes "verifier_wf s" and "state_overflow_events (monitor_verifier_process_event (Some e) s) = state_overflow_events s"
  shows "counter k (monitor_verifier_process_event (Some e) s) = counter k s +
    of_nat (count_list (spec_verdicts (max_hold_ns s) [e] (abs_view s)) k)"
proof -
  obtain t where "told (monitor_verifier_process_event (Some e) s) =
      tell_verdict (max_hold_ns s) e t (spec_verdict (max_hold_ns s) e (abs_view s)) (told s)"
    using told_process [OF assms] by metis
  then show ?thesis
    by (auto simp: told_def tell_verdict_def tell_def fun_eq_iff split: option.splits if_splits)
qed

text \<open>
  What the verifier's state says about the events it was given, whatever deadlock checks
  came in between.
\<close>

definition follows_spec :: "u64 \<Rightarrow> monitor_event list \<Rightarrow> verifier_state \<Rightarrow> bool" where
  "follows_spec max_hold es s \<longleftrightarrow>
     verifier_wf s \<and> max_hold_ns s = max_hold \<and>
     (length es < 2 ^ 64 \<longrightarrow>
        unat (state_overflow_events s) \<le> length es \<and>
        (state_overflow_events s = 0 \<longrightarrow>
           abs_view s = spec_run es initial_view \<and>
           (\<forall>k. k \<noteq> DEADLOCK_CYCLE \<longrightarrow>
              counter k s = of_nat (count_list (spec_verdicts max_hold es initial_view) k))))"

lemma follows_init: "follows_spec (load_configuration env) [] (monitor_verifier_init env s)"
  by (simp add: follows_spec_def wf_init init_fields abs_init)

lemma follows_check: "follows_spec mh es s \<Longrightarrow> follows_spec mh es (monitor_verifier_check_deadlocks s)"
  by (auto simp: follows_spec_def check_keeps wf_check_deadlocks)

lemma follows_process:
  assumes f: "follows_spec mh es s"
  shows "follows_spec mh (es @ [e]) (monitor_verifier_process_event (Some e) s)" (is "follows_spec _ _ ?s")
proof -
  have wf: "verifier_wf s" and mh: "max_hold_ns s = mh" using f by (simp_all add: follows_spec_def)
  have "unat (state_overflow_events ?s) \<le> Suc (length es) \<and>
     (state_overflow_events ?s = 0 \<longrightarrow>
        abs_view ?s = spec_run (es @ [e]) initial_view \<and>
        (\<forall>k. k \<noteq> DEADLOCK_CYCLE \<longrightarrow>
              counter k ?s = of_nat (count_list (spec_verdicts mh (es @ [e]) initial_view) k)))"
    if n: "length (es @ [e]) < 2 ^ 64"
  proof
    have le: "unat (state_overflow_events s) \<le> length es" using f n by (simp add: follows_spec_def)
    have step: "state_overflow_events ?s = state_overflow_events s \<or>
        state_overflow_events ?s = state_overflow_events s + 1" using overflow_process [OF wf, of e] by auto
    have suc: "unat (state_overflow_events s + 1) = Suc (unat (state_overflow_events s))"
      using le n by (simp add: unat_word_ariths)
    show "unat (state_overflow_events ?s) \<le> Suc (length es)" using step suc le by auto
    show "state_overflow_events ?s = 0 \<longrightarrow> abs_view ?s = spec_run (es @ [e]) initial_view \<and>
        (\<forall>k. k \<noteq> DEADLOCK_CYCLE \<longrightarrow> counter k ?s = of_nat (count_list (spec_verdicts mh (es @ [e]) initial_view) k))"
    proof
      assume z: "state_overflow_events ?s = 0"
      then have z0: "state_overflow_events s = 0" using step suc by (metis nat.distinct(1) unat_0)
      then have ok: "state_overflow_events ?s = state_overflow_events s" using z by simp
      have "abs_view s = spec_run es initial_view"
        "\<And>k. k \<noteq> DEADLOCK_CYCLE \<Longrightarrow> counter k s = of_nat (count_list (spec_verdicts mh es initial_view) k)"
        using f n z0 by (simp_all add: follows_spec_def)
      then show "abs_view ?s = spec_run (es @ [e]) initial_view \<and>
        (\<forall>k. k \<noteq> DEADLOCK_CYCLE \<longrightarrow> counter k ?s = of_nat (count_list (spec_verdicts mh (es @ [e]) initial_view) k))"
        using process_refines [OF wf ok] counter_process [OF wf ok] mh
        by (simp add: spec_run_append spec_verdicts_append)
    qed
  qed
  then show ?thesis using wf mh wf_process_event max_hold_process [OF wf] by (simp add: follows_spec_def)
qed

text \<open>No step but the consumer's touches the verifier or the log.\<close>

lemma step_verifier:
  assumes "sys_step y y'" and "y' \<noteq> do_consume y"
  shows "verifier (sys_rt y') = verifier (sys_rt y) \<and> sys_log y' = sys_log y"
  using assms(1) unfolding sys_step_def
  by (elim exE, elim sys_act.cases)
     (use assms(2) in \<open>auto simp: count_unregistered_def claim_thread_slot_def activate_context_def do_reserve_def reserve_event_def
       do_push_def push_event_def upd_context_def Let_def split: if_splits prod.splits\<close>)

lemma consume_follows:
  assumes "follows_spec mh (map snd (sys_log y)) (verifier (sys_rt y))"
  shows "follows_spec mh (map snd (sys_log (do_consume y))) (verifier (sys_rt (do_consume y)))"
proof (cases "sys_consumer y")
  case (C_Drain count i n any)
  obtain r q where "spsc_ring_buffer_try_pop (cx_queue (thread_contexts (sys_rt y) ! i)) = (r, q)"
    by (cases "spsc_ring_buffer_try_pop (cx_queue (thread_contexts (sys_rt y) ! i))")
  then show ?thesis
    using assms follows_process [OF assms] C_Drain
    by (simp add: do_consume_def consumer_step_def consumed_now_def drain_one_def upd_context_def split: option.splits)
qed (use assms follows_check [OF assms] in \<open>simp_all add: do_consume_simps\<close>)

lemma reachable_follows:
  "sys_reachable env y \<Longrightarrow> follows_spec (load_configuration env) (map snd (sys_log y)) (verifier (sys_rt y))"
proof (induction rule: sys_reachable.induct)
  case (sys_start rt)
  then show ?case by (simp add: started_def monitor_runtime_start_def Let_def follows_init)
next
  case (sys_next y y')
  then show ?case using step_verifier [OF sys_next(2)] consume_follows by (cases "y' = do_consume y") simp_all
qed

section \<open>Totals\<close>

lemma foldl_total: "foldl (\<lambda>total (i, c). total + f c) a xs = (a :: u64) + sum_list (map (f \<circ> snd) xs)"
  by (induction xs arbitrary: a) (auto simp: add.assoc)

lemma total_of_eq:
  assumes inv: "sys_inv y"
    and act: "\<And>i. i < 16 \<Longrightarrow> cx_active (thread_contexts (sys_rt y) ! i) \<Longrightarrow> f (thread_contexts (sys_rt y) ! i) = of_nat (g i)"
    and inact: "\<And>i. i < 16 \<Longrightarrow> \<not> cx_active (thread_contexts (sys_rt y) ! i) \<Longrightarrow> g i = 0"
  shows "total_of f (sys_rt y) = of_nat (\<Sum>i<16. g i)"
proof -
  let ?n = "unat (next_thread_slot (sys_rt y))" and ?c = "\<lambda>i. thread_contexts (sys_rt y) ! i"
  have n: "?n \<le> 16" using sys_invD(2) [OF inv] .
  have "sum_list (map (f \<circ> snd) (filter (\<lambda>(i, c). cx_active c) (map (\<lambda>i. (i, ?c i)) [0..<m]))) = of_nat (\<Sum>i<m. g i)"
    if "m \<le> 16" for m
    using that by (induction m) (auto simp: act inact)
  from this [OF n] have "total_of f (sys_rt y) = of_nat (\<Sum>i<?n. g i)"
    by (simp add: total_of_def registered_contexts_def foldl_total)
  moreover have "(\<Sum>i<?n. g i) = (\<Sum>i<16. g i)"
    using n inact sys_invD(4) [OF inv] by (intro sum.mono_neutral_left) auto
  ultimately show ?thesis by simp
qed

lemma length_by_slot:
  "\<forall>p \<in> set xs. fst p < (n :: nat) \<Longrightarrow> length xs = (\<Sum>i<n. length (map snd (filter (\<lambda>p. fst p = i) xs)))"
proof (induction xs)
  case (Cons p xs)
  have "(\<Sum>i<n. length (map snd (filter (\<lambda>q. fst q = i) (p # xs)))) =
      (\<Sum>i<n. (if fst p = i then 1 else 0) + length (map snd (filter (\<lambda>q. fst q = i) xs)))"
    by (rule sum.cong) auto
  then show ?case using Cons by (simp add: sum.distrib)
qed simp

lemma history_lengths:
  assumes "sys_inv y"
  shows "length (sys_made y) = (\<Sum>i<16. length (made_at y i))" and "length (sys_log y) = (\<Sum>i<16. length (log_at y i))"
  using length_by_slot [of "sys_made y" 16] length_by_slot [of "sys_log y" 16] assms
  by (simp_all add: made_at_def log_at_def sys_inv_def)

text \<open>The events of a context that are neither consumed nor dropped.\<close>

definition in_flight :: "system \<Rightarrow> nat \<Rightarrow> nat" where
  "in_flight y i = (if cx_active (thread_contexts (sys_rt y) ! i) then length (queued y i) + length (pending y i) else 0)"

lemma slot_counts:
  assumes inv: "sys_inv y" and i: "i < 16"
  shows "length (made_at y i) = length (log_at y i) + in_flight y i + sys_drops y i"
  using sys_invD(3) [OF inv i] by (auto simp: slot_ok_def in_flight_def Let_def)

lemma totals:
  assumes inv: "sys_inv y"
  shows "total_of cx_generated (sys_rt y) = of_nat (length (sys_made y))"
    and "total_of cx_consumed (sys_rt y) = of_nat (length (sys_log y))"
    and "total_of cx_dropped (sys_rt y) = of_nat (\<Sum>i<16. sys_drops y i)"
proof -
  have s: "slot_ok y i" if "i < 16" for i using sys_invD(3) [OF inv that] .
  have "total_of cx_generated (sys_rt y) = of_nat (\<Sum>i<16. length (made_at y i))"
    using s by (intro total_of_eq [OF inv]) (auto simp: slot_ok_def Let_def)
  then show "total_of cx_generated (sys_rt y) = of_nat (length (sys_made y))"
    by (simp add: history_lengths [OF inv])
  have "total_of cx_consumed (sys_rt y) = of_nat (\<Sum>i<16. length (log_at y i))"
    using s by (intro total_of_eq [OF inv]) (auto simp: slot_ok_def Let_def)
  then show "total_of cx_consumed (sys_rt y) = of_nat (length (sys_log y))"
    by (simp add: history_lengths [OF inv])
  show "total_of cx_dropped (sys_rt y) = of_nat (\<Sum>i<16. sys_drops y i)"
    using s by (intro total_of_eq [OF inv]) (auto simp: slot_ok_def Let_def)
qed

lemma made_split:
  assumes inv: "sys_inv y"
  shows "length (sys_made y) = length (sys_log y) + (\<Sum>i<16. in_flight y i) + (\<Sum>i<16. sys_drops y i)"
  using slot_counts [OF inv] by (simp add: history_lengths [OF inv] sum.distrib)

lemma consistent_iff:
  assumes inv: "sys_inv y" and n: "length (sys_made y) < 2 ^ 64"
  shows "transport_consistent (sys_rt y) \<longleftrightarrow> (\<forall>i<16. in_flight y i = 0)"
proof -
  have "transport_consistent (sys_rt y) \<longleftrightarrow>
      (of_nat (length (sys_log y) + (\<Sum>i<16. sys_drops y i)) :: u64) = of_nat (length (sys_made y))"
    by (auto simp: transport_consistent_def totals [OF inv])
  also have "\<dots> \<longleftrightarrow> length (sys_log y) + (\<Sum>i<16. sys_drops y i) = length (sys_made y)"
    using n made_split [OF inv] by (intro of_nat_u64_eq_iff) simp_all
  also have "\<dots> \<longleftrightarrow> (\<forall>i<16. in_flight y i = 0)" by (auto simp: made_split [OF inv])
  finally show ?thesis .
qed

lemma no_drops_iff:
  assumes inv: "sys_inv y" and n: "length (sys_made y) < 2 ^ 64"
  shows "total_of cx_dropped (sys_rt y) = 0 \<longleftrightarrow> (\<forall>i<16. sys_drops y i = 0)"
proof -
  have "total_of cx_dropped (sys_rt y) = 0 \<longleftrightarrow> (of_nat 0 :: u64) = of_nat (\<Sum>i<16. sys_drops y i)"
    by (auto simp: totals [OF inv])
  also have "\<dots> \<longleftrightarrow> 0 = (\<Sum>i<16. sys_drops y i)"
    using n made_split [OF inv] by (intro of_nat_u64_eq_iff) simp_all
  finally show ?thesis by auto
qed

text \<open>What a slot's history says when nothing was dropped.\<close>

lemma slot_stream:
  assumes inv: "sys_inv y" and i: "i < 16" and act: "cx_active (thread_contexts (sys_rt y) ! i)"
  shows "subseq (log_at y i @ queued y i @ pending y i) (made_at y i)"
    and "sys_drops y i = 0 \<Longrightarrow> log_at y i @ queued y i @ pending y i = made_at y i"
    and "map ev_thread_sequence (made_at y i) = map of_nat [0..<length (made_at y i)]"
    and "\<forall>e \<in> set (made_at y i). ev_thread_id e = cx_thread_id (thread_contexts (sys_rt y) ! i)"
proof -
  have s: "slot_ok y i" using sys_invD(3) [OF inv i] .
  note s = s [unfolded slot_ok_active [OF act] Let_def]
  show "subseq (log_at y i @ queued y i @ pending y i) (made_at y i)" using s by simp
  then show "log_at y i @ queued y i @ pending y i = made_at y i" if "sys_drops y i = 0"
    using s that by (intro subseq_same_length) simp_all
  show "map ev_thread_sequence (made_at y i) = map of_nat [0..<length (made_at y i)]"
    "\<forall>e \<in> set (made_at y i). ev_thread_id e = cx_thread_id (thread_contexts (sys_rt y) ! i)"
    using s by simp_all
qed

lemma inactive_stream:
  assumes "sys_inv y" and "i < 16" and "\<not> cx_active (thread_contexts (sys_rt y) ! i)"
  shows "made_at y i = []" and "log_at y i = []"
  using sys_invD(3) [OF assms(1,2)] assms(3) by (simp_all add: slot_ok_def Let_def)

lemma complete_streams:
  assumes inv: "sys_inv y" and n: "length (sys_made y) < 2 ^ 64" and c: "trace_complete (sys_rt y)"
  shows "log_at y i = made_at y i"
proof (cases "i < 16")
  case True
  have "in_flight y i = 0" "sys_drops y i = 0"
    using c True consistent_iff [OF inv n] no_drops_iff [OF inv n] by (simp_all add: trace_complete_def)
  then show ?thesis
    using slot_stream(2) [OF inv True] inactive_stream [OF inv True]
    by (cases "cx_active (thread_contexts (sys_rt y) ! i)") (simp_all add: in_flight_def)
next
  case False
  then have "fst p \<noteq> i" if "p \<in> set (sys_made y) \<union> set (sys_log y)" for p
    using inv that by (auto simp: sys_inv_def)
  then have "filter (\<lambda>p. fst p = i) (sys_made y) = []" "filter (\<lambda>p. fst p = i) (sys_log y) = []"
    by (auto simp: filter_empty_conv)
  then show ?thesis by (simp add: made_at_def log_at_def)
qed

section \<open>From the log to the events made\<close>

lemma history_set: "(i, e) \<in> set (sys_made y) \<longleftrightarrow> e \<in> set (made_at y i)" "(i, e) \<in> set (sys_log y) \<longleftrightarrow> e \<in> set (log_at y i)"
  by (force simp: made_at_def log_at_def)+

lemma made_active:
  assumes "sys_inv y" and "(i, e) \<in> set (sys_made y)"
  shows "i < 16" and "cx_active (thread_contexts (sys_rt y) ! i)"
proof -
  show i: "i < 16" using assms by (auto simp: sys_inv_def)
  show "cx_active (thread_contexts (sys_rt y) ! i)"
    using inactive_stream(1) [OF assms(1) i] assms(2) unfolding history_set by (metis empty_iff empty_set)
qed

lemma u32_upt_distinct: "n < 2 ^ 32 \<Longrightarrow> distinct (map (of_nat :: nat \<Rightarrow> u32) [0..<n])"
  by (auto simp: distinct_map inj_on_def word_of_nat_eq_iff take_bit_nat_eq_self)

lemma u64_upt_distinct: "n < 2 ^ 64 \<Longrightarrow> distinct (map (of_nat :: nat \<Rightarrow> u64) [0..<n])"
  by (auto simp: distinct_map inj_on_def word_of_nat_eq_iff take_bit_nat_eq_self)

lemma first_event:
  assumes inv: "sys_inv y" and e: "(i, e) \<in> set (sys_made y)"
  obtains e0 where "(i, e0) \<in> set (sys_made y)" and "ev_thread_sequence e0 = 0" and "ev_thread_id e0 = ev_thread_id e"
proof -
  note s = slot_stream [OF inv made_active [OF inv e]]
  have ne: "made_at y i \<noteq> []" using e by (auto simp: history_set)
  then have h: "hd (made_at y i) \<in> set (made_at y i)" by simp
  have "map ev_thread_sequence (made_at y i) ! 0 = map of_nat [0..<length (made_at y i)] ! 0" using s(3) by simp
  with ne have "ev_thread_sequence (hd (made_at y i)) = 0" by (simp add: hd_conv_nth)
  with h s(4) e show thesis by (intro that [of "hd (made_at y i)"]) (simp_all add: history_set)
qed

text \<open>
  If every thread's consumed events are numbered without gaps and everything made was
  consumed, then no thread id occurs in two contexts.
\<close>

lemma thread_in_one_slot:
  assumes inv: "sys_inv y" and n: "length (sys_made y) < 2 ^ 32" and all: "\<And>i. log_at y i = made_at y i"
    and len: "length (sys_log y) = length (sys_made y)"
    and seqs: "\<And>tid. map ev_thread_sequence (of_thread tid (map snd (sys_log y))) =
       map of_nat [0..<length (of_thread tid (map snd (sys_log y)))]"
    and p: "(i, e) \<in> set (sys_made y)" "(j, f) \<in> set (sys_made y)" "ev_thread_id e = ev_thread_id f"
  shows "i = j"
proof -
  let ?L = "filter (\<lambda>p. ev_thread_id (snd p) = ev_thread_id e) (sys_log y)"
  have L: "of_thread (ev_thread_id e) (map snd (sys_log y)) = map snd ?L" by (simp add: filter_map comp_def)
  have "length ?L < 2 ^ 32" using length_filter_le [of "\<lambda>p. ev_thread_id (snd p) = ev_thread_id e" "sys_log y"] n len by simp
  then have "distinct (map (\<lambda>p. ev_thread_sequence (snd p)) ?L)"
    using seqs [of "ev_thread_id e"] u32_upt_distinct by (simp add: L comp_def)
  then have inj: "inj_on (\<lambda>p. ev_thread_sequence (snd p)) (set ?L)" by (simp add: distinct_map)
  obtain e0 where e0: "(i, e0) \<in> set (sys_made y)" "ev_thread_sequence e0 = 0" "ev_thread_id e0 = ev_thread_id e"
    using first_event [OF inv p(1)] .
  obtain f0 where f0: "(j, f0) \<in> set (sys_made y)" "ev_thread_sequence f0 = 0" "ev_thread_id f0 = ev_thread_id f"
    using first_event [OF inv p(2)] .
  have "(i, e0) \<in> set ?L" "(j, f0) \<in> set ?L" using e0 f0 p(3) by (simp_all add: history_set all)
  from inj_onD [OF inj _ this] show ?thesis using e0 f0 by simp
qed

text \<open>Then a thread's events are those of one slot.\<close>

lemma thread_stream_slot:
  assumes inv: "sys_inv y" and e: "(i, e) \<in> set (sys_made y)" and sets: "set xs = set (sys_made y)"
    and one: "\<And>i j e f. (i, e) \<in> set (sys_made y) \<Longrightarrow> (j, f) \<in> set (sys_made y) \<Longrightarrow> ev_thread_id e = ev_thread_id f \<Longrightarrow> i = j"
  shows "of_thread (ev_thread_id e) (map snd xs) = map snd (filter (\<lambda>p. fst p = i) xs)"
proof -
  have tids: "ev_thread_id e = ev_thread_id f" if "(i, f) \<in> set (sys_made y)" for f
    using slot_stream(4) [OF inv made_active [OF inv e]] that e by (simp add: history_set)
  have "ev_thread_id (snd p) = ev_thread_id e \<longleftrightarrow> fst p = i" if p: "p \<in> set xs" for p
  proof -
    have "(fst p, snd p) \<in> set (sys_made y)" using p sets by simp
    from one [OF e this] tids [of "snd p"] this show ?thesis by metis
  qed
  then show ?thesis by (simp add: filter_map comp_def cong: filter_cong)
qed

lemma log_same_streams:
  assumes inv: "sys_inv y" and all: "\<And>i. log_at y i = made_at y i"
    and one: "\<And>i j e f. (i, e) \<in> set (sys_made y) \<Longrightarrow> (j, f) \<in> set (sys_made y) \<Longrightarrow> ev_thread_id e = ev_thread_id f \<Longrightarrow> i = j"
  shows "same_streams (map snd (sys_log y)) (map snd (sys_made y))"
  unfolding same_streams_def
proof
  fix tid
  have sets: "set (sys_log y) = set (sys_made y)" by (auto simp: history_set all)
  show "of_thread tid (map snd (sys_log y)) = of_thread tid (map snd (sys_made y))"
  proof (cases "\<exists>i e. (i, e) \<in> set (sys_made y) \<and> ev_thread_id e = tid")
    case True
    then obtain i e where e: "(i, e) \<in> set (sys_made y)" "ev_thread_id e = tid" by blast
    show ?thesis
      using thread_stream_slot [OF inv e(1) sets one] thread_stream_slot [OF inv e(1) refl one] all [of i] e(2)
      by (simp add: made_at_def log_at_def)
  next
    case False
    then have "filter (\<lambda>p. ev_thread_id (snd p) = tid) xs = []" if "set xs = set (sys_made y)" for xs
      unfolding filter_empty_conv using that by (metis prod.collapse)
    from this [OF sets] this [OF refl] show ?thesis by (simp add: filter_map comp_def)
  qed
qed

lemma authoritative_order:
  assumes r: "sys_reachable env y" and n: "length (sys_made y) < 2 ^ 32"
    and t: "trace_complete (sys_rt y)" and v: "verifier_complete (verifier (sys_rt y))"
  shows "same_streams (map snd (sys_log y)) (map snd (sys_made y))" and "gap_free (map snd (sys_log y)) initial_view"
    and "length (sys_log y) = length (sys_made y)"
    and "map ev_thread_sequence (of_thread tid (map snd (sys_made y))) = map of_nat [0..<length (of_thread tid (map snd (sys_made y)))]"
    and "distinct (map ev_sequence_id (map snd (sys_made y)))"
proof -
  let ?s = "verifier (sys_rt y)" and ?L = "map snd (sys_log y)" and ?M = "map snd (sys_made y)"
  have inv: "sys_inv y" using reachable_inv [OF r] by simp
  have n64: "length (sys_made y) < 2 ^ 64" using n by simp
  have all: "log_at y i = made_at y i" for i using complete_streams [OF inv n64 t] .
  show len: "length (sys_log y) = length (sys_made y)"
    by (simp add: history_lengths [OF inv] all)
  have f: "verifier_wf ?s" "abs_view ?s = spec_run ?L initial_view"
    using reachable_follows [OF r] v n64 len by (simp_all add: follows_spec_def verifier_complete_def)
  have unt: "\<forall>tid. \<not> sp_tainted (view_thread initial_view tid)" by (simp add: initial_view_def fresh_thread_def)
  show gf: "gap_free ?L initial_view"
    using complete_iff_untainted [OF f(1)] v f(2) by (intro untainted_gap_free) (simp add: verifier_complete_def)
  have seqs: "map ev_thread_sequence (of_thread tid ?L) = map of_nat [0..<length (of_thread tid ?L)]" for tid
    using gf gap_free_iff [OF unt] by (simp add: initial_view_def fresh_thread_def)
  show ss: "same_streams ?L ?M"
    using thread_in_one_slot [OF inv n all len seqs] by (intro log_same_streams [OF inv all])
  show "map ev_thread_sequence (of_thread tid ?M) = map of_nat [0..<length (of_thread tid ?M)]"
    using seqs [of tid] ss unfolding same_streams_def by (elim allE [of _ tid]) (simp only:)
  show "distinct (map ev_sequence_id ?M)"
    using inv u64_upt_distinct [OF n64] by (simp add: sys_inv_def comp_def)
qed

lemma authoritative_run:
  assumes r: "sys_reachable env y" and n: "length (sys_made y) < 2 ^ 32"
    and t: "trace_complete (sys_rt y)" and v: "verifier_complete (verifier (sys_rt y))"
  shows "abs_view (verifier (sys_rt y)) = spec_run (map snd (sys_made y)) initial_view"
    and "k \<noteq> DEADLOCK_CYCLE \<Longrightarrow> counter k (verifier (sys_rt y)) =
      of_nat (count_list (spec_verdicts (load_configuration env) (map snd (sys_made y)) initial_view) k)"
proof -
  let ?s = "verifier (sys_rt y)" and ?L = "map snd (sys_log y)" and ?M = "map snd (sys_made y)"
  note o = authoritative_order [OF assms]
  have f: "abs_view ?s = spec_run ?L initial_view"
    "\<And>k. k \<noteq> DEADLOCK_CYCLE \<Longrightarrow> counter k ?s = of_nat (count_list (spec_verdicts (load_configuration env) ?L initial_view) k)"
    using reachable_follows [OF r] v n o(3) by (simp_all add: follows_spec_def verifier_complete_def)
  have "same_streams ?M ?L" using o(1) by (simp add: same_streams_def)
  from streams_interleave [OF o(1) same_streams_seqs(1) [OF this o(5)] o(5) o(2), of "load_configuration env"]
  have run: "spec_run ?M initial_view = spec_run ?L initial_view"
    and verd: "mset (spec_verdicts (load_configuration env) ?M initial_view) = mset (spec_verdicts (load_configuration env) ?L initial_view)"
    by blast+
  show "abs_view ?s = spec_run ?M initial_view" using f(1) run by simp
  show "counter k ?s = of_nat (count_list (spec_verdicts (load_configuration env) ?M initial_view) k)" if "k \<noteq> DEADLOCK_CYCLE"
    using f(2) [OF that] verd by (metis count_mset)
qed

end
