(* ===== verification/Runtime_Runs.thy ===== *)
theory Runtime_Runs
  imports Runtime_Log
begin

text \<open>
  Runs of the runtime: undisturbed calls of the interface functions, the consumer on its own
  until it stops, what can happen around the stop request, and one concrete run.
\<close>

section \<open>A call that runs undisturbed\<close>

text \<open>
  A call of an interface function that no other thread interrupts is a run of the step
  relation, with the effect of the whole function.
\<close>

definition works :: "nat \<Rightarrow> u64 \<Rightarrow> system \<Rightarrow> system \<Rightarrow> bool" where
  "works u tid y y' \<longleftrightarrow> sys_act (Works u) y y' \<or> sys_act (Registers u tid) y y'"

definition path :: "sys_label \<Rightarrow> nat \<Rightarrow> u64 \<Rightarrow> system \<Rightarrow> system \<Rightarrow> bool" where
  "path l u tid y y' \<longleftrightarrow> (\<exists>y1. sys_act l y y1 \<and> (works u tid)\<^sup>*\<^sup>* y1 y')"

lemma works_steps: "(works u tid)\<^sup>*\<^sup>* y y' \<Longrightarrow> sys_step\<^sup>*\<^sup>* y y'"
  by (erule rtranclp_mono [THEN predicate2D, rotated]) (auto simp: works_def intro: sys_stepI)

lemma path_steps: "path l u tid y y' \<Longrightarrow> sys_step\<^sup>*\<^sup>* y y'"
  unfolding path_def using works_steps sys_stepI by (metis converse_rtranclp_into_rtranclp)

text \<open>What the whole function makes of the shared state and of the caller's variables.\<close>

definition effect :: "nat \<Rightarrow> thread_local \<times> runtime_state \<Rightarrow> system \<Rightarrow> system \<Rightarrow> bool" where
  "effect u p y y' \<longleftrightarrow> sys_tls y' = (sys_tls y)(u := fst p) \<and> sys_rt y' = snd p \<and>
     sys_app y' = sys_app y \<and> sys_consumer y' = sys_consumer y \<and> sys_log y' = sys_log y \<and>
     length (sys_made y') \<le> length (sys_made y) + 2"

definition call_run :: "sys_label \<Rightarrow> nat \<Rightarrow> u64 \<Rightarrow> thread_local \<times> runtime_state \<Rightarrow> system \<Rightarrow> system \<Rightarrow> bool" where
  "call_run l u tid p y y' \<longleftrightarrow> path l u tid y y' \<and> effect u p y y'"

text \<open>The call is a path of the thread's own steps that begins with a label of \<open>L\<close>, or has no effect.\<close>

definition quiet_call :: "sys_label set \<Rightarrow> nat \<Rightarrow> u64 \<Rightarrow> thread_local \<times> runtime_state \<Rightarrow> system \<Rightarrow> system \<Rightarrow> bool" where
  "quiet_call L u tid p y y' \<longleftrightarrow> (y' = y \<or> (\<exists>l \<in> L. path l u tid y y')) \<and> effect u p y y'"

lemma effectD:
  assumes "effect u p y y'"
  shows "sys_rt y' = snd p" and "sys_consumer y' = sys_consumer y" and "sys_log y' = sys_log y"
    and "length (sys_made y') \<le> length (sys_made y) + 2" and "sys_tls y' = (sys_tls y)(u := fst p)" and "sys_app y' = sys_app y"
  using assms unfolding effect_def by blast+

lemma quiet_callD:
  assumes "quiet_call L u tid p y y'"
  shows "sys_step\<^sup>*\<^sup>* y y'" and "sys_rt y' = snd p" and "sys_consumer y' = sys_consumer y" and "sys_log y' = sys_log y"
    and "length (sys_made y') \<le> length (sys_made y) + 2" and "sys_tls y' = (sys_tls y)(u := fst p)" and "sys_app y' = sys_app y"
proof -
  show "sys_step\<^sup>*\<^sup>* y y'" using assms path_steps unfolding quiet_call_def by blast
qed (use effectD [of u p y y'] assms in \<open>simp_all add: quiet_call_def\<close>)

lemma quiet_call_effect: "quiet_call L u tid p y y' \<Longrightarrow> sys_step\<^sup>*\<^sup>* y y' \<and> effect u p y y'"
  using quiet_callD(1) unfolding quiet_call_def by blast

lemma call_run_quiet: "call_run l u tid p y y' \<Longrightarrow> l \<in> L \<Longrightarrow> quiet_call L u tid p y y'"
  by (auto simp: call_run_def quiet_call_def)

lemma call_runI:
  assumes "path l u tid y y'" and "sys_tls y' = (sys_tls y)(u := fst p)" and "sys_rt y' = snd p"
    and "sys_app y' = sys_app y" and "sys_consumer y' = sys_consumer y" and "sys_log y' = sys_log y"
    and "length (sys_made y') \<le> length (sys_made y) + 2"
  shows "\<exists>y'. call_run l u tid p y y'"
  using assms unfolding call_run_def effect_def by blast

text \<open>One event: its reservation and its insertion.\<close>

lemma reserve_push_runs:
  assumes res: "\<And>e y1. do_reserve c type addr result clock y = (e, y1) \<Longrightarrow> sys_act (Works u) y (set_app u (pc e) y1)"
    and push: "\<And>e y2. sys_app y2 u = pc e \<Longrightarrow> sys_act (Works u) y2 (f (set_app u pc' (do_push c e y2)))"
  obtains y2 where "(works u tid)\<^sup>*\<^sup>* y (f y2)"
    and "sys_rt y2 = emit_event_to_context c type addr result clock (sys_rt y)" and "sys_app y2 = (sys_app y)(u := pc')"
    and "sys_tls y2 = sys_tls y" and "sys_consumer y2 = sys_consumer y" and "sys_log y2 = sys_log y"
    and "length (sys_made y2) = Suc (length (sys_made y))"
proof -
  obtain e y1 where r: "do_reserve c type addr result clock y = (e, y1)"
    by (cases "do_reserve c type addr result clock y")
  let ?y2 = "set_app u pc' (do_push c e (set_app u (pc e) y1))"
  show thesis
  proof (rule that [of ?y2])
    have "works u tid y (set_app u (pc e) y1)" "works u tid (set_app u (pc e) y1) (f ?y2)"
      using res [OF r] push [of "set_app u (pc e) y1" e] by (simp_all add: works_def)
    then show "(works u tid)\<^sup>*\<^sup>* y (f ?y2)" by simp
  qed (use r in \<open>auto simp: do_reserve_def do_push_def emit_event_to_context_def Let_def split: prod.splits\<close>)
qed

lemma emit_tail:
  assumes "sys_app y u = A_Emit (type, addr, result) c"
  obtains y' where "(works u tid)\<^sup>*\<^sup>* y y'" and "sys_rt y' = emit_event_to_context c type addr result clock (sys_rt y)"
    and "sys_app y' = (sys_app y)(u := A_Idle)" and "sys_tls y' = sys_tls y"
    and "sys_consumer y' = sys_consumer y" and "sys_log y' = sys_log y" and "length (sys_made y') = Suc (length (sys_made y))"
  using reserve_push_runs [of c type addr result clock y u "\<lambda>e. A_Push c e" id A_Idle tid]
    sys_act.reserve [OF assms] sys_act.push by (metis id_apply)

abbreviation emit_labels :: "nat \<Rightarrow> monitor_event_type \<Rightarrow> uintptr \<Rightarrow> i32 \<Rightarrow> sys_label set" where
  "emit_labels u type addr result \<equiv> {Calls u (type, addr, result), Refuses u}"

lemma emit_known_runs:
  assumes idle: "sys_app y u = A_Idle" and acc: "accept_events (sys_rt y)" and int: "\<not> tls_internal_thread (sys_tls y u)"
    and ctx: "tls_context (sys_tls y u) = Some c"
  shows "\<exists>y'. call_run (Calls u (type, addr, result)) u tid
    (monitor_runtime_emit type addr result tid rc sclk clock (sys_tls y u, sys_rt y)) y y'"
proof -
  let ?y = "set_app u (A_Emit (type, addr, result) c) y"
  have s: "sys_act (Calls u (type, addr, result)) y ?y" by (rule sys_act.emit_known [OF idle acc int ctx])
  obtain y' where y': "(works u tid)\<^sup>*\<^sup>* ?y y'" "sys_rt y' = emit_event_to_context c type addr result clock (sys_rt ?y)"
    "sys_app y' = (sys_app ?y)(u := A_Idle)" "sys_tls y' = sys_tls ?y"
    "sys_consumer y' = sys_consumer ?y" "sys_log y' = sys_log ?y" "length (sys_made y') = Suc (length (sys_made ?y))"
    using emit_tail [of ?y u type addr result c tid clock] by auto
  have "path (Calls u (type, addr, result)) u tid y y'" using s y'(1) unfolding path_def by blast
  moreover have "(sys_app y)(u := A_Idle) = sys_app y" using idle by auto
  ultimately show ?thesis
    using y' acc int ctx
    by (intro call_runI [of "Calls u (type, addr, result)" u tid y y']) (simp_all add: monitor_runtime_emit_def register_current_thread_def)
qed

lemma emit_rejected_runs:
  assumes idle: "sys_app y u = A_Idle" and acc: "accept_events (sys_rt y)" and int: "\<not> tls_internal_thread (sys_tls y u)"
    and ctx: "tls_context (sys_tls y u) = None"
    and bad: "tls_registration_failed (sys_tls y u) \<or> fst (claim_thread_slot (sys_rt y)) = None"
  shows "\<exists>y'. call_run (Refuses u) u tid
    (monitor_runtime_emit type addr result tid rc sclk clock (sys_tls y u, sys_rt y)) y y'"
proof -
  let ?y = "set_tls u ((sys_tls y u)\<lparr>tls_registration_failed := True\<rparr>) (y\<lparr>sys_rt := count_unregistered (sys_rt y)\<rparr>)"
  have star: "path (Refuses u) u tid y ?y"
    unfolding path_def by (rule exI [of _ ?y]) (simp add: sys_act.emit_rejected [OF idle acc int ctx bad])
  have "claim_thread_slot (sys_rt y) = (None, sys_rt y)" if "\<not> tls_registration_failed (sys_tls y u)"
    using bad that by (auto simp: claim_thread_slot_def split: if_splits)
  moreover have "(sys_tls y u)\<lparr>tls_registration_failed := True\<rparr> = sys_tls y u" if "tls_registration_failed (sys_tls y u)"
    using that by simp
  ultimately have p: "monitor_runtime_emit type addr result tid rc sclk clock (sys_tls y u, sys_rt y) =
      ((sys_tls y u)\<lparr>tls_registration_failed := True\<rparr>, count_unregistered (sys_rt y))"
    using acc int ctx by (cases "tls_registration_failed (sys_tls y u)")
      (auto simp: monitor_runtime_emit_def register_current_thread_def)
  show ?thesis unfolding p by (rule call_runI [OF star]) simp_all
qed

lemma emit_claim_runs:
  assumes idle: "sys_app y u = A_Idle" and acc: "accept_events (sys_rt y)" and int: "\<not> tls_internal_thread (sys_tls y u)"
    and ctx: "tls_context (sys_tls y u) = None" and fresh: "\<not> tls_registration_failed (sys_tls y u)"
    and claim: "claim_thread_slot (sys_rt y) = (Some c, rt)"
  shows "\<exists>y'. call_run (Calls u (type, addr, result)) u tid
    (monitor_runtime_emit type addr result tid rc sclk clock (sys_tls y u, sys_rt y)) y y'"
proof -
  let ?req = "(type, addr, result)"
  let ?y1 = "set_app u (A_Claimed ?req c) (y\<lparr>sys_rt := rt, sys_owner := (sys_owner y)(c := Some u)\<rparr>)"
  obtain tls rt2 where act: "activate_context c tid rc (sys_tls y u, rt) = (tls, rt2)"
    by (cases "activate_context c tid rc (sys_tls y u, rt)")
  let ?y2 = "set_app u (A_Start ?req c) (set_tls u tls (?y1\<lparr>sys_rt := rt2\<rparr>))"
  have s1: "sys_act (Calls u ?req) y ?y1" by (rule sys_act.emit_claim [OF idle acc int ctx fresh claim])
  have s2: "works u tid ?y1 ?y2" unfolding works_def by (rule disjI2, rule sys_act.activate [where rc = rc]) (simp_all add: act)
  have a2: "sys_app ?y2 u = A_Start ?req c" by simp
  obtain y3 where y3: "(works u tid)\<^sup>*\<^sup>* ?y2 (id y3)"
    "sys_rt y3 = emit_event_to_context c MONITOR_EVENT_THREAD_START 0 0 sclk (sys_rt ?y2)"
    "sys_app y3 = (sys_app ?y2)(u := A_Emit ?req c)" "sys_tls y3 = sys_tls ?y2"
    "sys_consumer y3 = sys_consumer ?y2" "sys_log y3 = sys_log ?y2" "length (sys_made y3) = Suc (length (sys_made ?y2))"
    by (rule reserve_push_runs [of c MONITOR_EVENT_THREAD_START 0 0 sclk ?y2 u "\<lambda>e. A_StartPush ?req c e" id "A_Emit ?req c" tid])
       (use sys_act.start_reserve [OF a2] sys_act.start_push in simp_all)
  obtain y4 where y4: "(works u tid)\<^sup>*\<^sup>* y3 y4" "sys_rt y4 = emit_event_to_context c type addr result clock (sys_rt y3)"
    "sys_app y4 = (sys_app y3)(u := A_Idle)" "sys_tls y4 = sys_tls y3"
    "sys_consumer y4 = sys_consumer y3" "sys_log y4 = sys_log y3" "length (sys_made y4) = Suc (length (sys_made y3))"
    using emit_tail [of y3 u type addr result c tid clock] y3(3) by auto
  have "(works u tid)\<^sup>*\<^sup>* ?y1 y4"
    using converse_rtranclp_into_rtranclp [of "works u tid", OF s2 rtranclp_trans [OF y3(1) [unfolded id_apply] y4(1)]] .
  with s1 have "path (Calls u ?req) u tid y y4" unfolding path_def by blast
  moreover have "(sys_app y)(u := A_Idle) = sys_app y" using idle by auto
  ultimately show ?thesis
    using y3 y4 acc int ctx fresh claim act
    by (intro call_runI [of "Calls u ?req" u tid y y4]) (simp_all add: monitor_runtime_emit_def register_current_thread_def)
qed

lemma emit_runs:
  assumes idle: "sys_app y u = A_Idle"
  shows "\<exists>y'. quiet_call (emit_labels u type addr result) u tid
    (monitor_runtime_emit type addr result tid rc sclk clock (sys_tls y u, sys_rt y)) y y'"
proof (cases "accept_events (sys_rt y) \<and> \<not> tls_internal_thread (sys_tls y u)")
  case True
  then have t: "accept_events (sys_rt y)" "\<not> tls_internal_thread (sys_tls y u)" by simp_all
  show ?thesis
  proof (cases "tls_context (sys_tls y u)")
    case None
    show ?thesis
    proof (cases "tls_registration_failed (sys_tls y u) \<or> fst (claim_thread_slot (sys_rt y)) = None")
      case False
      then obtain c rt where "claim_thread_slot (sys_rt y) = (Some c, rt)" by (cases "claim_thread_slot (sys_rt y)") auto
      with emit_claim_runs [OF idle t None] call_run_quiet False show ?thesis by blast
    qed (use emit_rejected_runs [OF idle t None] call_run_quiet in blast)
  qed (use emit_known_runs [OF idle t] call_run_quiet in blast)
next
  case False
  then have "quiet_call (emit_labels u type addr result) u tid
      (monitor_runtime_emit type addr result tid rc sclk clock (sys_tls y u, sys_rt y)) y y"
    by (auto simp: quiet_call_def effect_def monitor_runtime_emit_def)
  then show ?thesis by blast
qed

lemma destructor_emits:
  assumes idle: "sys_app y u = A_Idle" and val: "tls_exit_value (sys_tls y u) = Some c" and acc: "accept_events (sys_rt y)"
  shows "\<exists>y'. call_run (Ends u) u tid (monitor_thread_exit_destructor clock (Some c)
     ((sys_tls y u)\<lparr>tls_exit_value := None\<rparr>, sys_rt y)) y y'"
proof -
  let ?y1 = "set_app u (A_Exit c) (set_tls u ((sys_tls y u)\<lparr>tls_exit_value := None\<rparr>) y)"
  let ?f = "\<lambda>y2. set_tls u ((sys_tls y2 u)\<lparr>tls_context := None\<rparr>) y2"
  have s1: "sys_act (Ends u) y ?y1" by (rule sys_act.exit_begin [OF idle val acc])
  have a1: "sys_app ?y1 u = A_Exit c" by simp
  have push: "sys_act (Works u) y2 (?f (set_app u A_Idle (do_push c e y2)))" if "sys_app y2 u = A_ExitPush c e" for e y2
    using sys_act.exit_push [OF that] by simp
  obtain y2 where y2: "(works u tid)\<^sup>*\<^sup>* ?y1 (?f y2)"
    "sys_rt y2 = emit_event_to_context c MONITOR_EVENT_THREAD_EXIT 0 0 clock (sys_rt ?y1)"
    "sys_app y2 = (sys_app ?y1)(u := A_Idle)" "sys_tls y2 = sys_tls ?y1"
    "sys_consumer y2 = sys_consumer ?y1" "sys_log y2 = sys_log ?y1" "length (sys_made y2) = Suc (length (sys_made ?y1))"
    by (rule reserve_push_runs [of c MONITOR_EVENT_THREAD_EXIT 0 0 clock ?y1 u "\<lambda>e. A_ExitPush c e" ?f A_Idle tid])
       (use sys_act.exit_reserve [OF a1] push in simp_all)
  have "path (Ends u) u tid y (?f y2)" using s1 y2(1) unfolding path_def by blast
  moreover have "(sys_app y)(u := A_Idle) = sys_app y" using idle by auto
  ultimately show ?thesis
    using y2 acc by (intro call_runI [of "Ends u" u tid y "?f y2"]) (simp_all add: monitor_thread_exit_destructor_def)
qed

lemma destructor_runs:
  assumes idle: "sys_app y u = A_Idle" and val: "tls_exit_value (sys_tls y u) = Some c"
  shows "\<exists>y'. quiet_call {Ends u, Leaves u} u tid (monitor_thread_exit_destructor clock (Some c)
     ((sys_tls y u)\<lparr>tls_exit_value := None\<rparr>, sys_rt y)) y y'"
proof (cases "accept_events (sys_rt y)")
  case True
  then show ?thesis using destructor_emits [OF idle val] call_run_quiet by blast
next
  case False
  let ?y = "set_tls u ((sys_tls y u)\<lparr>tls_exit_value := None, tls_context := None\<rparr>) y"
  have "path (Leaves u) u tid y ?y"
    unfolding path_def by (rule exI [of _ ?y]) (simp add: sys_act.exit_silent [OF idle val False])
  then have "\<exists>y'. call_run (Leaves u) u tid (monitor_thread_exit_destructor clock (Some c)
     ((sys_tls y u)\<lparr>tls_exit_value := None\<rparr>, sys_rt y)) y y'"
    using False by (intro call_runI [of "Leaves u" u tid y ?y]) (simp_all add: monitor_thread_exit_destructor_def)
  then show ?thesis using call_run_quiet by blast
qed

section \<open>The consumer terminates\<close>

lemma consume_cases:
  assumes inv: "sys_inv y" and pc: "sys_consumer y = C_Drain cnt i n any" and n: "n < MONITOR_DRAIN_BATCH"
  obtains (empty) "queued y i = []" and "do_consume y = y\<lparr>sys_consumer := C_Scan cnt (Suc i) any\<rparr>"
  | (pop) e where "queued y i = e # queued (do_consume y) i" and "sys_consumer (do_consume y) = C_Drain cnt i (Suc n) True"
      and "\<And>j. j \<noteq> i \<Longrightarrow> thread_contexts (sys_rt (do_consume y)) ! j = thread_contexts (sys_rt y) ! j"
      and "cx_active (thread_contexts (sys_rt (do_consume y)) ! i)"
      and "next_thread_slot (sys_rt (do_consume y)) = next_thread_slot (sys_rt y)"
      and "consumer_running (sys_rt (do_consume y)) = consumer_running (sys_rt y)"
proof -
  have i: "i < 16" "cx_active (thread_contexts (sys_rt y) ! i)"
    using sys_invD(2,6) [OF inv] pc by (auto simp: drain_ok_def)
  have ri: "ring_inv (cx_queue (thread_contexts (sys_rt y) ! i))"
    using sys_invD(3) [OF inv i(1)] i(2) by (simp add: slot_ok_active Let_def)
  show thesis
  proof (cases rule: ring.pop_cases [OF ri])
    case 1
    then show thesis using do_consume_empty [OF pc n] by (intro empty) (simp_all add: queued_def)
  next
    case (2 e q)
    note y = do_consume_event [OF pc n 2(2)]
    show thesis using 2 i sys_invD(1) [OF inv] by (intro pop [of e]) (simp_all add: y queued_def)
  qed
qed

text \<open>Within a batch the consumer hands over the whole queue of a context.\<close>

lemma drain_queue:
  assumes "sys_consumer y = C_Drain cnt i n any" and "n + length qs \<le> MONITOR_DRAIN_BATCH" and "queued y i = qs"
    and "ring_inv (cx_queue (thread_contexts (sys_rt y) ! i))" and "i < length (thread_contexts (sys_rt y))"
  shows "\<exists>q. (do_consume ^^ length qs) y = y\<lparr>sys_consumer := C_Drain cnt i (n + length qs) (any \<or> qs \<noteq> []),
     sys_log := sys_log y @ map (Pair i) qs,
     sys_rt := (sys_rt y)\<lparr>verifier := process_events qs (verifier (sys_rt y)),
       thread_contexts := (thread_contexts (sys_rt y))[i := (thread_contexts (sys_rt y) ! i)
         \<lparr>cx_queue := q, cx_consumed := cx_consumed (thread_contexts (sys_rt y) ! i) + of_nat (length qs)\<rparr>]\<rparr>\<rparr>"
  using assms
proof (induction qs arbitrary: y n any)
  case Nil
  then show ?case by (intro exI [of _ "cx_queue (thread_contexts (sys_rt y) ! i)"]) simp
next
  case (Cons e qs)
  have n: "n < MONITOR_DRAIN_BATCH" using Cons.prems(2) by simp
  show ?case
  proof (cases rule: ring.pop_cases [OF Cons.prems(4)])
    case 1
    then show ?thesis using Cons.prems(3) by (simp add: queued_def)
  next
    case (2 e' q)
    then have e: "e' = e" "ring_contents q = qs" using Cons.prems(3) by (simp_all add: queued_def)
    note y1 = do_consume_event [OF Cons.prems(1) n 2(2)]
    have "\<exists>q'. (do_consume ^^ length qs) (do_consume y) = (do_consume y)\<lparr>sys_consumer := C_Drain cnt i (Suc n + length qs) True,
       sys_log := sys_log (do_consume y) @ map (Pair i) qs,
       sys_rt := (sys_rt (do_consume y))\<lparr>verifier := process_events qs (verifier (sys_rt (do_consume y))),
         thread_contexts := (thread_contexts (sys_rt (do_consume y)))[i := (thread_contexts (sys_rt (do_consume y)) ! i)
           \<lparr>cx_queue := q', cx_consumed := cx_consumed (thread_contexts (sys_rt (do_consume y)) ! i) + of_nat (length qs)\<rparr>]\<rparr>\<rparr>"
      using Cons.IH [of "do_consume y" "Suc n" True] Cons.prems(2,5) 2 e by (simp add: y1 queued_def)
    then show ?thesis using Cons.prems(5) e unfolding y1 by (simp add: funpow_swap1 y1 add.assoc) 
  qed
qed

definition backlog :: "system \<Rightarrow> nat" where
  "backlog y = (\<Sum>i<16. if cx_active (thread_contexts (sys_rt y) ! i) then length (queued y i) else 0)"

fun pc_any :: "consumer_pc \<Rightarrow> bool" where
  "pc_any (C_Scan cnt i any) = any"
| "pc_any (C_Drain cnt i n any) = any"
| "pc_any (C_Check any) = any"
| "pc_any (C_Test any) = any"
| "pc_any C_Round = False"
| "pc_any C_Stopped = False"

fun pc_rest :: "consumer_pc \<Rightarrow> nat" where
  "pc_rest C_Stopped = 0"
| "pc_rest (C_Test any) = 1"
| "pc_rest (C_Check any) = 2"
| "pc_rest (C_Scan cnt i any) = 3 + (cnt - i) * 70"
| "pc_rest (C_Drain cnt i n any) = 4 + (cnt - Suc i) * 70 + (65 - n)"
| "pc_rest C_Round = 4 + 16 * 70"

text \<open>
  The number of events waiting, counted together with the obligation to scan once more,
  never grows while no thread pushes; it shrinks with every new round, and within a round
  the position advances.
\<close>

definition work_left :: "system \<Rightarrow> nat \<times> nat" where
  "work_left y = (backlog y + (if pc_any (sys_consumer y) then 1 else 0), pc_rest (sys_consumer y))"

lemma backlog_pop:
  assumes "i < 16" and "cx_active (thread_contexts (sys_rt y) ! i)" and "cx_active (thread_contexts (sys_rt y') ! i)"
    and "queued y i = e # queued y' i" and "\<And>j. j \<noteq> i \<Longrightarrow> thread_contexts (sys_rt y') ! j = thread_contexts (sys_rt y) ! j"
  shows "backlog y = Suc (backlog y')"
proof -
  let ?g = "\<lambda>y j. if cx_active (thread_contexts (sys_rt y) ! j) then length (queued y j) else 0"
  have "(\<Sum>j<16. ?g y j) = ?g y i + (\<Sum>j\<in>{..<16} - {i}. ?g y j)" for y
    using assms(1) by (intro sum.remove) simp_all
  moreover have "(\<Sum>j\<in>{..<16} - {i}. ?g y j) = (\<Sum>j\<in>{..<16} - {i}. ?g y' j)"
    using assms(5) by (intro sum.cong) (simp_all add: queued_def)
  ultimately show ?thesis using assms(2-4) by (simp add: backlog_def)
qed

lemma backlog_cong: "thread_contexts (sys_rt y') = thread_contexts (sys_rt y) \<Longrightarrow> backlog y' = backlog y"
proof -
  assume c: "thread_contexts (sys_rt y') = thread_contexts (sys_rt y)"
  then have "queued y' = queued y" by (simp add: queued_def fun_eq_iff)
  then show ?thesis unfolding backlog_def c by (rule arg_cong)
qed

lemma work_decreases:
  assumes inv: "sys_inv y" and stop: "\<not> consumer_running (sys_rt y)" and pc: "sys_consumer y \<noteq> C_Stopped"
  shows "(work_left (do_consume y), work_left y) \<in> less_than <*lex*> less_than"
    and "\<not> consumer_running (sys_rt (do_consume y))"
proof -
  have "(work_left (do_consume y), work_left y) \<in> less_than <*lex*> less_than \<and> \<not> consumer_running (sys_rt (do_consume y))"
  proof (cases "sys_consumer y")
    case C_Round
    then show ?thesis using sys_invD(2) [OF inv] stop
      by (simp add: do_consume_simps work_left_def backlog_cong [of "y\<lparr>sys_consumer := _\<rparr>"])
  next
    case (C_Scan cnt i any)
    have "Suc (cnt - Suc i) = cnt - i" if "i < cnt" using that by simp
    then show ?thesis using C_Scan stop
      by (auto simp: do_consume_simps work_left_def backlog_cong [of "y\<lparr>sys_consumer := _\<rparr>"])
  next
    case (C_Drain cnt i n any)
    have i: "i < 16" "cx_active (thread_contexts (sys_rt y) ! i)"
      using sys_invD(2,6) [OF inv] C_Drain by (auto simp: drain_ok_def)
    show ?thesis
    proof (cases "n < MONITOR_DRAIN_BATCH")
      case True
      show ?thesis
      proof (cases rule: consume_cases [OF inv C_Drain True])
        case 1
        then show ?thesis using C_Drain stop by (simp add: work_left_def backlog_cong [of "y\<lparr>sys_consumer := _\<rparr>"])
      next
        case (2 e)
        have "backlog y = Suc (backlog (do_consume y))"
          using backlog_pop [OF i 2(4,1,3)] .
        then show ?thesis using C_Drain 2(2,6) True stop by (auto simp: work_left_def)
      qed
    next
      case False
      then show ?thesis using C_Drain stop do_consume_batch [OF C_Drain False]
        by (simp add: work_left_def backlog_cong [of "y\<lparr>sys_consumer := _\<rparr>"])
    qed
  next
    case (C_Check any)
    have "backlog (do_consume y) = backlog y" by (rule backlog_cong) (simp add: do_consume_simps C_Check)
    then show ?thesis using stop C_Check by (simp add: do_consume_simps work_left_def)
  next
    case (C_Test any)
    then show ?thesis using stop
      by (simp add: do_consume_simps work_left_def backlog_cong [of "y\<lparr>sys_consumer := _\<rparr>"])
  qed (use pc in simp)
  then show "(work_left (do_consume y), work_left y) \<in> less_than <*lex*> less_than"
    "\<not> consumer_running (sys_rt (do_consume y))" by blast+
qed

lemma consumer_stops:
  assumes "sys_inv y" and "\<not> consumer_running (sys_rt y)"
  shows "\<exists>n. sys_consumer ((do_consume ^^ n) y) = C_Stopped"
  using assms
proof (induction y rule: wf_induct_rule [OF wf_inv_image [OF wf_lex_prod [OF wf_less_than wf_less_than]], where f1 = work_left])
  case (1 y)
  show ?case
  proof (cases "sys_consumer y = C_Stopped")
    case True
    then have "sys_consumer ((do_consume ^^ 0) y) = C_Stopped" by simp
    then show ?thesis ..
  next
    case False
    note w = work_decreases [OF 1(2,3) False]
    obtain n where "sys_consumer ((do_consume ^^ n) (do_consume y)) = C_Stopped"
      using 1(1) [of "do_consume y"] w inv_consume [OF 1(2)] by (auto simp: in_inv_image)
    then have "sys_consumer ((do_consume ^^ Suc n) y) = C_Stopped" by (simp add: funpow_swap1)
    then show ?thesis ..
  qed
qed

text \<open>While no thread pushes, a scan without a find leaves nothing behind it.\<close>

definition empty_below :: "system \<Rightarrow> nat \<Rightarrow> bool" where
  "empty_below y n \<longleftrightarrow> (\<forall>j<n. cx_active (thread_contexts (sys_rt y) ! j) \<longrightarrow> queued y j = [])"

definition scan_clean :: "system \<Rightarrow> bool" where
  "scan_clean y \<longleftrightarrow>
     (case sys_consumer y of
        C_Round \<Rightarrow> True
      | C_Scan cnt i any \<Rightarrow> cnt = unat (next_thread_slot (sys_rt y)) \<and> (\<not> any \<longrightarrow> empty_below y i)
      | C_Drain cnt i n any \<Rightarrow> cnt = unat (next_thread_slot (sys_rt y)) \<and> (\<not> any \<longrightarrow> n = 0 \<and> empty_below y i)
      | C_Check any \<Rightarrow> \<not> any \<longrightarrow> empty_below y (unat (next_thread_slot (sys_rt y)))
      | C_Test any \<Rightarrow> \<not> any \<longrightarrow> empty_below y (unat (next_thread_slot (sys_rt y)))
      | C_Stopped \<Rightarrow> empty_below y (unat (next_thread_slot (sys_rt y))))"

lemma empty_below_cong:
  "thread_contexts (sys_rt y') = thread_contexts (sys_rt y) \<Longrightarrow> empty_below y' n = empty_below y n"
  by (simp add: empty_below_def queued_def)

lemma scan_clean_consume:
  assumes inv: "sys_inv y" and sc: "scan_clean y"
  shows "scan_clean (do_consume y)"
proof (cases "sys_consumer y")
  case (C_Drain cnt i n any)
  show ?thesis
  proof (cases "n < MONITOR_DRAIN_BATCH")
    case True
    show ?thesis
    proof (cases rule: consume_cases [OF inv C_Drain True])
      case 1
      have "empty_below (y\<lparr>sys_consumer := pc\<rparr>) (Suc i)" if "empty_below y i" for pc
        using that 1(1) by (auto simp: empty_below_def queued_def less_Suc_eq)
      with 1 sc C_Drain show ?thesis by (simp add: scan_clean_def)
    next
      case (2 e)
      with sc C_Drain show ?thesis by (simp add: scan_clean_def)
    qed
  next
    case False
    with sc C_Drain do_consume_batch [OF C_Drain False] show ?thesis by (auto simp: scan_clean_def)
  qed
next
  case (C_Scan cnt i any)
  have "empty_below (y\<lparr>sys_consumer := pc\<rparr>) (Suc i)" if "empty_below y i" "\<not> cx_active (thread_contexts (sys_rt y) ! i)" for pc
    using that by (auto simp: empty_below_def queued_def less_Suc_eq)
  moreover have "empty_below (y\<lparr>sys_consumer := pc\<rparr>) k" if "empty_below y i" "k \<le> i" for pc k
    using that by (auto simp: empty_below_def queued_def)
  ultimately show ?thesis using sc C_Scan by (auto simp: do_consume_simps scan_clean_def)
qed (use sc in \<open>auto simp: do_consume_simps scan_clean_def empty_below_def queued_def\<close>)

lemma consume_iterate:
  assumes "sys_inv y" and "scan_clean y"
  shows "sys_inv ((do_consume ^^ n) y) \<and> scan_clean ((do_consume ^^ n) y)"
  using assms by (induction n) (simp_all add: inv_consume scan_clean_consume)

lemma stopped_empty:
  assumes inv: "sys_inv y" and "scan_clean y" and "sys_consumer y = C_Stopped"
    and "i < 16" and act: "cx_active (thread_contexts (sys_rt y) ! i)"
  shows "queued y i = []"
proof -
  have "i < unat (next_thread_slot (sys_rt y))"
    using sys_invD(4) [OF inv \<open>i < 16\<close>] act by (cases "i < unat (next_thread_slot (sys_rt y))") simp_all
  with assms show ?thesis by (simp add: scan_clean_def empty_below_def)
qed

section \<open>After the consumer has stopped\<close>

lemma step_consumer:
  assumes "sys_step y y'"
  shows "y' = do_consume y \<or> sys_consumer y' = sys_consumer y \<and> sys_log y' = sys_log y"
  using assms unfolding sys_step_def
  by (elim exE, elim sys_act.cases) (auto simp: do_reserve_def do_push_def Let_def split: prod.splits)

lemma stopped_forever:
  assumes "sys_step\<^sup>*\<^sup>* y y'" and "sys_consumer y = C_Stopped"
  shows "sys_consumer y' = C_Stopped \<and> sys_log y' = sys_log y"
  using assms
proof (induction rule: rtranclp_induct)
  case (step y1 y2)
  then show ?case using step_consumer [OF step(2)] do_consume_simps(5) [of y1] by auto
qed simp

lemma reachable_runs: "sys_step\<^sup>*\<^sup>* y y' \<Longrightarrow> sys_reachable env y \<Longrightarrow> sys_reachable env y'"
  by (induction rule: rtranclp_induct) (auto intro: sys_next)

lemma emit_queue:
  assumes inv: "sys_inv y" and c: "c < 16" "cx_active (thread_contexts (sys_rt y) ! c)"
    and room: "length (queued y c) < SPSC_RING_CAPACITY"
  shows "\<exists>e. ring_contents (cx_queue (thread_contexts (emit_event_to_context c type addr result clock (sys_rt y)) ! c)) =
    queued y c @ [e]"
    and "cx_active (thread_contexts (emit_event_to_context c type addr result clock (sys_rt y)) ! c)"
proof -
  let ?q = "cx_queue (thread_contexts (sys_rt y) ! c)"
  have ri: "ring_inv ?q" using sys_invD(3) [OF inv c(1)] c(2) by (simp add: slot_ok_active Let_def)
  obtain e rt where res: "reserve_event c type addr result clock (sys_rt y) = (e, rt)"
    by (cases "reserve_event c type addr result clock (sys_rt y)")
  then have rt: "cx_queue (thread_contexts rt ! c) = ?q" "length (thread_contexts rt) = 16"
      "cx_active (thread_contexts rt ! c)"
    using c sys_invD(1) [OF inv] by (auto simp: reserve_event_def upd_context_def Let_def)
  obtain q where q: "spsc_ring_buffer_try_push ?q e = (True, q)" "ring_contents q = ring_contents ?q @ [e]"
    using ring.push_room [OF ri] room by (auto simp: queued_def)
  show "\<exists>e. ring_contents (cx_queue (thread_contexts (emit_event_to_context c type addr result clock (sys_rt y)) ! c)) = queued y c @ [e]"
    "cx_active (thread_contexts (emit_event_to_context c type addr result clock (sys_rt y)) ! c)"
    using c rt q by (auto simp: emit_event_to_context_def res push_event_def upd_context_def queued_def)
qed

text \<open>The stop request, and the rest of a scan that found nothing.\<close>

lemma stop_runs:
  assumes "sys_consumer y = C_Scan n n False"
  obtains y' where "sys_step\<^sup>*\<^sup>* y y'" and "sys_consumer y' = C_Stopped"
    and "thread_contexts (sys_rt y') = thread_contexts (sys_rt y)" and "sys_made y' = sys_made y" and "sys_log y' = sys_log y"
proof -
  let ?y1 = "y\<lparr>sys_rt := (sys_rt y)\<lparr>accept_events := False\<rparr>\<rparr>"
  let ?y2 = "?y1\<lparr>sys_rt := (sys_rt ?y1)\<lparr>consumer_running := False\<rparr>\<rparr>"
  have s: "sys_step y ?y1" "sys_step ?y1 ?y2" by (rule sys_steps(14), rule sys_steps(15))
  have r: "sys_step\<^sup>*\<^sup>* ?y2 ((do_consume ^^ k) ?y2)" for k
    by (induction k) (auto intro: rtranclp.rtrancl_into_rtrancl sys_steps(13))
  let ?y5 = "do_consume (do_consume (do_consume ?y2))"
  have y3: "do_consume ?y2 = ?y2\<lparr>sys_consumer := C_Check False\<rparr>" using do_consume_simps(2) [of ?y2 n n False] assms by simp
  have y4: "do_consume (?y2\<lparr>sys_consumer := C_Check False\<rparr>) = (?y2\<lparr>sys_rt := (sys_rt ?y2)\<lparr>verifier :=
      monitor_verifier_check_deadlocks (verifier (sys_rt ?y2))\<rparr>\<rparr>)\<lparr>sys_consumer := C_Test False\<rparr>"
    by (simp add: do_consume_simps(3) [of _ False])
  have "sys_step\<^sup>*\<^sup>* ?y2 ?y5" using r [of 3] by (simp add: numeral_3_eq_3)
  with s have "sys_step\<^sup>*\<^sup>* y ?y5" by (meson converse_rtranclp_into_rtranclp)
  then show thesis
    by (rule that [of ?y5]) (unfold y3 y4, simp_all add: do_consume_simps(4) [of _ False])
qed

lemma late_event_lost:
  assumes r: "sys_reachable env y" and pc: "sys_consumer y = C_Scan n n False"
    and idle: "sys_app y u = A_Idle" and ctx: "tls_context (sys_tls y u) = Some c"
    and int: "\<not> tls_internal_thread (sys_tls y u)" and acc: "accept_events (sys_rt y)"
    and room: "length (queued y c) < SPSC_RING_CAPACITY"
  obtains y' e where "sys_step\<^sup>*\<^sup>* y y'" and "sys_consumer y' = C_Stopped"
    and "queued y' c = queued y c @ [e]" and "e \<in> set (made_at y' c)"
    and "length (sys_made y') \<le> length (sys_made y) + 2" and "sys_log y' = sys_log y"
    and "cx_active (thread_contexts (sys_rt y') ! c)" and "c < 16"
proof -
  have inv: "sys_inv y" using reachable_inv [OF r] by simp
  have ref: "refers y u c" "\<not> claimed y u" using ctx idle by (simp_all add: refers_def claimed_def)
  note d = thread_okD [OF sys_invD(5) [OF inv, of u]]
  have c: "c < 16" "cx_active (thread_contexts (sys_rt y) ! c)"
    using d(1,3) [of c] ref sys_invD(2) [OF inv] by auto
  obtain y1 where q: "quiet_call (emit_labels u MONITOR_EVENT_LOCK_REQUEST 64 0) u 0
      (monitor_runtime_emit MONITOR_EVENT_LOCK_REQUEST 64 0 0 0 None None (sys_tls y u, sys_rt y)) y y1"
    using emit_runs [OF idle] by blast
  have y1: "sys_step\<^sup>*\<^sup>* y y1" "sys_consumer y1 = C_Scan n n False" "sys_log y1 = sys_log y"
     "length (sys_made y1) \<le> length (sys_made y) + 2"
     "sys_rt y1 = emit_event_to_context c MONITOR_EVENT_LOCK_REQUEST 64 0 None (sys_rt y)"
    using quiet_callD [OF q] acc int ctx pc by (simp_all add: monitor_runtime_emit_def register_current_thread_def)
  note eq = emit_queue [OF inv c room, of MONITOR_EVENT_LOCK_REQUEST 64 0 None]
  obtain e where e: "queued y1 c = queued y c @ [e]" using eq(1) by (auto simp: queued_def y1(5))
  obtain y2 where y2: "sys_step\<^sup>*\<^sup>* y1 y2" "sys_consumer y2 = C_Stopped"
    "thread_contexts (sys_rt y2) = thread_contexts (sys_rt y1)" "sys_made y2 = sys_made y1" "sys_log y2 = sys_log y1"
    using stop_runs [OF y1(2)] .
  have q2: "queued y2 c = queued y c @ [e]" using e y2(3) by (simp add: queued_def)
  have act2: "cx_active (thread_contexts (sys_rt y2) ! c)" using eq(2) y1(5) y2(3) by simp
  have run: "sys_step\<^sup>*\<^sup>* y y2" using y1(1) y2(1) by simp
  have "sys_inv y2" using reachable_inv [OF reachable_runs [OF run r]] by simp
  from slot_stream(1) [OF this c(1) act2] have "e \<in> set (made_at y2 c)"
    using q2 by (auto elim: list_emb_set)
  then show thesis using that run y2 q2 y1 act2 c(1) by simp
qed

section \<open>A concrete run\<close>

text \<open>
  One application thread emits the request of mutex 64, which registers it; the consumer
  takes both events, starts another round and has passed the thread's context again.
\<close>

definition runtime_boot :: runtime_state where
  "runtime_boot =
     \<lparr>thread_contexts = replicate MONITOR_MAX_THREADS zero_context, next_thread_slot = 0, global_sequence = 0,
      unregistered_events = 0, lifecycle_registration_failures = 0, accept_events = False,
      consumer_running = False, thread_exit_key_ready = False, verifier = verifier_boot\<rparr>"

definition demo_start :: monitor_event where
  "demo_start = \<lparr>ev_sequence_id = 0, ev_timestamp_ns = 9, ev_thread_id = 11, ev_object_address = 0,
     ev_event_type = event_code MONITOR_EVENT_THREAD_START, ev_result = 0, ev_flags = 0, ev_thread_sequence = 0\<rparr>"

definition demo_request :: monitor_event where
  "demo_request = \<lparr>ev_sequence_id = 1, ev_timestamp_ns = 10, ev_thread_id = 11, ev_object_address = 64,
     ev_event_type = event_code MONITOR_EVENT_LOCK_REQUEST, ev_result = 0, ev_flags = 0, ev_thread_sequence = 1\<rparr>"

definition demo_context :: "monitor_thread_context" where
  "demo_context = \<lparr>cx_active = True, cx_thread_id = 11,
     cx_queue = \<lparr>rb_head = 2, rb_tail = 0, rb_slots = (replicate SPSC_RING_CAPACITY zero_event)[0 := demo_start, 1 := demo_request]\<rparr>,
     cx_generated = 2, cx_dropped = 0, cx_next_thread_sequence = 2, cx_consumed = 0\<rparr>"

lemma demo_emit:
  "monitor_runtime_emit MONITOR_EVENT_LOCK_REQUEST 64 0 11 0 (Some (0, 9)) (Some (0, 10))
      (fresh_tls, snd (monitor_runtime_start None 0 0 runtime_boot)) =
    (fresh_tls\<lparr>tls_context := Some 0, tls_exit_value := Some 0\<rparr>,
     \<lparr>thread_contexts = (replicate MONITOR_MAX_THREADS zero_context)[0 := demo_context], next_thread_slot = 1, global_sequence = 2,
      unregistered_events = 0, lifecycle_registration_failures = 0, accept_events = True,
      consumer_running = True, thread_exit_key_ready = True, verifier = verifier_start\<rparr>)"
  by (simp add: monitor_runtime_emit_def register_current_thread_def monitor_runtime_start_def runtime_boot_def
      claim_thread_slot_def activate_context_def upd_context_def emit_event_to_context_def reserve_event_def push_event_def
      spsc_ring_buffer_try_push_def spsc_ring_buffer_init_def zero_ring_buffer_def zero_context_def demo_context_def
      demo_start_def demo_request_def timestamp_now_ns_def slot_of_def word_le_nat_alt Let_def fresh_tls_def)

lemma boot_storage: "ring_storage runtime_boot"
  by (simp add: ring_storage_def runtime_boot_def zero_context_def zero_ring_buffer_def)

lemma demo_consume:
  assumes pc: "sys_consumer y = C_Round" and log: "sys_log y = []"
    and rt: "sys_rt y = \<lparr>thread_contexts = (replicate MONITOR_MAX_THREADS zero_context)[0 := demo_context], next_thread_slot = 1,
      global_sequence = 2, unregistered_events = 0, lifecycle_registration_failures = 0, accept_events = True,
      consumer_running = True, thread_exit_key_ready = True, verifier = verifier_start\<rparr>"
  shows "sys_consumer ((do_consume ^^ 11) y) = C_Scan 1 1 False"
    and "sys_log ((do_consume ^^ 11) y) = [(0, demo_start), (0, demo_request)]"
    and "sys_rt ((do_consume ^^ 11) y) = (sys_rt y)\<lparr>
      thread_contexts := (replicate MONITOR_MAX_THREADS zero_context)[0 := demo_context\<lparr>cx_consumed := 2,
        cx_queue := (cx_queue demo_context)\<lparr>rb_tail := 2\<rparr>\<rparr>],
      verifier := process_events [demo_start, demo_request] verifier_start\<rparr>"
    and "sys_made ((do_consume ^^ 11) y) = sys_made y"
    and "sys_app ((do_consume ^^ 11) y) = sys_app y" and "sys_tls ((do_consume ^^ 11) y) = sys_tls y"
proof -
  have "(do_consume ^^ 11) y = y\<lparr>sys_consumer := C_Scan 1 1 False, sys_log := [(0, demo_start), (0, demo_request)],
     sys_rt := (sys_rt y)\<lparr>
      thread_contexts := (replicate MONITOR_MAX_THREADS zero_context)[0 := demo_context\<lparr>cx_consumed := 2,
        cx_queue := (cx_queue demo_context)\<lparr>rb_tail := 2\<rparr>\<rparr>],
      verifier := process_events [demo_start, demo_request] verifier_start\<rparr>\<rparr>"
    by (simp add: numeral_eq_Suc do_consume_def consumer_step_def consumed_now_def drain_one_def upd_context_def
        spsc_ring_buffer_try_pop_def slot_of_def demo_context_def zero_context_def pc log rt Let_def)
  then show "sys_consumer ((do_consume ^^ 11) y) = C_Scan 1 1 False"
    and "sys_log ((do_consume ^^ 11) y) = [(0, demo_start), (0, demo_request)]"
    and "sys_rt ((do_consume ^^ 11) y) = (sys_rt y)\<lparr>
      thread_contexts := (replicate MONITOR_MAX_THREADS zero_context)[0 := demo_context\<lparr>cx_consumed := 2,
        cx_queue := (cx_queue demo_context)\<lparr>rb_tail := 2\<rparr>\<rparr>],
      verifier := process_events [demo_start, demo_request] verifier_start\<rparr>"
    and "sys_made ((do_consume ^^ 11) y) = sys_made y"
    and "sys_app ((do_consume ^^ 11) y) = sys_app y" and "sys_tls ((do_consume ^^ 11) y) = sys_tls y"
    by simp_all
qed

text \<open>The state the run ends in.\<close>

definition demo_state :: "system \<Rightarrow> bool" where
  "demo_state y \<longleftrightarrow>
     sys_reachable None y \<and> sys_consumer y = C_Scan 1 1 False \<and> sys_app y 0 = A_Idle \<and>
     tls_context (sys_tls y 0) = Some 0 \<and> \<not> tls_internal_thread (sys_tls y 0) \<and> tls_exit_value (sys_tls y 0) = Some 0 \<and>
     accept_events (sys_rt y) \<and> sys_log y = [(0, demo_start), (0, demo_request)] \<and> length (sys_made y) \<le> 2 \<and>
     verifier (sys_rt y) = process_events [demo_start, demo_request] verifier_start \<and>
     unregistered_events (sys_rt y) = 0 \<and> lifecycle_registration_failures (sys_rt y) = 0 \<and>
     queued y 0 = [] \<and> cx_active (thread_contexts (sys_rt y) ! 0) \<and> next_thread_slot (sys_rt y) = 1 \<and>
     total_of cx_generated (sys_rt y) = 2 \<and> total_of cx_consumed (sys_rt y) = 2 \<and> total_of cx_dropped (sys_rt y) = 0"

lemma demo_run: "\<exists>y. demo_state y"
proof -
  let ?y0 = "started None runtime_boot"
  have r0: "sys_reachable None ?y0" by (rule sys_start [OF boot_storage])
  have y0: "sys_app ?y0 0 = A_Idle" "sys_tls ?y0 0 = fresh_tls" "sys_rt ?y0 = snd (monitor_runtime_start None 0 0 runtime_boot)"
    "sys_consumer ?y0 = C_Round" "sys_log ?y0 = []" "sys_made ?y0 = []"
    by (simp_all add: started_def)
  obtain y1' where q: "quiet_call (emit_labels 0 MONITOR_EVENT_LOCK_REQUEST 64 0) 0 11
      (monitor_runtime_emit MONITOR_EVENT_LOCK_REQUEST 64 0 11 0 (Some (0, 9)) (Some (0, 10)) (sys_tls ?y0 0, sys_rt ?y0)) ?y0 y1'"
    using emit_runs [OF y0(1)] by blast
  obtain y1 where y1: "sys_step\<^sup>*\<^sup>* ?y0 y1" "sys_tls y1 0 = fresh_tls\<lparr>tls_context := Some 0, tls_exit_value := Some 0\<rparr>"
     "sys_rt y1 = \<lparr>thread_contexts = (replicate MONITOR_MAX_THREADS zero_context)[0 := demo_context], next_thread_slot = 1,
      global_sequence = 2, unregistered_events = 0, lifecycle_registration_failures = 0, accept_events = True,
      consumer_running = True, thread_exit_key_ready = True, verifier = verifier_start\<rparr>"
     "sys_app y1 = sys_app ?y0" "sys_consumer y1 = C_Round" "sys_log y1 = []" "length (sys_made y1) \<le> 2"
    using that quiet_callD [OF q [unfolded y0(2,3) demo_emit]] by (simp add: y0)
  let ?y = "(do_consume ^^ 11) y1"
  note d = demo_consume [OF y1(5,6,3)]
  have "sys_reachable None ((do_consume ^^ n) y1)" for n
    by (induction n) (auto intro: reachable_runs [OF y1(1) r0] sys_next sys_steps(13))
  from this [of 11] have r: "sys_reachable None ?y" .
  have "demo_state ?y"
    unfolding demo_state_def d
    using r y1(2,4,7) y0(1)
    by (simp add: d queued_def y1(3) demo_context_def ring_contents_def fresh_tls_def total_of_def registered_contexts_def)
  then show ?thesis by blast
qed

lemma demo_verified: "verifier_complete (process_events [demo_start, demo_request] verifier_start)"
  by code_simp

lemma demo_trace: "demo_state y \<Longrightarrow> trace_complete (sys_rt y)"
  by (simp add: demo_state_def trace_complete_def transport_consistent_def)

end
