(* ===== verification/Runtime_Properties.thy ===== *)
theory Runtime_Properties
  imports Runtime_Runs Verifier_Limits
begin

text \<open>
  Properties of \<^verbatim>\<open>src/monitor_runtime.c\<close> under every interleaving: what an
  authoritative result means, conservation and ordered delivery of events, exactness of the
  transport check, single producers, termination of the consumer, the gap around the stop
  request, calls as runs, failed starts, refused registrations and the final report.
\<close>

section \<open>The transport\<close>

text \<open>
  (C1) End to end.  In every reachable state, under every interleaving of the application
  threads with the consumer: if fewer than 2^32 events were made, the transport summary
  would call the trace complete and the verifier would call its state complete (the two
  conditions under which the results are printed as authoritative), then the verifier's view
  of every thread and mutex and every violation counter are what the specification computes
  on all events the application made, in the order of their global sequence numbers
  0, 1, 2, ...  Deadlock cycles are excepted: they are found by checks between the events.
\<close>

theorem authoritative_results:
  assumes "sys_reachable env y" and "length (sys_made y) < 2 ^ 32"
    and "trace_complete (sys_rt y)" and "verifier_complete (verifier (sys_rt y))" and "k \<noteq> DEADLOCK_CYCLE"
  shows "map ev_sequence_id (map snd (sys_made y)) = map of_nat [0..<length (sys_made y)] \<and>
    abs_view (verifier (sys_rt y)) = spec_run (map snd (sys_made y)) initial_view \<and>
    counter k (verifier (sys_rt y)) =
      of_nat (count_list (spec_verdicts (load_configuration env) (map snd (sys_made y)) initial_view) k)"
  using authoritative_run [OF assms(1-4)] assms(5) reachable_inv [OF assms(1)] by (simp add: sys_inv_def)

theorem authoritative_results_witness:
  "\<exists>y. sys_reachable None y \<and> sys_log y = [(0, demo_start), (0, demo_request)] \<and>
     abs_view (verifier (sys_rt y)) = spec_run (map snd (sys_made y)) initial_view"
proof -
  obtain y where d: "demo_state y" using demo_run by blast
  then have v: "verifier_complete (verifier (sys_rt y))" using demo_verified by (simp add: demo_state_def)
  from d have y: "sys_reachable None y" "length (sys_made y) < 2 ^ 32" "sys_log y = [(0, demo_start), (0, demo_request)]"
    by (simp_all add: demo_state_def)
  from authoritative_results [OF y(1,2) demo_trace [OF d] v, of SELF_DEADLOCK_CANDIDATE] y show ?thesis by auto
qed

text \<open>
  (C10) Conservation.  In every reachable state the counters of an active context account
  for every event: what was generated is what was consumed, what was dropped, what is in
  the queue and the event its thread is about to push, and each count is the number of such
  events (modulo 2^64).
\<close>

theorem transport_conservation:
  assumes "sys_reachable env y" and "i < MONITOR_MAX_THREADS" and "cx_active (thread_contexts (sys_rt y) ! i)"
  shows "cx_generated (thread_contexts (sys_rt y) ! i) =
       cx_consumed (thread_contexts (sys_rt y) ! i) + cx_dropped (thread_contexts (sys_rt y) ! i) +
       of_nat (length (queued y i) + length (pending y i)) \<and>
     cx_generated (thread_contexts (sys_rt y) ! i) = of_nat (length (made_at y i)) \<and>
     cx_consumed (thread_contexts (sys_rt y) ! i) = of_nat (length (log_at y i)) \<and>
     length (queued y i) \<le> SPSC_RING_CAPACITY \<and> length (pending y i) \<le> 1"
proof -
  have inv: "sys_inv y" using reachable_inv [OF assms(1)] by simp
  note s = sys_invD(3) [OF inv assms(2), unfolded slot_ok_active [OF assms(3)] Let_def]
  then have "length (queued y i) \<le> SPSC_RING_CAPACITY"
    using ring_inv_contents_le [of "cx_queue (thread_contexts (sys_rt y) ! i)"] by (simp add: queued_def)
  then show ?thesis using s pending_at_most_one [of y i] by simp
qed

theorem transport_conservation_witness:
  "\<exists>y. sys_reachable None y \<and> log_at y 0 = [demo_start, demo_request] \<and> cx_consumed (thread_contexts (sys_rt y) ! 0) = 2"
proof -
  obtain y where d: "demo_state y" using demo_run by blast
  then have y: "sys_reachable None y" "cx_active (thread_contexts (sys_rt y) ! 0)" "log_at y 0 = [demo_start, demo_request]"
    by (simp_all add: demo_state_def log_at_def)
  from transport_conservation [OF y(1) _ y(2)] y show ?thesis by auto
qed

text \<open>
  (C9) Delivery.  The events of a context reach the verifier in the order they were made,
  none twice and none of another thread: what was consumed, followed by the queue and the
  pending event, is a subsequence of what was made, all of it if the context never dropped
  an event.  The events carry the consecutive thread sequence numbers 0, 1, 2, ... and the
  thread id of the context.
\<close>

theorem ordered_delivery:
  assumes "sys_reachable env y" and "i < MONITOR_MAX_THREADS" and "cx_active (thread_contexts (sys_rt y) ! i)"
  shows "subseq (log_at y i @ queued y i @ pending y i) (made_at y i) \<and>
    (sys_drops y i = 0 \<longrightarrow> log_at y i @ queued y i @ pending y i = made_at y i) \<and>
    map ev_thread_sequence (made_at y i) = map of_nat [0..<length (made_at y i)] \<and>
    (\<forall>e \<in> set (made_at y i). ev_thread_id e = cx_thread_id (thread_contexts (sys_rt y) ! i))"
  using slot_stream [of y i] reachable_inv [OF assms(1)] assms(2,3) by simp

theorem ordered_delivery_witness:
  "\<exists>y. sys_reachable None y \<and> subseq ([demo_start, demo_request] @ pending y 0) (made_at y 0)"
proof -
  obtain y where d: "demo_state y" using demo_run by blast
  then have y: "sys_reachable None y" "cx_active (thread_contexts (sys_rt y) ! 0)" "log_at y 0 = [demo_start, demo_request]"
    "queued y 0 = []"
    by (simp_all add: demo_state_def log_at_def)
  from ordered_delivery [OF y(1) _ y(2)] y show ?thesis by auto
qed

text \<open>
  (C11) The transport check is exact.  With fewer than 2^64 events made, the summary's
  equation generated = consumed + dropped holds exactly when no queue of an active context
  holds an event and no thread is between reserving and pushing one; and then, without
  drops, every event made has been consumed.
\<close>

theorem transport_check_exact:
  assumes "sys_reachable env y" and "length (sys_made y) < 2 ^ 64"
  shows "(transport_consistent (sys_rt y) \<longleftrightarrow>
      (\<forall>i < MONITOR_MAX_THREADS. cx_active (thread_contexts (sys_rt y) ! i) \<longrightarrow> queued y i = [] \<and> pending y i = [])) \<and>
    (trace_complete (sys_rt y) \<longrightarrow> (\<forall>i. log_at y i = made_at y i))"
  using consistent_iff [of y] complete_streams [of y] reachable_inv [OF assms(1)] assms(2)
  by (auto simp: in_flight_def split: if_splits)

theorem transport_check_exact_witness:
  "\<exists>y. sys_reachable None y \<and> trace_complete (sys_rt y) \<and> made_at y 0 = [demo_start, demo_request]"
proof -
  obtain y where d: "demo_state y" using demo_run by blast
  then have y: "sys_reachable None y" "length (sys_made y) < 2 ^ 64" "log_at y 0 = [demo_start, demo_request]"
    by (simp_all add: demo_state_def log_at_def)
  from transport_check_exact [OF y(1,2)] demo_trace [OF d] have "\<forall>i. log_at y i = made_at y i" by blast
  then have "made_at y 0 = [demo_start, demo_request]" using y(3) by metis
  with y(1) demo_trace [OF d] show ?thesis by blast
qed

text \<open>
  (C12) Single producers.  The queues allow one producer each; the registration keeps to
  it: in no reachable state do two threads work on, or remember, the same context, and a
  context is active only below the slot counter, which never exceeds 16.
\<close>

theorem single_producer:
  assumes "sys_reachable env y"
    and "pc_slot (sys_app y u) = Some i \<or> tls_context (sys_tls y u) = Some i"
    and "pc_slot (sys_app y v) = Some i \<or> tls_context (sys_tls y v) = Some i"
  shows "u = v \<and> i < unat (next_thread_slot (sys_rt y)) \<and> unat (next_thread_slot (sys_rt y)) \<le> MONITOR_MAX_THREADS"
proof -
  have inv: "sys_inv y" using reachable_inv [OF assms(1)] by simp
  have "refers y u i" "refers y v i" using assms(2,3) by (simp_all add: refers_def)
  then have "sys_owner y i = Some u" "sys_owner y i = Some v" "i < unat (next_thread_slot (sys_rt y))"
    using thread_okD(1,2) [OF sys_invD(5) [OF inv]] by blast+
  then show ?thesis using sys_invD(2) [OF inv] by simp
qed

theorem single_producer_witness: "\<exists>y. sys_reachable None y \<and> tls_context (sys_tls y 0) = Some 0 \<and> tls_context (sys_tls y 1) \<noteq> Some 0"
proof -
  obtain y where d: "demo_state y" using demo_run by blast
  then have y: "sys_reachable None y" "tls_context (sys_tls y 0) = Some 0" by (simp_all add: demo_state_def)
  from single_producer [OF y(1), of 0 0 1] y(2) have "tls_context (sys_tls y 1) \<noteq> Some 0" by auto
  with y show ?thesis by blast
qed

section \<open>Shutdown\<close>

text \<open>
  (C13) The consumer terminates.  From every reachable state in which the stop flag is set,
  the consumer, left to itself, reaches its end after finitely many steps; if it was about to
  start a round, all queues of active contexts are empty then.
\<close>

theorem consumer_terminates:
  assumes "sys_reachable env y" and "\<not> consumer_running (sys_rt y)"
  shows "\<exists>n. sys_consumer ((do_consume ^^ n) y) = C_Stopped \<and>
    (sys_consumer y = C_Round \<longrightarrow>
      (\<forall>i < MONITOR_MAX_THREADS. cx_active (thread_contexts (sys_rt ((do_consume ^^ n) y)) ! i) \<longrightarrow>
         queued ((do_consume ^^ n) y) i = []))"
proof -
  have inv: "sys_inv y" using reachable_inv [OF assms(1)] by simp
  obtain n where n: "sys_consumer ((do_consume ^^ n) y) = C_Stopped" using consumer_stops [OF inv assms(2)] by blast
  have "queued ((do_consume ^^ n) y) i = []"
    if "sys_consumer y = C_Round" "i < MONITOR_MAX_THREADS" "cx_active (thread_contexts (sys_rt ((do_consume ^^ n) y)) ! i)" for i
  proof -
    have "scan_clean y" using that(1) by (simp add: scan_clean_def)
    from consume_iterate [OF inv this] stopped_empty [OF _ _ n that(2,3)] show ?thesis by blast
  qed
  with n show ?thesis by blast
qed

theorem consumer_terminates_witness:
  "\<exists>y n. sys_reachable None y \<and> sys_log y \<noteq> [] \<and> sys_consumer ((do_consume ^^ n) y) = C_Stopped"
proof -
  obtain y where d: "demo_state y" using demo_run by blast
  let ?y = "y\<lparr>sys_rt := (sys_rt y)\<lparr>consumer_running := False\<rparr>\<rparr>"
  have r: "sys_reachable None ?y" using d sys_next sys_steps(15) by (auto simp: demo_state_def)
  obtain n where "sys_consumer ((do_consume ^^ n) ?y) = C_Stopped" using consumer_terminates [OF r] by auto
  moreover have "sys_log ?y \<noteq> []" using d by (simp add: demo_state_def)
  ultimately show ?thesis using r by blast
qed

text \<open>
  (C32) The last scan can miss an event.  Whenever the consumer has finished a scan that
  found nothing and a registered thread may emit, there is a continuation in which that
  thread emits an event before the stop request, the consumer then stops, and the event
  stays in its queue for ever.  The loss is not silent: the transport equation fails, so the
  trace is reported as degraded.
\<close>

theorem last_scan_misses_event:
  assumes "sys_reachable env y" and "sys_consumer y = C_Scan n n False" and "sys_app y u = A_Idle"
    and "tls_context (sys_tls y u) = Some c" and "\<not> tls_internal_thread (sys_tls y u)" and "accept_events (sys_rt y)"
    and "length (queued y c) < SPSC_RING_CAPACITY" and "length (sys_made y) + 2 < 2 ^ 64"
  shows "\<exists>y' e. sys_step\<^sup>*\<^sup>* y y' \<and> sys_consumer y' = C_Stopped \<and> e \<in> set (made_at y' c) \<and> e \<in> set (queued y' c) \<and>
    (\<forall>z. sys_step\<^sup>*\<^sup>* y' z \<longrightarrow> sys_log z = sys_log y) \<and> \<not> trace_complete (sys_rt y')"
proof -
  obtain y' e where y': "sys_step\<^sup>*\<^sup>* y y'" "sys_consumer y' = C_Stopped" "queued y' c = queued y c @ [e]"
    "e \<in> set (made_at y' c)" "length (sys_made y') \<le> length (sys_made y) + 2" "sys_log y' = sys_log y"
    "cx_active (thread_contexts (sys_rt y') ! c)" "c < 16"
    using late_event_lost [OF assms(1-7)] .
  have inv: "sys_inv y'" using reachable_inv [OF reachable_runs [OF y'(1) assms(1)]] by simp
  have "in_flight y' c \<noteq> 0" using y'(3,7) by (simp add: in_flight_def)
  then have "\<not> transport_consistent (sys_rt y')" using consistent_iff [OF inv] y'(5,8) assms(8) by auto
  with y' stopped_forever show ?thesis by (intro exI [of _ y'] exI [of _ e]) (auto simp: trace_complete_def)
qed

theorem last_scan_misses_event_witness:
  "\<exists>y e. sys_reachable None y \<and> sys_consumer y = C_Stopped \<and> e \<in> set (made_at y 0) \<and> \<not> trace_complete (sys_rt y)"
proof -
  obtain y where d: "demo_state y" using demo_run by blast
  then have y: "sys_reachable None y" "sys_consumer y = C_Scan 1 1 False" "sys_app y 0 = A_Idle"
    "tls_context (sys_tls y 0) = Some 0" "\<not> tls_internal_thread (sys_tls y 0)" "accept_events (sys_rt y)"
    "length (queued y 0) < SPSC_RING_CAPACITY" "length (sys_made y) + 2 < 2 ^ 64"
    by (simp_all add: demo_state_def)
  from last_scan_misses_event [OF y] reachable_runs y(1) show ?thesis by blast
qed

section \<open>Calls\<close>

text \<open>
  (C33) Calls as runs.  Called by any idle thread, in any state, and not interrupted,
  \<^verbatim>\<open>monitor_runtime_emit\<close> with all it calls (the registration with its start event and the
  refusals included) is a run of the step relation, with the effect of the whole function on
  the shared state and the caller's thread-local variables, and none on the other threads and
  the consumer.  The same holds for the exit destructor of a thread whose key has a value.
\<close>

theorem calls_are_runs:
  assumes "sys_app y u = A_Idle"
  shows "(\<exists>y'. sys_step\<^sup>*\<^sup>* y y' \<and>
      effect u (monitor_runtime_emit type addr result tid rc start_clock clock (sys_tls y u, sys_rt y)) y y') \<and>
    (\<forall>c. tls_exit_value (sys_tls y u) = Some c \<longrightarrow> (\<exists>y'. sys_step\<^sup>*\<^sup>* y y' \<and>
      effect u (monitor_thread_exit_destructor clock (Some c) ((sys_tls y u)\<lparr>tls_exit_value := None\<rparr>, sys_rt y)) y y'))"
  using emit_runs [OF assms] destructor_runs [OF assms] quiet_call_effect by blast

text \<open>The first call of a thread: it registers, and both its events are in its queue.\<close>

theorem calls_are_runs_witness:
  "\<exists>y'. sys_step\<^sup>*\<^sup>* (started None runtime_boot) y' \<and> tls_context (sys_tls (started None runtime_boot) 0) = None \<and>
     tls_context (sys_tls y' 0) = Some 0 \<and> thread_contexts (sys_rt y') ! 0 = demo_context"
proof -
  let ?y = "started None runtime_boot"
  have y: "sys_app ?y 0 = A_Idle" "sys_tls ?y 0 = fresh_tls" "sys_rt ?y = snd (monitor_runtime_start None 0 0 runtime_boot)"
    by (simp_all add: started_def)
  obtain y' where "sys_step\<^sup>*\<^sup>* ?y y'"
    "effect 0 (monitor_runtime_emit MONITOR_EVENT_LOCK_REQUEST 64 0 11 0 (Some (0, 9)) (Some (0, 10)) (sys_tls ?y 0, sys_rt ?y)) ?y y'"
    using calls_are_runs [OF y(1)] by blast
  then show ?thesis unfolding y(2,3) demo_emit by (intro exI [of _ y']) (simp add: effect_def fresh_tls_def)
qed

text \<open>
  Failed start.  If creating the thread key or the consumer thread fails, the error
  code is returned, events stay disabled, and every later emission, whatever thread makes it,
  changes nothing.
\<close>

lemma failed_start_is_inert:
  assumes "key_rc \<noteq> 0 \<or> consumer_rc \<noteq> 0"
  shows "fst (monitor_runtime_start env key_rc consumer_rc rt) = (if key_rc \<noteq> 0 then key_rc else consumer_rc) \<and>
    \<not> accept_events (snd (monitor_runtime_start env key_rc consumer_rc rt)) \<and>
    monitor_runtime_emit type addr result tid rc sclk clock (tls, snd (monitor_runtime_start env key_rc consumer_rc rt)) =
      (tls, snd (monitor_runtime_start env key_rc consumer_rc rt))"
  using assms by (auto simp: monitor_runtime_start_def monitor_runtime_emit_def Let_def)

text \<open>
  Full runtime.  With all 16 slots taken an unregistered thread gets no context: its
  event is counted as unregistered, the thread remembers the failure, and nothing else
  changes; since the counter was below its maximum, the trace is no longer complete.
\<close>

theorem registration_refused:
  assumes "accept_events rt" and "\<not> tls_internal_thread tls" and "tls_context tls = None"
    and "tls_registration_failed tls \<or> 16 \<le> next_thread_slot rt" and "unregistered_events rt \<noteq> -1"
  shows "monitor_runtime_emit type addr result tid rc sclk clock (tls, rt) =
      (tls\<lparr>tls_registration_failed := True\<rparr>, rt\<lparr>unregistered_events := unregistered_events rt + 1\<rparr>) \<and>
    \<not> trace_complete (snd (monitor_runtime_emit type addr result tid rc sclk clock (tls, rt)))"
proof -
  have "unregistered_events rt + 1 \<noteq> 0" using assms(5) by (metis add_eq_0_iff2)
  moreover have "tls\<lparr>tls_registration_failed := True\<rparr> = tls" if "tls_registration_failed tls" using that by simp
  ultimately show ?thesis
    using assms(1-4)
    by (cases "tls_registration_failed tls")
       (auto simp: monitor_runtime_emit_def register_current_thread_def claim_thread_slot_def
         count_unregistered_def trace_complete_def)
qed

theorem registration_refused_witness:
  "unregistered_events (snd (monitor_runtime_emit MONITOR_EVENT_LOCK_REQUEST 64 0 11 0 None None
     (fresh_tls, runtime_boot\<lparr>accept_events := True, next_thread_slot := 16\<rparr>))) = 1"
  using registration_refused [of "runtime_boot\<lparr>accept_events := True, next_thread_slot := 16\<rparr>" fresh_tls]
  by (simp add: fresh_tls_def runtime_boot_def)

section \<open>The report\<close>

lemma context_line_length: "length (context_line i c) \<le> 170"
  using fmt_lengths(2) [of "of_nat i"] fmt_lengths(1) [of "cx_thread_id c"] fmt_lengths(1) [of "cx_generated c"]
    fmt_lengths(1) [of "cx_consumed c"] fmt_lengths(1) [of "cx_dropped c"]
    fmt_lengths(1) [of "loss_ppm_of (cx_dropped c) (cx_generated c)"]
  by (simp add: context_line_def nl_def)

lemma append_last_fits:
  assumes "l \<noteq> []" and "length buffer + length l < bufsz"
  shows "append_last bufsz l buffer = buffer @ l"
proof -
  have "length buffer < bufsz - 1" "length l \<le> bufsz - length buffer - 1" using assms by (cases l; simp)+
  then show ?thesis using assms(1) by (simp add: append_last_def snprintf_def)
qed

lemma append_all_fit:
  assumes "\<forall>x \<in> set xs. line x \<noteq> []" and "length buffer + length (concat (map line xs)) < bufsz"
  shows "foldl (\<lambda>buffer x. append_last bufsz (line x) buffer) buffer xs = buffer @ concat (map line xs)"
  using assms
proof (induction xs arbitrary: buffer)
  case (Cons x xs)
  have "append_last bufsz (line x) buffer = buffer @ line x" using Cons.prems by (intro append_last_fits) auto
  moreover have "foldl (\<lambda>buffer x. append_last bufsz (line x) buffer) (buffer @ line x) xs = (buffer @ line x) @ concat (map line xs)"
    using Cons.prems by (intro Cons.IH) auto
  ultimately show ?case by simp
qed simp

lemma statistics_fit:
  assumes "unat (next_thread_slot rt) \<le> 16"
  shows "thread_statistics rt = (nl @ ''=== Per-thread transport statistics ==='' @ nl) @
    concat (map (\<lambda>(i, c). context_line i c) (registered_contexts rt))"
proof -
  let ?h = "nl @ ''=== Per-thread transport statistics ==='' @ nl" and ?f = "\<lambda>(i, c). context_line i c"
  have "length (registered_contexts rt) \<le> 16"
    unfolding registered_contexts_def using length_filter_le assms by (metis (no_types, lifting) diff_zero le_trans length_map length_upt)
  moreover have "length (concat (map ?f (registered_contexts rt))) \<le> 170 * length (map ?f (registered_contexts rt))"
    by (rule length_concat_le) (auto simp: context_line_length)
  moreover have h: "length ?h = 41" by (simp add: nl_def)
  ultimately have "length ?h + length (concat (map ?f (registered_contexts rt))) < 4096" by simp
  then have "foldl (\<lambda>buffer x. append_last 4096 (?f x) buffer) ?h (registered_contexts rt) = ?h @ concat (map ?f (registered_contexts rt))"
    by (intro append_all_fit) (auto simp: context_line_def)
  moreover have "snd (snprintf 4096 ?h) = ?h" using h by (simp add: snprintf_def)
  ultimately show ?thesis by (simp add: thread_statistics_def case_prod_unfold)
qed

lemma transport_text_fits: "length (transport_summary_text rt) < 1536"
  using fmt_lengths(2) [of "of_nat (length (registered_contexts rt))"] fmt_lengths(2) [of 16] fmt_lengths(2) [of 2048]
    fmt_lengths(2) [of 64] fmt_lengths(1) [of "total_of cx_generated rt"] fmt_lengths(1) [of "total_of cx_consumed rt"]
    fmt_lengths(1) [of "total_of cx_dropped rt"]
    fmt_lengths(1) [of "loss_ppm_of (total_of cx_dropped rt) (total_of cx_generated rt)"]
    fmt_lengths(1) [of "unregistered_events rt"] fmt_lengths(1) [of "lifecycle_registration_failures rt"]
    fmt_lengths(1) [of 48] fmt_lengths(1) [of 98432] fmt_lengths(1) [of 98624]
  by (simp add: transport_summary_text_def nl_def)

text \<open>
  The report.  In every reachable state the buffers of the final report are large
  enough: the shutdown writes exactly three texts, none of them truncated: the header with
  one line per active context, the transport summary, and the verifier summary, which is
  given the verdict on the trace.
\<close>

theorem shutdown_report:
  assumes "sys_reachable env y"
  shows "stderr_writes (verifier (stop_summary (sys_rt y))) = stderr_writes (verifier (sys_rt y)) @
    [(nl @ ''=== Per-thread transport statistics ==='' @ nl) @
       concat (map (\<lambda>(i, c). context_line i c) (registered_contexts (sys_rt y))),
     transport_summary_text (sys_rt y),
     summary_text (trace_complete (sys_rt y)) (verifier (sys_rt y))]"
proof -
  let ?rt = "sys_rt y" and ?h = "nl @ ''=== Per-thread transport statistics ==='' @ nl"
  have n: "unat (next_thread_slot ?rt) \<le> 16" using reachable_inv [OF assms] by (simp add: sys_inv_def)
  have txteq: "summary_text b (s\<lparr>stderr_writes := w\<rparr>) = summary_text b s" for b s w
    by (simp add: summary_text_def total_violations_def verifier_complete_def)
  have "transport_summary_text ?rt \<noteq> []" and ne: "\<And>b s. summary_text b s \<noteq> []"
    by (simp_all add: transport_summary_text_def summary_text_def nl_def)
  note w = snprintf_write_fits [OF this(1) transport_text_fits] snprintf_write_fits [OF ne summary_fits]
  show ?thesis
    by (simp add: stop_summary_def print_transport_summary_def monitor_verifier_print_summary_def Let_def
        statistics_fit [OF n] w txteq nl_def)
qed

theorem shutdown_report_witness:
  "\<exists>y. sys_reachable None y \<and> length (stderr_writes (verifier (stop_summary (sys_rt y)))) =
     length (stderr_writes (verifier (sys_rt y))) + 3"
proof -
  obtain y where "demo_state y" using demo_run by blast
  then have r: "sys_reachable None y" by (simp add: demo_state_def)
  from shutdown_report [OF r] r show ?thesis by (intro exI [of _ y]) simp
qed

end
