(* ===== verification/Interceptor.thy ===== *)
theory Interceptor
  imports Runtime
begin

text \<open>
  \<^verbatim>\<open>src/interceptor.c\<close>: the wrappers of \<open>pthread_mutex_lock\<close> and
  \<open>pthread_mutex_unlock\<close> that are loaded before the C library's, with the library's
  constructor and destructor.  The real functions and what \<^verbatim>\<open>dlsym\<close> answers are
  arguments.  The section after the definitions states what the wrappers need of the
  runtime as a locale and shows that the runtime provides it.
\<close>

section \<open>State\<close>

text \<open>
  A real pthread function takes the address of a mutex and the state of the C library, an
  arbitrary type, and returns its result code.  \<^const>\<open>None\<close> is the null pointer.
\<close>

type_synonym 'w real_fn = "uintptr \<Rightarrow> 'w \<Rightarrow> i32 \<times> 'w"

record 'w interceptor_state =
  real_pthread_mutex_lock :: "'w real_fn option"
  real_pthread_mutex_unlock :: "'w real_fn option"
  runtime_started :: bool
  monitor_debug_enabled :: bool
  debug_event_count :: u64
  runtime :: runtime_state

text \<open>The calling thread: its \<open>monitor_internal\<close> flag and the runtime's thread-local variables.\<close>

record interceptor_thread =
  monitor_internal :: i32
  runtime_tls :: thread_local

text \<open>What the operating system answers while an event is emitted.\<close>

record os_reply =
  os_tid :: u64
  os_setspecific_rc :: i32
  os_start_clock :: "(u64 \<times> u64) option"
  os_clock :: "(u64 \<times> u64) option"

text \<open>What the two \<^verbatim>\<open>dlsym\<close> calls and the \<^verbatim>\<open>dlerror\<close> calls after them return.\<close>

record 'w dl_reply =
  dl_lock :: "'w real_fn option"
  dl_lock_error :: bool
  dl_unlock :: "'w real_fn option"
  dl_unlock_error :: bool

definition write_stderr :: "string \<Rightarrow> 'w interceptor_state \<Rightarrow> 'w interceptor_state" where
  "write_stderr message s =
     s\<lparr>runtime := (runtime s)\<lparr>verifier := (verifier (runtime s))
         \<lparr>stderr_writes := stderr_writes (verifier (runtime s)) @ [message]\<rparr>\<rparr>\<rparr>"

section \<open>Debug output\<close>

abbreviation MONITOR_DEBUG_LIMIT :: u64 where
  "MONITOR_DEBUG_LIMIT \<equiv> 64"

definition debug_text :: "u64 \<Rightarrow> string \<Rightarrow> uintptr \<Rightarrow> i32 \<Rightarrow> bool \<Rightarrow> string" where
  "debug_text tid event_name mutex result show_result =
     ''[monitor] tid='' @ fmt_int (sint tid) @ '' event='' @ event_name @ '' mutex='' @ fmt_p mutex @
     (if show_result then '' rc='' @ fmt_d result @ nl else nl)"

definition debug_event ::
    "string \<Rightarrow> uintptr \<Rightarrow> i32 \<Rightarrow> bool \<Rightarrow> os_reply \<Rightarrow> 'w interceptor_state \<Rightarrow> 'w interceptor_state" where
  "debug_event event_name mutex result show_result os s =
     (if \<not> monitor_debug_enabled s then s
      else let index = debug_event_count s;
               s1 = s\<lparr>debug_event_count := debug_event_count s + 1\<rparr>
           in if MONITOR_DEBUG_LIMIT \<le> index then s1
              else s1\<lparr>runtime := (runtime s1)\<lparr>verifier := (verifier (runtime s1))\<lparr>stderr_writes :=
                     snprintf_write 256 (debug_text (os_tid os) event_name mutex result show_result)
                       (stderr_writes (verifier (runtime s1)))\<rparr>\<rparr>\<rparr>)"

section \<open>Resolution of the real functions\<close>

definition resolve_real_functions :: "'w dl_reply \<Rightarrow> 'w interceptor_state \<Rightarrow> bool \<times> 'w interceptor_state" where
  "resolve_real_functions dl s =
     (if dl_lock_error dl \<or> dl_unlock_error dl \<or> dl_lock dl = None \<or> dl_unlock dl = None
      then (False, write_stderr (''[monitor] ERROR: unable to resolve pthread mutex functions'' @ nl) s)
      else (True, s\<lparr>real_pthread_mutex_lock := dl_lock dl, real_pthread_mutex_unlock := dl_unlock dl\<rparr>))"

text \<open>
  The first block of both wrappers: resolve the functions if the pointer is still null.
  The result is the function to call; without one the process exits.
\<close>

definition real_function ::
    "('w interceptor_state \<Rightarrow> 'w real_fn option) \<Rightarrow> 'w dl_reply \<Rightarrow>
     interceptor_thread \<times> 'w interceptor_state \<Rightarrow> 'w real_fn option \<times> interceptor_thread \<times> 'w interceptor_state" where
  "real_function pointer dl p =
     (case p of (th, s) \<Rightarrow>
        (case pointer s of
           Some real \<Rightarrow> (Some real, th, s)
         | None \<Rightarrow>
             (case resolve_real_functions dl s of (resolved, s1) \<Rightarrow>
                (if \<not> resolved then None else pointer s1, th\<lparr>monitor_internal := 0\<rparr>, s1))))"

section \<open>Initialization\<close>

definition monitor_library_init ::
    "string option \<Rightarrow> 'w dl_reply \<Rightarrow> string option \<Rightarrow> i32 \<Rightarrow> i32 \<Rightarrow>
     interceptor_thread \<times> 'w interceptor_state \<Rightarrow> interceptor_thread \<times> 'w interceptor_state" where
  "monitor_library_init debug_environment dl hold_env key_rc consumer_rc p =
     (case p of (th, s) \<Rightarrow>
      let s1 = (if debug_environment \<noteq> None \<and> debug_environment \<noteq> Some ''0'' \<and> debug_environment \<noteq> Some []
                then s\<lparr>monitor_debug_enabled := True\<rparr> else s);
          s2 = s1\<lparr>debug_event_count := 0\<rparr>
      in case resolve_real_functions dl s2 of
           (False, s3) \<Rightarrow> (th\<lparr>monitor_internal := 0\<rparr>, s3)
         | (True, s3) \<Rightarrow>
             (case monitor_runtime_start hold_env key_rc consumer_rc (runtime s3) of (rc, rt) \<Rightarrow>
                let s4 = s3\<lparr>runtime := rt\<rparr>;
                    s5 = (if rc = 0 then s4\<lparr>runtime_started := True\<rparr>
                          else write_stderr (''[monitor] ERROR: monitor runtime could not be started'' @ nl) s4)
                in (th\<lparr>monitor_internal := 0\<rparr>, s5)))"

section \<open>The wrappers\<close>

definition emit_now ::
    "monitor_event_type \<Rightarrow> uintptr \<Rightarrow> i32 \<Rightarrow> os_reply \<Rightarrow>
     interceptor_thread \<times> 'w interceptor_state \<Rightarrow> interceptor_thread \<times> 'w interceptor_state" where
  "emit_now type mutex result os p =
     (case p of (th, s) \<Rightarrow>
        (case monitor_runtime_emit type mutex result (os_tid os) (os_setspecific_rc os) (os_start_clock os)
                (os_clock os) (runtime_tls th, runtime s) of
           (tls, rt) \<Rightarrow> (th\<lparr>runtime_tls := tls\<rparr>, s\<lparr>runtime := rt\<rparr>)))"

text \<open>One monitored report: the flag up, the debug line, the event, the flag down.\<close>

definition report_event ::
    "string \<Rightarrow> monitor_event_type \<Rightarrow> uintptr \<Rightarrow> i32 \<Rightarrow> bool \<Rightarrow> os_reply \<Rightarrow>
     interceptor_thread \<times> 'w interceptor_state \<Rightarrow> interceptor_thread \<times> 'w interceptor_state" where
  "report_event event_name type mutex result show_result os p =
     (case p of (th, s) \<Rightarrow>
        (case emit_now type mutex result os
                (th\<lparr>monitor_internal := 1\<rparr>, debug_event event_name mutex result show_result os s) of
           (th1, s1) \<Rightarrow> (th1\<lparr>monitor_internal := 0\<rparr>, s1)))"

definition lock_request ::
    "uintptr \<Rightarrow> os_reply \<Rightarrow> interceptor_thread \<times> 'w interceptor_state \<Rightarrow> interceptor_thread \<times> 'w interceptor_state" where
  "lock_request mutex os p = report_event ''LOCK_REQUEST'' MONITOR_EVENT_LOCK_REQUEST mutex 0 False os p"

definition lock_result ::
    "uintptr \<Rightarrow> i32 \<Rightarrow> os_reply \<Rightarrow> interceptor_thread \<times> 'w interceptor_state \<Rightarrow>
     interceptor_thread \<times> 'w interceptor_state" where
  "lock_result mutex rc os p =
     (if rc = 0 then report_event ''LOCK_ACQUIRED'' MONITOR_EVENT_LOCK_ACQUIRED mutex rc True os p
      else report_event ''LOCK_FAILED'' MONITOR_EVENT_LOCK_FAILED mutex rc True os p)"

definition unlock_result ::
    "uintptr \<Rightarrow> i32 \<Rightarrow> os_reply \<Rightarrow> interceptor_thread \<times> 'w interceptor_state \<Rightarrow>
     interceptor_thread \<times> 'w interceptor_state" where
  "unlock_result mutex rc os p =
     (if rc = 0 then report_event ''UNLOCKED'' MONITOR_EVENT_UNLOCKED mutex rc True os p
      else report_event ''UNLOCK_FAILED'' MONITOR_EVENT_UNLOCK_FAILED mutex rc True os p)"

datatype outcome = Returned i32 | Exited i32

text \<open>
  While the real call runs (it may block) the other threads go on: \<open>others\<close> is what
  they do to the shared state.
\<close>

definition pthread_mutex_lock ::
    "'w dl_reply \<Rightarrow> os_reply \<Rightarrow> os_reply \<Rightarrow> ('w interceptor_state \<Rightarrow> 'w interceptor_state) \<Rightarrow> uintptr \<Rightarrow>
     (interceptor_thread \<times> 'w interceptor_state) \<times> 'w \<Rightarrow> outcome \<times> (interceptor_thread \<times> 'w interceptor_state) \<times> 'w" where
  "pthread_mutex_lock dl os1 os2 others mutex q =
     (case q of (p, w) \<Rightarrow>
        (case real_function real_pthread_mutex_lock dl p of
           (None, p1) \<Rightarrow> (Exited 127, p1, w)
         | (Some real, th, s) \<Rightarrow>
             if monitor_internal th \<noteq> 0 \<or> monitor_runtime_is_internal_thread (runtime_tls th)
             then (case real mutex w of (rc, w1) \<Rightarrow> (Returned rc, (th, s), w1))
             else (case lock_request mutex os1 (th, s) of (th1, s1) \<Rightarrow>
                    (case real mutex w of (rc, w1) \<Rightarrow>
                       (Returned rc, lock_result mutex rc os2 (th1, others s1), w1)))))"

definition pthread_mutex_unlock ::
    "'w dl_reply \<Rightarrow> os_reply \<Rightarrow> ('w interceptor_state \<Rightarrow> 'w interceptor_state) \<Rightarrow> uintptr \<Rightarrow>
     (interceptor_thread \<times> 'w interceptor_state) \<times> 'w \<Rightarrow> outcome \<times> (interceptor_thread \<times> 'w interceptor_state) \<times> 'w" where
  "pthread_mutex_unlock dl os others mutex q =
     (case q of (p, w) \<Rightarrow>
        (case real_function real_pthread_mutex_unlock dl p of
           (None, p1) \<Rightarrow> (Exited 127, p1, w)
         | (Some real, th, s) \<Rightarrow>
             if monitor_internal th \<noteq> 0 \<or> monitor_runtime_is_internal_thread (runtime_tls th)
             then (case real mutex w of (rc, w1) \<Rightarrow> (Returned rc, (th, s), w1))
             else (case real mutex w of (rc, w1) \<Rightarrow>
                     (Returned rc, unlock_result mutex rc os (th, others s), w1))))"

section \<open>Shutdown\<close>

definition monitor_library_destroy ::
    "(runtime_state \<Rightarrow> runtime_state) \<Rightarrow> interceptor_thread \<times> 'w interceptor_state \<Rightarrow>
     interceptor_thread \<times> 'w interceptor_state" where
  "monitor_library_destroy join_consumer p =
     (case p of (th, s) \<Rightarrow>
      let s1 = s\<lparr>monitor_debug_enabled := False\<rparr>
      in (th\<lparr>monitor_internal := 1\<rparr>,
          if runtime_started s1
          then s1\<lparr>runtime := monitor_runtime_stop join_consumer (runtime s1), runtime_started := False\<rparr>
          else s1))"

section \<open>What the wrappers need of the runtime\<close>

text \<open>
  The interface between the wrappers and the event transport: \<open>stream\<close> is what the
  calling thread has put into the transport, \<open>ready n\<close> that the next \<open>n\<close> events will
  be taken, \<open>quiet\<close> relates states that differ in nothing the transport looks at.
\<close>

locale event_emitter =
  fixes emit :: "monitor_event_type \<Rightarrow> uintptr \<Rightarrow> i32 \<Rightarrow> 'o \<Rightarrow> 'p \<Rightarrow> 'p"
    and stream :: "'p \<Rightarrow> monitor_event list"
    and ready :: "nat \<Rightarrow> 'p \<Rightarrow> bool"
    and quiet :: "'p \<Rightarrow> 'p \<Rightarrow> bool"
  assumes emit_ready: "ready (Suc n) p \<Longrightarrow> ready n (emit k a r x p)"
    and emit_stream: "ready (Suc n) p \<Longrightarrow>
      \<exists>e. stream (emit k a r x p) = stream p @ [e] \<and> ev_event_type e = event_code k \<and> ev_object_address e = a \<and> ev_result e = r"
    and quiet_stream: "quiet p p' \<Longrightarrow> stream p' = stream p"
    and quiet_ready: "quiet p p' \<Longrightarrow> ready n p \<Longrightarrow> ready n p'"
begin

lemma report:
  assumes "ready (Suc n) p" and "quiet p p1" and "quiet (emit k a r x p1) p2"
  shows "ready n p2"
    and "\<exists>e. stream p2 = stream p @ [e] \<and> ev_event_type e = event_code k \<and> ev_object_address e = a \<and> ev_result e = r"
proof -
  have r1: "ready (Suc n) p1" using quiet_ready [OF assms(2,1)] .
  show "ready n p2" using quiet_ready [OF assms(3) emit_ready [OF r1]] .
  show "\<exists>e. stream p2 = stream p @ [e] \<and> ev_event_type e = event_code k \<and> ev_object_address e = a \<and> ev_result e = r"
    using emit_stream [OF r1, of k a r x] quiet_stream [OF assms(2)] quiet_stream [OF assms(3)] by simp
qed

end

text \<open>The runtime as such a transport, for a thread that has registered.\<close>

definition own_queue :: "interceptor_thread \<times> 'w interceptor_state \<Rightarrow> spsc_ring_buffer" where
  "own_queue p = (case p of (th, s) \<Rightarrow>
     (case tls_context (runtime_tls th) of
        None \<Rightarrow> zero_ring_buffer | Some c \<Rightarrow> cx_queue (thread_contexts (runtime s) ! c)))"

definition own_stream :: "interceptor_thread \<times> 'w interceptor_state \<Rightarrow> monitor_event list" where
  "own_stream p = ring_contents (own_queue p)"

definition own_ready :: "nat \<Rightarrow> interceptor_thread \<times> 'w interceptor_state \<Rightarrow> bool" where
  "own_ready n p \<longleftrightarrow> (case p of (th, s) \<Rightarrow>
     accept_events (runtime s) \<and> \<not> tls_internal_thread (runtime_tls th) \<and>
     (case tls_context (runtime_tls th) of None \<Rightarrow> False | Some c \<Rightarrow> c < length (thread_contexts (runtime s))) \<and>
     ring_inv (own_queue p) \<and> length (own_stream p) + n \<le> SPSC_RING_CAPACITY)"

definition same_transport ::
    "interceptor_thread \<times> 'w interceptor_state \<Rightarrow> interceptor_thread \<times> 'w interceptor_state \<Rightarrow> bool" where
  "same_transport p p' \<longleftrightarrow>
     runtime_tls (fst p') = runtime_tls (fst p) \<and>
     thread_contexts (runtime (snd p')) = thread_contexts (runtime (snd p)) \<and>
     accept_events (runtime (snd p')) = accept_events (runtime (snd p))"

lemma emit_known_context:
  assumes "accept_events rt" and "\<not> tls_internal_thread tls" and "tls_context tls = Some c"
  shows "monitor_runtime_emit type addr result tid rc sclk clock (tls, rt) =
    (tls, emit_event_to_context c type addr result clock rt)"
  using assms by (simp add: monitor_runtime_emit_def register_current_thread_def)

lemma emit_context_room:
  assumes c: "c < length (thread_contexts rt)" and inv: "ring_inv (cx_queue (thread_contexts rt ! c))"
    and room: "length (ring_contents (cx_queue (thread_contexts rt ! c))) < SPSC_RING_CAPACITY"
  shows "\<exists>e. ring_contents (cx_queue (thread_contexts (emit_event_to_context c type addr result clock rt) ! c)) =
      ring_contents (cx_queue (thread_contexts rt ! c)) @ [e] \<and>
      ev_event_type e = event_code type \<and> ev_object_address e = addr \<and> ev_result e = result"
    and "ring_inv (cx_queue (thread_contexts (emit_event_to_context c type addr result clock rt) ! c))"
    and "length (thread_contexts (emit_event_to_context c type addr result clock rt)) = length (thread_contexts rt)"
    and "accept_events (emit_event_to_context c type addr result clock rt) = accept_events rt"
proof -
  obtain e rt1 where res: "reserve_event c type addr result clock rt = (e, rt1)"
    by (cases "reserve_event c type addr result clock rt")
  then have e: "ev_event_type e = event_code type" "ev_object_address e = addr" "ev_result e = result"
    and rt1: "cx_queue (thread_contexts rt1 ! c) = cx_queue (thread_contexts rt ! c)"
      "length (thread_contexts rt1) = length (thread_contexts rt)" "accept_events rt1 = accept_events rt"
    using c by (auto simp: reserve_event_def upd_context_def Let_def)
  obtain q where q: "spsc_ring_buffer_try_push (cx_queue (thread_contexts rt ! c)) e = (True, q)" "ring_inv q"
    "ring_contents q = ring_contents (cx_queue (thread_contexts rt ! c)) @ [e]"
    using ring.push_room [OF inv room] by blast
  note simps = emit_event_to_context_def res push_event_def upd_context_def rt1 q
  show "\<exists>e. ring_contents (cx_queue (thread_contexts (emit_event_to_context c type addr result clock rt) ! c)) =
      ring_contents (cx_queue (thread_contexts rt ! c)) @ [e] \<and>
      ev_event_type e = event_code type \<and> ev_object_address e = addr \<and> ev_result e = result"
    using c e by (simp add: simps)
  show "ring_inv (cx_queue (thread_contexts (emit_event_to_context c type addr result clock rt) ! c))"
    "length (thread_contexts (emit_event_to_context c type addr result clock rt)) = length (thread_contexts rt)"
    "accept_events (emit_event_to_context c type addr result clock rt) = accept_events rt"
    using c by (simp_all add: simps)
qed

lemma emit_now_ready:
  fixes p :: "interceptor_thread \<times> 'w interceptor_state"
  assumes r: "own_ready (Suc n) p"
  shows "own_ready n (emit_now k a r x p)"
    and "\<exists>e. own_stream (emit_now k a r x p) = own_stream p @ [e] \<and> ev_event_type e = event_code k \<and>
      ev_object_address e = a \<and> ev_result e = r"
proof -
  obtain th s where p: "p = (th, s)" by (cases p)
  from r obtain c where c: "tls_context (runtime_tls th) = Some c" "c < length (thread_contexts (runtime s))"
    and a: "accept_events (runtime s)" "\<not> tls_internal_thread (runtime_tls th)"
    and q: "ring_inv (cx_queue (thread_contexts (runtime s) ! c))"
      "length (ring_contents (cx_queue (thread_contexts (runtime s) ! c))) + Suc n \<le> SPSC_RING_CAPACITY"
    by (auto simp: own_ready_def p own_stream_def own_queue_def split: option.splits)
  have room: "length (ring_contents (cx_queue (thread_contexts (runtime s) ! c))) < SPSC_RING_CAPACITY" using q(2) by simp
  note e = emit_context_room [OF c(2) q(1) room, of k a r "os_clock x"]
  have em: "emit_now k a r x p = (th, s\<lparr>runtime := emit_event_to_context c k a r (os_clock x) (runtime s)\<rparr>)"
    by (simp add: emit_now_def p emit_known_context [OF a c(1)])
  show s: "\<exists>e. own_stream (emit_now k a r x p) = own_stream p @ [e] \<and> ev_event_type e = event_code k \<and>
      ev_object_address e = a \<and> ev_result e = r"
    using e(1) c(1) unfolding em by (simp add: own_stream_def own_queue_def p)
  then have "length (own_stream (emit_now k a r x p)) = Suc (length (own_stream p))" by auto
  moreover have "length (own_stream p) + Suc n \<le> SPSC_RING_CAPACITY" using q(2) c(1) by (simp add: own_stream_def own_queue_def p)
  ultimately have len: "length (own_stream (emit_now k a r x p)) + n \<le> SPSC_RING_CAPACITY" by simp
  show "own_ready n (emit_now k a r x p)"
    using len e(2-4) c a by (simp add: own_ready_def em) (simp add: own_queue_def)
qed

interpretation transport: event_emitter
  "emit_now :: monitor_event_type \<Rightarrow> uintptr \<Rightarrow> i32 \<Rightarrow> os_reply \<Rightarrow> interceptor_thread \<times> 'w interceptor_state \<Rightarrow> interceptor_thread \<times> 'w interceptor_state"
  own_stream own_ready same_transport
proof
  fix p p' :: "interceptor_thread \<times> 'w interceptor_state" and n k a r x
  show "own_ready (Suc n) p \<Longrightarrow> own_ready n (emit_now k a r x p)" by (rule emit_now_ready)
  show "own_ready (Suc n) p \<Longrightarrow>
      \<exists>e. own_stream (emit_now k a r x p) = own_stream p @ [e] \<and> ev_event_type e = event_code k \<and> ev_object_address e = a \<and> ev_result e = r"
    by (rule emit_now_ready)
  show s: "own_stream p' = own_stream p" if "same_transport p p'"
    using that by (auto simp: same_transport_def own_stream_def own_queue_def split: prod.splits option.splits)
  show "own_ready n p'" if "same_transport p p'" "own_ready n p"
    using that s [OF that(1)] by (auto simp: same_transport_def own_ready_def own_queue_def split: prod.splits option.splits)
qed

lemma debug_event_quiet: "same_transport (th, s) (th\<lparr>monitor_internal := v\<rparr>, debug_event name mutex result show os s)"
  by (simp add: same_transport_def debug_event_def Let_def)

lemma report_event_stream:
  fixes p :: "interceptor_thread \<times> 'w interceptor_state"
  assumes "own_ready (Suc n) p"
  shows "own_ready n (report_event name k a r show os p)"
    and "\<exists>e. own_stream (report_event name k a r show os p) = own_stream p @ [e] \<and> ev_event_type e = event_code k \<and>
      ev_object_address e = a \<and> ev_result e = r"
proof -
  obtain th s where p: "p = (th, s)" by (cases p)
  let ?p1 = "(th\<lparr>monitor_internal := 1\<rparr>, debug_event name a r show os s)"
  have q1: "same_transport p ?p1" unfolding p by (rule debug_event_quiet)
  have q2: "same_transport (emit_now k a r os ?p1) (report_event name k a r show os p)"
    by (simp add: report_event_def p same_transport_def split: prod.splits)
  show "own_ready n (report_event name k a r show os p)"
    "\<exists>e. own_stream (report_event name k a r show os p) = own_stream p @ [e] \<and> ev_event_type e = event_code k \<and>
      ev_object_address e = a \<and> ev_result e = r"
    using transport.report [OF assms q1 q2] by blast+
qed

lemma lock_request_stream:
  assumes "own_ready (Suc n) p"
  shows "own_ready n (lock_request a os p)"
    and "\<exists>e. own_stream (lock_request a os p) = own_stream p @ [e] \<and>
      ev_event_type e = event_code MONITOR_EVENT_LOCK_REQUEST \<and> ev_object_address e = a \<and> ev_result e = 0"
  unfolding lock_request_def by (rule report_event_stream [OF assms])+

lemma lock_result_stream:
  assumes "own_ready (Suc n) p"
  shows "\<exists>e. own_stream (lock_result a rc os p) = own_stream p @ [e] \<and>
    ev_event_type e = event_code (if rc = 0 then MONITOR_EVENT_LOCK_ACQUIRED else MONITOR_EVENT_LOCK_FAILED) \<and>
    ev_object_address e = a \<and> ev_result e = rc"
proof (cases "rc = 0")
  case True
  show ?thesis unfolding lock_result_def if_P [OF True] by (rule report_event_stream(2) [OF assms])
next
  case False
  show ?thesis unfolding lock_result_def if_not_P [OF False] by (rule report_event_stream(2) [OF assms])
qed

lemma unlock_result_stream:
  assumes "own_ready (Suc n) p"
  shows "\<exists>e. own_stream (unlock_result a rc os p) = own_stream p @ [e] \<and>
    ev_event_type e = event_code (if rc = 0 then MONITOR_EVENT_UNLOCKED else MONITOR_EVENT_UNLOCK_FAILED) \<and>
    ev_object_address e = a \<and> ev_result e = rc"
proof (cases "rc = 0")
  case True
  show ?thesis unfolding unlock_result_def if_P [OF True] by (rule report_event_stream(2) [OF assms])
next
  case False
  show ?thesis unfolding unlock_result_def if_not_P [OF False] by (rule report_event_stream(2) [OF assms])
qed

end
