(* ===== verification/Interceptor_Properties.thy ===== *)
theory Interceptor_Properties
  imports Interceptor
begin

text \<open>
  Properties of \<^verbatim>\<open>src/interceptor.c\<close>: transparency for the application, no
  observation of the monitor itself, what a monitored call reports, bounded debug output and
  the life cycle of the library.
\<close>

section \<open>Transparency\<close>

text \<open>
  (C34) Transparency.  Whatever the monitor does around it, the application gets the result
  code of the real function and the C library sees exactly the one real call: result and
  effect of the wrappers on the world are those of the resolved function.  If the functions
  cannot be resolved, the process ends with status 127 and the real functions are not called.
\<close>

theorem interceptor_transparent:
  fixes q :: "interceptor_thread \<times> 'w interceptor_state"
  shows "(case fst (real_function real_pthread_mutex_lock dl q) of
       None \<Rightarrow> fst (pthread_mutex_lock dl os1 os2 others mutex (q, w)) = Exited 127 \<and>
         snd (snd (pthread_mutex_lock dl os1 os2 others mutex (q, w))) = w
     | Some real \<Rightarrow> fst (pthread_mutex_lock dl os1 os2 others mutex (q, w)) = Returned (fst (real mutex w)) \<and>
         snd (snd (pthread_mutex_lock dl os1 os2 others mutex (q, w))) = snd (real mutex w)) \<and>
    (case fst (real_function real_pthread_mutex_unlock dl q) of
       None \<Rightarrow> fst (pthread_mutex_unlock dl os1 others mutex (q, w)) = Exited 127 \<and>
         snd (snd (pthread_mutex_unlock dl os1 others mutex (q, w))) = w
     | Some real \<Rightarrow> fst (pthread_mutex_unlock dl os1 others mutex (q, w)) = Returned (fst (real mutex w)) \<and>
         snd (snd (pthread_mutex_unlock dl os1 others mutex (q, w))) = snd (real mutex w))"
  by (auto simp: pthread_mutex_lock_def pthread_mutex_unlock_def split: option.splits prod.splits)

text \<open>
  No self-observation.  With the real functions resolved, a call from the monitor's
  own thread, or from inside the monitor (\<open>monitor_internal\<close> set), is passed on without any
  change to the monitor's state: no event, no debug line, no registration.
\<close>

lemma internal_calls_bypass:
  assumes "monitor_internal th \<noteq> 0 \<or> tls_internal_thread (runtime_tls th)"
    and "real_pthread_mutex_lock s = Some lock" and "real_pthread_mutex_unlock s = Some unlock"
  shows "pthread_mutex_lock dl os1 os2 others mutex ((th, s), w) =
      (Returned (fst (lock mutex w)), (th, s), snd (lock mutex w)) \<and>
    pthread_mutex_unlock dl os1 others mutex ((th, s), w) =
      (Returned (fst (unlock mutex w)), (th, s), snd (unlock mutex w))"
  using assms by (auto simp: pthread_mutex_lock_def pthread_mutex_unlock_def real_function_def
      monitor_runtime_is_internal_thread_def split: prod.splits)

definition plain_lock :: "(uintptr \<Rightarrow> bool) real_fn" where
  "plain_lock mutex w = (if w mutex then (35, w) else (0, w(mutex := True)))"

definition plain_unlock :: "(uintptr \<Rightarrow> bool) real_fn" where
  "plain_unlock mutex w = (if w mutex then (0, w(mutex := False)) else (1, w))"

definition plain_dl :: "(uintptr \<Rightarrow> bool) dl_reply" where
  "plain_dl = \<lparr>dl_lock = Some plain_lock, dl_lock_error = False, dl_unlock = Some plain_unlock, dl_unlock_error = False\<rparr>"

definition plain_os :: os_reply where
  "plain_os = \<lparr>os_tid = 11, os_setspecific_rc = 0, os_start_clock = None, os_clock = Some (0, 7)\<rparr>"

text \<open>A loaded interceptor with one registered thread, for the concrete instances.\<close>

definition plain_runtime :: runtime_state where
  "plain_runtime =
     \<lparr>thread_contexts = [zero_context\<lparr>cx_active := True, cx_thread_id := 11\<rparr>], next_thread_slot = 1, global_sequence = 0,
      unregistered_events = 0, lifecycle_registration_failures = 0, accept_events = True, consumer_running = True,
      thread_exit_key_ready = True,
      verifier = \<lparr>thread_states = [], mutex_states = [], processed_events = 0, deadlock_cycle_violations = 0,
        non_owner_unlock_violations = 0, self_deadlock_candidates = 0, lock_held_at_exit_violations = 0,
        hold_time_violations = 0, state_overflow_events = 0, detected_stream_gaps = 0, tainted_thread_streams = 0,
        max_hold_ns = 0, waiting_thread_count = 0, candidate_cycle_mask = 0, candidate_cycle_confirmations = 0,
        reported_cycle_mask = 0, last_processed_sequence = 0, stderr_writes = []\<rparr>\<rparr>"

definition plain_state :: "(uintptr \<Rightarrow> bool) interceptor_state" where
  "plain_state = \<lparr>real_pthread_mutex_lock = Some plain_lock, real_pthread_mutex_unlock = Some plain_unlock,
     runtime_started = True, monitor_debug_enabled = True, debug_event_count = 0, runtime = plain_runtime\<rparr>"

definition plain_thread :: interceptor_thread where
  "plain_thread = \<lparr>monitor_internal = 0, runtime_tls = fresh_tls\<lparr>tls_context := Some 0\<rparr>\<rparr>"

section \<open>What is reported\<close>

text \<open>
  (C35) Reports of a monitored call.  A registered thread's lock call puts the request into
  its stream before the real call starts, and afterwards, on top of whatever the other
  threads and the consumer have done meanwhile, the acquisition (result 0) or the failure with
  the result code; an unlock call reports after the real call.  All carry the mutex address,
  and the guard flag is down at the end.
\<close>

theorem monitored_calls_report:
  fixes s :: "'w interceptor_state"
  assumes "real_pthread_mutex_lock s = Some lock" and "real_pthread_mutex_unlock s = Some unlock"
    and "monitor_internal th = 0" and "own_ready 1 (th, s)"
    and "lock_request mutex os1 (th, s) = (th1, s1)" and "own_ready 1 (th1, others s1)" and "own_ready 1 (th, others s)"
    and "pthread_mutex_lock dl os1 os2 others mutex ((th, s), w) = (res, p, w1)"
    and "pthread_mutex_unlock dl os1 others mutex ((th, s), w) = (ures, up, uw)"
  shows "\<exists>e1 e2 e3.
    own_stream (th1, s1) = own_stream (th, s) @ [e1] \<and>
      ev_event_type e1 = event_code MONITOR_EVENT_LOCK_REQUEST \<and> ev_object_address e1 = mutex \<and>
    own_stream p = own_stream (th1, others s1) @ [e2] \<and>
      ev_event_type e2 = event_code (if fst (lock mutex w) = 0 then MONITOR_EVENT_LOCK_ACQUIRED else MONITOR_EVENT_LOCK_FAILED) \<and>
      ev_object_address e2 = mutex \<and> ev_result e2 = fst (lock mutex w) \<and> monitor_internal (fst p) = 0 \<and>
    own_stream up = own_stream (th, others s) @ [e3] \<and>
      ev_event_type e3 = event_code (if fst (unlock mutex w) = 0 then MONITOR_EVENT_UNLOCKED else MONITOR_EVENT_UNLOCK_FAILED) \<and>
      ev_object_address e3 = mutex \<and> ev_result e3 = fst (unlock mutex w) \<and> monitor_internal (fst up) = 0"
proof -
  have int: "\<not> monitor_runtime_is_internal_thread (runtime_tls th)"
    using assms(4) by (simp add: own_ready_def monitor_runtime_is_internal_thread_def)
  have flag: "monitor_internal (fst (report_event name k a r b x z)) = 0"
    for name k a r b x and z :: "interceptor_thread \<times> 'w interceptor_state"
    by (simp add: report_event_def split: prod.splits)
  have p: "p = lock_result mutex (fst (lock mutex w)) os2 (th1, others s1)"
    using assms(1,3,5,8) int by (auto simp: pthread_mutex_lock_def real_function_def split: prod.splits)
  have up: "up = unlock_result mutex (fst (unlock mutex w)) os1 (th, others s)"
    using assms(2,3,9) int by (auto simp: pthread_mutex_unlock_def real_function_def split: prod.splits)
  have r: "own_ready (Suc 0) (th, s)" "own_ready (Suc 0) (th1, others s1)" "own_ready (Suc 0) (th, others s)"
    using assms(4,6,7) by simp_all
  obtain e1 where e1: "own_stream (th1, s1) = own_stream (th, s) @ [e1]"
    "ev_event_type e1 = event_code MONITOR_EVENT_LOCK_REQUEST" "ev_object_address e1 = mutex"
    using lock_request_stream(2) [OF r(1), of mutex os1] unfolding assms(5) by blast
  obtain e2 where e2: "own_stream p = own_stream (th1, others s1) @ [e2]"
      "ev_event_type e2 = event_code (if fst (lock mutex w) = 0 then MONITOR_EVENT_LOCK_ACQUIRED else MONITOR_EVENT_LOCK_FAILED)"
      "ev_object_address e2 = mutex" "ev_result e2 = fst (lock mutex w)"
    using lock_result_stream [OF r(2), of mutex "fst (lock mutex w)" os2] unfolding p by blast
  obtain e3 where e3: "own_stream up = own_stream (th, others s) @ [e3]"
      "ev_event_type e3 = event_code (if fst (unlock mutex w) = 0 then MONITOR_EVENT_UNLOCKED else MONITOR_EVENT_UNLOCK_FAILED)"
      "ev_object_address e3 = mutex" "ev_result e3 = fst (unlock mutex w)"
    using unlock_result_stream [OF r(3), of mutex "fst (unlock mutex w)" os1] unfolding up by blast
  have "monitor_internal (fst p) = 0" "monitor_internal (fst up) = 0"
    by (simp_all add: p up lock_result_def unlock_result_def flag)
  with e1 e2 e3 show ?thesis by blast
qed

lemma plain_ready: "own_ready 2 (plain_thread, plain_state)"
  by (simp add: own_ready_def own_stream_def own_queue_def plain_thread_def plain_state_def plain_runtime_def
      fresh_tls_def zero_context_def)

lemma own_ready_mono: "own_ready n p \<Longrightarrow> m \<le> n \<Longrightarrow> own_ready m p"
  by (auto simp: own_ready_def)

theorem monitored_calls_report_witness:
  "\<exists>e1 e2. own_stream (fst (snd (pthread_mutex_lock plain_dl plain_os plain_os id 64 ((plain_thread, plain_state), \<lambda>_. False)))) = [e1, e2] \<and>
     ev_event_type e1 = event_code MONITOR_EVENT_LOCK_REQUEST \<and> ev_event_type e2 = event_code MONITOR_EVENT_LOCK_ACQUIRED"
proof -
  let ?w = "\<lambda>_ :: uintptr. False"
  obtain th1 s1 where req: "lock_request 64 plain_os (plain_thread, plain_state) = (th1, s1)"
    by (cases "lock_request 64 plain_os (plain_thread, plain_state)")
  have "own_ready (Suc 1) (plain_thread, plain_state)" using plain_ready by (simp add: numeral_2_eq_2)
  then have r1: "own_ready 1 (th1, id s1)"
    using lock_request_stream(1) [of 1 _ 64 plain_os] req by (metis id_apply)
  have r: "own_ready 1 (plain_thread, plain_state)" "own_ready 1 (plain_thread, id plain_state)"
    using own_ready_mono [OF plain_ready] by simp_all
  have st: "real_pthread_mutex_lock plain_state = Some plain_lock" "real_pthread_mutex_unlock plain_state = Some plain_unlock"
    "monitor_internal plain_thread = 0" "fst (plain_lock 64 ?w) = 0"
    by (simp_all add: plain_state_def plain_thread_def plain_lock_def)
  obtain res p w1 where l: "pthread_mutex_lock plain_dl plain_os plain_os id 64 ((plain_thread, plain_state), ?w) = (res, p, w1)"
    by (metis prod_cases3)
  obtain ures up uw where u: "pthread_mutex_unlock plain_dl plain_os id 64 ((plain_thread, plain_state), ?w) = (ures, up, uw)"
    by (metis prod_cases3)
  have "own_stream (plain_thread, plain_state) = []"
    by (simp add: own_stream_def own_queue_def plain_thread_def plain_state_def plain_runtime_def zero_context_def)
  with monitored_calls_report [OF st(1,2,3) r(1) req r1 r(2) l u] st(4) show ?thesis
    by (fastforce simp: l)
qed

section \<open>Debug output\<close>

type_synonym debug_call = "string \<times> uintptr \<times> i32 \<times> bool \<times> os_reply"

definition debug_line :: "debug_call \<Rightarrow> string" where
  "debug_line c = (case c of (name, mutex, result, show_result, os) \<Rightarrow> debug_text (os_tid os) name mutex result show_result)"

definition debug_run :: "debug_call list \<Rightarrow> 'w interceptor_state \<Rightarrow> 'w interceptor_state" where
  "debug_run cs s = fold (\<lambda>(name, mutex, result, show_result, os). debug_event name mutex result show_result os) cs s"

lemma length_fmt_long: "length (fmt_int (sint (w :: u64))) \<le> 20"
proof -
  have "sint w < 2 ^ 63" "- (2 ^ 63) \<le> sint w" using sint_lt [of w] sint_ge [of w] by simp_all
  then have "nat (sint w) < 10 ^ Suc 18" "nat (- sint w) < 10 ^ Suc 18" by simp_all
  then show ?thesis
    using length_digits_base [of 10 "nat (sint w)" 18] length_digits_base [of 10 "nat (- sint w)" 18]
    by (auto simp: fmt_int_def fmt_nat_def)
qed

lemma debug_text_fits:
  assumes "length name \<le> 100"
  shows "snprintf_write 256 (debug_text tid name mutex result show_result) out = out @ [debug_text tid name mutex result show_result]"
proof (rule snprintf_write_fits)
  show "debug_text tid name mutex result show_result \<noteq> []" by (simp add: debug_text_def)
  show "length (debug_text tid name mutex result show_result) < 256"
    using assms length_fmt_long [of tid] fmt_lengths(3) [of mutex] fmt_lengths(4) [of result]
    by (simp add: debug_text_def nl_def)
qed

lemma debug_run_writes:
  assumes "monitor_debug_enabled s" and "debug_event_count s = of_nat k" and "k + length cs < 2 ^ 64"
    and "\<forall>c \<in> set cs. length (fst c) \<le> 100"
  shows "stderr_writes (verifier (runtime (debug_run cs s))) =
    stderr_writes (verifier (runtime s)) @ map debug_line (take (64 - k) cs)"
  using assms
proof (induction cs arbitrary: s k)
  case (Cons c cs)
  obtain name mutex result show_result os where c: "c = (name, mutex, result, show_result, os)" by (metis prod_cases5)
  let ?s = "debug_event name mutex result show_result os s"
  have "of_nat k < (64 :: u64) \<longleftrightarrow> k < 64"
    using Cons.prems(3) by (simp add: word_less_nat_alt unat_of_nat)
  then have w: "stderr_writes (verifier (runtime ?s)) =
      stderr_writes (verifier (runtime s)) @ (if k < 64 then [debug_line c] else [])"
    using Cons.prems(1,2,4) by (auto simp: debug_event_def Let_def c debug_text_fits debug_line_def not_le not_less)
  have "monitor_debug_enabled ?s" "debug_event_count ?s = of_nat (Suc k)"
    using Cons.prems(1,2) by (simp_all add: debug_event_def Let_def)
  from Cons.IH [OF this] Cons.prems(3,4)
  have "stderr_writes (verifier (runtime (debug_run cs ?s))) =
      stderr_writes (verifier (runtime ?s)) @ map debug_line (take (64 - Suc k) cs)" by simp
  moreover have "debug_run (c # cs) s = debug_run cs ?s" by (simp add: debug_run_def c)
  moreover have "take (64 - k) (c # cs) = (if k < 64 then [c] else []) @ take (64 - Suc k) cs"
    by (auto simp: take_Cons' )
  ultimately show ?case using w by simp
qed (simp add: debug_run_def)

text \<open>
  Debug output is bounded.  Of any number of debug calls after the initialization
  (fewer than 2^64) exactly the first 64 write a line, each line whole.
\<close>

theorem debug_output_bounded:
  assumes "monitor_debug_enabled s" and "debug_event_count s = 0" and "length cs < 2 ^ 64"
    and "\<forall>c \<in> set cs. length (fst c) \<le> 100"
  shows "stderr_writes (verifier (runtime (debug_run cs s))) =
    stderr_writes (verifier (runtime s)) @ map debug_line (take 64 cs)"
  using debug_run_writes [of s 0 cs] assms by simp

theorem debug_output_bounded_witness:
  "length (stderr_writes (verifier (runtime (debug_run (replicate 70 (''UNLOCKED'', 64, 0, True, plain_os)) plain_state)))) = 64"
  using debug_output_bounded [of plain_state "replicate 70 (''UNLOCKED'', 64, 0, True, plain_os)"]
  by (simp add: plain_state_def plain_runtime_def)

section \<open>Life cycle\<close>

lemma start_outcome:
  assumes "monitor_runtime_start env key_rc consumer_rc rt = (rc, rt1)"
  shows "rc = 0 \<longleftrightarrow> key_rc = 0 \<and> consumer_rc = 0" and "accept_events rt1 \<longleftrightarrow> rc = 0"
    and "stderr_writes (verifier rt1) = stderr_writes (verifier rt)"
proof -
  have v: "stderr_writes (monitor_verifier_init env s) = stderr_writes s" for s by (simp add: monitor_verifier_init_def)
  show "rc = 0 \<longleftrightarrow> key_rc = 0 \<and> consumer_rc = 0" "accept_events rt1 \<longleftrightarrow> rc = 0"
    "stderr_writes (verifier rt1) = stderr_writes (verifier rt)"
    using assms by (auto simp: monitor_runtime_start_def Let_def v split: if_splits)
qed

text \<open>
  (C37) Life cycle of the library.  Initialization leaves the guard flag down.  It marks the
  runtime as started exactly if the functions were resolved and the runtime start returned 0;
  otherwise it writes one error message, and events stay disabled.  The destructor stops
  the runtime exactly if it was started, a second run changes nothing, and afterwards calls
  of its thread are no longer monitored.
\<close>

theorem library_lifecycle:
  assumes "monitor_library_init dbg dl env key_rc consumer_rc (th, s) = (th1, s1)"
    and "\<not> runtime_started s" and "\<not> accept_events (runtime s)"
    and "monitor_library_destroy join (th1, s1) = (th2, s2)"
  shows "monitor_internal th1 = 0 \<and>
    (runtime_started s1 \<longleftrightarrow> dl_lock dl \<noteq> None \<and> dl_unlock dl \<noteq> None \<and> \<not> dl_lock_error dl \<and> \<not> dl_unlock_error dl \<and>
       key_rc = 0 \<and> consumer_rc = 0) \<and>
    (accept_events (runtime s1) \<longleftrightarrow> runtime_started s1) \<and>
    (\<not> runtime_started s1 \<longrightarrow> runtime s2 = runtime s1 \<and>
       length (stderr_writes (verifier (runtime s1))) = length (stderr_writes (verifier (runtime s))) + 1) \<and>
    (runtime_started s1 \<longrightarrow> runtime s2 = monitor_runtime_stop join (runtime s1)) \<and>
    \<not> runtime_started s2 \<and> monitor_internal th2 = 1 \<and> monitor_library_destroy join (th2, s2) = (th2, s2)"
proof -
  have d: "monitor_internal th2 = 1" "\<not> runtime_started s2" "\<not> monitor_debug_enabled s2"
    "runtime s2 = (if runtime_started s1 then monitor_runtime_stop join (runtime s1) else runtime s1)"
    using assms(4) by (auto simp: monitor_library_destroy_def Let_def split: if_splits)
  then have again: "monitor_library_destroy join (th2, s2) = (th2, s2)" by (simp add: monitor_library_destroy_def)
  show ?thesis
  proof (cases "dl_lock_error dl \<or> dl_unlock_error dl \<or> dl_lock dl = None \<or> dl_unlock dl = None")
    case True
    have dbg: "runtime (if b then s\<lparr>monitor_debug_enabled := True\<rparr> else s) = runtime s"
      "runtime_started (if b then s\<lparr>monitor_debug_enabled := True\<rparr> else s) = runtime_started s" for b by simp_all
    have "monitor_internal th1 = 0 \<and> \<not> runtime_started s1 \<and> accept_events (runtime s1) = accept_events (runtime s) \<and>
      stderr_writes (verifier (runtime s1)) = stderr_writes (verifier (runtime s)) @
        [''[monitor] ERROR: unable to resolve pthread mutex functions'' @ nl]"
      using assms(1,2) by (auto simp: monitor_library_init_def resolve_real_functions_def write_stderr_def dbg if_P [OF True] Let_def)
    with True assms(3) d again show ?thesis by auto
  next
    case False
    obtain rc rt where st: "monitor_runtime_start env key_rc consumer_rc (runtime s) = (rc, rt)"
      by (cases "monitor_runtime_start env key_rc consumer_rc (runtime s)")
    have dbg: "runtime (if b then s\<lparr>monitor_debug_enabled := True\<rparr> else s) = runtime s"
      "runtime_started (if b then s\<lparr>monitor_debug_enabled := True\<rparr> else s) = runtime_started s" for b by simp_all
    have "monitor_internal th1 = 0 \<and> (runtime_started s1 \<longleftrightarrow> rc = 0) \<and> accept_events (runtime s1) = accept_events rt \<and>
      stderr_writes (verifier (runtime s1)) = stderr_writes (verifier rt) @
        (if rc = 0 then [] else [''[monitor] ERROR: monitor runtime could not be started'' @ nl])"
      using assms(1,2) False
      by (cases "rc = 0") (auto simp: monitor_library_init_def resolve_real_functions_def write_stderr_def st dbg Let_def)
    with False start_outcome [OF st] d again show ?thesis by auto
  qed
qed

theorem library_lifecycle_witness:
  "runtime_started (snd (monitor_library_init None plain_dl None 0 0
     (plain_thread, plain_state\<lparr>runtime_started := False, runtime := plain_runtime\<lparr>accept_events := False\<rparr>\<rparr>)))"
proof -
  let ?s = "plain_state\<lparr>runtime_started := False, runtime := plain_runtime\<lparr>accept_events := False\<rparr>\<rparr>"
  obtain th1 s1 where i: "monitor_library_init None plain_dl None 0 0 (plain_thread, ?s) = (th1, s1)"
    by (cases "monitor_library_init None plain_dl None 0 0 (plain_thread, ?s)")
  obtain th2 s2 where d: "monitor_library_destroy id (th1, s1) = (th2, s2)"
    by (cases "monitor_library_destroy id (th1, s1)")
  from library_lifecycle [OF i _ _ d] i show ?thesis by (simp add: plain_dl_def)
qed

end
