(* ===== verification/Pthreads.thy ===== *)
theory Pthreads
  imports Verifier_Events
begin

text \<open>
  Programs over the pthread library, with the semantics POSIX documents for its calls: the
  interleaved steps of the threads of a process, the failures its calls may report, and the
  events the interceptor reports for each thread on the way.
\<close>

section \<open>Programs\<close>

text \<open>
  A thread of a program that uses the pthread library, as a tree of calls: the continuation
  of a call depends on what it returns.  Mutexes are named by their addresses, barriers and
  shared variables by numbers, and a thread by its number in the order of creation.
  \<open>Call\<close> stands for a library call that only succeeds or fails, \<open>Sleep\<close> for \<^verbatim>\<open>nanosleep\<close> with its
  time in nanoseconds, \<open>Say\<close> and \<open>Complain\<close> write a line to stdout and stderr, \<open>Done\<close>
  returns (0 for a null pointer, or the exit status).
\<close>

datatype mutex_kind = PTHREAD_MUTEX_NORMAL | PTHREAD_MUTEX_ERRORCHECK

datatype prog =
  Lock uintptr "i32 \<Rightarrow> prog"
| Unlock uintptr "i32 \<Rightarrow> prog"
| Barrier_Wait nat "i32 \<Rightarrow> prog"
| Mutex_Init uintptr mutex_kind "i32 \<Rightarrow> prog"
| Barrier_Init nat nat "i32 \<Rightarrow> prog"
| Call string "i32 \<Rightarrow> prog"
| Clock "(u64 \<times> u64) option \<Rightarrow> prog"
| Create prog "i32 \<Rightarrow> nat \<Rightarrow> prog"
| Join nat "i32 \<Rightarrow> u64 \<Rightarrow> prog"
| Load nat "u64 \<Rightarrow> prog"
| Store nat u64 prog
| Sleep u64 prog
| Say string prog
| Complain string prog
| Done u64

type_synonym call_event = "monitor_event_type \<times> uintptr \<times> i32"

abbreviation (input) EDEADLK :: i32 where "EDEADLK \<equiv> 35"
abbreviation (input) PTHREAD_BARRIER_SERIAL_THREAD :: i32 where "PTHREAD_BARRIER_SERIAL_THREAD \<equiv> - 1"
abbreviation (input) EXIT_SUCCESS :: u64 where "EXIT_SUCCESS \<equiv> 0"
abbreviation (input) EXIT_FAILURE :: u64 where "EXIT_FAILURE \<equiv> 1"

text \<open>Printing and pausing concern no other thread: a thread runs up to its next call.\<close>

primrec settle :: "prog \<Rightarrow> string list \<times> prog" where
  "settle (Lock m k) = ([], Lock m k)"
| "settle (Unlock m k) = ([], Unlock m k)"
| "settle (Barrier_Wait b k) = ([], Barrier_Wait b k)"
| "settle (Mutex_Init m t k) = ([], Mutex_Init m t k)"
| "settle (Barrier_Init b n k) = ([], Barrier_Init b n k)"
| "settle (Call f k) = ([], Call f k)"
| "settle (Clock k) = ([], Clock k)"
| "settle (Create body k) = ([], Create body k)"
| "settle (Join i k) = ([], Join i k)"
| "settle (Load x k) = ([], Load x k)"
| "settle (Store x v p) = ([], Store x v p)"
| "settle (Sleep d p) = settle p"
| "settle (Say line p) = (line # fst (settle p), snd (settle p))"
| "settle (Complain line p) = (line # fst (settle p), snd (settle p))"
| "settle (Done r) = ([], Done r)"

text \<open>The pauses a thread makes on its way to its next call, in nanoseconds.\<close>

primrec naps :: "prog \<Rightarrow> u64 list" where
  "naps (Lock m k) = []"
| "naps (Unlock m k) = []"
| "naps (Barrier_Wait b k) = []"
| "naps (Mutex_Init m t k) = []"
| "naps (Barrier_Init b n k) = []"
| "naps (Call f k) = []"
| "naps (Clock k) = []"
| "naps (Create body k) = []"
| "naps (Join i k) = []"
| "naps (Load x k) = []"
| "naps (Store x v p) = []"
| "naps (Sleep d p) = d # naps p"
| "naps (Say line p) = naps p"
| "naps (Complain line p) = naps p"
| "naps (Done r) = []"

section \<open>Processes\<close>

text \<open>
  A thread is about to make its next call, inside a lock call, inside a barrier, or
  finished.  A process has its threads, thread 0 being the main thread; the owner and the type
  of each mutex; the number of threads each barrier waits for; the shared variables; for each
  thread the events the interceptor has reported for it, the lines it has printed and the
  pauses it has made, each with the number of the events before it; and the exit status once
  it has ended.
\<close>

datatype tstate =
  Running prog
| Locking uintptr "i32 \<Rightarrow> prog"
| At_Barrier nat "i32 \<Rightarrow> prog"
| Finished u64

record process =
  ts :: "tstate list"
  owner :: "uintptr \<Rightarrow> nat option"
  mutex_type :: "uintptr \<Rightarrow> mutex_kind"
  barrier_count :: "nat \<Rightarrow> nat"
  vars :: "nat \<Rightarrow> u64"
  events :: "nat \<Rightarrow> call_event list"
  printed :: "nat \<Rightarrow> string list"
  pauses :: "nat \<Rightarrow> (nat \<times> u64) list"
  exit_code :: "u64 option"

definition pause :: "nat \<Rightarrow> u64 list \<Rightarrow> process \<Rightarrow> (nat \<times> u64) list" where
  "pause i ds w = map (Pair (length (events w i))) ds"

definition proceed :: "nat \<Rightarrow> prog \<Rightarrow> process \<Rightarrow> process" where
  "proceed i p w = w\<lparr>ts := (ts w)[i := Running (snd (settle p))],
                     printed := (printed w)(i := printed w i @ fst (settle p)),
                     pauses := (pauses w)(i := pauses w i @ pause i (naps p) w)\<rparr>"

text \<open>The first event of a thread registers it, which adds its start event.\<close>

definition emit :: "nat \<Rightarrow> call_event \<Rightarrow> process \<Rightarrow> process" where
  "emit i c w = w\<lparr>events := (events w)(i := events w i @
     (if events w i = [] then [(MONITOR_EVENT_THREAD_START, 0, 0)] else []) @ [c])\<rparr>"

fun at_barrier :: "nat \<Rightarrow> tstate \<Rightarrow> bool" where
  "at_barrier b (At_Barrier b' k) = (b' = b)"
| "at_barrier b _ = False"

definition waiting :: "nat \<Rightarrow> process \<Rightarrow> nat" where
  "waiting b w = count_if (at_barrier b) (ts w)"

text \<open>The barrier opens: every thread inside continues, one of them with the serial result.\<close>

fun leave :: "nat \<Rightarrow> i32 \<Rightarrow> tstate \<Rightarrow> string list \<times> tstate" where
  "leave b r (At_Barrier b' k) =
     (if b' = b then (fst (settle (k r)), Running (snd (settle (k r)))) else ([], At_Barrier b' k))"
| "leave b r t = ([], t)"

fun leave_naps :: "nat \<Rightarrow> i32 \<Rightarrow> tstate \<Rightarrow> u64 list" where
  "leave_naps b r (At_Barrier b' k) = (if b' = b then naps (k r) else [])"
| "leave_naps b r t = []"

definition serial_result :: "nat \<Rightarrow> nat \<Rightarrow> i32" where
  "serial_result s j = (if j = s then PTHREAD_BARRIER_SERIAL_THREAD else 0)"

definition open_barrier :: "nat \<Rightarrow> nat \<Rightarrow> process \<Rightarrow> process" where
  "open_barrier b s w =
     w\<lparr>ts := map (\<lambda>j. snd (leave b (serial_result s j) (ts w ! j))) [0..<length (ts w)],
       printed := (\<lambda>j. printed w j @ (if j < length (ts w) then fst (leave b (serial_result s j) (ts w ! j)) else [])),
       pauses := (\<lambda>j. pauses w j @ pause j (if j < length (ts w) then leave_naps b (serial_result s j) (ts w ! j) else []) w)\<rparr>"

section \<open>Steps\<close>

text \<open>
  One step of thread \<open>i\<close>, whose state is the second argument, as POSIX documents the calls.
  A lock blocks while another thread owns the mutex; an error-checking mutex refuses a second
  lock by its owner and an unlock by anyone else.  A default mutex blocks its own owner, and
  unlocking it without owning it is undefined and has no step.
\<close>

inductive act :: "nat \<Rightarrow> tstate \<Rightarrow> process \<Rightarrow> process \<Rightarrow> bool" where
  request: "act i (Running (Lock m k)) w (emit i (MONITOR_EVENT_LOCK_REQUEST, m, 0) (w\<lparr>ts := (ts w)[i := Locking m k]\<rparr>))"
| acquire: "owner w m = None \<Longrightarrow> act i (Locking m k) w
    (proceed i (k 0) (emit i (MONITOR_EVENT_LOCK_ACQUIRED, m, 0) (w\<lparr>owner := (owner w)(m := Some i)\<rparr>)))"
| relock: "owner w m = Some i \<Longrightarrow> mutex_type w m = PTHREAD_MUTEX_ERRORCHECK \<Longrightarrow> act i (Locking m k) w
    (proceed i (k EDEADLK) (emit i (MONITOR_EVENT_LOCK_FAILED, m, EDEADLK) w))"
| unlock: "owner w m = Some i \<Longrightarrow> act i (Running (Unlock m k)) w
    (proceed i (k 0) (emit i (MONITOR_EVENT_UNLOCKED, m, 0) (w\<lparr>owner := (owner w)(m := None)\<rparr>)))"
| unlock_denied: "owner w m \<noteq> Some i \<Longrightarrow> mutex_type w m = PTHREAD_MUTEX_ERRORCHECK \<Longrightarrow> act i (Running (Unlock m k)) w
    (proceed i (k EPERM) (emit i (MONITOR_EVENT_UNLOCK_FAILED, m, EPERM) w))"
| arrive: "Suc (waiting b w) < barrier_count w b \<Longrightarrow> act i (Running (Barrier_Wait b k)) w
    (w\<lparr>ts := (ts w)[i := At_Barrier b k]\<rparr>)"
| pass: "Suc (waiting b w) = barrier_count w b \<Longrightarrow> w' = w\<lparr>ts := (ts w)[i := At_Barrier b k]\<rparr> \<Longrightarrow>
    s < length (ts w') \<Longrightarrow> at_barrier b (ts w' ! s) \<Longrightarrow> act i (Running (Barrier_Wait b k)) w (open_barrier b s w')"
| mutex_init: "act i (Running (Mutex_Init m t k)) w
    (proceed i (k 0) (w\<lparr>owner := (owner w)(m := None), mutex_type := (mutex_type w)(m := t)\<rparr>))"
| barrier_init: "act i (Running (Barrier_Init b n k)) w
    (proceed i (k 0) (w\<lparr>barrier_count := (barrier_count w)(b := n)\<rparr>))"
| call: "act i (Running (Call f k)) w (proceed i (k 0) w)"
| clock: "act i (Running (Clock k)) w (proceed i (k t) w)"
| create: "act i (Running (Create body k)) w
    (proceed i (k 0 (length (ts w))) (proceed (length (ts w)) body (w\<lparr>ts := ts w @ [Running body]\<rparr>)))"
| join: "j < length (ts w) \<Longrightarrow> ts w ! j = Finished r \<Longrightarrow> act i (Running (Join j k)) w (proceed i (k 0 r) w)"
| load: "act i (Running (Load x k)) w (proceed i (k (vars w x)) w)"
| store: "act i (Running (Store x v p)) w (proceed i p (w\<lparr>vars := (vars w)(x := v)\<rparr>))"
| finish: "i \<noteq> 0 \<Longrightarrow> act i (Running (Done r)) w
    (w\<lparr>ts := (ts w)[i := Finished r],
       events := (if events w i = [] then events w else (events w)(i := events w i @ [(MONITOR_EVENT_THREAD_EXIT, 0, 0)]))\<rparr>)"
| main_returns: "act 0 (Running (Done r)) w (w\<lparr>ts := (ts w)[0 := Finished r], exit_code := Some r\<rparr>)"

text \<open>
  The failures a call may report although nothing is wrong with the program, such as a lack
  of resources; a failed call has no effect.
\<close>

inductive fault :: "nat \<Rightarrow> tstate \<Rightarrow> process \<Rightarrow> process \<Rightarrow> bool" where
  lock_fails: "r \<noteq> 0 \<Longrightarrow> fault i (Locking m k) w (proceed i (k r) (emit i (MONITOR_EVENT_LOCK_FAILED, m, r) w))"
| unlock_fails: "r \<noteq> 0 \<Longrightarrow> fault i (Running (Unlock m k)) w (proceed i (k r) (emit i (MONITOR_EVENT_UNLOCK_FAILED, m, r) w))"
| barrier_fails: "r \<noteq> 0 \<Longrightarrow> r \<noteq> PTHREAD_BARRIER_SERIAL_THREAD \<Longrightarrow> fault i (Running (Barrier_Wait b k)) w (proceed i (k r) w)"
| mutex_init_fails: "r \<noteq> 0 \<Longrightarrow> fault i (Running (Mutex_Init m t k)) w (proceed i (k r) w)"
| barrier_init_fails: "r \<noteq> 0 \<Longrightarrow> fault i (Running (Barrier_Init b n k)) w (proceed i (k r) w)"
| call_fails: "r \<noteq> 0 \<Longrightarrow> fault i (Running (Call f k)) w (proceed i (k r) w)"
| create_fails: "r \<noteq> 0 \<Longrightarrow> fault i (Running (Create body k)) w (proceed i (k r h) w)"
| join_fails: "r \<noteq> 0 \<Longrightarrow> fault i (Running (Join j k)) w (proceed i (k r 0) w)"

definition step :: "process \<Rightarrow> process \<Rightarrow> bool" where
  "step w w' \<longleftrightarrow> exit_code w = None \<and> (\<exists>i < length (ts w). act i (ts w ! i) w w')"

definition fault_step :: "process \<Rightarrow> process \<Rightarrow> bool" where
  "fault_step w w' \<longleftrightarrow> exit_code w = None \<and> (\<exists>i < length (ts w). fault i (ts w ! i) w w')"

definition stuck :: "process \<Rightarrow> bool" where
  "stuck w \<longleftrightarrow> (\<forall>w'. \<not> step w w')"

text \<open>A process starts with its main thread; statically initialised mutexes have the default type.\<close>

definition boot :: "prog \<Rightarrow> process" where
  "boot p = \<lparr>ts = [Running (snd (settle p))], owner = (\<lambda>_. None), mutex_type = (\<lambda>_. PTHREAD_MUTEX_NORMAL),
     barrier_count = (\<lambda>_. 0), vars = (\<lambda>_. 0), events = (\<lambda>_. []), printed = (\<lambda>_. [])(0 := fst (settle p)),
     pauses = (\<lambda>_. [])(0 := map (Pair 0) (naps p)), exit_code = None\<rparr>"

inductive runs :: "prog \<Rightarrow> process \<Rightarrow> bool" for p where
  runs_boot: "runs p (boot p)"
| runs_step: "runs p w \<Longrightarrow> step w w' \<Longrightarrow> runs p w'"

inductive runs_with_faults :: "prog \<Rightarrow> process \<Rightarrow> bool" for p where
  faulty_boot: "runs_with_faults p (boot p)"
| faulty_step: "runs_with_faults p w \<Longrightarrow> step w w' \<Longrightarrow> runs_with_faults p w'"
| faulty_fault: "runs_with_faults p w \<Longrightarrow> fault_step w w' \<Longrightarrow> runs_with_faults p w'"

inductive_simps act_simps:
  "act i (Running (Lock m k)) w w'" "act i (Locking m k) w w'" "act i (Running (Unlock m k)) w w'"
  "act i (Running (Barrier_Wait b k)) w w'" "act i (At_Barrier b k) w w'" "act i (Running (Mutex_Init m t k)) w w'"
  "act i (Running (Barrier_Init b n k)) w w'" "act i (Running (Call f k)) w w'" "act i (Running (Clock kt)) w w'"
  "act i (Running (Create body kc)) w w'" "act i (Running (Join j kj)) w w'" "act i (Running (Load x kv)) w w'"
  "act i (Running (Store x v p)) w w'" "act i (Running (Done r)) w w'" "act i (Finished r) w w'"
  "act i (Running (Sleep d p)) w w'" "act i (Running (Say line p)) w w'" "act i (Running (Complain line p)) w w'"

inductive_cases fault_cases: "fault i t w w'"

end
