(* ===== verification/Pthread_Runs.thy ===== *)
theory Pthread_Runs
  imports Pthreads "HOL-Library.Multiset"
begin

text \<open>
  Runs of pthread processes: every run ends, what holds in every state in which a process
  can no longer move, and threads that follow a fixed script of calls.
\<close>

section \<open>Every run ends\<close>

text \<open>The immediate continuations of a program.\<close>

inductive continuation :: "prog \<Rightarrow> prog \<Rightarrow> bool" where
  "continuation (k r) (Lock m k)"
| "continuation (k r) (Unlock m k)"
| "continuation (k r) (Barrier_Wait b k)"
| "continuation (k r) (Mutex_Init m t k)"
| "continuation (k r) (Barrier_Init b n k)"
| "continuation (k r) (Call f k)"
| "continuation (kt t) (Clock kt)"
| "continuation body (Create body kc)"
| "continuation (kc r h) (Create body kc)"
| "continuation (kj r v) (Join i kj)"
| "continuation (kv v) (Load x kv)"
| "continuation p (Store x v p)"
| "continuation p (Sleep d p)"
| "continuation p (Say line p)"
| "continuation p (Complain line p)"

inductive_simps continuation_simps:
  "continuation q (Lock m k)" "continuation q (Unlock m k)" "continuation q (Barrier_Wait b k)"
  "continuation q (Mutex_Init m t k)" "continuation q (Barrier_Init b n k)" "continuation q (Call f k)"
  "continuation q (Clock kt)" "continuation q (Create body kc)" "continuation q (Join i kj)" "continuation q (Load x kv)"
  "continuation q (Store x v p)" "continuation q (Sleep d p)" "continuation q (Say line p)"
  "continuation q (Complain line p)" "continuation q (Done r)"

lemma wf_continuation: "wf {(q, p). continuation q p}"
proof (unfold wf_def, intro allI impI)
  fix P and p :: prog
  assume step: "\<forall>x. (\<forall>y. (y, x) \<in> {(q, p). continuation q p} \<longrightarrow> P y) \<longrightarrow> P x"
  show "P p" by (induction p) (rule step [rule_format], auto simp: continuation_simps)+
qed

definition smaller :: "(prog \<times> prog) set" where
  "smaller = {(q, p). continuation q p}\<^sup>+"

lemma wf_smaller: "wf smaller"
  unfolding smaller_def by (rule wf_trancl [OF wf_continuation])

lemma smaller_trans: "(r, q) \<in> smaller \<Longrightarrow> (q, p) \<in> smaller \<Longrightarrow> (r, p) \<in> smaller"
  unfolding smaller_def by (rule trancl_trans)

lemma continuation_smaller: "continuation q p \<Longrightarrow> (q, p) \<in> smaller"
  by (auto simp: smaller_def)

lemma settle_smaller: "snd (settle p) = p \<or> (snd (settle p), p) \<in> smaller"
proof (induction p)
  case (Sleep d p)
  then show ?case using continuation_smaller continuation.intros(13) smaller_trans by (metis settle.simps(12))
next
  case (Say line p)
  then show ?case using continuation_smaller continuation.intros(14) smaller_trans by (metis settle.simps(13) snd_conv)
next
  case (Complain line p)
  then show ?case using continuation_smaller continuation.intros(15) smaller_trans by (metis settle.simps(14) snd_conv)
qed simp_all

lemma settle_continuation: "continuation q p \<Longrightarrow> (snd (settle q), p) \<in> smaller"
  using settle_smaller [of q] smaller_trans continuation_smaller by metis

text \<open>
  A thread is weighed by the call it is at, and a call that has begun weighs less than one
  that has not.
\<close>

primrec weight :: "tstate \<Rightarrow> prog \<times> nat" where
  "weight (Running p) = (p, 1)"
| "weight (Locking m k) = (Lock m k, 0)"
| "weight (At_Barrier b k) = (Barrier_Wait b k, 0)"
| "weight (Finished r) = (Done r, 0)"

definition lighter :: "(tstate \<times> tstate) set" where
  "lighter = inv_image (smaller <*lex*> less_than) weight"

lemma wf_lighter: "wf lighter"
  unfolding lighter_def by (intro wf_inv_image wf_lex_prod wf_smaller wf_less_than)

lemma lighter_simps:
  "(Running q, t) \<in> lighter \<longleftrightarrow> (q, fst (weight t)) \<in> smaller \<or> q = fst (weight t) \<and> 1 < snd (weight t)"
  by (cases "weight t") (auto simp: lighter_def)

lemma lighter_proceed: "continuation q (fst (weight t)) \<Longrightarrow> (Running (snd (settle q)), t) \<in> lighter"
  by (simp add: lighter_simps settle_continuation)

lemma lighter_began [simp]:
  "(Locking m k, Running (Lock m k)) \<in> lighter" "(At_Barrier b k, Running (Barrier_Wait b k)) \<in> lighter"
  "(Finished r, Running (Done r)) \<in> lighter"
  by (simp_all add: lighter_def)

lemma lighter_opened: "continuation q (Barrier_Wait b k) \<Longrightarrow> (Running (snd (settle q)), At_Barrier b k) \<in> lighter"
  by (rule lighter_proceed) simp

text \<open>Replacing some threads by lighter ones and adding lighter ones makes the process lighter.\<close>

lemma mult_pointwise:
  assumes "list_all2 (\<lambda>y x. y = x \<or> (y, x) \<in> r) ys xs" and "ys \<noteq> xs"
  shows "(mset ys, mset xs) \<in> mult r"
proof -
  have "\<exists>I J K. mset xs = I + J \<and> mset ys = I + K \<and> (\<forall>k \<in># K. \<exists>j \<in># J. (k, j) \<in> r) \<and> (J = {#} \<longrightarrow> ys = xs)"
    using assms(1)
  proof (induction rule: list_all2_induct)
    case (Cons y ys x xs)
    then obtain I J K where IH: "mset xs = I + J" "mset ys = I + K" "\<forall>k \<in># K. \<exists>j \<in># J. (k, j) \<in> r" "J = {#} \<longrightarrow> ys = xs" by blast
    show ?case
    proof (cases "y = x")
      case True
      with IH show ?thesis by (intro exI [of _ "add_mset x I"] exI [of _ J] exI [of _ K]) auto
    next
      case False
      with IH Cons.hyps show ?thesis by (intro exI [of _ I] exI [of _ "add_mset x J"] exI [of _ "add_mset y K"]) auto
    qed
  qed simp
  then obtain I J K where d: "mset xs = I + J" "mset ys = I + K" "\<forall>k \<in># K. \<exists>j \<in># J. (k, j) \<in> r" "J = {#} \<longrightarrow> ys = xs" by blast
  with one_step_implies_mult [of J K r I] assms(2) show ?thesis by auto
qed

lemma mult_update:
  assumes "i < length xs" and "(y, xs ! i) \<in> r" and "\<And>z. z \<in> set zs \<Longrightarrow> (z, xs ! i) \<in> r"
  shows "(mset ((xs @ zs)[i := y]), mset xs) \<in> mult r"
proof -
  have "mset ((xs @ zs)[i := y]) = (mset xs - {#xs ! i#}) + add_mset y (mset zs)"
    using assms(1) by (simp add: list_update_append mset_update)
  moreover have "mset xs = (mset xs - {#xs ! i#}) + {#xs ! i#}" using assms(1) by (simp add: insert_DiffM)
  moreover have "((mset xs - {#xs ! i#}) + add_mset y (mset zs), (mset xs - {#xs ! i#}) + {#xs ! i#}) \<in> mult r"
    using assms(2,3) by (intro one_step_implies_mult) auto
  ultimately show ?thesis by metis
qed

lemmas mult_update1 = mult_update [where zs = "[]", simplified]

lemma ts_simps [simp]:
  "ts (emit i c w) = ts w" "ts (proceed i p w) = (ts w)[i := Running (snd (settle p))]"
  "length (ts (open_barrier b s w)) = length (ts w)"
  by (simp_all add: emit_def proceed_def open_barrier_def)

lemma opened_lighter:
  assumes "i < length (ts w)" and "ts w ! i = Running (Barrier_Wait b k)" and "w' = w\<lparr>ts := (ts w)[i := At_Barrier b k]\<rparr>"
  shows "(mset (ts (open_barrier b s w')), mset (ts w)) \<in> mult lighter"
proof (rule mult_pointwise)
  have leave: "snd (leave b r t) = t \<or> (snd (leave b r t), t) \<in> lighter" for r t
    by (cases t) (auto intro!: lighter_opened continuation.intros)
  have mine: "(snd (leave b r (At_Barrier b k)), Running (Barrier_Wait b k)) \<in> lighter" for r
    by (auto intro!: lighter_proceed continuation.intros)
  show "list_all2 (\<lambda>y x. y = x \<or> (y, x) \<in> lighter) (ts (open_barrier b s w')) (ts w)"
    using assms leave mine by (auto simp: list_all2_conv_all_nth open_barrier_def nth_list_update_if)
  have "ts (open_barrier b s w') ! i \<noteq> ts w ! i"
    using assms mine [of "serial_result s i"] wf_not_refl [OF wf_lighter] by (auto simp: open_barrier_def)
  then show "ts (open_barrier b s w') \<noteq> ts w" by auto
qed

lemma act_lighter:
  assumes "act i t w w'" and "i < length (ts w)" and "ts w ! i = t"
  shows "(mset (ts w'), mset (ts w)) \<in> mult lighter"
  using assms
proof cases
  case (pass b w1 k s)
  with assms show ?thesis using opened_lighter by blast
next
  case (create body k)
  let ?p = "Running (snd (settle (k 0 (length (ts w)))))" and ?c = "Running (snd (settle body))"
  have "ts w' = (ts w @ [?c])[i := ?p]" using create by simp
  moreover have "(?p, ts w ! i) \<in> lighter" "(?c, ts w ! i) \<in> lighter"
    using create assms(3) by (auto intro!: lighter_proceed continuation.intros)
  ultimately show ?thesis using mult_update [OF assms(2), of ?p lighter "[?c]"] by simp
qed (use assms in \<open>auto intro!: mult_update1 lighter_proceed continuation.intros\<close>)

lemma fault_lighter:
  assumes "fault i t w w'" and "i < length (ts w)" and "ts w ! i = t"
  shows "(mset (ts w'), mset (ts w)) \<in> mult lighter"
  using assms by cases (auto intro!: mult_update1 lighter_proceed continuation.intros)

lemma wf_steps: "wf {(w', w). step w w' \<or> fault_step w w'}"
proof (rule wf_subset)
  show "wf (inv_image (mult lighter) (\<lambda>w. mset (ts w)))" by (intro wf_inv_image wf_mult wf_lighter)
  show "{(w', w). step w w' \<or> fault_step w w'} \<subseteq> inv_image (mult lighter) (\<lambda>w. mset (ts w))"
    using act_lighter fault_lighter by (auto simp: step_def fault_step_def)
qed

text \<open>
  No process runs for ever: whatever the programs, the schedule and the failures of
  library calls, there is no infinite sequence of steps.  (The loops of the programs are
  bounded, so each program is a well-founded tree; a blocked thread makes no step.)
\<close>

lemma every_run_ends: "\<nexists>w. \<forall>n. step (w n) (w (Suc n)) \<or> fault_step (w n) (w (Suc n))"
  using wf_steps unfolding wf_iff_no_infinite_down_chain by blast

section \<open>What must happen\<close>

text \<open>\<open>P\<close> holds in every state in which the process can no longer move.\<close>

inductive inevitable :: "(process \<Rightarrow> bool) \<Rightarrow> process \<Rightarrow> bool" for P where
  inevitableI: "(stuck w \<Longrightarrow> P w) \<Longrightarrow> (\<And>w'. step w w' \<Longrightarrow> inevitable P w') \<Longrightarrow> inevitable P w"

lemma inevitable_stuck: "inevitable P w \<Longrightarrow> stuck w \<Longrightarrow> P w"
  by (erule inevitable.cases) blast

lemma inevitable_runs:
  assumes "runs p w" and "inevitable P (boot p)"
  shows "inevitable P w"
  using assms
proof (induction rule: runs.induct)
  case (runs_step w w')
  then have "inevitable P w" by blast
  with runs_step.hyps(2) show ?case by (auto elim: inevitable.cases)
qed

text \<open>An invariant of all runs suffices, because every run ends.\<close>

lemma inevitableI_inv:
  assumes "I w" and "\<And>w w'. I w \<Longrightarrow> step w w' \<Longrightarrow> I w'" and "\<And>w. I w \<Longrightarrow> stuck w \<Longrightarrow> P w"
  shows "inevitable P w"
proof -
  have "I w \<longrightarrow> inevitable P w" for w
  proof (induction w rule: wf_induct_rule [OF wf_steps])
    case (1 w)
    show ?case
    proof
      assume I: "I w"
      show "inevitable P w"
      proof (rule inevitableI)
        show "P w" if "stuck w" using I that by (rule assms(3))
        show "inevitable P w'" if "step w w'" for w' using 1 [of w'] assms(2) [OF I that] that by blast
      qed
    qed
  qed
  with assms(1) show ?thesis by blast
qed

lemma some_end: "\<exists>w'. step\<^sup>*\<^sup>* w w' \<and> stuck w'"
proof (induction w rule: wf_induct_rule [OF wf_steps])
  case (1 w)
  show ?case
  proof (cases "stuck w")
    case False
    then obtain w' where "step w w'" by (auto simp: stuck_def)
    with 1 [of w'] show ?thesis by (auto intro: converse_rtranclp_into_rtranclp)
  qed auto
qed

text \<open>A run that has ended.\<close>

definition terminal :: "prog \<Rightarrow> process \<Rightarrow> bool" where
  "terminal p w \<longleftrightarrow> runs p w \<and> stuck w"

lemma inevitable_terminal: "inevitable P (boot p) \<Longrightarrow> terminal p w \<Longrightarrow> P w"
  using inevitable_runs inevitable_stuck unfolding terminal_def by blast

lemma runs_steps: "step\<^sup>*\<^sup>* w w' \<Longrightarrow> runs p w \<Longrightarrow> runs p w'"
  by (induction rule: rtranclp_induct) (auto intro: runs_step)

lemma some_terminal: obtains w where "terminal p w"
  using some_end [of "boot p"] runs_steps [OF _ runs_boot] unfolding terminal_def by blast

lemma inevitable_next:
  assumes "exit_code w = None" and "\<And>w'. step w w' \<longleftrightarrow> w' = v" and "inevitable P v"
  shows "inevitable P w"
proof (rule inevitableI)
  show "P w" if "stuck w" using that assms(2) by (simp add: stuck_def)
  show "inevitable P w'" if "step w w'" for w' using that assms by simp
qed

lemma inevitable_exited: "exit_code w \<noteq> None \<Longrightarrow> P w \<Longrightarrow> inevitable P w"
  by (rule inevitableI) (auto simp: step_def)

lemma ex_thread: "(\<exists>i < Suc n. Q i) \<longleftrightarrow> (\<exists>i < n. Q i) \<or> Q n"
  by (auto simp: less_Suc_eq)

lemmas run_rules = step_def act_simps proceed_def pause_def emit_def ex_thread

lemma act_barrier:
  "act i (Running (Barrier_Wait b k)) w w' \<longleftrightarrow>
     Suc (waiting b w) < barrier_count w b \<and> w' = w\<lparr>ts := (ts w)[i := At_Barrier b k]\<rparr> \<or>
     Suc (waiting b w) = barrier_count w b \<and>
     (\<exists>s < length (ts w). at_barrier b ((ts w)[i := At_Barrier b k] ! s) \<and>
        w' = open_barrier b s (w\<lparr>ts := (ts w)[i := At_Barrier b k]\<rparr>))"
  by (auto simp: act_simps)

section \<open>Scripts\<close>

text \<open>
  The calls of a thread that runs through without failures, and where a thread is in its
  script: before its next call, inside it, or gone.
\<close>

datatype call = C_Lock uintptr | C_Unlock uintptr | C_Denied uintptr | C_Barrier nat

abbreviation next_of :: "(i32 \<Rightarrow> prog) \<Rightarrow> i32 \<Rightarrow> prog" where
  "next_of k r \<equiv> snd (settle (k r))"

fun script :: "call list \<Rightarrow> prog \<Rightarrow> bool" where
  "script [] p \<longleftrightarrow> p = Done 0"
| "script (C_Lock m # cs) p \<longleftrightarrow> (\<exists>k. p = Lock m k \<and> script cs (next_of k 0))"
| "script (C_Unlock m # cs) p \<longleftrightarrow> (\<exists>k. p = Unlock m k \<and> script cs (next_of k 0))"
| "script (C_Denied m # cs) p \<longleftrightarrow> (\<exists>k. p = Unlock m k \<and> script cs (next_of k EPERM))"
| "script (C_Barrier b # cs) p \<longleftrightarrow> (\<exists>k. p = Barrier_Wait b k \<and> script cs (next_of k 0) \<and>
     script cs (next_of k PTHREAD_BARRIER_SERIAL_THREAD))"

datatype place = Before "call list" | During "call list" | Gone

fun located :: "place \<Rightarrow> tstate \<Rightarrow> bool" where
  "located (Before cs) t \<longleftrightarrow> (\<exists>p. t = Running p \<and> script cs p)"
| "located (During (C_Lock m # cs)) t \<longleftrightarrow> (\<exists>k. t = Locking m k \<and> script cs (next_of k 0))"
| "located (During (C_Barrier b # cs)) t \<longleftrightarrow> (\<exists>k. t = At_Barrier b k \<and> script cs (next_of k 0) \<and>
     script cs (next_of k PTHREAD_BARRIER_SERIAL_THREAD))"
| "located (During cs) t \<longleftrightarrow> False"
| "located Gone t \<longleftrightarrow> t = Finished 0"

definition report :: "call_event \<Rightarrow> call_event list \<Rightarrow> call_event list" where
  "report c log = log @ (if log = [] then [(MONITOR_EVENT_THREAD_START, 0, 0)] else []) @ [c]"

text \<open>What a step of one thread leaves alone, and a step that moves one thread.\<close>

definition same_setup :: "process \<Rightarrow> process \<Rightarrow> bool" where
  "same_setup w w' \<longleftrightarrow> mutex_type w' = mutex_type w \<and> barrier_count w' = barrier_count w \<and> exit_code w' = exit_code w"

definition moves :: "nat \<Rightarrow> place \<Rightarrow> (uintptr \<Rightarrow> nat option) \<Rightarrow> (call_event list \<Rightarrow> call_event list) \<Rightarrow> process \<Rightarrow> process \<Rightarrow> bool" where
  "moves i x own log w w' \<longleftrightarrow> (\<exists>t. located x t \<and> ts w' = (ts w)[i := t]) \<and> owner w' = own \<and>
     events w' = (events w)(i := log (events w i)) \<and> same_setup w w'"

lemma move_request:
  assumes "act i t w w'" and "located (Before (C_Lock m # cs)) t"
  shows "moves i (During (C_Lock m # cs)) (owner w) (report (MONITOR_EVENT_LOCK_REQUEST, m, 0)) w w'"
  using assms by (auto simp: act_simps moves_def emit_def report_def same_setup_def)

lemma move_acquire:
  assumes "act i t w w'" and "located (During (C_Lock m # cs)) t" and "owner w m \<noteq> Some i \<or> mutex_type w m = PTHREAD_MUTEX_NORMAL"
  shows "owner w m = None \<and>
    moves i (Before cs) ((owner w)(m := Some i)) (report (MONITOR_EVENT_LOCK_ACQUIRED, m, 0)) w w'"
  using assms by (auto simp: act_simps moves_def emit_def proceed_def report_def same_setup_def)

lemma move_unlock:
  assumes "act i t w w'" and "located (Before (C_Unlock m # cs)) t" and "owner w m = Some i"
  shows "moves i (Before cs) ((owner w)(m := None)) (report (MONITOR_EVENT_UNLOCKED, m, 0)) w w'"
  using assms by (auto simp: act_simps moves_def emit_def proceed_def report_def same_setup_def)

lemma move_denied:
  assumes "act i t w w'" and "located (Before (C_Denied m # cs)) t" and "owner w m \<noteq> Some i"
  shows "moves i (Before cs) (owner w) (report (MONITOR_EVENT_UNLOCK_FAILED, m, EPERM)) w w'"
  using assms by (auto simp: act_simps moves_def emit_def proceed_def report_def same_setup_def)

lemma move_arrive:
  assumes "act i t w w'" and "located (Before (C_Barrier b # cs)) t" and "Suc (waiting b w) < barrier_count w b"
  shows "moves i (During (C_Barrier b # cs)) (owner w) (\<lambda>log. log) w w'"
  using assms by (auto simp: act_simps moves_def same_setup_def)

lemma move_done:
  assumes "act i t w w'" and "located (Before []) t" and "i \<noteq> 0" and "events w i \<noteq> []"
  shows "moves i Gone (owner w) (\<lambda>log. log @ [(MONITOR_EVENT_THREAD_EXIT, 0, 0)]) w w'"
  using assms by (auto simp: act_simps moves_def same_setup_def)

text \<open>The last thread arrives at a barrier: all leave it.\<close>

lemma leave_located:
  assumes "located (During (C_Barrier b # cs)) t" and "r = 0 \<or> r = PTHREAD_BARRIER_SERIAL_THREAD"
  shows "located (Before cs) (snd (leave b r t))"
  using assms by (cases t) auto

lemma leave_other: "\<not> at_barrier b t \<Longrightarrow> snd (leave b r t) = t"
  by (cases t) auto

lemma move_pass:
  assumes "act i t w w'" and "located (Before (C_Barrier b # cs)) t" and "Suc (waiting b w) = barrier_count w b"
    and i: "i < length (ts w)"
  shows "same_setup w w'" and "owner w' = owner w" and "events w' = events w" and "length (ts w') = length (ts w)"
    and "located (Before cs) (ts w' ! i)"
    and "j < length (ts w) \<Longrightarrow> j \<noteq> i \<Longrightarrow> located (During (C_Barrier b # ds)) (ts w ! j) \<Longrightarrow> located (Before ds) (ts w' ! j)"
    and "j < length (ts w) \<Longrightarrow> j \<noteq> i \<Longrightarrow> \<not> at_barrier b (ts w ! j) \<Longrightarrow> ts w' ! j = ts w ! j"
proof -
  obtain k s where k: "t = Running (Barrier_Wait b k)" "script cs (next_of k 0)" "script cs (next_of k PTHREAD_BARRIER_SERIAL_THREAD)"
    and w': "w' = open_barrier b s (w\<lparr>ts := (ts w)[i := At_Barrier b k]\<rparr>)"
    using assms(1-3) by (auto simp: act_barrier)
  show "same_setup w w'" "owner w' = owner w" "events w' = events w" "length (ts w') = length (ts w)"
    by (simp_all add: w' open_barrier_def same_setup_def)
  have nth: "ts w' ! j = snd (leave b (serial_result s j) (if j = i then At_Barrier b k else ts w ! j))" if "j < length (ts w)" for j
    using that by (simp add: w' open_barrier_def)
  show "located (Before cs) (ts w' ! i)" unfolding nth [OF i] using k by (intro leave_located) (simp_all add: serial_result_def)
  show "located (Before ds) (ts w' ! j)" if "j < length (ts w)" "j \<noteq> i" "located (During (C_Barrier b # ds)) (ts w ! j)"
    unfolding nth [OF that(1)] using that by (intro leave_located) (simp_all add: serial_result_def)
  show "ts w' ! j = ts w ! j" if "j < length (ts w)" "j \<noteq> i" "\<not> at_barrier b (ts w ! j)"
    unfolding nth [OF that(1)] using that by (simp add: leave_other)
qed

lemma not_moving: "located (During (C_Barrier b # cs)) t \<Longrightarrow> \<not> act i t w w'" "located Gone t \<Longrightarrow> \<not> act i t w w'"
  by (auto simp: act_simps)

text \<open>When a located thread can move.\<close>

lemma can_move:
  "located (Before (C_Lock m # cs)) t \<Longrightarrow> \<exists>w'. act i t w w'"
  "located (During (C_Lock m # cs)) t \<Longrightarrow> owner w m = None \<Longrightarrow> \<exists>w'. act i t w w'"
  "located (Before (C_Unlock m # cs)) t \<Longrightarrow> owner w m = Some i \<Longrightarrow> \<exists>w'. act i t w w'"
  "located (Before (C_Denied m # cs)) t \<Longrightarrow> mutex_type w m = PTHREAD_MUTEX_ERRORCHECK \<Longrightarrow> \<exists>w'. act i t w w'"
  "located (Before (C_Barrier b # cs)) t \<Longrightarrow> Suc (waiting b w) < barrier_count w b \<Longrightarrow> \<exists>w'. act i t w w'"
  "located (Before (C_Barrier b # cs)) t \<Longrightarrow> Suc (waiting b w) = barrier_count w b \<Longrightarrow> i < length (ts w) \<Longrightarrow> \<exists>w'. act i t w w'"
  "located (Before []) t \<Longrightarrow> \<exists>w'. act i t w w'"
proof -
  show "\<exists>w'. act i t w w'" if "located (Before (C_Barrier b # cs)) t" "Suc (waiting b w) = barrier_count w b" "i < length (ts w)"
    using that by (auto simp: act_simps intro!: exI [of _ i])
  show "\<exists>w'. act i t w w'" if "located (Before (C_Denied m # cs)) t" "mutex_type w m = PTHREAD_MUTEX_ERRORCHECK"
    using that by (cases "owner w m = Some i") (auto simp: act_simps)
  show "\<exists>w'. act i t w w'" if "located (Before []) t" using that by (cases "i = 0") (auto simp: act_simps)
qed (auto simp: act_simps)

text \<open>The other threads are untouched.\<close>

definition keeps :: "nat \<Rightarrow> process \<Rightarrow> process \<Rightarrow> bool" where
  "keeps n w w' \<longleftrightarrow> length (ts w') = length (ts w) \<and> same_setup w w' \<and> (\<forall>m. m \<noteq> n \<longrightarrow> ts w' ! m = ts w ! m \<and> events w' m = events w m)"

lemma moves_keeps: "moves n x own log w w' \<Longrightarrow> keeps n w w'"
  by (auto simp: moves_def keeps_def)

lemma moves_here: "moves n x own log w w' \<Longrightarrow> n < length (ts w) \<Longrightarrow>
    located x (ts w' ! n) \<and> events w' n = log (events w n) \<and> owner w' = own"
  by (auto simp: moves_def)

lemma main_blocked: "j < length (ts w) \<Longrightarrow> (\<And>r. ts w ! j \<noteq> Finished r) \<Longrightarrow> \<not> act i (Running (Join j k)) w w'"
  by (auto simp: act_simps)

lemma located_not_finished: "x \<noteq> Gone \<Longrightarrow> located x t \<Longrightarrow> t \<noteq> Finished r"
  by (cases x rule: place.exhaust; cases t; auto elim: located.elims)

lemma list2: "length xs = 2 \<Longrightarrow> xs = [xs ! 0, xs ! 1]"
  by (rule nth_equalityI) (auto simp: less_Suc_eq numeral_2_eq_2)

lemma list3: "length xs = 3 \<Longrightarrow> xs = [xs ! 0, xs ! 1, xs ! 2]"
  by (rule nth_equalityI) (auto simp: less_Suc_eq numeral_3_eq_3 numeral_2_eq_2)

lemma waiting2: "length (ts w) = 2 \<Longrightarrow> waiting b w = (if at_barrier b (ts w ! 0) then 1 else 0) + (if at_barrier b (ts w ! 1) then 1 else 0)"
  unfolding waiting_def by (subst list2) (simp_all add: eval_nat_numeral)

lemma waiting3: "length (ts w) = 3 \<Longrightarrow> waiting b w = (if at_barrier b (ts w ! 0) then 1 else 0) +
    (if at_barrier b (ts w ! 1) then 1 else 0) + (if at_barrier b (ts w ! 2) then 1 else 0)"
  unfolding waiting_def by (subst list3) (simp_all add: eval_nat_numeral)

section \<open>Threads without mutexes\<close>

text \<open>A main program that calls no mutex function reports no event.\<close>

primrec silent :: "prog \<Rightarrow> bool" where
  "silent (Lock m k) \<longleftrightarrow> False"
| "silent (Unlock m k) \<longleftrightarrow> False"
| "silent (Barrier_Wait b k) \<longleftrightarrow> (\<forall>r. silent (k r))"
| "silent (Mutex_Init m t k) \<longleftrightarrow> (\<forall>r. silent (k r))"
| "silent (Barrier_Init b n k) \<longleftrightarrow> (\<forall>r. silent (k r))"
| "silent (Call f k) \<longleftrightarrow> (\<forall>r. silent (k r))"
| "silent (Clock k) \<longleftrightarrow> (\<forall>t. silent (k t))"
| "silent (Create body k) \<longleftrightarrow> (\<forall>r h. silent (k r h))"
| "silent (Join i k) \<longleftrightarrow> (\<forall>r v. silent (k r v))"
| "silent (Load x k) \<longleftrightarrow> (\<forall>v. silent (k v))"
| "silent (Store x v p) \<longleftrightarrow> silent p"
| "silent (Sleep d p) \<longleftrightarrow> silent p"
| "silent (Say line p) \<longleftrightarrow> silent p"
| "silent (Complain line p) \<longleftrightarrow> silent p"
| "silent (Done r) \<longleftrightarrow> True"

primrec silent_state :: "tstate \<Rightarrow> bool" where
  "silent_state (Running p) \<longleftrightarrow> silent p"
| "silent_state (Locking m k) \<longleftrightarrow> False"
| "silent_state (At_Barrier b k) \<longleftrightarrow> (\<forall>r. silent (k r))"
| "silent_state (Finished r) \<longleftrightarrow> True"

lemma silent_settle [simp]: "silent p \<Longrightarrow> silent (snd (settle p))"
  by (induction p) auto

lemma silent_leave: "silent_state t \<Longrightarrow> silent_state (snd (leave b r t))"
  by (cases t) auto

definition silent_main :: "process \<Rightarrow> bool" where
  "silent_main w \<longleftrightarrow> ts w \<noteq> [] \<and> silent_state (ts w ! 0) \<and> events w 0 = [] \<and> (\<forall>i \<ge> length (ts w). events w i = [])"

lemma opened_nth: "j < length (ts w) \<Longrightarrow> ts (open_barrier b s w) ! j = snd (leave b (serial_result s j) (ts w ! j))"
  "events (open_barrier b s w) = events w"
  by (simp_all add: open_barrier_def)

text \<open>What a step of thread \<open>i\<close> does to another thread: at most let it leave a barrier.\<close>

lemma act_elsewhere:
  assumes "act i t w w'" and "i < length (ts w)" and "j \<noteq> i"
  shows "events w' j = events w j" and "j < length (ts w) \<Longrightarrow> ts w' ! j = ts w ! j \<or> (\<exists>b r. ts w' ! j = snd (leave b r (ts w ! j)))"
  using assms by (cases; auto simp: emit_def proceed_def opened_nth nth_append)+

lemma act_grows: "act i t w w' \<Longrightarrow> length (ts w) \<le> length (ts w')"
  by (erule act.cases) (simp_all add: emit_def proceed_def)

lemma silent_own:
  assumes "act i t w w'" and "ts w ! i = t" and "i < length (ts w)" and "silent_state t" and "events w i = []"
  shows "silent_state (ts w' ! i)" and "events w' i = []"
  using assms by (cases; auto simp: emit_def proceed_def opened_nth nth_append intro!: silent_leave)+

lemma fault_keeps:
  assumes "fault i t w w'" and "i < length (ts w)"
  shows "length (ts w') = length (ts w)" and "j \<noteq> i \<Longrightarrow> ts w' ! j = ts w ! j \<and> events w' j = events w j"
    and "silent_state t \<Longrightarrow> ts w ! i = t \<Longrightarrow> silent_state (ts w' ! i) \<and> events w' i = events w i"
  using assms by (cases; auto simp: emit_def proceed_def)+

lemma silent_main_act:
  assumes "silent_main w" and i: "i < length (ts w)" and a: "act i (ts w ! i) w w' \<or> fault i (ts w ! i) w w'"
  shows "silent_main w'"
proof -
  have s: "0 < length (ts w)" "silent_state (ts w ! 0)" "events w 0 = []" "\<forall>i \<ge> length (ts w). events w i = []"
    using assms(1) by (simp_all add: silent_main_def)
  have "silent_state (ts w' ! 0) \<and> events w' 0 = []"
  proof (cases "i = 0")
    case True
    then show ?thesis using a silent_own [of 0 _ w w'] fault_keeps(3) [of 0 _ w w'] s by auto
  next
    case False
    then show ?thesis using a act_elsewhere [OF _ i, of _ w' 0] fault_keeps(2) [OF _ i, of _ w' 0] s silent_leave by fastforce
  qed
  moreover have "events w' j = []" if "length (ts w') \<le> j" for j
  proof -
    have "length (ts w) \<le> j" using a act_grows fault_keeps(1) [OF _ i] that by fastforce
    then have "j \<noteq> i" "events w j = []" using i s by auto
    then show ?thesis using a act_elsewhere(1) [OF _ i] fault_keeps(2) [OF _ i] by metis
  qed
  moreover have "ts w' \<noteq> []" using a act_grows fault_keeps(1) [OF _ i] i by fastforce
  ultimately show ?thesis unfolding silent_main_def by blast
qed

lemma silent_runs:
  assumes "runs_with_faults p w" and "silent p"
  shows "silent_main w"
  using assms
proof (induction rule: runs_with_faults.induct)
  case faulty_boot
  then show ?case by (simp add: silent_main_def boot_def)
qed (auto simp: step_def fault_step_def intro: silent_main_act)

lemma runs_faulty: "runs p w \<Longrightarrow> runs_with_faults p w"
  by (induction rule: runs.induct) (auto intro: runs_with_faults.intros)

lemma silent_terminal: "terminal p w \<Longrightarrow> silent p \<Longrightarrow> events w 0 = []"
  using silent_runs [OF runs_faulty] by (auto simp: terminal_def silent_main_def)

text \<open>The streams of events of a process whose thread \<open>i\<close> has the kernel's id \<open>tid i\<close>.\<close>

definition streams :: "(nat \<Rightarrow> u64) \<Rightarrow> process \<Rightarrow> (u64 \<times> call_event list) list" where
  "streams tid w = map (\<lambda>i. (tid i, events w i)) (filter (\<lambda>i. events w i \<noteq> []) [0..<length (ts w)])"

lemma streams3:
  assumes "length (ts w) = 3" and "events w 0 = []" and "events w 1 \<noteq> []" and "events w 2 \<noteq> []"
  shows "streams tid w = [(tid 1, events w 1), (tid 2, events w 2)]"
proof -
  have "[0..<3] = [0, 1, 2]" by (simp add: upt_rec)
  with assms show ?thesis by (simp add: streams_def)
qed

lemma Suc_points: "Suc (Suc 0) = 2" "Suc 4 = 5"
  by simp_all

end
