(* ===== verification/Guarded_Counter.thy ===== *)
theory Guarded_Counter
  imports Pthread_Runs
begin

text \<open>
  The invariant of a counter that threads increment under one mutex, with what keeps it.
\<close>

text \<open>
  Workers that guard a shared counter by one mutex.  The phase of a worker determines its
  state (a worker inside the section may remember the counter), whether it holds the mutex, and
  how many increments it has made.
\<close>

locale guarded_counter =
  fixes mutex :: uintptr and counter :: nat
    and place :: "u64 \<Rightarrow> 'p \<Rightarrow> tstate" and holds :: "'p \<Rightarrow> bool" and counted :: "nat \<Rightarrow> 'p \<Rightarrow> bool"
  assumes place_outside: "\<not> holds p \<Longrightarrow> place v p = place v' p"
begin

definition workers_at :: "tstate \<Rightarrow> 'p list \<Rightarrow> nat list \<Rightarrow> process \<Rightarrow> bool" where
  "workers_at t ps cs w \<longleftrightarrow>
     ts w = t # map (place (vars w counter)) ps \<and> list_all2 counted cs ps \<and>
     (\<forall>i. owner w mutex = Some i \<longleftrightarrow> (\<exists>j < length ps. i = Suc j \<and> holds (ps ! j))) \<and>
     vars w counter = of_nat (sum_list cs)"

lemma workers_start: "ts w = [t] \<Longrightarrow> owner w mutex = None \<Longrightarrow> vars w counter = 0 \<Longrightarrow> workers_at t [] [] w"
  by (simp add: workers_at_def)

lemma workers_main: "workers_at t ps cs w \<Longrightarrow> ts w ! 0 = t"
  by (simp add: workers_at_def)

lemma workers_lengths: "workers_at t ps cs w \<Longrightarrow> length (ts w) = Suc (length ps) \<and> length cs = length ps"
  by (auto simp: workers_at_def dest: list_all2_lengthD)

lemma workers_nth:
  assumes "workers_at t ps cs w" and "i < length ps"
  shows "ts w ! Suc i = place (vars w counter) (ps ! i)" and "counted (cs ! i) (ps ! i)" and "owner w mutex = Some (Suc i) \<longleftrightarrow> holds (ps ! i)"
  using assms by (auto simp: workers_at_def list_all2_conv_all_nth)

lemma owner_worker: "workers_at t ps cs w \<Longrightarrow> owner w mutex = Some x \<Longrightarrow> \<exists>j < length ps. x = Suc j \<and> holds (ps ! j)"
  by (auto simp: workers_at_def)

lemma holder_unique:
  assumes "workers_at t ps cs w" and "i < length ps" and "holds (ps ! i)" and "j < length ps" and "holds (ps ! j)"
  shows "i = j"
  using workers_nth(3) [OF assms(1,2)] workers_nth(3) [OF assms(1,4)] assms(3,5) by simp

text \<open>One worker moves on.\<close>

lemma worker_moved:
  assumes c: "workers_at x ps cs w" and i: "i < length ps"
    and t: "ts w' = (ts w)[Suc i := place (vars w' counter) ph]"
    and o: "owner w' mutex = (if holds ph then Some (Suc i) else if holds (ps ! i) then None else owner w mutex)"
    and h: "holds ph \<Longrightarrow> \<not> holds (ps ! i) \<Longrightarrow> owner w mutex = None"
    and v: "vars w' counter = vars w counter \<and> c' = cs ! i \<or>
      vars w' counter = vars w counter + 1 \<and> c' = Suc (cs ! i) \<and> holds (ps ! i)"
    and k: "counted c' ph"
  shows "workers_at x (ps[i := ph]) (cs[i := c']) w'"
proof -
  note c' = c [unfolded workers_at_def]
  have l: "length cs = length ps" using workers_lengths [OF c] by simp
  have other: "place (vars w' counter) (ps ! j) = place (vars w counter) (ps ! j)"
    if "j < length ps" "j \<noteq> i" for j
  proof (cases "holds (ps ! j)")
    case True
    then have "\<not> holds (ps ! i)" using holder_unique [OF c i _ that(1)] that(2) by blast
    then show ?thesis using v by auto
  qed (rule place_outside)
  have "ts w' = x # map (place (vars w' counter)) (ps[i := ph])"
  proof (rule nth_equalityI)
    fix j assume j: "j < length (ts w')"
    show "ts w' ! j = (x # map (place (vars w' counter)) (ps[i := ph])) ! j"
      using j c' t i other by (cases j) (auto simp: nth_list_update)
  qed (use c' t in simp)
  moreover have "list_all2 counted (cs[i := c']) (ps[i := ph])"
    using c' k by (intro list_all2_update_cong) auto
  moreover have "owner w' mutex = Some y \<longleftrightarrow> (\<exists>j < length (ps[i := ph]). y = Suc j \<and> holds (ps[i := ph] ! j))" for y
  proof -
    have own: "owner w mutex = Some y \<longleftrightarrow> (\<exists>j < length ps. y = Suc j \<and> holds (ps ! j))" for y using c' by blast
    show ?thesis
    proof (cases "holds ph")
      case True
      have "\<not> holds (ps ! j)" if "j < length ps" "j \<noteq> i" for j
      proof
        assume "holds (ps ! j)"
        then have "owner w mutex = Some (Suc j)" "\<not> holds (ps ! i)" using that own holder_unique [OF c i _ that(1)] by auto
        with h True show False by simp
      qed
      with True i show ?thesis by (auto simp: o nth_list_update)
    next
      case False
      then show ?thesis
        using i own [of y] holder_unique [OF c i] by (auto simp: o nth_list_update)
    qed
  qed
  moreover have "vars w' counter = of_nat (sum_list (cs[i := c']))"
    using v c' i l by (auto simp: sum_list_update add.commute)
  ultimately show ?thesis unfolding workers_at_def by blast
qed

text \<open>The main thread moves on, or starts one more worker.\<close>

lemma main_moves:
  assumes "workers_at t ps cs w" and "ts w' = (ts w)[0 := t']" and "owner w' = owner w" and "vars w' counter = vars w counter"
  shows "workers_at t' ps cs w'"
  using assms by (auto simp: workers_at_def)

lemma worker_added:
  assumes c: "workers_at t ps cs w" and "ts w' = (ts w)[0 := t'] @ [place (vars w counter) p]" and "owner w' = owner w" and "vars w' counter = vars w counter"
    and "\<not> holds p" and "counted 0 p"
  shows "workers_at t' (ps @ [p]) (cs @ [0]) w'"
  using assms workers_lengths [OF c] by (auto simp: workers_at_def nth_append less_Suc_eq list_all2_appendI)

text \<open>Several workers that are outside the section move on together, without counting.\<close>

lemma workers_move:
  assumes c: "workers_at t ps cs w" and "ts w' = t' # map (place (vars w counter)) ps'" and "owner w' = owner w" and "vars w' counter = vars w counter"
    and l: "length ps' = length ps"
    and p: "\<And>i. i < length ps \<Longrightarrow> holds (ps' ! i) = holds (ps ! i) \<and> (counted (cs ! i) (ps ! i) \<longrightarrow> counted (cs ! i) (ps' ! i))"
  shows "workers_at t' ps' cs w'"
proof -
  have "(\<exists>j < length ps. i = Suc j \<and> holds (ps ! j)) = (\<exists>j < length ps'. i = Suc j \<and> holds (ps' ! j))" for i
    using p l by auto
  moreover have "list_all2 counted cs ps'" using c l p by (auto simp: workers_at_def list_all2_conv_all_nth)
  ultimately show ?thesis using assms(1-4) unfolding workers_at_def by simp
qed

text \<open>When all workers have made \<open>n\<close> increments, none was lost.\<close>

lemma counter_total:
  assumes "workers_at t ps cs w" and "\<And>i. i < length ps \<Longrightarrow> cs ! i = n"
  shows "vars w counter = of_nat (length ps) * of_nat n"
proof -
  have "cs = replicate (length ps) n" using assms workers_lengths [OF assms(1)] by (auto intro!: nth_equalityI)
  then show ?thesis using assms(1) by (simp add: workers_at_def sum_list_replicate)
qed

text \<open>A worker that is not blocked: the holder of the mutex, or anyone while it is free.\<close>

lemma some_worker_free:
  assumes "workers_at t ps cs w" and "j < length ps"
  obtains i where "i < length ps" and "owner w mutex = Some (Suc i) \<and> holds (ps ! i) \<or> owner w mutex = None \<and> i = j"
proof (cases "owner w mutex")
  case None
  then show thesis using that assms(2) by blast
next
  case (Some x)
  then show thesis using that owner_worker [OF assms(1)] by blast
qed

end

end
