(* ===== verification/Targets.thy ===== *)
theory Targets
  imports Pthreads
begin

text \<open>
  The scenario programs under \<^verbatim>\<open>targets/\<close>, threads and main functions.  Mutex addresses
  are parameters.  Printed lines are given without their final newline.
\<close>

section \<open>Loops over threads\<close>

text \<open>\<^verbatim>\<open>for (i = 0; i < n; ++i) pthread_create(&threads[i], ...)\<close>, collecting the handles\<close>

primrec create_workers :: "nat \<Rightarrow> prog \<Rightarrow> nat list \<Rightarrow> (i32 \<Rightarrow> prog) \<Rightarrow> (nat list \<Rightarrow> prog) \<Rightarrow> prog" where
  "create_workers 0 body hs failed created = created hs"
| "create_workers (Suc n) body hs failed created =
     Create body (\<lambda>rc h. if rc \<noteq> 0 then failed rc else create_workers n body (hs @ [h]) failed created)"

section \<open>The correct target\<close>

text \<open>
  \<^verbatim>\<open>targets/correct/correct_mutex.c\<close>, for any number of threads and iterations.
  Variable 0 is \<open>shared_counter\<close>.
\<close>

abbreviation (input) THREAD_COUNT :: nat where "THREAD_COUNT \<equiv> 4"
abbreviation (input) ITERATIONS_PER_THREAD :: nat where "ITERATIONS_PER_THREAD \<equiv> 250000"
abbreviation (input) shared_counter :: nat where "shared_counter \<equiv> 0"

primrec correct_worker :: "uintptr \<Rightarrow> nat \<Rightarrow> prog" where
  "correct_worker counter_mutex 0 = Done 0"
| "correct_worker counter_mutex (Suc n) =
     Lock counter_mutex (\<lambda>rc.
       if rc \<noteq> 0 then Complain (''pthread_mutex_lock failed: '' @ fmt_d rc) (Done 1)
       else Load shared_counter (\<lambda>v. Store shared_counter (v + 1) (Unlock counter_mutex (\<lambda>rc.
         if rc \<noteq> 0 then Complain (''pthread_mutex_unlock failed: '' @ fmt_d rc) (Done 1)
         else correct_worker counter_mutex n))))"

definition correct_check :: "nat \<Rightarrow> nat \<Rightarrow> prog" where
  "correct_check N n =
     (let expected = of_nat N * of_nat n in
      Say (''Expected counter: '' @ fmt_lu expected) (
      Load shared_counter (\<lambda>v. Say (''Actual counter:   '' @ fmt_lu v) (
      Load shared_counter (\<lambda>v.
        if v \<noteq> expected then Complain ''[FAIL] Counter mismatch'' (Done EXIT_FAILURE)
        else Say ''[PASS] Synchronization is correct'' (Done EXIT_SUCCESS))))))"

primrec correct_join :: "nat list \<Rightarrow> prog \<Rightarrow> prog" where
  "correct_join [] check = check"
| "correct_join (h # hs) check =
     Join h (\<lambda>rc thread_result.
       if rc \<noteq> 0 then Complain (''pthread_join failed: '' @ fmt_d rc) (Done EXIT_FAILURE)
       else if thread_result \<noteq> 0 then Complain ''Worker thread reported failure'' (Done EXIT_FAILURE)
       else correct_join hs check)"

definition correct_main :: "uintptr \<Rightarrow> nat \<Rightarrow> nat \<Rightarrow> prog" where
  "correct_main counter_mutex N n =
     Say ''=== Correct mutex target ==='' (
     Say (''Threads: '' @ fmt_d (of_nat N)) (
     Say (''Iterations/thread: '' @ fmt_d (of_nat n)) (
     create_workers N (correct_worker counter_mutex n) []
       (\<lambda>rc. Complain (''pthread_create failed: '' @ fmt_d rc) (Done EXIT_FAILURE))
       (\<lambda>threads. correct_join threads (correct_check N n)))))"

section \<open>Targets with one worker\<close>

text \<open>\<^verbatim>\<open>targets/self_deadlock/self_deadlock.c\<close>\<close>

definition self_deadlock_worker :: "uintptr \<Rightarrow> prog" where
  "self_deadlock_worker mutex =
     Say ''[WORKER] First mutex lock'' (
     Lock mutex (\<lambda>first_rc.
       if first_rc \<noteq> 0 then Say (''[FAIL] First lock returned '' @ fmt_d first_rc) (Done 0)
       else Say ''[WORKER] First lock acquired'' (Say ''[WORKER] Requesting same mutex again'' (
         Lock mutex (\<lambda>second_rc.
           Say (''[WORKER] Second lock returned '' @ fmt_d second_rc) (
           Say (if second_rc = EDEADLK then ''[PASS] ERRORCHECK mutex rejected self-lock with EDEADLK''
                else ''[FAIL] Expected EDEADLK='' @ fmt_d EDEADLK) (
           Unlock mutex (\<lambda>_. Done 0))))))))"

text \<open>
  The setup that the self-deadlock and the non-owner targets share: a mutex that checks for
  errors.
\<close>

definition errorcheck_mutex :: "uintptr \<Rightarrow> prog \<Rightarrow> prog" where
  "errorcheck_mutex mutex rest =
     Call ''pthread_mutexattr_init'' (\<lambda>rc. if rc \<noteq> 0 then Done EXIT_FAILURE
     else Call ''pthread_mutexattr_settype'' (\<lambda>rc. if rc \<noteq> 0 then Done EXIT_FAILURE
     else Mutex_Init mutex PTHREAD_MUTEX_ERRORCHECK (\<lambda>rc. if rc \<noteq> 0 then Done EXIT_FAILURE
     else Call ''pthread_mutexattr_destroy'' (\<lambda>_. rest))))"

definition self_deadlock_main :: "uintptr \<Rightarrow> prog" where
  "self_deadlock_main mutex =
     Say ''=== Self-deadlock candidate target ==='' (
     errorcheck_mutex mutex (
     Create (self_deadlock_worker mutex) (\<lambda>rc thread. if rc \<noteq> 0 then Done EXIT_FAILURE
     else Join thread (\<lambda>_ _. Call ''pthread_mutex_destroy'' (\<lambda>_. Done EXIT_SUCCESS)))))"

text \<open>\<^verbatim>\<open>targets/held_at_exit/held_at_exit.c\<close>\<close>

definition held_at_exit_worker :: "uintptr \<Rightarrow> prog" where
  "held_at_exit_worker mutex =
     Say ''[WORKER] Locking mutex'' (
     Lock mutex (\<lambda>rc.
       if rc \<noteq> 0 then Say (''[FAIL] pthread_mutex_lock returned '' @ fmt_d rc) (Done 0)
       else Say ''[WORKER] Mutex acquired'' (Say ''[WORKER] Exiting without unlocking'' (Done 0))))"

definition held_at_exit_main :: "uintptr \<Rightarrow> prog" where
  "held_at_exit_main mutex =
     Say ''=== Lock-held-at-thread-exit target ==='' (
     Create (held_at_exit_worker mutex) (\<lambda>rc thread. if rc \<noteq> 0 then Done EXIT_FAILURE
     else Join thread (\<lambda>_ _. Say ''[TARGET] Worker has exited'' (Done EXIT_SUCCESS))))"

text \<open>\<^verbatim>\<open>targets/hold_time/hold_time.c\<close>\<close>

definition hold_time_worker :: "uintptr \<Rightarrow> prog" where
  "hold_time_worker mutex =
     Say ''[WORKER] Locking mutex'' (
     Lock mutex (\<lambda>rc.
       if rc \<noteq> 0 then Say (''[FAIL] pthread_mutex_lock returned '' @ fmt_d rc) (Done 0)
       else Say ''[WORKER] Holding mutex for approximately 200 ms'' (Sleep 200000000 (
         Say ''[WORKER] Unlocking mutex'' (Unlock mutex (\<lambda>_. Done 0))))))"

definition hold_time_main :: "uintptr \<Rightarrow> prog" where
  "hold_time_main mutex =
     Say ''=== Hold-time violation target ==='' (
     Create (hold_time_worker mutex) (\<lambda>rc thread. if rc \<noteq> 0 then Done EXIT_FAILURE
     else Join thread (\<lambda>_ _. Call ''pthread_mutex_destroy'' (\<lambda>_. Done EXIT_SUCCESS))))"

section \<open>Targets with two threads\<close>

text \<open>\<^verbatim>\<open>targets/non_owner_unlock/non_owner_unlock.c\<close>\<close>

abbreviation (input) owner_ready :: nat where "owner_ready \<equiv> 0"
abbreviation (input) unlock_attempt_complete :: nat where "unlock_attempt_complete \<equiv> 1"

definition owner_thread :: "uintptr \<Rightarrow> prog" where
  "owner_thread mutex =
     Say ''[OWNER] Locking mutex'' (
     Lock mutex (\<lambda>rc.
       if rc \<noteq> 0 then Complain ''[FAIL] Owner could not lock mutex'' (Done 0)
       else Say ''[OWNER] Mutex acquired'' (
         Barrier_Wait owner_ready (\<lambda>_. Barrier_Wait unlock_attempt_complete (\<lambda>_.
         Say ''[OWNER] Releasing mutex'' (Unlock mutex (\<lambda>_. Done 0)))))))"

definition non_owner_thread :: "uintptr \<Rightarrow> prog" where
  "non_owner_thread mutex =
     Barrier_Wait owner_ready (\<lambda>_. Say ''[NON-OWNER] Attempting invalid unlock'' (
     Unlock mutex (\<lambda>rc.
       Say (''[NON-OWNER] pthread_mutex_unlock returned '' @ fmt_d rc) (
       Say (if rc = EPERM then ''[PASS] Non-owner unlock rejected with EPERM''
            else ''[FAIL] Expected EPERM='' @ fmt_d EPERM) (
       Barrier_Wait unlock_attempt_complete (\<lambda>_. Done 0))))))"

definition non_owner_main :: "uintptr \<Rightarrow> prog" where
  "non_owner_main mutex =
     Say ''=== Non-owner unlock target ==='' (
     errorcheck_mutex mutex (
     Barrier_Init owner_ready 2 (\<lambda>rc. if rc \<noteq> 0 then Done EXIT_FAILURE
     else Barrier_Init unlock_attempt_complete 2 (\<lambda>rc. if rc \<noteq> 0 then Done EXIT_FAILURE
     else Create (owner_thread mutex) (\<lambda>rc owner. if rc \<noteq> 0 then Done EXIT_FAILURE
     else Create (non_owner_thread mutex) (\<lambda>rc non_owner. if rc \<noteq> 0 then Done EXIT_FAILURE
     else Join owner (\<lambda>_ _. Join non_owner (\<lambda>_ _.
       Call ''pthread_barrier_destroy'' (\<lambda>_. Call ''pthread_barrier_destroy'' (\<lambda>_.
       Call ''pthread_mutex_destroy'' (\<lambda>_. Done EXIT_SUCCESS)))))))))))"

text \<open>\<^verbatim>\<open>targets/circular_deadlock/circular_deadlock.c\<close>\<close>

definition wait_at_barrier :: "prog \<Rightarrow> prog \<Rightarrow> prog" where
  "wait_at_barrier failed continued =
     Barrier_Wait 0 (\<lambda>rc. if rc \<noteq> 0 \<and> rc \<noteq> PTHREAD_BARRIER_SERIAL_THREAD
                  then Complain (''pthread_barrier_wait failed: '' @ fmt_d rc) failed else continued)"

definition thread_one :: "uintptr \<Rightarrow> uintptr \<Rightarrow> prog" where
  "thread_one mutex_a mutex_b =
     Say ''[T1] Locking mutex A'' (
     Lock mutex_a (\<lambda>rc. if rc \<noteq> 0 then Complain ''[T1] Failed to lock mutex A'' (Done 1)
       else Say ''[T1] Acquired mutex A'' (wait_at_barrier (Done 1) (
         Say ''[T1] Requesting mutex B'' (
         Lock mutex_b (\<lambda>rc. if rc \<noteq> 0 then Complain ''[T1] Failed to lock mutex B'' (Done 1)
           else Unlock mutex_b (\<lambda>_. Unlock mutex_a (\<lambda>_. Done 0))))))))"

definition thread_two :: "uintptr \<Rightarrow> uintptr \<Rightarrow> prog" where
  "thread_two mutex_a mutex_b =
     Say ''[T2] Locking mutex B'' (
     Lock mutex_b (\<lambda>rc. if rc \<noteq> 0 then Complain ''[T2] Failed to lock mutex B'' (Done 1)
       else Say ''[T2] Acquired mutex B'' (wait_at_barrier (Done 1) (
         Say ''[T2] Requesting mutex A'' (
         Lock mutex_a (\<lambda>rc. if rc \<noteq> 0 then Complain ''[T2] Failed to lock mutex A'' (Done 1)
           else Unlock mutex_a (\<lambda>_. Unlock mutex_b (\<lambda>_. Done 0))))))))"

definition circular_main :: "uintptr \<Rightarrow> uintptr \<Rightarrow> prog" where
  "circular_main mutex_a mutex_b =
     Call ''setvbuf'' (\<lambda>_. Say ''=== Circular deadlock target ==='' (
     Barrier_Init 0 2 (\<lambda>rc.
       if rc \<noteq> 0 then Complain (''pthread_barrier_init failed: '' @ fmt_d rc) (Done EXIT_FAILURE)
       else Create (thread_one mutex_a mutex_b) (\<lambda>rc t1.
       if rc \<noteq> 0 then Complain (''pthread_create(T1) failed: '' @ fmt_d rc) (Done EXIT_FAILURE)
       else Create (thread_two mutex_a mutex_b) (\<lambda>rc t2.
       if rc \<noteq> 0 then Complain (''pthread_create(T2) failed: '' @ fmt_d rc) (Done EXIT_FAILURE)
       else Join t1 (\<lambda>_ _. Join t2 (\<lambda>_ _. Call ''pthread_barrier_destroy'' (\<lambda>_. Done EXIT_SUCCESS))))))))"

end
