(* ===== verification/Target_Correct.thy ===== *)
theory Target_Correct
  imports Guarded_Counter Targets
begin

text \<open>
  The correct target: a typing of its processes that every step keeps, whatever fails, and
  how its runs end.
\<close>

text \<open>What a worker does once its lock call has returned, and once its unlock call has.\<close>

definition correct_unlocked :: "uintptr \<Rightarrow> nat \<Rightarrow> i32 \<Rightarrow> prog" where
  "correct_unlocked m n rc =
     (if rc \<noteq> 0 then Complain (''pthread_mutex_unlock failed: '' @ fmt_d rc) (Done 1) else correct_worker m n)"

definition correct_locked :: "uintptr \<Rightarrow> nat \<Rightarrow> i32 \<Rightarrow> prog" where
  "correct_locked m n rc =
     (if rc \<noteq> 0 then Complain (''pthread_mutex_lock failed: '' @ fmt_d rc) (Done 1)
      else Load shared_counter (\<lambda>v. Store shared_counter (v + 1) (Unlock m (correct_unlocked m n))))"

lemma correct_worker_Suc: "correct_worker m (Suc n) = Lock m (correct_locked m n)"
  unfolding correct_locked_def [abs_def] correct_unlocked_def [abs_def] by simp

text \<open>
  The places of a worker with its number of rounds still to start: between two rounds, inside
  the lock call, in the critical section before the load, between load and store, and after the
  store; returned; or having met a failure, with the mutex still locked or not, before and
  after its return.
\<close>

datatype phase = Outside nat | Wanting nat | Entered nat | Loaded nat | Updated nat | Ended | Broken bool | Dead bool

primrec phase_state :: "uintptr \<Rightarrow> u64 \<Rightarrow> phase \<Rightarrow> tstate" where
  "phase_state m v (Outside r) = Running (correct_worker m r)"
| "phase_state m v (Wanting r) = Locking m (correct_locked m r)"
| "phase_state m v (Entered r) = Running (correct_locked m r 0)"
| "phase_state m v (Loaded r) = Running (Store shared_counter (v + 1) (Unlock m (correct_unlocked m r)))"
| "phase_state m v (Updated r) = Running (Unlock m (correct_unlocked m r))"
| "phase_state m v Ended = Finished 0"
| "phase_state m v (Broken h) = Running (Done 1)"
| "phase_state m v (Dead h) = Finished 1"

primrec holds :: "phase \<Rightarrow> bool" where
  "holds (Outside r) = False" | "holds (Wanting r) = False" | "holds (Entered r) = True" | "holds (Loaded r) = True"
| "holds (Updated r) = True" | "holds Ended = False" | "holds (Broken h) = h" | "holds (Dead h) = h"

primrec unbroken :: "phase \<Rightarrow> bool" where
  "unbroken (Outside r) = True" | "unbroken (Wanting r) = True" | "unbroken (Entered r) = True" | "unbroken (Loaded r) = True"
| "unbroken (Updated r) = True" | "unbroken Ended = True" | "unbroken (Broken h) = False" | "unbroken (Dead h) = False"

text \<open>The phase of a worker with the number \<open>c\<close> of increments it has made, out of \<open>n\<close>.\<close>

primrec counted :: "nat \<Rightarrow> nat \<Rightarrow> phase \<Rightarrow> bool" where
  "counted n c (Outside r) \<longleftrightarrow> c + r = n"
| "counted n c (Wanting r) \<longleftrightarrow> c + Suc r = n"
| "counted n c (Entered r) \<longleftrightarrow> c + Suc r = n"
| "counted n c (Loaded r) \<longleftrightarrow> c + Suc r = n"
| "counted n c (Updated r) \<longleftrightarrow> c + r = n \<and> 0 < c"
| "counted n c Ended \<longleftrightarrow> c = n"
| "counted n c (Broken h) \<longleftrightarrow> c \<le> n"
| "counted n c (Dead h) \<longleftrightarrow> c \<le> n"

interpretation correct: guarded_counter m shared_counter "phase_state m" holds "counted n" for m n
proof
  show "\<not> holds p \<Longrightarrow> phase_state m v p = phase_state m v' p" for v v' p by (cases p) simp_all
qed

text \<open>The events of \<open>c\<close> rounds, and those of a worker in a phase it reaches without failures.\<close>

definition round_events :: "uintptr \<Rightarrow> call_event list" where
  "round_events m = [(MONITOR_EVENT_LOCK_REQUEST, m, 0), (MONITOR_EVENT_LOCK_ACQUIRED, m, 0), (MONITOR_EVENT_UNLOCKED, m, 0)]"

definition rounds :: "uintptr \<Rightarrow> nat \<Rightarrow> call_event list" where
  "rounds m c = concat (replicate c (round_events m))"

definition with_start :: "call_event list \<Rightarrow> call_event list" where
  "with_start cs = (if cs = [] then [] else (MONITOR_EVENT_THREAD_START, 0, 0) # cs)"

primrec phase_events :: "uintptr \<Rightarrow> nat \<Rightarrow> phase \<Rightarrow> call_event list" where
  "phase_events m c (Outside r) = with_start (rounds m c)"
| "phase_events m c (Wanting r) = with_start (rounds m c @ take 1 (round_events m))"
| "phase_events m c (Entered r) = with_start (rounds m c @ take 2 (round_events m))"
| "phase_events m c (Loaded r) = with_start (rounds m c @ take 2 (round_events m))"
| "phase_events m c (Updated r) = with_start (rounds m (c - 1) @ take 2 (round_events m))"
| "phase_events m c Ended = (if c = 0 then [] else with_start (rounds m c @ [(MONITOR_EVENT_THREAD_EXIT, 0, 0)]))"
| "phase_events m c (Broken h) = []"
| "phase_events m c (Dead h) = []"

text \<open>The main thread, with the numbers of workers created and joined.\<close>

datatype main_phase = Creating nat | Joining nat | Checking | Passing | Failing | Exited bool

abbreviation (input) correct_failed :: "i32 \<Rightarrow> prog" where
  "correct_failed rc \<equiv> Complain (''pthread_create failed: '' @ fmt_d rc) (Done EXIT_FAILURE)"

definition correct_verdict :: "u64 \<Rightarrow> u64 \<Rightarrow> prog" where
  "correct_verdict expected v =
     (if v \<noteq> expected then Complain ''[FAIL] Counter mismatch'' (Done EXIT_FAILURE)
      else Say ''[PASS] Synchronization is correct'' (Done EXIT_SUCCESS))"

primrec main_prog :: "uintptr \<Rightarrow> nat \<Rightarrow> nat \<Rightarrow> main_phase \<Rightarrow> prog" where
  "main_prog m N n (Creating c) = create_workers (N - c) (correct_worker m n) [1..<Suc c] correct_failed
     (\<lambda>threads. correct_join threads (correct_check N n))"
| "main_prog m N n (Joining j) = correct_join [Suc j..<Suc N] (correct_check N n)"
| "main_prog m N n Checking = Load shared_counter (correct_verdict (of_nat N * of_nat n))"
| "main_prog m N n Passing = Done EXIT_SUCCESS"
| "main_prog m N n Failing = Done EXIT_FAILURE"
| "main_prog m N n (Exited ok) = Done (if ok then EXIT_SUCCESS else EXIT_FAILURE)"


primrec main_state :: "uintptr \<Rightarrow> nat \<Rightarrow> nat \<Rightarrow> main_phase \<Rightarrow> tstate" where
  "main_state m N n (Creating c) = Running (snd (settle (main_prog m N n (Creating c))))"
| "main_state m N n (Joining j) = Running (snd (settle (main_prog m N n (Joining j))))"
| "main_state m N n Checking = Running (main_prog m N n Checking)"
| "main_state m N n Passing = Running (main_prog m N n Passing)"
| "main_state m N n Failing = Running (main_prog m N n Failing)"
| "main_state m N n (Exited b) = Finished (if b then EXIT_SUCCESS else EXIT_FAILURE)"

primrec main_ok :: "nat \<Rightarrow> phase list \<Rightarrow> main_phase \<Rightarrow> bool" where
  "main_ok N ps (Creating c) \<longleftrightarrow> c < N \<and> length ps = c"
| "main_ok N ps (Joining j) \<longleftrightarrow> j \<le> N \<and> length ps = N \<and> (\<forall>i < j. ps ! i = Ended)"
| "main_ok N ps Checking \<longleftrightarrow> length ps = N \<and> (\<forall>i < N. ps ! i = Ended)"
| "main_ok N ps Passing \<longleftrightarrow> length ps = N \<and> (\<forall>i < N. ps ! i = Ended)"
| "main_ok N ps Failing \<longleftrightarrow> True"
| "main_ok N ps (Exited b) \<longleftrightarrow> (b \<longrightarrow> length ps = N \<and> (\<forall>i < N. ps ! i = Ended))"

primrec main_exit :: "main_phase \<Rightarrow> u64 option" where
  "main_exit (Creating c) = None" | "main_exit (Joining j) = None" | "main_exit Checking = None"
| "main_exit Passing = None" | "main_exit Failing = None"
| "main_exit (Exited b) = Some (if b then EXIT_SUCCESS else EXIT_FAILURE)"

definition correct_lines :: "nat \<Rightarrow> nat \<Rightarrow> string list" where
  "correct_lines N n = [''=== Correct mutex target ==='', ''Threads: '' @ fmt_d (of_nat N), ''Iterations/thread: '' @ fmt_d (of_nat n)]"

definition expected_line :: "nat \<Rightarrow> nat \<Rightarrow> string" where
  "expected_line N n = ''Expected counter: '' @ fmt_lu (of_nat N * of_nat n)"

definition actual_line :: "u64 \<Rightarrow> string" where
  "actual_line v = ''Actual counter:   '' @ fmt_lu v"

primrec main_lines :: "nat \<Rightarrow> nat \<Rightarrow> main_phase \<Rightarrow> string list option" where
  "main_lines N n (Creating c) = Some (correct_lines N n)"
| "main_lines N n (Joining j) = Some (correct_lines N n @ (if j = N then [expected_line N n] else []))"
| "main_lines N n Checking = Some (correct_lines N n @ [expected_line N n, actual_line (of_nat N * of_nat n)])"
| "main_lines N n Passing = Some (correct_lines N n @ [expected_line N n, actual_line (of_nat N * of_nat n), ''[PASS] Synchronization is correct''])"
| "main_lines N n Failing = None"
| "main_lines N n (Exited b) = (if b then Some (correct_lines N n @ [expected_line N n, actual_line (of_nat N * of_nat n), ''[PASS] Synchronization is correct'']) else None)"

text \<open>
  The typing of the process: its main thread is in phase \<open>mp\<close>, its workers in the phases \<open>ps\<close>
  with the counts \<open>cs\<close> of increments made.
\<close>

definition correct_at :: "uintptr \<Rightarrow> nat \<Rightarrow> nat \<Rightarrow> main_phase \<Rightarrow> phase list \<Rightarrow> nat list \<Rightarrow> process \<Rightarrow> bool" where
  "correct_at m N n mp ps cs w \<longleftrightarrow> correct.workers_at m n (main_state m N n mp) ps cs w \<and> mutex_type w m = PTHREAD_MUTEX_NORMAL \<and>
     main_ok N ps mp \<and> exit_code w = main_exit mp \<and> length ps \<le> N"

definition quiet_at :: "uintptr \<Rightarrow> nat \<Rightarrow> nat \<Rightarrow> main_phase \<Rightarrow> phase list \<Rightarrow> nat list \<Rightarrow> process \<Rightarrow> bool" where
  "quiet_at m N n mp ps cs w \<longleftrightarrow> list_all unbroken ps \<and> main_lines N n mp = Some (printed w 0) \<and>
     (\<forall>j. j < length ps \<longrightarrow> events w (Suc j) = phase_events m (cs ! j) (ps ! j)) \<and>
     (\<forall>j. length ps \<le> j \<longrightarrow> events w (Suc j) = []) \<and> events w 0 = []"

lemma settle_worker [simp]: "settle (correct_worker m n) = ([], correct_worker m n)"
  by (cases n) simp_all

lemma correct_returns [simp]:
  "correct_locked m r 0 = Load shared_counter (\<lambda>v. Store shared_counter (v + 1) (Unlock m (correct_unlocked m r)))"
  "correct_unlocked m r 0 = correct_worker m r"
  "rc \<noteq> 0 \<Longrightarrow> snd (settle (correct_locked m r rc)) = Done 1" "rc \<noteq> 0 \<Longrightarrow> snd (settle (correct_unlocked m r rc)) = Done 1"
  by (simp_all add: correct_locked_def correct_unlocked_def)

lemma correct_worker_0 [simp]: "correct_worker m 0 = Done 0"
  by simp

declare correct_worker.simps [simp del] correct_worker_Suc [simp]

lemma with_start_simps [simp]: "with_start cs = [] \<longleftrightarrow> cs = []" "with_start [] = []" "with_start (c # cs) = (MONITOR_EVENT_THREAD_START, 0, 0) # c # cs"
  by (simp_all add: with_start_def)

lemma with_start_append: "cs \<noteq> [] \<Longrightarrow> with_start cs @ ds = with_start (cs @ ds)"
  by (simp add: with_start_def)

lemma rounds_simps [simp]: "rounds m 0 = []" "rounds m c = [] \<longleftrightarrow> c = 0"
  by (auto simp: rounds_def round_events_def)

lemma rounds_Suc: "rounds m (Suc c) = rounds m c @ round_events m"
  by (induction c) (simp_all add: rounds_def)

lemma rounds_last: "0 < c \<Longrightarrow> rounds m (c - Suc 0) @ [(MONITOR_EVENT_LOCK_REQUEST, m, 0), (MONITOR_EVENT_LOCK_ACQUIRED, m, 0),
    (MONITOR_EVENT_UNLOCKED, m, 0)] = rounds m c"
  using rounds_Suc [of m "c - 1"] by (simp add: round_events_def)

lemma correct_workers: "correct_at m N n mp ps cs w \<Longrightarrow> correct.workers_at m n (main_state m N n mp) ps cs w"
  by (simp add: correct_at_def)

lemma correct_main: "correct_at m N n mp ps cs w \<Longrightarrow> ts w ! 0 = main_state m N n mp \<and> main_ok N ps mp \<and> exit_code w = main_exit mp"
  using correct.workers_main by (auto simp: correct_at_def)

lemma correct_at_lengths: "correct_at m N n mp ps cs w \<Longrightarrow> length (ts w) = Suc (length ps) \<and> length cs = length ps"
  using correct.workers_lengths [OF correct_workers] by blast

lemma worker_update:
  assumes c: "correct_at m N n mp ps cs w" and i: "i < length ps"
    and u: "correct.workers_at m n (main_state m N n mp) ps cs w \<Longrightarrow> correct.workers_at m n (main_state m N n mp) (ps[i := ph]) (cs[i := c']) w'"
    and e: "ps ! i \<noteq> Ended" and s: "same_setup w w'"
  shows "correct_at m N n mp (ps[i := ph]) (cs[i := c']) w'"
proof -
  have "main_ok N (ps[i := ph]) mp" using correct_main [OF c] e i by (cases mp) (auto simp: nth_list_update)
  then show ?thesis using c u s by (simp add: correct_at_def same_setup_def)
qed

lemma worker_steps:
  assumes c: "correct_at m N n mp ps cs w" and i: "i < length ps" and a: "act (Suc i) (ts w ! Suc i) w w'"
  obtains ph c' where "correct_at m N n mp (ps[i := ph]) (cs[i := c']) w'"
    and "unbroken (ps ! i) \<Longrightarrow> unbroken ph \<and> printed w' 0 = printed w 0 \<and>
      (events w (Suc i) = phase_events m (cs ! i) (ps ! i) \<longrightarrow> events w' = (events w)(Suc i := phase_events m c' ph))"
proof -
  note W = correct_workers [OF c]
  note t = correct.workers_nth(1) [OF W i] and k = correct.workers_nth(2) [OF W i] and own = correct.workers_nth(3) [OF W i]
  have own0: "0 < x" if "owner w m = Some x" for x using correct.owner_worker [OF W that] by auto
  have ty: "mutex_type w m = PTHREAD_MUTEX_NORMAL" using c by (simp add: correct_at_def)
  note upd = worker_update [OF c i] correct.worker_moved [OF W i]
  show thesis
  proof (cases "ps ! i")
    case (Outside r)
    show thesis
    proof (cases r)
      case 0
      with a t Outside own own0 k show thesis
        by (intro that [of Ended "cs ! i"] upd) (auto simp: act_simps same_setup_def with_start_append round_events_def rounds_last)
    next
      case (Suc r')
      with a t Outside own own0 k show thesis
        by (intro that [of "Wanting r'" "cs ! i"] upd) (auto simp: act_simps same_setup_def with_start_append round_events_def rounds_last emit_def)
    qed
  next
    case (Wanting r)
    with a t own own0 k ty show thesis
      by (intro that [of "Entered r" "cs ! i"] upd) (auto simp: act_simps same_setup_def with_start_append round_events_def rounds_last emit_def proceed_def)
  next
    case (Entered r)
    with a t own own0 k ty show thesis
      by (intro that [of "Loaded r" "cs ! i"] upd) (auto simp: act_simps same_setup_def with_start_append round_events_def rounds_last emit_def proceed_def)
  next
    case (Loaded r)
    with a t own own0 k ty show thesis
      by (intro that [of "Updated r" "Suc (cs ! i)"] upd) (auto simp: act_simps same_setup_def with_start_append round_events_def rounds_last emit_def proceed_def)
  next
    case (Updated r)
    with a t own own0 k ty show thesis
      by (intro that [of "Outside r" "cs ! i"] upd) (auto simp: act_simps same_setup_def with_start_append round_events_def rounds_last emit_def proceed_def)
  next
    case Ended
    with a t show thesis by (simp add: act_simps)
  next
    case (Broken h)
    with a t own own0 k ty show thesis
      by (intro that [of "Dead h" "cs ! i"] upd) (auto simp: act_simps same_setup_def with_start_append round_events_def rounds_last emit_def proceed_def)
  next
    case (Dead h)
    with a t show thesis by (simp add: act_simps)
  qed
qed

lemma worker_faults:
  assumes c: "correct_at m N n mp ps cs w" and i: "i < length ps" and a: "fault (Suc i) (ts w ! Suc i) w w'"
  obtains ph where "correct_at m N n mp (ps[i := ph]) (cs[i := cs ! i]) w'"
proof -
  note W = correct_workers [OF c]
  note t = correct.workers_nth(1) [OF W i] and k = correct.workers_nth(2) [OF W i] and own = correct.workers_nth(3) [OF W i]
  note upd = worker_update [OF c i] correct.worker_moved [OF W i]
  show thesis
  proof (cases "ps ! i")
    case (Outside r)
    with a t show thesis by (cases r) (auto elim: fault_cases)
  next
    case (Wanting r)
    with a t own k show thesis
      by (intro that [of "Broken False"] upd) (auto elim!: fault_cases simp: same_setup_def emit_def proceed_def)
  next
    case (Updated r)
    with a t own k show thesis
      by (intro that [of "Broken True"] upd) (auto elim!: fault_cases simp: same_setup_def emit_def proceed_def)
  qed (use a t in \<open>auto elim: fault_cases\<close>)
qed

text \<open>The main thread moves on.\<close>

lemma main_update:
  assumes "correct_at m N n mp ps cs w" and "ts w' = (ts w)[0 := main_state m N n mp']" and "owner w' = owner w" and "vars w' = vars w"
    and "mutex_type w' = mutex_type w" and "exit_code w' = main_exit mp'" and "main_ok N ps mp'"
  shows "correct_at m N n mp' ps cs w'"
  using assms correct.main_moves [OF correct_workers [OF assms(1)] assms(2,3)] by (simp add: correct_at_def)

definition correct_next :: "nat \<Rightarrow> nat \<Rightarrow> main_phase" where
  "correct_next N c = (if c < N then Creating c else Joining 0)"

lemma correct_next_prog: "c \<le> N \<Longrightarrow> main_prog m N n (correct_next N c) = main_prog m N n (Creating c)"
  by (auto simp: correct_next_def)

lemma correct_next_state: "main_state m N n (correct_next N c) = Running (snd (settle (main_prog m N n (correct_next N c))))"
  by (auto simp: correct_next_def)

lemma creating_prog: "c < N \<Longrightarrow> main_prog m N n (Creating c) = Create (correct_worker m n) (\<lambda>rc h. if rc \<noteq> 0 then correct_failed rc
     else create_workers (N - Suc c) (correct_worker m n) ([1..<Suc c] @ [h]) correct_failed (\<lambda>threads. correct_join threads (correct_check N n)))"
  unfolding main_prog.simps by (subst Suc_diff_Suc [symmetric]) (simp_all only: create_workers.simps)

lemma joining_prog: "j < N \<Longrightarrow> main_prog m N n (Joining j) = Join (Suc j) (\<lambda>rc thread_result.
       if rc \<noteq> 0 then Complain (''pthread_join failed: '' @ fmt_d rc) (Done EXIT_FAILURE)
       else if thread_result \<noteq> 0 then Complain ''Worker thread reported failure'' (Done EXIT_FAILURE)
       else main_prog m N n (Joining (Suc j)))"
  unfolding main_prog.simps by (subst upt_conv_Cons) (simp_all only: correct_join.simps Suc_less_eq)

lemma checking_prog: "settle (main_prog m N n (Joining N)) = ([expected_line N n], Load shared_counter (\<lambda>v. Say (actual_line v)
       (Load shared_counter (correct_verdict (of_nat N * of_nat n)))))"
  by (simp add: correct_check_def expected_line_def actual_line_def correct_verdict_def [abs_def] Let_def)

lemma settle_verdict: "settle (correct_verdict e v) =
    (if v = e then ([''[PASS] Synchronization is correct''], Done EXIT_SUCCESS) else ([''[FAIL] Counter mismatch''], Done EXIT_FAILURE))"
  by (simp add: correct_verdict_def)

lemma join_settled: "fst (settle (main_prog m N n (Joining j))) = (if j < N then [] else [expected_line N n])" if "j \<le> N"
  using that checking_prog [of m N n] by (cases "j = N") (simp_all add: joining_prog del: main_prog.simps)

lemma next_lines: "c \<le> N \<Longrightarrow>
    main_lines N n (correct_next N c) = Some (correct_lines N n @ fst (settle (main_prog m N n (correct_next N c))))"
  using join_settled [of 0 N m n] by (auto simp: correct_next_def creating_prog simp del: main_prog.simps)

lemma all_counted:
  assumes "correct_at m N n mp ps cs w" and "length ps = N" and "\<forall>i < N. ps ! i = Ended"
  shows "vars w shared_counter = of_nat N * of_nat n"
  using correct.counter_total [OF correct_workers [OF assms(1)], of n] correct.workers_nth(2) [OF correct_workers [OF assms(1)]] assms(2,3) by simp

text \<open>The main thread creates a worker, and joins one.\<close>

lemma main_creates:
  assumes c: "correct_at m N n mp ps cs w" and a: "act 0 (ts w ! 0) w w'" and Creating: "mp = Creating i"
  obtains mp' ps' cs' where "correct_at m N n mp' ps' cs' w'"
    and "quiet_at m N n mp ps cs w \<Longrightarrow> quiet_at m N n mp' ps' cs' w'"
proof -
  note W = correct_workers [OF c]
  have t: "ts w ! 0 = main_state m N n mp" and k: "main_ok N ps mp" and l: "length (ts w) = Suc (length ps)" "length cs = length ps"
    and x: "exit_code w = main_exit mp" using correct_main [OF c] correct_at_lengths [OF c] by simp_all
  have i: "i < N" "length ps = i" using k Creating by simp_all
  let ?mp = "correct_next N (Suc i)"
  have w': "w' = proceed 0 (main_prog m N n ?mp) (proceed (Suc i) (correct_worker m n) (w\<lparr>ts := ts w @ [Running (correct_worker m n)]\<rparr>))"
    using a t l i unfolding Creating main_state.simps creating_prog [OF i(1)] correct_next_prog [OF Suc_leI [OF i(1)]]
    by (simp add: act_simps)
  show thesis
  proof (rule that [of ?mp "ps @ [Outside n]" "cs @ [0]"])
    show "correct_at m N n ?mp (ps @ [Outside n]) (cs @ [0]) w'"
      using c i l Creating correct.worker_added [OF W, where p = "Outside n" and w' = w' and t' = "main_state m N n ?mp"]
      unfolding correct_at_def correct_next_state w'
      by (auto simp: proceed_def list_update_append correct_next_def nth_append less_Suc_eq simp del: main_prog.simps)
    show "quiet_at m N n ?mp (ps @ [Outside n]) (cs @ [0]) w'" if q: "quiet_at m N n mp ps cs w"
      using q i l next_lines [of "Suc i" N n m] Creating unfolding quiet_at_def w'
      by (auto simp: proceed_def nth_append less_Suc_eq simp del: main_prog.simps)
  qed
qed

lemma main_joins:
  assumes c: "correct_at m N n mp ps cs w" and a: "act 0 (ts w ! 0) w w'" and Joining: "mp = Joining j"
  obtains mp' ps' cs' where "correct_at m N n mp' ps' cs' w'"
    and "quiet_at m N n mp ps cs w \<Longrightarrow> quiet_at m N n mp' ps' cs' w'"
proof -
  note W = correct_workers [OF c]
  have t: "ts w ! 0 = main_state m N n mp" and k: "main_ok N ps mp" and l: "length (ts w) = Suc (length ps)" "length cs = length ps"
    and x: "exit_code w = main_exit mp" using correct_main [OF c] correct_at_lengths [OF c] by simp_all
  note upd = main_update [OF c]
  have j: "j \<le> N" "length ps = N" "\<forall>i < j. ps ! i = Ended" using k Joining by simp_all
  show thesis
  proof (cases "j = N")
    case True
    have w': "w' = proceed 0 (Say (actual_line (vars w 0)) (Load shared_counter (correct_verdict (of_nat N * of_nat n)))) w"
      using a t unfolding Joining True main_state.simps checking_prog by (simp add: act_simps)
    show thesis
      using Joining j True x join_settled [of N N m n] all_counted [OF c] by (intro that [of Checking ps cs] upd) (auto simp: w' proceed_def quiet_at_def)
  next
    case False
    with j have lt: "j < N" by simp
    obtain r where r: "ts w ! Suc j = Finished r" and w': "w' = proceed 0 (
         if r \<noteq> 0 then Complain ''Worker thread reported failure'' (Done EXIT_FAILURE) else main_prog m N n (Joining (Suc j))) w"
      using a t unfolding Joining main_state.simps joining_prog [OF lt] by (auto simp: act_simps simp del: main_prog.simps)
    have p: "phase_state m (vars w shared_counter) (ps ! j) = Finished r" using r correct.workers_nth(1) [OF W, of j] j lt by simp
    show thesis
    proof (cases "r = 0")
      case True
      then have "ps ! j = Ended" using p by (cases "ps ! j") auto
      with j lt x Joining True join_settled [of "Suc j" N m n] show thesis
        by (intro that [of "Joining (Suc j)" ps cs] upd) (auto simp: w' proceed_def quiet_at_def less_Suc_eq simp del: main_prog.simps)
    next
      case False
      then have "\<not> unbroken (ps ! j)" using p by (cases "ps ! j") auto
      with j lt x Joining False show thesis
        by (intro that [of Failing ps cs] upd) (auto simp: w' proceed_def quiet_at_def list_all_length)
    qed
  qed
qed

lemma main_steps:
  assumes c: "correct_at m N n mp ps cs w" and a: "act 0 (ts w ! 0) w w'"
  obtains mp' ps' cs' where "correct_at m N n mp' ps' cs' w'"
    and "quiet_at m N n mp ps cs w \<Longrightarrow> quiet_at m N n mp' ps' cs' w'"
proof -
  note W = correct_workers [OF c]
  have t: "ts w ! 0 = main_state m N n mp" and k: "main_ok N ps mp" and l: "length (ts w) = Suc (length ps)" "length cs = length ps"
    and x: "exit_code w = main_exit mp" using correct_main [OF c] correct_at_lengths [OF c] by simp_all
  note upd = main_update [OF c]
  show thesis
  proof (cases mp)
    case (Creating i)
    then show thesis using main_creates [OF c a] that by blast
  next
    case (Joining j)
    then show thesis using main_joins [OF c a] that by blast
  next
    case Checking
    have e: "vars w shared_counter = of_nat N * of_nat n" using all_counted [OF c] k Checking by simp
    have w': "w' = proceed 0 (correct_verdict (of_nat N * of_nat n) (vars w shared_counter)) w"
      using a t unfolding Checking by (simp add: act_simps)
    show thesis
      using Checking k x e by (intro that [of Passing ps cs] upd) (auto simp: w' proceed_def quiet_at_def settle_verdict)
  next
    case Passing
    with a t k x show thesis by (intro that [of "Exited True" ps cs] upd) (auto simp: act_simps quiet_at_def)
  next
    case Failing
    with a t k x show thesis by (intro that [of "Exited False" ps cs] upd) (auto simp: act_simps quiet_at_def)
  next
    case (Exited b)
    with a t show thesis by (auto simp: act_simps)
  qed
qed

lemma main_faults:
  assumes c: "correct_at m N n mp ps cs w" and a: "fault 0 (ts w ! 0) w w'"
  shows "correct_at m N n Failing ps cs w'"
proof -
  have t: "ts w ! 0 = main_state m N n mp" and k: "main_ok N ps mp" and x: "exit_code w = main_exit mp"
    using correct_main [OF c] by auto
  note upd = main_update [OF c]
  show ?thesis
  proof (cases mp)
    case (Creating i)
    then have i: "i < N" using k by simp
    show ?thesis
      using a t x unfolding Creating main_state.simps creating_prog [OF i] by (intro upd) (auto elim!: fault_cases simp: proceed_def)
  next
    case (Joining j)
    show ?thesis
    proof (cases "j = N")
      case True
      show ?thesis using a t unfolding Joining True main_state.simps checking_prog by (auto elim: fault_cases)
    next
      case False
      then have j: "j < N" using k Joining by simp
      show ?thesis
        using a t x unfolding Joining main_state.simps joining_prog [OF j]
        by (intro upd) (auto elim!: fault_cases simp: proceed_def simp del: main_prog.simps(2))
    qed
  qed (use a t in \<open>auto elim: fault_cases\<close>)
qed

definition correct_typed :: "uintptr \<Rightarrow> nat \<Rightarrow> nat \<Rightarrow> process \<Rightarrow> bool" where
  "correct_typed m N n w \<longleftrightarrow> (\<exists>mp ps cs. correct_at m N n mp ps cs w)"

definition correct_quiet :: "uintptr \<Rightarrow> nat \<Rightarrow> nat \<Rightarrow> process \<Rightarrow> bool" where
  "correct_quiet m N n w \<longleftrightarrow> (\<exists>mp ps cs. correct_at m N n mp ps cs w \<and> quiet_at m N n mp ps cs w)"

lemma thread_index:
  assumes "i < Suc n"
  obtains "i = 0" | j where "i = Suc j" and "j < n"
  using assms by (cases i) auto

lemma quiet_worker:
  assumes q: "quiet_at m N n mp ps cs w" and i: "i < length ps" "length cs = length ps"
    and u: "unbroken ph" and p: "printed w' 0 = printed w 0" and e: "events w' = (events w)(Suc i := phase_events m c' ph)"
  shows "quiet_at m N n mp (ps[i := ph]) (cs[i := c']) w'"
  using assms unfolding quiet_at_def by (auto simp: list_all_length nth_list_update)

lemma correct_quiet_step:
  assumes "correct_quiet m N n w" and s: "step w w'"
  shows "correct_quiet m N n w'"
proof -
  from assms(1) obtain mp ps cs where c: "correct_at m N n mp ps cs w" and q: "quiet_at m N n mp ps cs w"
    by (auto simp: correct_quiet_def)
  note l = correct_at_lengths [OF c]
  from s obtain i where i: "i < length (ts w)" "act i (ts w ! i) w w'" by (auto simp: step_def)
  from i(1) l have "i < Suc (length ps)" by simp
  then show ?thesis
  proof (cases rule: thread_index)
    case 1
    from main_steps [OF c i(2) [unfolded 1]] q show ?thesis unfolding correct_quiet_def by blast
  next
    case (2 j)
    from worker_steps [OF c 2(2) i(2) [unfolded 2(1)]] obtain ph c' where "correct_at m N n mp (ps[j := ph]) (cs[j := c']) w'"
      and "unbroken (ps ! j) \<Longrightarrow> unbroken ph \<and> printed w' 0 = printed w 0 \<and>
        (events w (Suc j) = phase_events m (cs ! j) (ps ! j) \<longrightarrow> events w' = (events w)(Suc j := phase_events m c' ph))" by blast
    moreover from this(2) have "quiet_at m N n mp (ps[j := ph]) (cs[j := c']) w'"
      using q 2(2) l by (intro quiet_worker [OF q 2(2)]) (auto simp: quiet_at_def list_all_length)
    ultimately show ?thesis unfolding correct_quiet_def by blast
  qed
qed

lemma correct_typed_step:
  assumes "correct_typed m N n w" and s: "step w w' \<or> fault_step w w'"
  shows "correct_typed m N n w'"
proof -
  from assms(1) obtain mp ps cs where c: "correct_at m N n mp ps cs w" by (auto simp: correct_typed_def)
  note l = correct_at_lengths [OF c]
  from s obtain i where i: "i < length (ts w)" "act i (ts w ! i) w w' \<or> fault i (ts w ! i) w w'"
    by (auto simp: step_def fault_step_def)
  from i(1) l have "i < Suc (length ps)" by simp
  then show ?thesis
  proof (cases rule: thread_index)
    case 1
    then show ?thesis using i(2) main_steps [OF c] main_faults [OF c] unfolding correct_typed_def 1 by metis
  next
    case (2 j)
    then show ?thesis using i(2) worker_steps [OF c 2(2)] worker_faults [OF c 2(2)] unfolding correct_typed_def 2 by metis
  qed
qed

lemma correct_boot: "correct_quiet m N n (boot (correct_main m N n))"
proof -
  have p: "settle (correct_main m N n) = (correct_lines N n @ fst (settle (main_prog m N n (Creating 0))), snd (settle (main_prog m N n (Creating 0))))"
    by (simp add: correct_main_def correct_lines_def)
  have q: "correct_next N 0 = (if 0 < N then Creating 0 else Joining 0)" by (simp add: correct_next_def)
  have "correct_at m N n (correct_next N 0) [] [] (boot (correct_main m N n))"
    using correct_next_state [of m N n 0] correct_next_prog [of 0 N m n] unfolding correct_at_def
    by (simp add: boot_def p q correct.workers_start del: main_prog.simps main_state.simps split: if_splits)
  moreover have "quiet_at m N n (correct_next N 0) [] [] (boot (correct_main m N n))"
    using next_lines [of 0 N n m] correct_next_prog [of 0 N m n] unfolding quiet_at_def
    by (simp add: boot_def p del: main_prog.simps)
  ultimately show ?thesis unfolding correct_quiet_def by blast
qed

lemma worker_moves:
  assumes c: "correct_at m N n mp ps cs w" and i: "i < length ps" and u: "unbroken (ps ! i)" and e: "ps ! i \<noteq> Ended"
    and o: "owner w m = None \<or> owner w m = Some (Suc i)"
  shows "\<exists>w'. act (Suc i) (ts w ! Suc i) w w'"
proof -
  note t = correct.workers_nth(1) [OF correct_workers [OF c] i] and own = correct.workers_nth(3) [OF correct_workers [OF c] i]
  show ?thesis
  proof (cases "ps ! i")
    case (Outside r)
    then show ?thesis unfolding t by (cases r) (auto simp: act_simps)
  qed (use t own o u e in \<open>auto simp: act_simps\<close>)
qed

lemma correct_moves:
  assumes c: "correct_at m N n mp ps cs w" and q: "quiet_at m N n mp ps cs w" and x: "exit_code w = None"
  shows "\<exists>w'. step w w'"
proof -
  note W = correct_workers [OF c]
  have l: "length (ts w) = Suc (length ps)" using correct_at_lengths [OF c] by simp
  have u: "\<forall>i < length ps. unbroken (ps ! i)" using q by (simp add: quiet_at_def list_all_length)
  have main: ?thesis if "act 0 (ts w ! 0) w w'" for w' using that x l by (auto simp: step_def)
  have worker: ?thesis if j: "j < length ps" "ps ! j \<noteq> Ended" for j
  proof -
    from correct.some_worker_free [OF W j(1)] j(2) holds.simps(6)
    obtain i where "i < length ps" "ps ! i \<noteq> Ended" "owner w m = None \<or> owner w m = Some (Suc i)" by metis
    then obtain w' where "act (Suc i) (ts w ! Suc i) w w'" "i < length ps" using worker_moves [OF c] u by blast
    then show ?thesis using x l by (auto simp: step_def)
  qed
  have t: "ts w ! 0 = main_state m N n mp" and k: "main_ok N ps mp" and ex: "exit_code w = main_exit mp"
    using correct_main [OF c] by simp_all
  show ?thesis
  proof (cases mp)
    case (Creating i)
    then have i: "i < N" using k by simp
    show ?thesis using main t unfolding Creating main_state.simps creating_prog [OF i] by (simp add: act_simps)
  next
    case (Joining j)
    show ?thesis
    proof (cases "j = N")
      case True
      show ?thesis using main t unfolding Joining True main_state.simps checking_prog by (simp add: act_simps)
    next
      case False
      then have j: "j < N" "length ps = N" using k Joining by simp_all
      show ?thesis
      proof (cases "ps ! j = Ended")
        case True
        then have "ts w ! Suc j = Finished 0" using correct.workers_nth(1) [OF W, of j] j by simp
        then show ?thesis using main t l j unfolding Joining main_state.simps joining_prog [OF j(1)] by (simp add: act_simps)
      qed (use worker j in simp)
    qed
  next
    case Checking
    then show ?thesis using main t by (simp add: act_simps)
  next
    case Passing
    then show ?thesis using main t by (simp add: act_simps)
  next
    case Failing
    then show ?thesis using main t by (simp add: act_simps)
  qed (use ex x in simp)
qed

text \<open>Workers in the critical section: holding the mutex, about to load, store or unlock.\<close>

fun in_critical :: "tstate \<Rightarrow> bool" where
  "in_critical (Running (Load x k)) = True"
| "in_critical (Running (Store x v p)) = True"
| "in_critical (Running (Unlock m k)) = True"
| "in_critical t = False"

lemma correct_runs_typed: "runs_with_faults (correct_main m N n) w \<Longrightarrow> correct_typed m N n w"
proof (induction rule: runs_with_faults.induct)
  case faulty_boot
  then show ?case using correct_boot unfolding correct_quiet_def correct_typed_def by blast
qed (auto intro: correct_typed_step)

lemma correct_runs_quiet: "runs (correct_main m N n) w \<Longrightarrow> correct_quiet m N n w"
  by (induction rule: runs.induct) (auto intro: correct_boot correct_quiet_step)

definition correct_outcome :: "uintptr \<Rightarrow> nat \<Rightarrow> nat \<Rightarrow> process \<Rightarrow> bool" where
  "correct_outcome m N n w \<longleftrightarrow> exit_code w = Some EXIT_SUCCESS \<and> vars w shared_counter = of_nat N * of_nat n \<and>
     printed w 0 = correct_lines N n @ [expected_line N n, actual_line (of_nat N * of_nat n), ''[PASS] Synchronization is correct''] \<and>
     length (ts w) = Suc N \<and> (\<forall>i. events w i = (if 0 < i \<and> i \<le> N then phase_events m n Ended else []))"

lemma correct_terminal:
  assumes "runs (correct_main m N n) w"
  shows "if stuck w then correct_outcome m N n w else exit_code w = None"
proof -
  from correct_runs_quiet [OF assms] obtain mp ps cs where c: "correct_at m N n mp ps cs w" and q: "quiet_at m N n mp ps cs w"
    by (auto simp: correct_quiet_def)
  show ?thesis
  proof (cases "stuck w")
    case True
    then have "exit_code w \<noteq> None" using correct_moves [OF c q] by (auto simp: stuck_def)
    then obtain b where mp: "mp = Exited b" using c by (cases mp) (auto simp: correct_at_def)
    have b using q by (simp add: mp quiet_at_def split: if_splits)
    then have e: "length ps = N" "\<forall>i < N. ps ! i = Ended" using c by (simp_all add: mp correct_at_def)
    have k: "\<forall>i < N. cs ! i = n" using correct.workers_nth(2) [OF correct_workers [OF c]] e by simp
    have "events w i = (if 0 < i \<and> i \<le> N then phase_events m n Ended else [])" for i
      using q e k by (cases i) (auto simp: quiet_at_def simp del: phase_events.simps)
    moreover have "printed w 0 = correct_lines N n @ [expected_line N n, actual_line (of_nat N * of_nat n), ''[PASS] Synchronization is correct'']"
      using q \<open>b\<close> by (simp add: mp quiet_at_def)
    moreover have "exit_code w = Some EXIT_SUCCESS" using c \<open>b\<close> by (simp add: mp correct_at_def)
    moreover have "length (ts w) = Suc N" using correct_at_lengths [OF c] e by simp
    ultimately show ?thesis using True all_counted [OF c e] unfolding correct_outcome_def by simp
  next
    case False
    then show ?thesis by (auto simp: stuck_def step_def)
  qed
qed

lemma critical_holds:
  assumes "in_critical (phase_state m v p)"
  shows "holds p"
proof (cases p)
  case (Outside r)
  with assms show ?thesis by (cases r) simp_all
qed (use assms in auto)

lemma correct_under_faults:
  assumes "runs_with_faults (correct_main m N n) w"
  shows "(\<forall>i j. 0 < i \<and> i < length (ts w) \<and> in_critical (ts w ! i) \<and> 0 < j \<and> j < length (ts w) \<and> in_critical (ts w ! j) \<longrightarrow> i = j) \<and>
    (exit_code w = Some EXIT_SUCCESS \<longrightarrow> length (ts w) = Suc N \<and> vars w shared_counter = of_nat N * of_nat n \<and>
       (\<forall>i. 0 < i \<and> i \<le> N \<longrightarrow> ts w ! i = Finished 0))"
proof -
  from correct_runs_typed [OF assms] obtain mp ps cs where c: "correct_at m N n mp ps cs w" by (auto simp: correct_typed_def)
  note l = correct_at_lengths [OF c]
  have t: "ts w ! Suc j = phase_state m (vars w shared_counter) (ps ! j)" if "j < length ps" for j
    using correct.workers_nth(1) [OF correct_workers [OF c]] that by simp
  have "i = j" if "0 < i \<and> i < length (ts w) \<and> in_critical (ts w ! i) \<and> 0 < j \<and> j < length (ts w) \<and> in_critical (ts w ! j)" for i j
    using that l t critical_holds correct.holder_unique [OF correct_workers [OF c], of "i - 1" "j - 1"] by (cases i; cases j) auto
  moreover have "length (ts w) = Suc N \<and> vars w shared_counter = of_nat N * of_nat n \<and> (\<forall>i. 0 < i \<and> i \<le> N \<longrightarrow> ts w ! i = Finished 0)"
    if ex: "exit_code w = Some EXIT_SUCCESS"
  proof -
    have "exit_code w = main_exit mp" using c by (simp add: correct_at_def)
    then obtain b where mp: "mp = Exited b" and b using ex by (cases mp) (auto split: if_splits)
    then have e: "length ps = N" "\<forall>i < N. ps ! i = Ended" using c by (simp_all add: mp correct_at_def)
    have "ts w ! i = Finished 0" if "0 < i \<and> i \<le> N" for i using t [of "i - 1"] e that by (cases i) auto
    with l e all_counted [OF c e] show ?thesis by simp
  qed
  ultimately show ?thesis by blast
qed

lemma in_critical_owner:
  assumes "correct_typed m N n w" and "i < length (ts w)" and "0 < i" and "in_critical (ts w ! i)"
  shows "owner w m = Some i"
proof -
  from assms(1) obtain mp ps cs where c: "correct_at m N n mp ps cs w" by (auto simp: correct_typed_def)
  obtain j where j: "i = Suc j" "j < length ps" using assms(2,3) correct_at_lengths [OF c] by (cases i) auto
  have "holds (ps ! j)"
    using assms(4) correct.workers_nth(1) [OF correct_workers [OF c] j(2)] j(1) critical_holds by simp
  then show ?thesis using correct.workers_nth(3) [OF correct_workers [OF c] j(2)] j(1) by simp
qed

lemma correct_streams:
  assumes "terminal (correct_main m N n) w"
  shows "streams tid w = (if n = 0 then [] else map (\<lambda>i. (tid i, phase_events m n Ended)) [1..<Suc N])"
proof -
  have w: "correct_outcome m N n w" using correct_terminal assms by (simp add: terminal_def)
  have l: "[0..<Suc N] = 0 # [1..<Suc N]" by (simp add: upt_rec del: upt_Suc)
  have e: "events w 0 = []" "\<forall>i. 0 < i \<and> i \<le> N \<longrightarrow> events w i = phase_events m n Ended" using w by (simp_all add: correct_outcome_def)
  have "filter (\<lambda>i. events w i \<noteq> []) (0 # [1..<Suc N]) = (if n = 0 then [] else [1..<Suc N])"
    using e by (auto intro!: filter_True filter_False)
  moreover have "length (ts w) = Suc N" using w by (simp add: correct_outcome_def)
  moreover have "map (\<lambda>i. (tid i, events w i)) [1..<Suc N] = map (\<lambda>i. (tid i, phase_events m n Ended)) [1..<Suc N]"
    using e by (intro map_cong) auto
  ultimately show ?thesis unfolding streams_def using l by (simp del: upt_Suc phase_events.simps)
qed

end
