(* ===== verification/Benchmark.thy ===== *)
theory Benchmark
  imports C_Stdio Targets
begin

text \<open>
  \<^verbatim>\<open>targets/benchmark_mutex/benchmark_mutex.c\<close>: the command line, the workers and the
  main function, as programs over the pthread library.  \<open>calloc\<close> is a library call that
  succeeds (0) or fails; \<open>free\<close> has no effect here; the system's message that \<open>perror\<close>
  appends to its text is left out.
\<close>

section \<open>Command line\<close>

abbreviation BENCH_MAX_THREADS :: u64 where
  "BENCH_MAX_THREADS \<equiv> 64"

record bench_config =
  threads :: u32
  iterations :: u64
  work :: u32

definition default_config :: bench_config where
  "default_config = \<lparr>threads = 4, iterations = 250000, work = 0\<rparr>"

text \<open>\<^const>\<open>None\<close> is the return value -1; otherwise the value stored through the pointer.\<close>

definition parse_u64 :: "string \<Rightarrow> u64 option" where
  "parse_u64 arg =
     (case strtoull arg of (parsed, errno, consumed) \<Rightarrow>
        if errno \<or> consumed = 0 \<or> consumed \<noteq> length arg then None else Some parsed)"

datatype bench_error = Usage_Failure | Usage_Success | Overflow_Failure

text \<open>The loop over the arguments after the program name.\<close>

fun parse_args :: "string list \<Rightarrow> bench_config \<Rightarrow> bench_error + bench_config" where
  "parse_args [] cfg = Inr cfg"
| "parse_args (a # as) cfg =
     (if a = ''--threads'' \<and> as \<noteq> [] then
        (case parse_u64 (hd as) of
           None \<Rightarrow> Inl Usage_Failure
         | Some value \<Rightarrow>
             if value = 0 \<or> BENCH_MAX_THREADS < value then Inl Usage_Failure
             else parse_args (tl as) (cfg\<lparr>threads := ucast value\<rparr>))
      else if a = ''--iterations'' \<and> as \<noteq> [] then
        (case parse_u64 (hd as) of
           None \<Rightarrow> Inl Usage_Failure
         | Some value \<Rightarrow>
             if value = 0 then Inl Usage_Failure else parse_args (tl as) (cfg\<lparr>iterations := value\<rparr>))
      else if a = ''--work'' \<and> as \<noteq> [] then
        (case parse_u64 (hd as) of
           None \<Rightarrow> Inl Usage_Failure
         | Some value \<Rightarrow>
             if ucast UINT32_MAX < value then Inl Usage_Failure
             else parse_args (tl as) (cfg\<lparr>work := ucast value\<rparr>))
      else if a = ''--help'' \<or> a = ''-h'' then Inl Usage_Success
      else Inl Usage_Failure)"

definition expected_ops :: "bench_config \<Rightarrow> u64" where
  "expected_ops cfg = iterations cfg * ucast (threads cfg)"

definition bench_setup :: "string list \<Rightarrow> bench_error + bench_config" where
  "bench_setup args =
     (case parse_args args default_config of
        Inl e \<Rightarrow> Inl e
      | Inr cfg \<Rightarrow> if - 1 div ucast (threads cfg) < iterations cfg then Inl Overflow_Failure else Inr cfg)"

section \<open>Workers\<close>

abbreviation (input) start_barrier :: nat where "start_barrier \<equiv> 0"
abbreviation (input) work_sink :: nat where "work_sink \<equiv> 1"

text \<open>The arithmetic inside the critical section.\<close>

primrec busy_work :: "nat \<Rightarrow> u64 \<Rightarrow> u64" where
  "busy_work 0 x = x"
| "busy_work (Suc n) x =
     (let x1 = x * 6364136223846793005 + 1442695040888963407 in busy_work n (x1 XOR drop_bit 17 x1))"

text \<open>The loop of a worker, with the number of iterations left.\<close>

primrec bench_loop :: "uintptr \<Rightarrow> u32 \<Rightarrow> nat \<Rightarrow> u64 \<Rightarrow> prog" where
  "bench_loop shared_mutex wk 0 = (\<lambda>local_sink. Done 0)"
| "bench_loop shared_mutex wk (Suc n) = (\<lambda>local_sink.
     Lock shared_mutex (\<lambda>rc. if rc \<noteq> 0 then Done 2
     else Load shared_counter (\<lambda>v. Store shared_counter (v + 1) (
       Load shared_counter (\<lambda>c.
         let local_sink = local_sink XOR busy_work (unat wk) (c XOR local_sink)
         in Store work_sink local_sink (
           Unlock shared_mutex (\<lambda>rc. if rc \<noteq> 0 then Done 3
             else bench_loop shared_mutex wk n local_sink)))))))"

definition worker_main :: "uintptr \<Rightarrow> bench_config \<Rightarrow> prog" where
  "worker_main shared_mutex cfg =
     Barrier_Wait start_barrier (\<lambda>barrier_rc.
       if barrier_rc \<noteq> 0 \<and> barrier_rc \<noteq> PTHREAD_BARRIER_SERIAL_THREAD then Done 1
       else bench_loop shared_mutex (work cfg) (unat (iterations cfg)) 0x9e3779b97f4a7c15)"

section \<open>Main\<close>

definition usage :: "string \<Rightarrow> prog \<Rightarrow> prog" where
  "usage program p =
     Complain (''Usage: '' @ program @ '' [--threads N] [--iterations N] [--work N]'') (
     Complain [] (
     Complain (''  --threads     worker threads (1..'' @ fmt_u (ucast BENCH_MAX_THREADS) @ ''), default 4'') (
     Complain ''  --iterations  lock/unlock iterations per thread, default 250000'' (
     Complain ''  --work        arithmetic operations inside critical section, default 0'' p))))"

text \<open>The joins; a join that fails and a worker that returns an error are remembered.\<close>

primrec bench_join :: "nat list \<Rightarrow> bool \<Rightarrow> (bool \<Rightarrow> prog) \<Rightarrow> prog" where
  "bench_join [] worker_failed k = k worker_failed"
| "bench_join (h # hs) worker_failed k =
     Join h (\<lambda>rc result. bench_join hs (worker_failed \<or> rc \<noteq> 0 \<or> result \<noteq> 0) k)"

definition now_ns :: "(u64 \<times> u64) option \<Rightarrow> u64" where
  "now_ns clock = (case clock of None \<Rightarrow> 0 | Some (tv_sec, tv_nsec) \<Rightarrow> tv_sec * 1000000000 + tv_nsec)"

definition elapsed_ns_of :: "(u64 \<times> u64) option \<Rightarrow> (u64 \<times> u64) option \<Rightarrow> u64" where
  "elapsed_ns_of start_clock end_clock =
     (let start_ns = now_ns start_clock; end_ns = now_ns end_clock
      in if start_ns \<le> end_ns then end_ns - start_ns else 0)"

definition human_lines :: "bench_config \<Rightarrow> u64 \<Rightarrow> string list" where
  "human_lines cfg elapsed_ns =
     [''=== Mutex benchmark ==='',
      ''Threads             : '' @ fmt_u (threads cfg),
      ''Iterations/thread   : '' @ fmt_lu (iterations cfg),
      ''Total critical ops  : '' @ fmt_lu (expected_ops cfg),
      ''Work/critical op    : '' @ fmt_u (work cfg),
      ''Elapsed             : '' @ fmt_lu elapsed_ns @ '' ns'',
      ''Expected counter    : '' @ fmt_lu (expected_ops cfg)]"

definition status_text :: "bool \<Rightarrow> string" where
  "status_text status_ok = (if status_ok then ''PASS'' else ''FAIL'')"

definition verdict_lines :: "bool \<Rightarrow> u64 \<Rightarrow> string list" where
  "verdict_lines status_ok counter =
     [''Actual counter      : '' @ fmt_lu counter, ''['' @ status_text status_ok @ ''] Benchmark correctness'']"

definition bench_result_line :: "bench_config \<Rightarrow> u64 \<Rightarrow> bool \<Rightarrow> u64 \<Rightarrow> string" where
  "bench_result_line cfg elapsed_ns status_ok counter =
     ''BENCH_RESULT threads='' @ fmt_u (threads cfg) @ '' iterations='' @ fmt_lu (iterations cfg) @
     '' total_ops='' @ fmt_lu (expected_ops cfg) @ '' work='' @ fmt_u (work cfg) @
     '' elapsed_ns='' @ fmt_lu elapsed_ns @ '' counter='' @ fmt_lu counter @
     '' expected='' @ fmt_lu (expected_ops cfg) @ '' status='' @ status_text status_ok"

definition bench_cleanup :: "bool \<Rightarrow> prog" where
  "bench_cleanup status_ok =
     Call ''pthread_barrier_destroy'' (\<lambda>_. Call ''pthread_mutex_destroy'' (\<lambda>_.
       Done (if status_ok then EXIT_SUCCESS else EXIT_FAILURE)))"

text \<open>The counter is read once for the verdict and once for each text that shows it.\<close>

definition bench_report :: "bench_config \<Rightarrow> u64 \<Rightarrow> bool \<Rightarrow> prog" where
  "bench_report cfg elapsed_ns worker_failed =
     Load shared_counter (\<lambda>counter.
       let status_ok = counter = expected_ops cfg \<and> \<not> worker_failed in
       foldr Say (human_lines cfg elapsed_ns) (
       Load shared_counter (\<lambda>counter. foldr Say (verdict_lines status_ok counter) (
       Load shared_counter (\<lambda>counter. Say (bench_result_line cfg elapsed_ns status_ok counter) (
       bench_cleanup status_ok))))))"

definition bench_timed :: "bench_config \<Rightarrow> nat list \<Rightarrow> prog" where
  "bench_timed cfg workers =
     Clock (\<lambda>start_clock. Barrier_Wait start_barrier (\<lambda>barrier_rc.
       if barrier_rc \<noteq> 0 \<and> barrier_rc \<noteq> PTHREAD_BARRIER_SERIAL_THREAD
       then Complain (''pthread_barrier_wait failed: '' @ fmt_d barrier_rc) (Done EXIT_FAILURE)
       else bench_join workers False (\<lambda>worker_failed.
         Clock (\<lambda>end_clock. bench_report cfg (elapsed_ns_of start_clock end_clock) worker_failed))))"

definition bench_run :: "uintptr \<Rightarrow> bench_config \<Rightarrow> prog" where
  "bench_run shared_mutex cfg =
     Store shared_counter 0 (Store work_sink 0 (
     Barrier_Init start_barrier (unat (threads cfg + 1)) (\<lambda>rc.
       if rc \<noteq> 0 then Complain ''pthread_barrier_init'' (Done EXIT_FAILURE)
       else Call ''calloc'' (\<lambda>rc.
         if rc \<noteq> 0 then Complain ''calloc'' (Call ''pthread_barrier_destroy'' (\<lambda>_. Done EXIT_FAILURE))
         else create_workers (unat (threads cfg)) (worker_main shared_mutex cfg) []
           (\<lambda>rc. Complain (''pthread_create failed: '' @ fmt_d rc) (Done EXIT_FAILURE))
           (bench_timed cfg)))))"

definition bench_main :: "uintptr \<Rightarrow> string \<Rightarrow> string list \<Rightarrow> prog" where
  "bench_main shared_mutex program args =
     (case bench_setup args of
        Inl Usage_Failure \<Rightarrow> usage program (Done EXIT_FAILURE)
      | Inl Usage_Success \<Rightarrow> usage program (Done EXIT_SUCCESS)
      | Inl Overflow_Failure \<Rightarrow> Complain ''Requested operation count overflows uint64_t'' (Done EXIT_FAILURE)
      | Inr cfg \<Rightarrow> bench_run shared_mutex cfg)"

end
