(* ===== verification/Benchmark_Runs.thy ===== *)
theory Benchmark_Runs
  imports Guarded_Counter Target_Correct Benchmark
begin

text \<open>
  The runs of the benchmark: the phases of its workers and of its main thread, an invariant
  that every step keeps, whatever fails, and how the runs end.
\<close>

section \<open>Workers\<close>

text \<open>What a worker does after its lock, in the critical section, and after its unlock.\<close>

definition bench_unlocked :: "uintptr \<Rightarrow> u32 \<Rightarrow> nat \<Rightarrow> u64 \<Rightarrow> i32 \<Rightarrow> prog" where
  "bench_unlocked m wk n s rc = (if rc \<noteq> 0 then Done 3 else bench_loop m wk n s)"

definition bench_sink :: "u32 \<Rightarrow> u64 \<Rightarrow> u64 \<Rightarrow> u64" where
  "bench_sink wk s c = s XOR busy_work (unat wk) (c XOR s)"

definition bench_section :: "uintptr \<Rightarrow> u32 \<Rightarrow> nat \<Rightarrow> u64 \<Rightarrow> prog" where
  "bench_section m wk n s = Load shared_counter (\<lambda>c. Store work_sink (bench_sink wk s c) (Unlock m (bench_unlocked m wk n (bench_sink wk s c))))"

definition bench_locked :: "uintptr \<Rightarrow> u32 \<Rightarrow> nat \<Rightarrow> u64 \<Rightarrow> i32 \<Rightarrow> prog" where
  "bench_locked m wk n s rc =
     (if rc \<noteq> 0 then Done 2 else Load shared_counter (\<lambda>v. Store shared_counter (v + 1) (bench_section m wk n s)))"

definition bench_begin :: "uintptr \<Rightarrow> bench_config \<Rightarrow> i32 \<Rightarrow> prog" where
  "bench_begin m cfg rc =
     (if rc \<noteq> 0 \<and> rc \<noteq> PTHREAD_BARRIER_SERIAL_THREAD then Done 1
      else bench_loop m (work cfg) (unat (iterations cfg)) 0x9e3779b97f4a7c15)"

lemma bench_loop_Suc: "bench_loop m wk (Suc n) s = Lock m (bench_locked m wk n s)"
  unfolding bench_locked_def [abs_def] bench_section_def bench_unlocked_def [abs_def] bench_sink_def Let_def bench_loop.simps by simp

lemma worker_main_eq: "worker_main m cfg = Barrier_Wait start_barrier (bench_begin m cfg)"
  unfolding worker_main_def bench_begin_def [abs_def] by simp

datatype bench_phase =
  B_Fresh | B_Barrier | B_Outside nat u64 | B_Wanting nat u64 | B_Entered nat u64 | B_Loaded nat u64 | B_Stored nat u64
| B_Sinking nat u64 | B_Leaving nat u64 | B_Ended | B_Broken bool u64 | B_Dead bool u64

primrec bench_state :: "uintptr \<Rightarrow> bench_config \<Rightarrow> u64 \<Rightarrow> bench_phase \<Rightarrow> tstate" where
  "bench_state m cfg v B_Fresh = Running (worker_main m cfg)"
| "bench_state m cfg v B_Barrier = At_Barrier start_barrier (bench_begin m cfg)"
| "bench_state m cfg v (B_Outside r s) = Running (bench_loop m (work cfg) r s)"
| "bench_state m cfg v (B_Wanting r s) = Locking m (bench_locked m (work cfg) r s)"
| "bench_state m cfg v (B_Entered r s) = Running (bench_locked m (work cfg) r s 0)"
| "bench_state m cfg v (B_Loaded r s) = Running (Store shared_counter (v + 1) (bench_section m (work cfg) r s))"
| "bench_state m cfg v (B_Stored r s) = Running (bench_section m (work cfg) r s)"
| "bench_state m cfg v (B_Sinking r s) = Running (Store work_sink s (Unlock m (bench_unlocked m (work cfg) r s)))"
| "bench_state m cfg v (B_Leaving r s) = Running (Unlock m (bench_unlocked m (work cfg) r s))"
| "bench_state m cfg v B_Ended = Finished 0"
| "bench_state m cfg v (B_Broken h e) = Running (Done e)"
| "bench_state m cfg v (B_Dead h e) = Finished e"

primrec bench_holds :: "bench_phase \<Rightarrow> bool" where
  "bench_holds B_Fresh = False" | "bench_holds B_Barrier = False" | "bench_holds (B_Outside r s) = False" | "bench_holds (B_Wanting r s) = False"
| "bench_holds (B_Entered r s) = True" | "bench_holds (B_Loaded r s) = True" | "bench_holds (B_Stored r s) = True"
| "bench_holds (B_Sinking r s) = True" | "bench_holds (B_Leaving r s) = True" | "bench_holds B_Ended = False"
| "bench_holds (B_Broken h e) = h" | "bench_holds (B_Dead h e) = h"

primrec bench_unbroken :: "bench_phase \<Rightarrow> bool" where
  "bench_unbroken B_Fresh = True" | "bench_unbroken B_Barrier = True" | "bench_unbroken (B_Outside r s) = True" | "bench_unbroken (B_Wanting r s) = True"
| "bench_unbroken (B_Entered r s) = True" | "bench_unbroken (B_Loaded r s) = True" | "bench_unbroken (B_Stored r s) = True"
| "bench_unbroken (B_Sinking r s) = True" | "bench_unbroken (B_Leaving r s) = True" | "bench_unbroken B_Ended = True"
| "bench_unbroken (B_Broken h e) = False" | "bench_unbroken (B_Dead h e) = False"

primrec bench_counted :: "nat \<Rightarrow> nat \<Rightarrow> bench_phase \<Rightarrow> bool" where
  "bench_counted n c B_Fresh \<longleftrightarrow> c = 0"
| "bench_counted n c B_Barrier \<longleftrightarrow> c = 0"
| "bench_counted n c (B_Outside r s) \<longleftrightarrow> c + r = n"
| "bench_counted n c (B_Wanting r s) \<longleftrightarrow> c + Suc r = n"
| "bench_counted n c (B_Entered r s) \<longleftrightarrow> c + Suc r = n"
| "bench_counted n c (B_Loaded r s) \<longleftrightarrow> c + Suc r = n"
| "bench_counted n c (B_Stored r s) \<longleftrightarrow> c + r = n \<and> 0 < c"
| "bench_counted n c (B_Sinking r s) \<longleftrightarrow> c + r = n \<and> 0 < c"
| "bench_counted n c (B_Leaving r s) \<longleftrightarrow> c + r = n \<and> 0 < c"
| "bench_counted n c B_Ended \<longleftrightarrow> c = n"
| "bench_counted n c (B_Broken h e) \<longleftrightarrow> c \<le> n \<and> e \<noteq> 0"
| "bench_counted n c (B_Dead h e) \<longleftrightarrow> c \<le> n \<and> e \<noteq> 0"

interpretation bench: guarded_counter m shared_counter "bench_state m cfg" bench_holds "bench_counted n" for m cfg n
proof
  show "\<not> bench_holds p \<Longrightarrow> bench_state m cfg v p = bench_state m cfg v' p" for v v' p by (cases p) simp_all
qed

primrec bench_events :: "uintptr \<Rightarrow> nat \<Rightarrow> bench_phase \<Rightarrow> call_event list" where
  "bench_events m c B_Fresh = []"
| "bench_events m c B_Barrier = []"
| "bench_events m c (B_Outside r s) = with_start (rounds m c)"
| "bench_events m c (B_Wanting r s) = with_start (rounds m c @ take 1 (round_events m))"
| "bench_events m c (B_Entered r s) = with_start (rounds m c @ take 2 (round_events m))"
| "bench_events m c (B_Loaded r s) = with_start (rounds m c @ take 2 (round_events m))"
| "bench_events m c (B_Stored r s) = with_start (rounds m (c - 1) @ take 2 (round_events m))"
| "bench_events m c (B_Sinking r s) = with_start (rounds m (c - 1) @ take 2 (round_events m))"
| "bench_events m c (B_Leaving r s) = with_start (rounds m (c - 1) @ take 2 (round_events m))"
| "bench_events m c B_Ended = phase_events m c Ended"
| "bench_events m c (B_Broken h e) = []"
| "bench_events m c (B_Dead h e) = []"

text \<open>Before the barrier opens, a worker waits for it, or has failed to.\<close>

primrec before_start :: "bench_phase \<Rightarrow> bool" where
  "before_start B_Fresh = True" | "before_start B_Barrier = True" | "before_start (B_Outside r s) = False" | "before_start (B_Wanting r s) = False"
| "before_start (B_Entered r s) = False" | "before_start (B_Loaded r s) = False" | "before_start (B_Stored r s) = False"
| "before_start (B_Sinking r s) = False" | "before_start (B_Leaving r s) = False" | "before_start B_Ended = False"
| "before_start (B_Broken h e) = True" | "before_start (B_Dead h e) = True"

definition past_start :: "bench_phase \<Rightarrow> bool" where
  "past_start p \<longleftrightarrow> p \<noteq> B_Fresh \<and> p \<noteq> B_Barrier"

section \<open>The main thread\<close>

definition bench_failed :: "i32 \<Rightarrow> prog" where
  "bench_failed rc = Complain (''pthread_create failed: '' @ fmt_d rc) (Done EXIT_FAILURE)"

definition bench_elapsed :: "bench_config \<Rightarrow> (u64 \<times> u64) option \<Rightarrow> bool \<Rightarrow> prog" where
  "bench_elapsed cfg start_clock f = Clock (\<lambda>end_clock. bench_report cfg (elapsed_ns_of start_clock end_clock) f)"

definition bench_started :: "bench_config \<Rightarrow> nat list \<Rightarrow> (u64 \<times> u64) option \<Rightarrow> i32 \<Rightarrow> prog" where
  "bench_started cfg workers start_clock barrier_rc =
     (if barrier_rc \<noteq> 0 \<and> barrier_rc \<noteq> PTHREAD_BARRIER_SERIAL_THREAD
      then Complain (''pthread_barrier_wait failed: '' @ fmt_d barrier_rc) (Done EXIT_FAILURE)
      else bench_join workers False (bench_elapsed cfg start_clock))"

text \<open>The main thread, with its state when the phase is known.\<close>

datatype bench_point =
  M_Setting nat | M_Creating nat | M_Timing | M_Arriving "(u64 \<times> u64) option" | M_Barrier "(u64 \<times> u64) option"
| M_Joining "(u64 \<times> u64) option" nat bool | M_Reporting u64 bool nat | M_Aborting | M_Failing | M_Exited bool

definition report_prog :: "bench_config \<Rightarrow> u64 \<Rightarrow> bool \<Rightarrow> nat \<Rightarrow> prog" where
  "report_prog cfg el f k =
     (let ok = \<not> f in
      if k = 0 then bench_report cfg el f
      else if k = 1 then Load shared_counter (\<lambda>counter. foldr Say (verdict_lines ok counter) (
        Load shared_counter (\<lambda>counter. Say (bench_result_line cfg el ok counter) (bench_cleanup ok))))
      else if k = 2 then Load shared_counter (\<lambda>counter. Say (bench_result_line cfg el ok counter) (bench_cleanup ok))
      else if k = 3 then bench_cleanup ok
      else if k = 4 then Call ''pthread_mutex_destroy'' (\<lambda>_. Done (if ok then EXIT_SUCCESS else EXIT_FAILURE))
      else Done (if ok then EXIT_SUCCESS else EXIT_FAILURE))"

definition creating_from :: "uintptr \<Rightarrow> bench_config \<Rightarrow> nat \<Rightarrow> prog" where
  "creating_from m cfg c = create_workers (unat (threads cfg) - c) (worker_main m cfg) [1..<Suc c] bench_failed (bench_timed cfg)"

definition setting_prog :: "uintptr \<Rightarrow> bench_config \<Rightarrow> nat \<Rightarrow> prog" where
  "setting_prog m cfg k =
     (let calloc = Call ''calloc'' (\<lambda>rc. if rc \<noteq> 0 then Complain ''calloc'' (Call ''pthread_barrier_destroy'' (\<lambda>_. Done EXIT_FAILURE))
                                    else creating_from m cfg 0);
          init = Barrier_Init start_barrier (unat (threads cfg + 1)) (\<lambda>rc.
             if rc \<noteq> 0 then Complain ''pthread_barrier_init'' (Done EXIT_FAILURE) else calloc)
      in if k = 0 then Store shared_counter 0 (Store work_sink 0 init) else if k = 1 then Store work_sink 0 init
         else if k = 2 then init else calloc)"

lemma bench_run_eq: "bench_run m cfg = setting_prog m cfg 0"
proof -
  have "creating_from m cfg 0 = create_workers (unat (threads cfg)) (worker_main m cfg) [] bench_failed (bench_timed cfg)"
    by (simp add: creating_from_def)
  note eq = this
  show ?thesis unfolding bench_run_def setting_prog_def Let_def eq bench_failed_def [abs_def] by simp
qed

lemma bench_timed_eq: "bench_timed cfg workers = Clock (\<lambda>t. Barrier_Wait start_barrier (bench_started cfg workers t))"
  unfolding bench_timed_def bench_started_def [abs_def] bench_elapsed_def [abs_def] by simp

primrec bench_main_state :: "uintptr \<Rightarrow> bench_config \<Rightarrow> bench_point \<Rightarrow> tstate" where
  "bench_main_state m cfg (M_Setting k) = Running (setting_prog m cfg k)"
| "bench_main_state m cfg (M_Creating c) = Running (creating_from m cfg c)"
| "bench_main_state m cfg M_Timing = Running (bench_timed cfg [1..<Suc (unat (threads cfg))])"
| "bench_main_state m cfg (M_Arriving t) = Running (Barrier_Wait start_barrier (bench_started cfg [1..<Suc (unat (threads cfg))] t))"
| "bench_main_state m cfg (M_Barrier t) = At_Barrier start_barrier (bench_started cfg [1..<Suc (unat (threads cfg))] t)"
| "bench_main_state m cfg (M_Joining t j f) = Running (bench_join [Suc j..<Suc (unat (threads cfg))] f (bench_elapsed cfg t))"
| "bench_main_state m cfg (M_Reporting el f k) = Running (report_prog cfg el f k)"
| "bench_main_state m cfg M_Aborting = Running (Call ''pthread_barrier_destroy'' (\<lambda>_. Done EXIT_FAILURE))"
| "bench_main_state m cfg M_Failing = Running (Done EXIT_FAILURE)"
| "bench_main_state m cfg (M_Exited b) = Finished (if b then EXIT_SUCCESS else EXIT_FAILURE)"

definition all_ended :: "nat \<Rightarrow> bench_phase list \<Rightarrow> bool" where
  "all_ended T ps \<longleftrightarrow> length ps = T \<and> list_all (\<lambda>p. p = B_Ended) ps"

primrec bench_ok :: "nat \<Rightarrow> bench_phase list \<Rightarrow> bench_point \<Rightarrow> bool" where
  "bench_ok T ps (M_Setting k) \<longleftrightarrow> k \<le> 3 \<and> ps = []"
| "bench_ok T ps (M_Creating c) \<longleftrightarrow> c < T \<and> length ps = c \<and> list_all before_start ps"
| "bench_ok T ps M_Timing \<longleftrightarrow> length ps = T \<and> list_all before_start ps"
| "bench_ok T ps (M_Arriving t) \<longleftrightarrow> length ps = T \<and> list_all before_start ps"
| "bench_ok T ps (M_Barrier t) \<longleftrightarrow> length ps = T \<and> list_all before_start ps \<and> \<not> list_all (\<lambda>p. p = B_Barrier) ps"
| "bench_ok T ps (M_Joining t j f) \<longleftrightarrow> length ps = T \<and> list_all past_start ps \<and> j \<le> T \<and> (\<not> f \<longrightarrow> (\<forall>i < j. ps ! i = B_Ended))"
| "bench_ok T ps (M_Reporting el f k) \<longleftrightarrow> k \<le> 5 \<and> (\<not> f \<longrightarrow> all_ended T ps) \<and> list_all past_start ps"
| "bench_ok T ps M_Aborting \<longleftrightarrow> ps = []"
| "bench_ok T ps M_Failing \<longleftrightarrow> True"
| "bench_ok T ps (M_Exited b) \<longleftrightarrow> (b \<longrightarrow> all_ended T ps)"

primrec bench_exit :: "bench_point \<Rightarrow> u64 option" where
  "bench_exit (M_Setting k) = None" | "bench_exit (M_Creating c) = None" | "bench_exit M_Timing = None" | "bench_exit (M_Arriving t) = None"
| "bench_exit (M_Barrier t) = None" | "bench_exit (M_Joining t j f) = None" | "bench_exit (M_Reporting el f k) = None"
| "bench_exit M_Aborting = None" | "bench_exit M_Failing = None" | "bench_exit (M_Exited b) = Some (if b then EXIT_SUCCESS else EXIT_FAILURE)"

definition report_lines :: "bench_config \<Rightarrow> u64 \<Rightarrow> string list" where
  "report_lines cfg el = human_lines cfg el @ verdict_lines True (expected_ops cfg) @ [bench_result_line cfg el True (expected_ops cfg)]"

text \<open>The lines the main thread has printed in a run without failures.\<close>

primrec bench_lines :: "bench_config \<Rightarrow> bench_point \<Rightarrow> string list \<Rightarrow> bool" where
  "bench_lines cfg (M_Setting k) ls \<longleftrightarrow> ls = []"
| "bench_lines cfg (M_Creating c) ls \<longleftrightarrow> ls = []"
| "bench_lines cfg M_Timing ls \<longleftrightarrow> ls = []"
| "bench_lines cfg (M_Arriving t) ls \<longleftrightarrow> ls = []"
| "bench_lines cfg (M_Barrier t) ls \<longleftrightarrow> ls = []"
| "bench_lines cfg (M_Joining t j f) ls \<longleftrightarrow> ls = [] \<and> \<not> f"
| "bench_lines cfg (M_Reporting el f k) ls \<longleftrightarrow> \<not> f \<and> ls = take (if k = 0 then 0 else if k = 1 then 7 else if k = 2 then 9 else 10) (report_lines cfg el)"
| "bench_lines cfg M_Aborting ls \<longleftrightarrow> False"
| "bench_lines cfg M_Failing ls \<longleftrightarrow> False"
| "bench_lines cfg (M_Exited b) ls \<longleftrightarrow> b \<and> (\<exists>el. ls = report_lines cfg el)"

text \<open>
  The invariant: phases \<open>mp\<close> and \<open>ps\<close> with the counts \<open>cs\<close>.  The barrier is never full.
\<close>

definition bench_at :: "uintptr \<Rightarrow> bench_config \<Rightarrow> bench_point \<Rightarrow> bench_phase list \<Rightarrow> nat list \<Rightarrow> process \<Rightarrow> bool" where
  "bench_at m cfg mp ps cs w \<longleftrightarrow>
     bench.workers_at m cfg (unat (iterations cfg)) (bench_main_state m cfg mp) ps cs w \<and>
     mutex_type w m = PTHREAD_MUTEX_NORMAL \<and> bench_ok (unat (threads cfg)) ps mp \<and> exit_code w = bench_exit mp \<and>
     length ps \<le> unat (threads cfg) \<and> (ps \<noteq> [] \<or> (\<exists>k. mp = M_Setting k \<and> k = 3) \<or> (\<exists>c. mp = M_Creating c) \<longrightarrow> barrier_count w start_barrier = Suc (unat (threads cfg)))"

definition bench_quiet :: "uintptr \<Rightarrow> bench_config \<Rightarrow> bench_point \<Rightarrow> bench_phase list \<Rightarrow> nat list \<Rightarrow> process \<Rightarrow> bool" where
  "bench_quiet m cfg mp ps cs w \<longleftrightarrow> list_all bench_unbroken ps \<and> bench_lines cfg mp (printed w 0) \<and>
     (\<forall>j. j < length ps \<longrightarrow> events w (Suc j) = bench_events m (cs ! j) (ps ! j)) \<and>
     (\<forall>j. length ps \<le> j \<longrightarrow> events w (Suc j) = [])"

section \<open>Steps of a worker\<close>

lemma settle_bench [simp]:
  "settle (bench_loop m wk n s) = ([], bench_loop m wk n s)" "settle (worker_main m cfg) = ([], worker_main m cfg)"
  "settle (bench_section m wk n s) = ([], bench_section m wk n s)"
  by (cases n; simp add: bench_loop_Suc del: bench_loop.simps(2)) (simp_all add: worker_main_def bench_section_def)

lemma bench_returns [simp]:
  "bench_locked m wk r s 0 = Load shared_counter (\<lambda>v. Store shared_counter (v + 1) (bench_section m wk r s))"
  "bench_unlocked m wk r s 0 = bench_loop m wk r s"
  "rc \<noteq> 0 \<Longrightarrow> bench_locked m wk r s rc = Done 2" "rc \<noteq> 0 \<Longrightarrow> bench_unlocked m wk r s rc = Done 3"
  "rc \<noteq> 0 \<Longrightarrow> rc \<noteq> PTHREAD_BARRIER_SERIAL_THREAD \<Longrightarrow> bench_begin m cfg rc = Done 1"
  "bench_begin m cfg 0 = bench_loop m (work cfg) (unat (iterations cfg)) 0x9e3779b97f4a7c15"
  "bench_begin m cfg PTHREAD_BARRIER_SERIAL_THREAD = bench_loop m (work cfg) (unat (iterations cfg)) 0x9e3779b97f4a7c15"
  by (simp_all add: bench_locked_def bench_unlocked_def bench_begin_def)

declare bench_loop.simps(2) [simp del] bench_loop_Suc [simp]

lemma bench_workers: "bench_at m cfg mp ps cs w \<Longrightarrow>
    bench.workers_at m cfg (unat (iterations cfg)) (bench_main_state m cfg mp) ps cs w"
  by (simp add: bench_at_def)

lemma bench_main_at: "bench_at m cfg mp ps cs w \<Longrightarrow> ts w ! 0 = bench_main_state m cfg mp \<and> bench_ok (unat (threads cfg)) ps mp \<and> exit_code w = bench_exit mp"
  using bench.workers_main by (auto simp: bench_at_def)

lemma bench_lengths: "bench_at m cfg mp ps cs w \<Longrightarrow> length (ts w) = Suc (length ps) \<and> length cs = length ps \<and> length ps \<le> unat (threads cfg)"
  using bench.workers_lengths [OF bench_workers, of m cfg mp ps cs w] by (simp add: bench_at_def)

text \<open>A worker moves, in a way that the phase of the main thread allows.\<close>

definition move_ok :: "bench_phase \<Rightarrow> bench_phase \<Rightarrow> bool" where
  "move_ok p q \<longleftrightarrow> p \<noteq> B_Ended \<and> (before_start p \<longrightarrow> before_start q \<and> q \<noteq> B_Barrier) \<and> (past_start p \<longrightarrow> past_start q) \<and> p \<noteq> B_Barrier"

lemma bench_ok_move:
  assumes "bench_ok T ps mp" and "i < length ps" and "move_ok (ps ! i) ph"
  shows "bench_ok T (ps[i := ph]) mp"
proof -
  have "past_start ph" if "list_all past_start ps" using that assms by (auto simp: move_ok_def list_all_length)
  moreover have "before_start ph" "ph \<noteq> B_Barrier" if "list_all before_start ps" using that assms by (auto simp: move_ok_def list_all_length)
  moreover have "\<not> all_ended T ps" using assms by (auto simp: all_ended_def move_ok_def list_all_length)
  moreover have "list_all P (ps[i := ph])" if "list_all P ps" "P ph" for P
    using that assms(2) by (auto simp: list_all_length nth_list_update)
  moreover have "\<not> list_all (\<lambda>p. p = B_Barrier) (ps[i := ph])" if "ph \<noteq> B_Barrier" using that assms(2) by (auto simp: list_all_length intro!: exI [of _ i])
  moreover have "ps[i := ph] ! j = B_Ended" if "ps ! j = B_Ended" for j
    using that assms(3) by (cases "j = i") (auto simp: move_ok_def)
  ultimately show ?thesis using assms(1,2) by (cases mp) auto
qed

lemma bench_worker_update:
  assumes c: "bench_at m cfg mp ps cs w" and i: "i < length ps"
    and u: "bench.workers_at m cfg (unat (iterations cfg)) (bench_main_state m cfg mp) ps cs w \<Longrightarrow>
      bench.workers_at m cfg (unat (iterations cfg)) (bench_main_state m cfg mp) (ps[i := ph]) (cs[i := c']) w'"
    and e: "bench_ok (unat (threads cfg)) (ps[i := ph]) mp" and s: "same_setup w w'"
  shows "bench_at m cfg mp (ps[i := ph]) (cs[i := c']) w'"
  using c u e s i unfolding bench_at_def same_setup_def by (auto)

end
