(* ===== verification/Benchmark_Steps.thy ===== *)
theory Benchmark_Steps
  imports Benchmark_Runs
begin

text \<open>
  Every step of a benchmark process keeps the invariant of its phases: the steps of the
  workers, the opening of the barrier, the steps of the main thread, and failing calls.
\<close>

section \<open>The barrier\<close>

lemma count_if_length: "count_if p xs \<le> length xs"
  by (simp add: count_if_def)

lemma count_if_all: "count_if p xs = length xs \<longleftrightarrow> list_all p xs"
  using length_filter_less [of _ xs p] by (auto simp: count_if_def list_all_iff filter_id_conv) (metis nat_neq_iff)

lemma filter_update_le: "length (filter p (xs[i := y])) \<le> Suc (length (filter p xs))"
  by (induction xs arbitrary: i) (auto split: nat.splits)

lemma count_if_map: "count_if p (map f xs) = count_if (\<lambda>x. p (f x)) xs"
  by (simp add: count_if_def filter_map comp_def)

lemma count_if_but_one:
  assumes "i < length xs" and "\<not> p (xs ! i)" and "length xs \<le> Suc (count_if p xs)" and "j < length xs" and "j \<noteq> i"
  shows "p (xs ! j)"
proof -
  have "count_if (\<lambda>x. \<not> p x) xs + count_if p xs = length xs" unfolding count_if_def using sum_length_filter_compl [of p xs] by simp
  then have "count_if (\<lambda>x. \<not> p x) xs \<le> 1" using assms(3) by simp
  show ?thesis
  proof (rule ccontr)
    assume "\<not> p (xs ! j)"
    then have "{i, j} \<subseteq> {k. k < length xs \<and> \<not> p (xs ! k)}" using assms by auto
    then have "card {i, j} \<le> card {k. k < length xs \<and> \<not> p (xs ! k)}" by (intro card_mono) simp_all
    also have "\<dots> = count_if (\<lambda>x. \<not> p x) xs" by (simp add: count_if_def length_filter_conv_card)
    finally show False using \<open>count_if (\<lambda>x. \<not> p x) xs \<le> 1\<close> assms(5) by simp
  qed
qed

lemma at_barrier_state: "at_barrier start_barrier (bench_state m cfg v p) \<longleftrightarrow> p = B_Barrier"
  by (cases p) simp_all

lemma bench_waiting:
  assumes "bench_at m cfg mp ps cs w"
  shows "waiting start_barrier w = (if at_barrier start_barrier (bench_main_state m cfg mp) then 1 else 0) + count_if (\<lambda>p. p = B_Barrier) ps"
proof -
  have "ts w = bench_main_state m cfg mp # map (bench_state m cfg (vars w shared_counter)) ps"
    using bench_workers [OF assms] bench.workers_at_def by simp
  then show ?thesis by (simp add: waiting_def count_if_map at_barrier_state)
qed

text \<open>When the last thread arrives, all workers start their loops.\<close>

definition bench_opening :: "bench_config \<Rightarrow> bench_phase list \<Rightarrow> bench_phase list" where
  "bench_opening cfg ps = map (\<lambda>_. B_Outside (unat (iterations cfg)) 0x9e3779b97f4a7c15) ps"

lemma settle_join: "settle (bench_join hs f (bench_elapsed cfg t)) = ([], bench_join hs f (bench_elapsed cfg t))"
  by (cases hs) (simp_all add: bench_elapsed_def)

lemma bench_open:
  assumes c: "bench_at m cfg mp ps cs w" and l: "length ps = unat (threads cfg)" and b: "list_all before_start ps"
    and main: "t0 = At_Barrier start_barrier (bench_started cfg [1..<Suc (unat (threads cfg))] t)"
    and x: "T = t0 # map (\<lambda>_. At_Barrier start_barrier (bench_begin m cfg)) ps"
    and cs: "list_all (\<lambda>c. c = 0) cs" and h: "list_all (\<lambda>p. \<not> bench_holds p) ps" and e: "exit_code w = None"
  shows "bench_at m cfg (M_Joining t 0 False) (bench_opening cfg ps) cs (open_barrier start_barrier s (w\<lparr>ts := T\<rparr>))"
    and "printed (open_barrier start_barrier s (w\<lparr>ts := T\<rparr>)) = printed w"
proof -
  let ?w = "open_barrier start_barrier s (w\<lparr>ts := T\<rparr>)"
  have fields: "owner ?w = owner w" "vars ?w = vars w" "mutex_type ?w = mutex_type w" "barrier_count ?w = barrier_count w"
      "exit_code ?w = exit_code w" "printed ?w = (\<lambda>j. printed w j @ (if j < length (T) then fst (leave start_barrier (serial_result s j) (T ! j)) else []))"
    by (simp_all add: open_barrier_def cong: if_cong)
  have nth: "ts ?w ! j = snd (leave start_barrier (serial_result s j) (T ! j))" if "j < length T" for j
    using that by (simp add: open_barrier_def)
  have serial: "serial_result s j = 0 \<or> serial_result s j = PTHREAD_BARRIER_SERIAL_THREAD" for j by (simp add: serial_result_def)
  have with_start: "settle (bench_started cfg hs t r) = ([], bench_join hs False (bench_elapsed cfg t))"
    if "r = 0 \<or> r = PTHREAD_BARRIER_SERIAL_THREAD" for r hs using that by (auto simp: bench_started_def settle_join)
  have begun: "settle (bench_begin m cfg r) = ([], bench_loop m (work cfg) (unat (iterations cfg)) 0x9e3779b97f4a7c15)"
    if "r = 0 \<or> r = PTHREAD_BARRIER_SERIAL_THREAD" for r using that by (auto simp: bench_begin_def)
  have "ts ?w = bench_main_state m cfg (M_Joining t 0 False) # map (bench_state m cfg (vars w shared_counter)) (bench_opening cfg ps)"
  proof (rule nth_equalityI)
    fix j assume "j < length (ts ?w)"
    then have j: "j < length (T)" by simp
    then show "ts ?w ! j = (bench_main_state m cfg (M_Joining t 0 False) # map (bench_state m cfg (vars w shared_counter)) (bench_opening cfg ps)) ! j"
      using serial [of j] j unfolding nth [OF j] unfolding x main by (cases j) (auto simp: with_start begun bench_opening_def simp del: upt_Suc)
  qed (simp add: x bench_opening_def)
  moreover have "length (bench_opening cfg ps) = length ps" by (simp add: bench_opening_def)
  moreover have "bench_holds (bench_opening cfg ps ! i) = bench_holds (ps ! i) \<and> (bench_counted n (cs ! i) (ps ! i) \<longrightarrow> bench_counted n (cs ! i) (bench_opening cfg ps ! i))"
    if "i < length ps" "n = unat (iterations cfg)" for i n
    using that h cs bench_lengths [OF c] by (simp add: bench_opening_def list_all_length)
  ultimately have "bench.workers_at m cfg (unat (iterations cfg)) (bench_main_state m cfg (M_Joining t 0 False)) (bench_opening cfg ps) cs ?w"
    using fields by (intro bench.workers_move [OF bench_workers [OF c]]) simp_all
  moreover have "barrier_count w start_barrier = Suc (unat (threads cfg))" if "ps \<noteq> []" using c that by (simp add: bench_at_def)
  ultimately show "bench_at m cfg (M_Joining t 0 False) (bench_opening cfg ps) cs ?w"
    using c l fields e unfolding bench_at_def by (auto simp: bench_opening_def list_all_iff past_start_def)
  have "fst (leave start_barrier (serial_result s j) (T ! j)) = []" if "j < length (T)" for j
    using that serial [of j] unfolding x main by (cases j) (auto simp: with_start begun simp del: upt_Suc)
  then show "printed ?w = printed w" using fields(6) by auto
qed

section \<open>Steps of a worker\<close>

text \<open>What the steps keep in a run without failures.\<close>

lemma quiet_move:
  assumes q: "bench_quiet m cfg mp ps cs w" and i: "i < length ps" "length cs = length ps"
    and u: "bench_unbroken ph" and p: "printed w' 0 = printed w 0" and e: "events w' = (events w)(Suc i := bench_events m c' ph)"
  shows "bench_quiet m cfg mp (ps[i := ph]) (cs[i := c']) w'"
  using assms unfolding bench_quiet_def by (auto simp: list_all_length nth_list_update)

lemma quiet_events: "bench_quiet m cfg mp ps cs w \<Longrightarrow> i < length ps \<Longrightarrow> bench_unbroken (ps ! i) \<and> events w (Suc i) = bench_events m (cs ! i) (ps ! i)"
  by (auto simp: bench_quiet_def list_all_length)

lemma worker_calls:
  assumes c: "bench_at m cfg mp ps cs w" and i: "i < length ps" and a: "act (Suc i) (ts w ! Suc i) w w'" and nb: "ps ! i \<noteq> B_Fresh"
  obtains ph c' where "bench_at m cfg mp (ps[i := ph]) (cs[i := c']) w'"
    and "bench_quiet m cfg mp ps cs w \<Longrightarrow> bench_quiet m cfg mp (ps[i := ph]) (cs[i := c']) w'"
proof -
  note result = that
  note W = bench_workers [OF c]
  note t = bench.workers_nth(1) [OF W i] and k = bench.workers_nth(2) [OF W i] and own = bench.workers_nth(3) [OF W i]
  have own0: "0 < x" if "owner w m = Some x" for x using bench.owner_worker [OF W that] by auto
  have ty: "mutex_type w m = PTHREAD_MUTEX_NORMAL" using c by (simp add: bench_at_def)
  have l: "length cs = length ps" using bench_lengths [OF c] by simp
  note ok = bench_ok_move [OF _ i]
  have B: "bench_ok (unat (threads cfg)) ps mp" using bench_main_at [OF c] by simp
  have moved: thesis if mv: "move_ok (ps ! i) ph" and st: "same_setup w w'"
    and wk: "bench.workers_at m cfg (unat (iterations cfg)) (bench_main_state m cfg mp) (ps[i := ph]) (cs[i := c']) w'"
    and qu: "bench_unbroken (ps ! i) \<Longrightarrow> events w (Suc i) = bench_events m (cs ! i) (ps ! i) \<Longrightarrow>
        bench_unbroken ph \<and> printed w' 0 = printed w 0 \<and> events w' = (events w)(Suc i := bench_events m c' ph)" for ph c'
  proof (rule result)
    show "bench_at m cfg mp (ps[i := ph]) (cs[i := c']) w'"
      by (rule bench_worker_update [OF c i _ bench_ok_move [OF B i mv] st]) (rule wk)
    show "bench_quiet m cfg mp (ps[i := ph]) (cs[i := c']) w'" if q: "bench_quiet m cfg mp ps cs w"
      using qu quiet_events [OF q i] by (intro quiet_move [OF q i l]) auto
  qed
  note upd = bench.worker_moved [OF W i]
  note rules = act_simps same_setup_def move_ok_def past_start_def with_start_append round_events_def rounds_last emit_def proceed_def
  show thesis
  proof (cases "ps ! i")
    case (B_Outside r s)
    show thesis
    proof (cases r)
      case 0
      with a t B_Outside own own0 k show thesis
        by (intro moved [of B_Ended "cs ! i"] upd) (auto simp: rules)
    next
      case (Suc r')
      with a t B_Outside own own0 k show thesis
        by (intro moved [of "B_Wanting r' s" "cs ! i"] upd) (auto simp: rules)
    qed
  next
    case (B_Wanting r s)
    with a t own own0 k ty show thesis
      by (intro moved [of "B_Entered r s" "cs ! i"] upd) (auto simp: rules)
  next
    case (B_Entered r s)
    with a t own own0 k ty show thesis
      by (intro moved [of "B_Loaded r s" "cs ! i"] upd) (auto simp: rules)
  next
    case (B_Loaded r s)
    with a t own own0 k ty show thesis
      by (intro moved [of "B_Stored r s" "Suc (cs ! i)"] upd) (auto simp: rules)
  next
    case (B_Stored r s)
    with a t own own0 k ty show thesis
      by (intro moved [of "B_Sinking r (bench_sink (work cfg) s (vars w shared_counter))" "cs ! i"] upd) (auto simp: rules bench_section_def)
  next
    case (B_Sinking r s)
    with a t own own0 k ty show thesis
      by (intro moved [of "B_Leaving r s" "cs ! i"] upd) (auto simp: rules)
  next
    case (B_Leaving r s)
    with a t own own0 k ty show thesis
      by (intro moved [of "B_Outside r s" "cs ! i"] upd) (auto simp: rules)
  next
    case (B_Broken h e)
    with a t own own0 k ty show thesis
      by (intro moved [of "B_Dead h e" "cs ! i"] upd) (auto simp: rules)
  qed (use a t nb in \<open>auto simp: act_simps\<close>)
qed

text \<open>A worker reaches the barrier.\<close>

lemma before_zero:
  assumes "bench_at m cfg mp ps cs w" and "list_all (\<lambda>p. p = B_Fresh \<or> p = B_Barrier) ps"
  shows "list_all (\<lambda>c. c = 0) cs" and "list_all (\<lambda>p. \<not> bench_holds p) ps"
proof -
  have l: "length cs = length ps" using bench_lengths [OF assms(1)] by simp
  have "cs ! i = 0 \<and> \<not> bench_holds (ps ! i)" if "i < length ps" for i
  proof -
    have "ps ! i = B_Fresh \<or> ps ! i = B_Barrier" using assms(2) that by (simp add: list_all_length)
    then show ?thesis using bench.workers_nth(2) [OF bench_workers [OF assms(1)] that] by auto
  qed
  with l show "list_all (\<lambda>c. c = 0) cs" "list_all (\<lambda>p. \<not> bench_holds p) ps" by (simp_all add: list_all_length)
qed

lemma bench_main_barrier: "at_barrier start_barrier (bench_main_state m cfg mp) \<longleftrightarrow> (\<exists>t. mp = M_Barrier t)"
proof (cases mp)
  case (M_Setting k)
  then show ?thesis by simp
qed simp_all

lemma open_by_worker:
  assumes c: "bench_at m cfg mp ps cs w" and i: "i < length ps" and f: "ps ! i = B_Fresh" and s: "waiting start_barrier w = unat (threads cfg)"
  obtains t where "mp = M_Barrier t" and "length ps = unat (threads cfg)" and "\<And>j. j < length ps \<Longrightarrow> j \<noteq> i \<Longrightarrow> ps ! j = B_Barrier"
proof -
  have l: "length ps \<le> unat (threads cfg)" using bench_lengths [OF c] by simp
  have "\<not> list_all (\<lambda>p. p = B_Barrier) ps" using i f by (auto simp: list_all_length)
  then have k: "count_if (\<lambda>p. p = B_Barrier) ps < length ps"
    using count_if_all [of "\<lambda>p. p = B_Barrier" ps] count_if_length [of "\<lambda>p. p = B_Barrier" ps] by linarith
  have m: "at_barrier start_barrier (bench_main_state m cfg mp)"
  proof (rule ccontr)
    assume "\<not> ?thesis"
    then show False using s bench_waiting [OF c] k l by simp
  qed
  then have w: "Suc (count_if (\<lambda>p. p = B_Barrier) ps) = unat (threads cfg)" using s bench_waiting [OF c] by simp
  obtain t where t: "mp = M_Barrier t" using m bench_main_barrier by blast
  have "length ps = unat (threads cfg)" using w k l by linarith
  moreover have "ps ! j = B_Barrier" if "j < length ps" "j \<noteq> i" for j
    by (rule count_if_but_one [OF i _ _ that, where p = "\<lambda>p. p = B_Barrier"]) (use f w l in simp_all)
  ultimately show thesis using that t by blast
qed

lemma worker_waits:
  assumes c: "bench_at m cfg mp ps cs w" and i: "i < length ps" and f: "ps ! i = B_Fresh"
    and w: "Suc (waiting start_barrier w) < barrier_count w start_barrier" "w' = w\<lparr>ts := (ts w)[Suc i := At_Barrier start_barrier (bench_begin m cfg)]\<rparr>"
  obtains mp' ps' where "bench_at m cfg mp' ps' cs w'" and "bench_quiet m cfg mp ps cs w \<Longrightarrow> bench_quiet m cfg mp' ps' cs w'"
proof -
  note W = bench_workers [OF c]
  have n: "ps \<noteq> []" using i by auto
  then have b: "barrier_count w start_barrier = Suc (unat (threads cfg))" using c by (simp add: bench_at_def)
  have B: "bench_ok (unat (threads cfg)) ps mp" and x: "exit_code w = bench_exit mp" using bench_main_at [OF c] by simp_all
  have l: "length cs = length ps" "length (ts w) = Suc (length ps)" using bench_lengths [OF c] by simp_all
  have zero: "cs ! i = 0" using bench.workers_nth(2) [OF W i] f by simp
  let ?ps = "ps[i := B_Barrier]"
  have "bench_ok (unat (threads cfg)) ?ps mp"
  proof -
    have "\<not> list_all (\<lambda>p. p = B_Barrier) ?ps" if "mp = M_Barrier t'" for t'
    proof
      assume all: "list_all (\<lambda>p. p = B_Barrier) ?ps"
      have "length ps = unat (threads cfg)" using B that by simp
      moreover have "count_if (\<lambda>p. p = B_Barrier) ?ps = length ps" using all count_if_all [of "\<lambda>p. p = B_Barrier" ?ps] by simp
      moreover have "count_if (\<lambda>p. p = B_Barrier) ?ps \<le> Suc (count_if (\<lambda>p. p = B_Barrier) ps)"
        using i by (simp add: count_if_def filter_update_le)
      ultimately show False using w(1) b bench_waiting [OF c] that by simp
    qed
    moreover have "list_all before_start ?ps" if "list_all before_start ps" using that i by (auto simp: list_all_length nth_list_update)
    moreover have "\<not> list_all past_start ps" using i f by (auto simp: list_all_length past_start_def)
    moreover have "\<not> all_ended (unat (threads cfg)) ps" using i f by (auto simp: all_ended_def list_all_length)
    ultimately show ?thesis using B n by (cases mp) auto
  qed
  moreover have "same_setup w w'" by (simp add: w(2) same_setup_def)
  moreover have "bench.workers_at m cfg (unat (iterations cfg)) (bench_main_state m cfg mp) ?ps (cs[i := cs ! i]) w'"
    using bench.worker_moved [OF W i, where ph = B_Barrier and c' = "cs ! i" and w' = w'] zero f by (simp add: w(2))
  ultimately have "bench_at m cfg mp ?ps (cs[i := cs ! i]) w'" by (intro bench_worker_update [OF c i])
  moreover have "bench_quiet m cfg mp ?ps (cs[i := cs ! i]) w'" if q: "bench_quiet m cfg mp ps cs w"
    using quiet_events [OF q i] f by (intro quiet_move [OF q i l(1)]) (auto simp: w(2) fun_eq_iff)
  ultimately show thesis using that by (metis list_update_id)
qed

lemma worker_opens:
  assumes c: "bench_at m cfg mp ps cs w" and i: "i < length ps" and f: "ps ! i = B_Fresh"
    and w: "Suc (waiting start_barrier w) = barrier_count w start_barrier" "w' = open_barrier start_barrier s (w\<lparr>ts := (ts w)[Suc i := At_Barrier start_barrier (bench_begin m cfg)]\<rparr>)"
  obtains mp' ps' where "bench_at m cfg mp' ps' cs w'" and "bench_quiet m cfg mp ps cs w \<Longrightarrow> bench_quiet m cfg mp' ps' cs w'"
proof -
  note W = bench_workers [OF c]
  have n: "ps \<noteq> []" using i by auto
  then have b: "barrier_count w start_barrier = Suc (unat (threads cfg))" using c by (simp add: bench_at_def)
  have B: "bench_ok (unat (threads cfg)) ps mp" and x: "exit_code w = bench_exit mp" using bench_main_at [OF c] by simp_all
  have l: "length cs = length ps" "length (ts w) = Suc (length ps)" using bench_lengths [OF c] by simp_all
  from w(1) b have "waiting start_barrier w = unat (threads cfg)" by simp
  from open_by_worker [OF c i f this] obtain t' where mp: "mp = M_Barrier t'" and T: "length ps = unat (threads cfg)"
    and o: "\<And>j. j < length ps \<Longrightarrow> j \<noteq> i \<Longrightarrow> ps ! j = B_Barrier" by blast
  have two: "list_all (\<lambda>p. p = B_Fresh \<or> p = B_Barrier) ps"
    unfolding list_all_length
  proof (intro allI impI)
    show "ps ! j = B_Fresh \<or> ps ! j = B_Barrier" if "j < length ps" for j using o [of j] f that by (cases "j = i") auto
  qed
  have X: "(ts w)[Suc i := At_Barrier start_barrier (bench_begin m cfg)] =
    At_Barrier start_barrier (bench_started cfg [1..<Suc (unat (threads cfg))] t') # map (\<lambda>_. At_Barrier start_barrier (bench_begin m cfg)) ps"
  proof (rule nth_equalityI)
    fix j assume j: "j < length ((ts w)[Suc i := At_Barrier start_barrier (bench_begin m cfg)])"
    show "(ts w)[Suc i := At_Barrier start_barrier (bench_begin m cfg)] ! j =
      (At_Barrier start_barrier (bench_started cfg [1..<Suc (unat (threads cfg))] t') # map (\<lambda>_. At_Barrier start_barrier (bench_begin m cfg)) ps) ! j"
    proof (cases j)
      case 0
      then show ?thesis using bench_main_at [OF c] mp by simp
    next
      case (Suc j')
      then show ?thesis using j l o [of j'] bench.workers_nth(1) [OF W, of j'] by (cases "j' = i") auto
    qed
  qed (use l in simp)
  have bs: "list_all before_start ps" using two by (auto simp: list_all_iff)
  have "exit_code w = None" using x mp by simp
  note op = bench_open [OF c T bs refl X before_zero [OF c two] this, where s = s, folded w(2)]
  have "bench_quiet m cfg (M_Joining t' 0 False) (bench_opening cfg ps) cs w'" if q: "bench_quiet m cfg mp ps cs w"
  proof -
    have "events w' = events w" by (simp add: w(2) open_barrier_def)
    moreover have "cs ! j = 0" "events w (Suc j) = []" if "j < length ps" for j
      using before_zero(1) [OF c two] l that two quiet_events [OF q that] by (auto simp: list_all_length)
    ultimately show ?thesis using q op(2) mp unfolding bench_quiet_def by (auto simp: bench_opening_def list_all_iff)
  qed
  with op(1) show thesis using that by blast
qed

lemma worker_arrives:
  assumes c: "bench_at m cfg mp ps cs w" and i: "i < length ps" and a: "act (Suc i) (ts w ! Suc i) w w'" and f: "ps ! i = B_Fresh"
  obtains mp' ps' where "bench_at m cfg mp' ps' cs w'" and "bench_quiet m cfg mp ps cs w \<Longrightarrow> bench_quiet m cfg mp' ps' cs w'"
proof -
  note t = bench.workers_nth(1) [OF bench_workers [OF c] i]
  let ?x = "w\<lparr>ts := (ts w)[Suc i := At_Barrier start_barrier (bench_begin m cfg)]\<rparr>"
  from a consider "Suc (waiting start_barrier w) < barrier_count w start_barrier" "w' = ?x"
    | s where "Suc (waiting start_barrier w) = barrier_count w start_barrier" "w' = open_barrier start_barrier s ?x"
    unfolding t f by (auto simp: worker_main_eq act_barrier)
  then show thesis using worker_waits [OF c i f] worker_opens [OF c i f] that by metis
qed

lemma bench_worker_faults:
  assumes c: "bench_at m cfg mp ps cs w" and i: "i < length ps" and a: "fault (Suc i) (ts w ! Suc i) w w'"
  obtains ph where "bench_at m cfg mp (ps[i := ph]) (cs[i := cs ! i]) w'"
proof -
  note result = that
  note W = bench_workers [OF c]
  note t = bench.workers_nth(1) [OF W i] and k = bench.workers_nth(2) [OF W i] and own = bench.workers_nth(3) [OF W i]
  have B: "bench_ok (unat (threads cfg)) ps mp" using bench_main_at [OF c] by simp
  have moved: thesis if mv: "move_ok (ps ! i) ph" and st: "same_setup w w'"
    and wk: "bench.workers_at m cfg (unat (iterations cfg)) (bench_main_state m cfg mp) (ps[i := ph]) (cs[i := cs ! i]) w'" for ph
  proof (rule result)
    show "bench_at m cfg mp (ps[i := ph]) (cs[i := cs ! i]) w'"
      by (rule bench_worker_update [OF c i _ bench_ok_move [OF B i mv] st]) (rule wk)
  qed
  note upd = bench.worker_moved [OF W i]
  note rules = same_setup_def move_ok_def past_start_def emit_def proceed_def
  show thesis
  proof (cases "ps ! i")
    case B_Fresh
    with a t own k show thesis
      by (intro moved [of "B_Broken False 1"] upd) (auto elim!: fault_cases simp: rules worker_main_eq)
  next
    case (B_Outside r s)
    with a t show thesis by (cases r) (auto elim: fault_cases)
  next
    case (B_Wanting r s)
    with a t own k show thesis
      by (intro moved [of "B_Broken False 2"] upd) (auto elim!: fault_cases simp: rules)
  next
    case (B_Leaving r s)
    with a t own k show thesis
      by (intro moved [of "B_Broken True 3"] upd) (auto elim!: fault_cases simp: rules)
  qed (use a t in \<open>auto elim: fault_cases simp: bench_section_def\<close>)
qed

section \<open>Steps of the main thread\<close>

lemma bench_main_update:
  assumes c: "bench_at m cfg mp ps cs w" and "ts w' = (ts w)[0 := bench_main_state m cfg mp']" and "owner w' = owner w"
    and "vars w' shared_counter = vars w shared_counter" and "mutex_type w' = mutex_type w" and "exit_code w' = bench_exit mp'"
    and "bench_ok (unat (threads cfg)) ps mp'"
    and "barrier_count w' start_barrier = (if (\<exists>k. mp' = M_Setting k \<and> k = 3) \<or> (\<exists>c. mp' = M_Creating c) then Suc (unat (threads cfg)) else barrier_count w start_barrier)"
  shows "bench_at m cfg mp' ps cs w'"
  using assms bench.main_moves [OF bench_workers [OF c] assms(2-4)] unfolding bench_at_def by auto

lemma bench_all_ended:
  assumes c: "bench_at m cfg mp ps cs w" and e: "all_ended (unat (threads cfg)) ps"
  shows "vars w shared_counter = expected_ops cfg"
proof -
  have "cs ! i = unat (iterations cfg)" if "i < length ps" for i
    using bench.workers_nth(2) [OF bench_workers [OF c] that] e that by (simp add: all_ended_def list_all_length)
  then have "vars w shared_counter = of_nat (length ps) * of_nat (unat (iterations cfg))"
    by (rule bench.counter_total [OF bench_workers [OF c]])
  then show ?thesis using e by (simp add: all_ended_def expected_ops_def unsigned_ucast_eq mult.commute)
qed

definition bench_next :: "bench_config \<Rightarrow> nat \<Rightarrow> bench_point" where
  "bench_next cfg c = (if c < unat (threads cfg) then M_Creating c else M_Timing)"

lemma creating_step: "c < unat (threads cfg) \<Longrightarrow> creating_from m cfg c = Create (worker_main m cfg) (\<lambda>rc h. if rc \<noteq> 0 then bench_failed rc
     else create_workers (unat (threads cfg) - Suc c) (worker_main m cfg) ([1..<Suc c] @ [h]) bench_failed (bench_timed cfg))"
  unfolding creating_from_def by (subst Suc_diff_Suc [symmetric]) (simp_all only: create_workers.simps)

lemma next_creating: "c \<le> unat (threads cfg) \<Longrightarrow>
    bench_main_state m cfg (bench_next cfg c) = Running (snd (settle (creating_from m cfg c))) \<and> fst (settle (creating_from m cfg c)) = []"
proof (cases "c < unat (threads cfg)")
  case True
  then show ?thesis by (simp add: bench_next_def creating_step)
next
  case False
  assume "c \<le> unat (threads cfg)"
  with False have "creating_from m cfg c = bench_timed cfg [1..<Suc (unat (threads cfg))]" by (simp add: creating_from_def)
  with False show ?thesis by (simp add: bench_next_def bench_timed_eq del: upt_Suc)
qed

lemma create_more: "create_workers (unat (threads cfg) - Suc c) (worker_main m cfg) ([1..<Suc c] @ [Suc c]) bench_failed (bench_timed cfg) =
    creating_from m cfg (Suc c)"
  by (simp add: creating_from_def)

lemma joining_step: "j < unat (threads cfg) \<Longrightarrow> bench_join [Suc j..<Suc (unat (threads cfg))] f k =
    Join (Suc j) (\<lambda>rc result. bench_join [Suc (Suc j)..<Suc (unat (threads cfg))] (f \<or> rc \<noteq> 0 \<or> result \<noteq> 0) k)"
  by (subst upt_conv_Cons) (simp_all del: upt_Suc)

lemma setting_steps:
  "setting_prog m cfg 0 = Store shared_counter 0 (setting_prog m cfg 1)" "setting_prog m cfg 1 = Store work_sink 0 (setting_prog m cfg 2)"
  "setting_prog m cfg 2 = Barrier_Init start_barrier (unat (threads cfg + 1)) (\<lambda>rc.
     if rc \<noteq> 0 then Complain ''pthread_barrier_init'' (Done EXIT_FAILURE) else setting_prog m cfg 3)"
  "setting_prog m cfg 3 = Call ''calloc'' (\<lambda>rc. if rc \<noteq> 0 then Complain ''calloc'' (Call ''pthread_barrier_destroy'' (\<lambda>_. Done EXIT_FAILURE))
                                    else creating_from m cfg 0)"
  by (simp_all add: setting_prog_def Let_def cong: if_cong)

lemma report_steps:
  "report_prog cfg el f 0 = Load shared_counter (\<lambda>counter.
     foldr Say (human_lines cfg el) (Load shared_counter (\<lambda>c. foldr Say (verdict_lines (counter = expected_ops cfg \<and> \<not> f) c) (
       Load shared_counter (\<lambda>c. Say (bench_result_line cfg el (counter = expected_ops cfg \<and> \<not> f) c) (bench_cleanup (counter = expected_ops cfg \<and> \<not> f)))))))"
  "report_prog cfg el f 1 = Load shared_counter (\<lambda>c. foldr Say (verdict_lines (\<not> f) c) (report_prog cfg el f 2))"
  "report_prog cfg el f 2 = Load shared_counter (\<lambda>c. Say (bench_result_line cfg el (\<not> f) c) (report_prog cfg el f 3))"
  "report_prog cfg el f 3 = Call ''pthread_barrier_destroy'' (\<lambda>_. report_prog cfg el f 4)"
  "report_prog cfg el f 4 = Call ''pthread_mutex_destroy'' (\<lambda>_. report_prog cfg el f 5)"
  "report_prog cfg el f 5 = Done (if f then EXIT_FAILURE else EXIT_SUCCESS)"
  by (simp_all add: report_prog_def bench_report_def bench_cleanup_def Let_def)

lemma report_one: "report_prog cfg el f 1 = Load shared_counter (\<lambda>c. foldr Say (verdict_lines (\<not> f) c) (
    Load shared_counter (\<lambda>c. Say (bench_result_line cfg el (\<not> f) c) (bench_cleanup (\<not> f)))))"
  by (simp add: report_prog_def Let_def)

lemma settle_says: "settle (foldr Say ls p) = (ls @ fst (settle p), snd (settle p))"
  by (induction ls) simp_all

lemma settle_stages [simp]:
  "settle (setting_prog m cfg k) = ([], setting_prog m cfg k)" "settle (report_prog cfg el f k) = ([], report_prog cfg el f k)"
  by (simp_all add: setting_prog_def report_prog_def bench_report_def bench_cleanup_def Let_def)

lemma length_report: "length (human_lines cfg el) = 7" "length (verdict_lines ok c) = 2"
  by (simp_all add: human_lines_def verdict_lines_def)

lemma report_takes:
  "take 7 (report_lines cfg el) = human_lines cfg el" "take 9 (report_lines cfg el) = human_lines cfg el @ verdict_lines True (expected_ops cfg)"
  "take 10 (report_lines cfg el) = report_lines cfg el"
  by (simp_all add: report_lines_def length_report)

lemma quiet_main:
  assumes "bench_quiet m cfg mp ps cs w" and "events w' = events w" and "bench_lines cfg mp' (printed w' 0)"
  shows "bench_quiet m cfg mp' ps cs w'"
  using assms by (simp add: bench_quiet_def)

text \<open>The main thread reaches the barrier.\<close>

lemma main_arrives:
  assumes c: "bench_at m cfg (M_Arriving t) ps cs w" and a: "act 0 (ts w ! 0) w w'" and some: "0 < unat (threads cfg)"
  obtains mp' ps' where "bench_at m cfg mp' ps' cs w'" and "bench_quiet m cfg (M_Arriving t) ps cs w \<Longrightarrow> bench_quiet m cfg mp' ps' cs w'"
proof -
  note W = bench_workers [OF c]
  let ?K = "bench_started cfg [1..<Suc (unat (threads cfg))] t"
  let ?x = "w\<lparr>ts := (ts w)[0 := At_Barrier start_barrier ?K]\<rparr>"
  have B: "length ps = unat (threads cfg)" "list_all before_start ps" and x: "exit_code w = None" and t: "ts w ! 0 = Running (Barrier_Wait start_barrier ?K)"
    using bench_main_at [OF c] by simp_all
  have l: "length cs = length ps" "length (ts w) = Suc (length ps)" using bench_lengths [OF c] by simp_all
  have b: "barrier_count w start_barrier = Suc (unat (threads cfg))" using c B(1) some by (auto simp: bench_at_def)
  have wt: "waiting start_barrier w = count_if (\<lambda>p. p = B_Barrier) ps" using bench_waiting [OF c] by simp
  from a consider "Suc (waiting start_barrier w) < barrier_count w start_barrier" "w' = ?x"
    | s where "Suc (waiting start_barrier w) = barrier_count w start_barrier" "w' = open_barrier start_barrier s ?x"
    unfolding t by (auto simp: act_barrier)
  then show thesis
  proof cases
    case 1
    have "\<not> list_all (\<lambda>p. p = B_Barrier) ps"
    proof
      assume all: "list_all (\<lambda>p. p = B_Barrier) ps"
      then have "waiting start_barrier w = length ps" using wt count_if_all [of "\<lambda>p. p = B_Barrier" ps] by simp
      then show False using 1(1) b B(1) by simp
    qed
    then have "bench_at m cfg (M_Barrier t) ps cs w'"
      using B x 1 by (intro bench_main_update [OF c]) (simp_all del: upt_Suc)
    moreover have "bench_quiet m cfg (M_Barrier t) ps cs w'" if "bench_quiet m cfg (M_Arriving t) ps cs w"
      using that 1 by (intro quiet_main [OF that]) (simp_all add: bench_quiet_def)
    ultimately show thesis using that by blast
  next
    case (2 s)
    have "count_if (\<lambda>p. p = B_Barrier) ps = length ps" using 2(1) b B(1) wt by simp
    then have all: "list_all (\<lambda>p. p = B_Barrier) ps" using count_if_all by blast
    then have two: "list_all (\<lambda>p. p = B_Fresh \<or> p = B_Barrier) ps" by (simp add: list_all_iff)
    have X: "(ts w)[0 := At_Barrier start_barrier ?K] = At_Barrier start_barrier ?K # map (\<lambda>_. At_Barrier start_barrier (bench_begin m cfg)) ps"
    proof (rule nth_equalityI)
      fix j assume j: "j < length ((ts w)[0 := At_Barrier start_barrier ?K])"
      show "(ts w)[0 := At_Barrier start_barrier ?K] ! j = (At_Barrier start_barrier ?K # map (\<lambda>_. At_Barrier start_barrier (bench_begin m cfg)) ps) ! j"
        using j l all bench.workers_nth(1) [OF W] by (cases j) (auto simp: list_all_length simp del: upt_Suc)
    qed (use l in simp)
    note op = bench_open [OF c B refl X before_zero [OF c two] x, where s = s, folded 2(2)]
    have "bench_quiet m cfg (M_Joining t 0 False) (bench_opening cfg ps) cs w'" if q: "bench_quiet m cfg (M_Arriving t) ps cs w"
    proof -
      have "events w' = events w" by (simp add: 2(2) open_barrier_def)
      moreover have "cs ! j = 0" "events w (Suc j) = []" if "j < length ps" for j
        using before_zero(1) [OF c two] l that all quiet_events [OF q that] by (auto simp: list_all_length)
      ultimately show ?thesis using q op(2) unfolding bench_quiet_def by (auto simp: bench_opening_def list_all_iff)
    qed
    with op(1) show thesis using that by blast
  qed
qed

text \<open>A step leads to other phases, and from a run without failures to one without failures.\<close>

definition bench_goes :: "uintptr \<Rightarrow> bench_config \<Rightarrow> bench_point \<Rightarrow> bench_phase list \<Rightarrow> nat list \<Rightarrow> process \<Rightarrow> process \<Rightarrow> bool" where
  "bench_goes m cfg mp ps cs w w' \<longleftrightarrow> (\<exists>mp' ps' cs'. bench_at m cfg mp' ps' cs' w' \<and> (bench_quiet m cfg mp ps cs w \<longrightarrow> bench_quiet m cfg mp' ps' cs' w'))"

lemma bench_goesI: "bench_at m cfg mp' ps' cs' w' \<Longrightarrow> (bench_quiet m cfg mp ps cs w \<Longrightarrow> bench_quiet m cfg mp' ps' cs' w') \<Longrightarrow> bench_goes m cfg mp ps cs w w'"
  unfolding bench_goes_def by blast

lemma main_moved:
  assumes "bench_at m cfg mp' ps cs w'" and "events w' = events w" and "bench_quiet m cfg mp ps cs w \<Longrightarrow> bench_lines cfg mp' (printed w' 0)"
  shows "bench_goes m cfg mp ps cs w w'"
  using bench_goesI [OF assms(1)] quiet_main [OF _ assms(2,3)] by blast

lemma setting_goes:
  assumes c: "bench_at m cfg mp ps cs w" and a: "act 0 (ts w ! 0) w w'" and some: "0 < unat (threads cfg)" "unat (threads cfg) \<le> 64"
    and M_Setting: "mp = M_Setting i"
  shows "bench_goes m cfg mp ps cs w w'"
proof -
  note W = bench_workers [OF c]
  have t: "ts w ! 0 = bench_main_state m cfg mp" and k: "bench_ok (unat (threads cfg)) ps mp" and x: "exit_code w = bench_exit mp"
    using bench_main_at [OF c] by simp_all
  have l: "length (ts w) = Suc (length ps)" "length cs = length ps" "length ps \<le> unat (threads cfg)" using bench_lengths [OF c] by simp_all
  note upd = bench_main_update [OF c] and moved = main_moved
  have lines: "bench_lines cfg mp (printed w 0)" if "bench_quiet m cfg mp ps cs w" using that by (simp add: bench_quiet_def)
  have n: "ps = []" "i \<le> 3" using k M_Setting by simp_all
  then have v: "vars w shared_counter = 0" using W l by (simp add: bench.workers_at_def)
  have T1: "unat (threads cfg + 1) = Suc (unat (threads cfg))" using some(2) by (simp add: unat_word_ariths)
  from n(2) consider "i = 0" | "i = 1" | "i = 2" | "i = 3" by linarith
  then show ?thesis
  proof cases
    case 1
    then have "w' = proceed 0 (setting_prog m cfg 1) (w\<lparr>vars := (vars w)(shared_counter := 0)\<rparr>)"
      using a t M_Setting by (simp add: setting_steps act_simps)
    then show ?thesis using M_Setting 1 n x v lines by (intro moved [where mp' = "M_Setting 1"] upd) (auto simp: proceed_def)
  next
    case 2
    then have "w' = proceed 0 (setting_prog m cfg 2) (w\<lparr>vars := (vars w)(work_sink := 0)\<rparr>)"
      using a t M_Setting by (simp add: setting_steps(2) [unfolded One_nat_def] act_simps)
    then show ?thesis using M_Setting 2 n x v lines by (intro moved [where mp' = "M_Setting 2"] upd) (auto simp: proceed_def)
  next
    case 3
    then have "w' = proceed 0 (setting_prog m cfg 3) (w\<lparr>barrier_count := (barrier_count w)(start_barrier := unat (threads cfg + 1))\<rparr>)"
      using a t M_Setting by (simp add: setting_steps act_simps)
    then show ?thesis using M_Setting 3 n x v lines T1 by (intro moved [where mp' = "M_Setting 3"] upd) (auto simp: proceed_def)
  next
    case 4
    then have w': "w' = proceed 0 (creating_from m cfg 0) w"
      using a t M_Setting by (simp add: setting_steps act_simps)
    have "bench_next cfg 0 = M_Creating 0" using some by (simp add: bench_next_def)
    with next_creating [of 0 cfg m] w' show ?thesis using M_Setting 4 n x lines some c by (intro moved [where mp' = "M_Creating 0"] upd) (auto simp: proceed_def bench_at_def)
  qed
qed

lemma creating_goes:
  assumes c: "bench_at m cfg mp ps cs w" and a: "act 0 (ts w ! 0) w w'"
    and M_Creating: "mp = M_Creating i"
  shows "bench_goes m cfg mp ps cs w w'"
proof -
  note W = bench_workers [OF c]
  have t: "ts w ! 0 = bench_main_state m cfg mp" and k: "bench_ok (unat (threads cfg)) ps mp" and x: "exit_code w = bench_exit mp"
    using bench_main_at [OF c] by simp_all
  have l: "length (ts w) = Suc (length ps)" "length cs = length ps" "length ps \<le> unat (threads cfg)" using bench_lengths [OF c] by simp_all
  note upd = bench_main_update [OF c] and moved = main_moved
  have lines: "bench_lines cfg mp (printed w 0)" if "bench_quiet m cfg mp ps cs w" using that by (simp add: bench_quiet_def)
  from M_Creating have i: "i < unat (threads cfg)" "length ps = i" "list_all before_start ps" using k by simp_all
  let ?mp = "bench_next cfg (Suc i)"
  note nx = next_creating [OF Suc_leI [OF i(1)], of m]
  have w': "w' = proceed 0 (creating_from m cfg (Suc i)) (proceed (Suc i) (worker_main m cfg) (w\<lparr>ts := ts w @ [Running (worker_main m cfg)]\<rparr>))"
    using a t l i unfolding M_Creating bench_main_state.simps creating_step [OF i(1)] by (simp add: act_simps create_more [unfolded One_nat_def] del: upt_Suc)
  have "bench.workers_at m cfg (unat (iterations cfg)) (bench_main_state m cfg ?mp) (ps @ [B_Fresh]) (cs @ [0]) w'"
    using bench.worker_added [OF W, where p = B_Fresh and w' = w' and t' = "bench_main_state m cfg ?mp"] l i nx
    by (simp add: w' proceed_def list_update_append)
  then have "bench_at m cfg ?mp (ps @ [B_Fresh]) (cs @ [0]) w'"
    using c i M_Creating unfolding bench_at_def by (auto simp: w' proceed_def bench_next_def)
  moreover have "bench_quiet m cfg ?mp (ps @ [B_Fresh]) (cs @ [0]) w'" if q: "bench_quiet m cfg mp ps cs w"
    using q i l nx M_Creating unfolding bench_quiet_def w' by (auto simp: proceed_def nth_append less_Suc_eq bench_next_def)
  ultimately show ?thesis by (rule bench_goesI)
qed

lemma joining_goes:
  assumes c: "bench_at m cfg mp ps cs w" and a: "act 0 (ts w ! 0) w w'"
    and M_Joining: "mp = M_Joining t' j f"
  shows "bench_goes m cfg mp ps cs w w'"
proof -
  note W = bench_workers [OF c]
  have t: "ts w ! 0 = bench_main_state m cfg mp" and k: "bench_ok (unat (threads cfg)) ps mp" and x: "exit_code w = bench_exit mp"
    using bench_main_at [OF c] by simp_all
  have l: "length (ts w) = Suc (length ps)" "length cs = length ps" "length ps \<le> unat (threads cfg)" using bench_lengths [OF c] by simp_all
  note upd = bench_main_update [OF c] and moved = main_moved
  have lines: "bench_lines cfg mp (printed w 0)" if "bench_quiet m cfg mp ps cs w" using that by (simp add: bench_quiet_def)
  from M_Joining have j: "j \<le> unat (threads cfg)" "length ps = unat (threads cfg)" "list_all past_start ps" "\<not> f \<longrightarrow> (\<forall>i < j. ps ! i = B_Ended)"
    using k by simp_all
  show ?thesis
  proof (cases "j = unat (threads cfg)")
    case True
    then obtain e where w': "w' = proceed 0 (report_prog cfg (elapsed_ns_of t' e) f 0) w"
      using a t M_Joining by (auto simp: bench_elapsed_def report_prog_def act_simps)
    then show ?thesis using M_Joining True j x lines
      by (intro moved [where mp' = "M_Reporting (elapsed_ns_of t' e) f 0"] upd) (auto simp: proceed_def all_ended_def list_all_length)
  next
    case False
    with j have lt: "j < unat (threads cfg)" by simp
    obtain r where r: "ts w ! Suc j = Finished r"
      and w': "w' = proceed 0 (bench_join [Suc (Suc j)..<Suc (unat (threads cfg))] (f \<or> r \<noteq> 0) (bench_elapsed cfg t')) w"
      using a t unfolding M_Joining bench_main_state.simps joining_step [OF lt] by (auto simp: act_simps simp del: upt_Suc)
    have p: "bench_state m cfg (vars w shared_counter) (ps ! j) = Finished r" using r bench.workers_nth(1) [OF W, of j] j lt by simp
    have e: "ps ! j = B_Ended \<longleftrightarrow> r = 0" using p bench.workers_nth(2) [OF W, of j] j lt by (cases "ps ! j") auto
    have "ts w' = (ts w)[0 := bench_main_state m cfg (M_Joining t' (Suc j) (f \<or> r \<noteq> 0))]"
      unfolding w' by (simp add: settle_join del: upt_Suc)
    moreover have "bench_lines cfg (M_Joining t' (Suc j) (f \<or> r \<noteq> 0)) (printed w' 0)" if q: "bench_quiet m cfg mp ps cs w"
    proof -
      have "bench_unbroken (ps ! j)" using quiet_events [OF q, of j] j lt by simp
      then have "r = 0" using p by (cases "ps ! j") auto
      then show ?thesis using lines [OF q] unfolding w' by (simp add: M_Joining proceed_def settle_join del: upt_Suc)
    qed
    ultimately show ?thesis using M_Joining j lt x e
      by (intro moved [where mp' = "M_Joining t' (Suc j) (f \<or> r \<noteq> 0)"] upd) (auto simp: w' proceed_def less_Suc_eq simp del: upt_Suc)
  qed
qed

lemma reporting_goes:
  assumes c: "bench_at m cfg mp ps cs w" and a: "act 0 (ts w ! 0) w w'"
    and M_Reporting: "mp = M_Reporting el f i"
  shows "bench_goes m cfg mp ps cs w w'"
proof -
  note W = bench_workers [OF c]
  have t: "ts w ! 0 = bench_main_state m cfg mp" and k: "bench_ok (unat (threads cfg)) ps mp" and x: "exit_code w = bench_exit mp"
    using bench_main_at [OF c] by simp_all
  have l: "length (ts w) = Suc (length ps)" "length cs = length ps" "length ps \<le> unat (threads cfg)" using bench_lengths [OF c] by simp_all
  note upd = bench_main_update [OF c] and moved = main_moved
  have lines: "bench_lines cfg mp (printed w 0)" if "bench_quiet m cfg mp ps cs w" using that by (simp add: bench_quiet_def)
  from M_Reporting have i: "i \<le> 5" "\<not> f \<longrightarrow> all_ended (unat (threads cfg)) ps" "list_all past_start ps" using k by simp_all
  have v: "vars w shared_counter = expected_ops cfg" if "\<not> f" using bench_all_ended [OF c] i that by simp
  have ok: "(vars w shared_counter = expected_ops cfg \<and> \<not> f) = (\<not> f)" using v by blast
  from i(1) consider "i = 0" | "i = 1" | "i = 2" | "i = 3" | "i = 4" | "i = 5" by linarith
  then show ?thesis
  proof cases
    case 1
    have "w' = proceed 0 (foldr Say (human_lines cfg el) (report_prog cfg el f 1)) w"
      using a t unfolding M_Reporting 1 bench_main_state.simps report_steps(1) report_one by (simp add: act_simps ok)
    then show ?thesis using M_Reporting 1 i x lines
      by (intro moved [where mp' = "M_Reporting el f 1"] upd) (auto simp: proceed_def settle_says report_takes)
  next
    case 2
    have "w' = proceed 0 (foldr Say (verdict_lines (\<not> f) (vars w shared_counter)) (report_prog cfg el f 2)) w"
      using a t unfolding M_Reporting 2 bench_main_state.simps report_steps by (simp add: act_simps)
    then show ?thesis using M_Reporting 2 i x lines v
      by (intro moved [where mp' = "M_Reporting el f 2"] upd) (auto simp: proceed_def settle_says report_takes)
  next
    case 3
    have "w' = proceed 0 (Say (bench_result_line cfg el (\<not> f) (vars w shared_counter)) (report_prog cfg el f 3)) w"
      using a t unfolding M_Reporting 3 bench_main_state.simps report_steps by (simp add: act_simps)
    then show ?thesis using M_Reporting 3 i x lines v
      by (intro moved [where mp' = "M_Reporting el f 3"] upd) (auto simp: proceed_def settle_says report_takes report_lines_def [symmetric])
  next
    case 4
    have "w' = proceed 0 (report_prog cfg el f 4) w"
      using a t unfolding M_Reporting 4 bench_main_state.simps report_steps by (simp add: act_simps)
    then show ?thesis using M_Reporting 4 i x lines by (intro moved [where mp' = "M_Reporting el f 4"] upd) (auto simp: proceed_def)
  next
    case 5
    have "w' = proceed 0 (report_prog cfg el f 5) w"
      using a t unfolding M_Reporting 5 bench_main_state.simps report_steps by (simp add: act_simps)
    then show ?thesis using M_Reporting 5 i x lines by (intro moved [where mp' = "M_Reporting el f 5"] upd) (auto simp: proceed_def)
  next
    case 6
    have "w' = w\<lparr>ts := (ts w)[0 := Finished (if f then EXIT_FAILURE else EXIT_SUCCESS)], exit_code := Some (if f then EXIT_FAILURE else EXIT_SUCCESS)\<rparr>"
      using a t unfolding M_Reporting 6 bench_main_state.simps report_steps by (simp add: act_simps)
    then show ?thesis using M_Reporting 6 i x lines by (intro moved [where mp' = "M_Exited (\<not> f)"] upd) (auto simp: report_takes)
  qed
qed

lemma bench_main_goes:
  assumes c: "bench_at m cfg mp ps cs w" and a: "act 0 (ts w ! 0) w w'" and some: "0 < unat (threads cfg)" "unat (threads cfg) \<le> 64"
  shows "bench_goes m cfg mp ps cs w w'"
proof -
  note W = bench_workers [OF c]
  have t: "ts w ! 0 = bench_main_state m cfg mp" and k: "bench_ok (unat (threads cfg)) ps mp" and x: "exit_code w = bench_exit mp"
    using bench_main_at [OF c] by simp_all
  have l: "length (ts w) = Suc (length ps)" "length cs = length ps" "length ps \<le> unat (threads cfg)" using bench_lengths [OF c] by simp_all
  note upd = bench_main_update [OF c] and moved = main_moved
  have lines: "bench_lines cfg mp (printed w 0)" if "bench_quiet m cfg mp ps cs w" using that by (simp add: bench_quiet_def)
  show ?thesis
  proof (cases mp)
    case (M_Setting i)
    show ?thesis by (rule setting_goes [OF c a some M_Setting])
  next
    case (M_Creating i)
    show ?thesis by (rule creating_goes [OF c a M_Creating])
  next
    case M_Timing
    then obtain t' where w': "w' = proceed 0 (Barrier_Wait start_barrier (bench_started cfg [1..<Suc (unat (threads cfg))] t')) w"
      using a t by (auto simp: bench_timed_eq act_simps simp del: upt_Suc)
    have "bench_at m cfg (M_Arriving t') ps cs w'" using w' k x M_Timing by (intro upd) (simp_all add: proceed_def del: upt_Suc)
    then show ?thesis by (rule moved) (use w' lines M_Timing in \<open>simp_all add: proceed_def\<close>)
  next
    case (M_Arriving t')
    show ?thesis unfolding M_Arriving by (rule main_arrives [OF c [unfolded M_Arriving] a some(1)], rule bench_goesI)
  next
    case (M_Barrier t')
    with a t show ?thesis by (simp add: act_simps)
  next
    case (M_Joining t' j f)
    show ?thesis by (rule joining_goes [OF c a M_Joining])
  next
    case (M_Reporting el f i)
    show ?thesis by (rule reporting_goes [OF c a M_Reporting])
  next
    case M_Aborting
    then have "w' = proceed 0 (Done EXIT_FAILURE) w" using a t by (simp add: act_simps)
    then show ?thesis using M_Aborting k x lines by (intro moved [where mp' = M_Failing] upd) (auto simp: proceed_def)
  next
    case M_Failing
    then have "w' = w\<lparr>ts := (ts w)[0 := Finished EXIT_FAILURE], exit_code := Some EXIT_FAILURE\<rparr>" using a t by (simp add: act_simps)
    then show ?thesis using M_Failing k x lines by (intro moved [where mp' = "M_Exited False"] upd) auto
  next
    case (M_Exited b)
    with a t show ?thesis by (auto simp: act_simps)
  qed
qed

end
