(* ===== verification/Benchmark_Ends.thy ===== *)
theory Benchmark_Ends
  imports Benchmark_Steps
begin

text \<open>
  How the runs of the benchmark end: the invariant holds throughout, whatever fails, and a run
  without failures never halts before it has printed its report and passed.
\<close>

text \<open>The main thread gives up.\<close>

lemma bench_fails:
  assumes c: "bench_at m cfg mp ps cs w" and "ts w' = (ts w)[0 := Running (Done EXIT_FAILURE)]" "owner w' = owner w" "vars w' = vars w"
    "mutex_type w' = mutex_type w" "exit_code w' = None" "barrier_count w' = barrier_count w"
  shows "\<exists>mp'. bench_at m cfg mp' ps cs w'"
  by (rule exI, rule bench_main_update [OF c, where mp' = M_Failing]) (simp_all add: assms)

lemma bench_complains:
  assumes "bench_at m cfg mp ps cs w" and "w' = proceed 0 (Complain line (Done EXIT_FAILURE)) w" and "exit_code w = None"
  shows "\<exists>mp'. bench_at m cfg mp' ps cs w'"
  using assms(2,3) by (intro bench_fails [OF assms(1)]) (simp_all add: proceed_def)

text \<open>A failing call of the main thread, by the point it has reached.\<close>

lemma setting_faults:
  assumes c: "bench_at m cfg mp ps cs w" and a: "fault 0 (ts w ! 0) w w'" and M_Setting: "mp = M_Setting i"
  shows "\<exists>mp'. bench_at m cfg mp' ps cs w'"
proof -
  have t: "ts w ! 0 = bench_main_state m cfg mp" and k: "bench_ok (unat (threads cfg)) ps mp" and x: "exit_code w = bench_exit mp"
    using bench_main_at [OF c] by simp_all
  have "i \<le> 3" "ps = []" using k M_Setting by simp_all
  then consider "i = 0" | "i = 1" | "i = 2" | "i = 3" by linarith
  then show ?thesis
  proof cases
    case 3
    then show ?thesis using a t M_Setting x by (intro bench_complains [OF c, where line = "''pthread_barrier_init''"]) (auto simp: setting_steps elim!: fault_cases)
  next
    case 4
    then have "w' = proceed 0 (Complain ''calloc'' (Call ''pthread_barrier_destroy'' (\<lambda>_. Done EXIT_FAILURE))) w"
      using a t M_Setting by (auto simp: setting_steps elim!: fault_cases)
    then show ?thesis using M_Setting x \<open>ps = []\<close> by (intro exI [of _ M_Aborting] bench_main_update [OF c]) (simp_all add: proceed_def)
  qed (use a t M_Setting in \<open>auto simp: setting_steps setting_steps(2) [unfolded One_nat_def] elim!: fault_cases\<close>)
qed

lemma joining_faults:
  assumes c: "bench_at m cfg mp ps cs w" and a: "fault 0 (ts w ! 0) w w'" and M_Joining: "mp = M_Joining t' j f"
  shows "\<exists>mp'. bench_at m cfg mp' ps cs w'"
proof -
  have t: "ts w ! 0 = bench_main_state m cfg mp" and k: "bench_ok (unat (threads cfg)) ps mp" and x: "exit_code w = bench_exit mp"
    using bench_main_at [OF c] by simp_all
  have j: "j \<le> unat (threads cfg)" "length ps = unat (threads cfg)" "list_all past_start ps" using k M_Joining by simp_all
  show ?thesis
  proof (cases "j = unat (threads cfg)")
    case True
    show ?thesis using a t unfolding M_Joining True by (auto simp: bench_elapsed_def elim!: fault_cases)
  next
    case False
    with j have lt: "j < unat (threads cfg)" by simp
    have w': "w' = proceed 0 (bench_join [Suc (Suc j)..<Suc (unat (threads cfg))] True (bench_elapsed cfg t')) w"
      using a t unfolding M_Joining bench_main_state.simps joining_step [OF lt] by (auto elim!: fault_cases simp del: upt_Suc)
    show ?thesis using lt j x M_Joining
      by (intro exI [of _ "M_Joining t' (Suc j) True"] bench_main_update [OF c]) (simp_all add: w' proceed_def settle_join del: upt_Suc)
  qed
qed

lemma reporting_faults:
  assumes c: "bench_at m cfg mp ps cs w" and a: "fault 0 (ts w ! 0) w w'" and M_Reporting: "mp = M_Reporting el f i"
  shows "\<exists>mp'. bench_at m cfg mp' ps cs w'"
proof -
  have t: "ts w ! 0 = bench_main_state m cfg mp" and k: "bench_ok (unat (threads cfg)) ps mp" and x: "exit_code w = bench_exit mp"
    using bench_main_at [OF c] by simp_all
  have i: "i \<le> 5" "\<not> f \<longrightarrow> all_ended (unat (threads cfg)) ps" "list_all past_start ps" using k M_Reporting by simp_all
  then consider "i = 0" | "i = 1" | "i = 2" | "i = 3" | "i = 4" | "i = 5" by linarith
  then show ?thesis
  proof cases
    case 4
    have "w' = proceed 0 (report_prog cfg el f 4) w"
      using a t unfolding M_Reporting 4 bench_main_state.simps report_steps by (auto elim!: fault_cases)
    then show ?thesis using M_Reporting i x by (intro exI [of _ "M_Reporting el f 4"] bench_main_update [OF c]) (simp_all add: proceed_def)
  next
    case 5
    have "w' = proceed 0 (report_prog cfg el f 5) w"
      using a t unfolding M_Reporting 5 bench_main_state.simps report_steps by (auto elim!: fault_cases)
    then show ?thesis using M_Reporting i x by (intro exI [of _ "M_Reporting el f 5"] bench_main_update [OF c]) (simp_all add: proceed_def)
  qed (use a t M_Reporting in \<open>auto simp: report_steps report_one [unfolded One_nat_def] elim!: fault_cases\<close>)
qed

lemma bench_main_faults:
  assumes c: "bench_at m cfg mp ps cs w" and a: "fault 0 (ts w ! 0) w w'" and some: "0 < unat (threads cfg)"
  shows "\<exists>mp'. bench_at m cfg mp' ps cs w'"
proof -
  have t: "ts w ! 0 = bench_main_state m cfg mp" and k: "bench_ok (unat (threads cfg)) ps mp" and x: "exit_code w = bench_exit mp"
    using bench_main_at [OF c] by simp_all
  show ?thesis
  proof (cases mp)
    case (M_Setting i)
    then show ?thesis by (rule setting_faults [OF c a])
  next
    case (M_Creating i)
    then have i: "i < unat (threads cfg)" using k by simp
    obtain r h where "r \<noteq> 0" and "w' = proceed 0 (bench_failed r) w"
      using a t unfolding M_Creating bench_main_state.simps creating_step [OF i] by (auto elim!: fault_cases)
    then show ?thesis using x M_Creating unfolding bench_failed_def by (intro bench_complains [OF c]) auto
  next
    case (M_Arriving t')
    then obtain r where "r \<noteq> 0" "r \<noteq> PTHREAD_BARRIER_SERIAL_THREAD" and "w' = proceed 0 (bench_started cfg [1..<Suc (unat (threads cfg))] t' r) w"
      using a t by (auto elim!: fault_cases simp del: upt_Suc)
    then show ?thesis using x M_Arriving unfolding bench_started_def by (intro bench_complains [OF c]) (auto simp del: upt_Suc)
  next
    case (M_Joining t' j f)
    then show ?thesis by (rule joining_faults [OF c a])
  next
    case (M_Reporting el f i)
    then show ?thesis by (rule reporting_faults [OF c a])
  next
    case M_Aborting
    then show ?thesis using a t x by (intro bench_fails [OF c]) (auto elim!: fault_cases simp: proceed_def)
  qed (use a t in \<open>auto simp: bench_timed_eq elim!: fault_cases simp del: upt_Suc\<close>)
qed

definition bench_typed :: "uintptr \<Rightarrow> bench_config \<Rightarrow> process \<Rightarrow> bool" where
  "bench_typed m cfg w \<longleftrightarrow> (\<exists>mp ps cs. bench_at m cfg mp ps cs w)"

definition bench_clean :: "uintptr \<Rightarrow> bench_config \<Rightarrow> process \<Rightarrow> bool" where
  "bench_clean m cfg w \<longleftrightarrow> (\<exists>mp ps cs. bench_at m cfg mp ps cs w \<and> bench_quiet m cfg mp ps cs w)"

lemma bench_step:
  assumes c: "bench_at m cfg mp ps cs w" and s: "step w w'" and some: "0 < unat (threads cfg)" "unat (threads cfg) \<le> 64"
  shows "bench_goes m cfg mp ps cs w w'"
proof -
  from s obtain i where i: "i < length (ts w)" "act i (ts w ! i) w w'" by (auto simp: step_def)
  from i(1) bench_lengths [OF c] have "i < Suc (length ps)" by simp
  then show ?thesis
  proof (cases rule: thread_index)
    case 1
    then show ?thesis using bench_main_goes [OF c _ some] i(2) by simp
  next
    case (2 j)
    show ?thesis
    proof (cases "ps ! j = B_Fresh")
      case True
      show ?thesis by (rule worker_arrives [OF c 2(2) i(2) [unfolded 2(1)] True], rule bench_goesI)
    next
      case False
      show ?thesis by (rule worker_calls [OF c 2(2) i(2) [unfolded 2(1)] False], rule bench_goesI)
    qed
  qed
qed

lemma bench_fault_step:
  assumes c: "bench_at m cfg mp ps cs w" and s: "fault_step w w'" and some: "0 < unat (threads cfg)"
  shows "bench_typed m cfg w'"
proof -
  from s obtain i where i: "i < length (ts w)" "fault i (ts w ! i) w w'" by (auto simp: fault_step_def)
  from i(1) bench_lengths [OF c] have "i < Suc (length ps)" by simp
  then show ?thesis
  proof (cases rule: thread_index)
    case 1
    then show ?thesis using bench_main_faults [OF c _ some] i(2) unfolding bench_typed_def by metis
  next
    case (2 j)
    show ?thesis unfolding bench_typed_def by (rule bench_worker_faults [OF c 2(2) i(2) [unfolded 2(1)]]) blast
  qed
qed

lemma bench_boot: "bench_clean m cfg (boot (bench_run m cfg))"
proof -
  have "bench_at m cfg (M_Setting 0) [] [] (boot (bench_run m cfg))"
    unfolding bench_at_def by (simp add: boot_def bench_run_eq bench.workers_start)
  moreover have "bench_quiet m cfg (M_Setting 0) [] [] (boot (bench_run m cfg))"
    by (simp add: boot_def bench_quiet_def bench_run_eq)
  ultimately show ?thesis unfolding bench_clean_def by blast
qed

lemma bench_runs_typed:
  assumes "runs_with_faults (bench_run m cfg) w" and "0 < unat (threads cfg)" and "unat (threads cfg) \<le> 64"
  shows "bench_typed m cfg w"
  using assms(1)
proof (induction rule: runs_with_faults.induct)
  case faulty_boot
  then show ?case using bench_boot unfolding bench_clean_def bench_typed_def by blast
next
  case (faulty_step w w')
  then show ?case using bench_step [OF _ _ assms(2,3)] unfolding bench_typed_def bench_goes_def by blast
next
  case (faulty_fault w w')
  then show ?case using bench_fault_step [OF _ _ assms(2)] unfolding bench_typed_def by blast
qed

lemma bench_runs_clean:
  assumes "runs (bench_run m cfg) w" and "0 < unat (threads cfg)" and "unat (threads cfg) \<le> 64"
  shows "bench_clean m cfg w"
  using assms(1)
proof (induction rule: runs.induct)
  case runs_boot
  then show ?case by (rule bench_boot)
next
  case (runs_step w w')
  then show ?case using bench_step [OF _ _ assms(2,3)] unfolding bench_clean_def bench_goes_def by blast
qed

section \<open>A run without failures goes on\<close>

lemma bench_worker_can:
  assumes c: "bench_at m cfg mp ps cs w" and i: "i < length ps" and u: "bench_unbroken (ps ! i)" and e: "ps ! i \<noteq> B_Ended" "ps ! i \<noteq> B_Barrier"
    and o: "owner w m = None \<or> owner w m = Some (Suc i)" and b: "Suc (waiting start_barrier w) \<le> barrier_count w start_barrier"
  shows "\<exists>w'. act (Suc i) (ts w ! Suc i) w w'"
proof -
  note t = bench.workers_nth(1) [OF bench_workers [OF c] i] and own = bench.workers_nth(3) [OF bench_workers [OF c] i]
  have l: "Suc i < length (ts w)" using i bench_lengths [OF c] by simp
  show ?thesis
  proof (cases "ps ! i")
    case B_Fresh
    show ?thesis
    proof (cases "Suc (waiting start_barrier w) < barrier_count w start_barrier")
      case True
      then show ?thesis unfolding t by (simp add: B_Fresh worker_main_eq act_barrier)
    next
      case False
      then show ?thesis using b l unfolding t by (auto simp: B_Fresh worker_main_eq act_barrier intro!: exI [of _ "Suc i"])
    qed
  next
    case (B_Outside r s)
    then show ?thesis unfolding t by (cases r) (auto simp: act_simps)
  qed (use t own o u e in \<open>auto simp: act_simps bench_section_def\<close>)
qed

lemma clock_can: "\<exists>w'. act i (Running (Clock k)) w w'"
  by (auto simp: act_simps)

lemma bench_joining_can:
  assumes c: "bench_at m cfg (M_Joining t j f) ps cs w" and q: "bench_quiet m cfg (M_Joining t j f) ps cs w"
  shows "\<exists>w'. step w w'"
proof -
  note W = bench_workers [OF c]
  have l: "length (ts w) = Suc (length ps)" and x: "exit_code w = None" using bench_lengths [OF c] bench_main_at [OF c] by simp_all
  have j: "j \<le> unat (threads cfg)" "length ps = unat (threads cfg)" "list_all past_start ps"
    and t: "ts w ! 0 = Running (bench_join [Suc j..<Suc (unat (threads cfg))] f (bench_elapsed cfg t))" using bench_main_at [OF c] by simp_all
  have main: ?thesis if "act 0 (ts w ! 0) w w'" for w' using that x l by (auto simp: step_def)
  show ?thesis
  proof (cases "j = unat (threads cfg)")
    case True
    then show ?thesis using main t clock_can [of 0 _ w] by (simp add: bench_elapsed_def) metis
  next
    case False
    then have lt: "j < unat (threads cfg)" using j by simp
    show ?thesis
    proof (cases "ps ! j = B_Ended")
      case True
      then have "ts w ! Suc j = Finished 0" using bench.workers_nth(1) [OF W, of j] j lt by simp
      then show ?thesis using main t l j lt unfolding joining_step [OF lt] by (simp add: act_simps)
    next
      case False
      have "j < length ps" using lt j by simp
      from bench.some_worker_free [OF W this] False bench_holds.simps(10)
      obtain i where i: "i < length ps" "ps ! i \<noteq> B_Ended" "owner w m = None \<or> owner w m = Some (Suc i)" by metis
      have "waiting start_barrier w = 0"
      proof -
        have "\<not> (ps ! i = B_Barrier)" if "i < length ps" for i using j(3) that by (auto simp: list_all_length past_start_def)
        then have "filter (\<lambda>p. p = B_Barrier) ps = []" by (auto simp: filter_empty_conv in_set_conv_nth)
        then show ?thesis using bench_waiting [OF c] by (simp add: count_if_def)
      qed
      moreover have "barrier_count w start_barrier = Suc (unat (threads cfg))" using c lt j by (auto simp: bench_at_def)
      moreover have "ps ! i \<noteq> B_Barrier" using j(3) i(1) by (auto simp: list_all_length past_start_def)
      ultimately obtain w' where "act (Suc i) (ts w ! Suc i) w w'"
        using bench_worker_can [OF c i(1) _ i(2) _ i(3)] quiet_events [OF q i(1)] by auto
      then show ?thesis using x l i by (auto simp: step_def)
    qed
  qed
qed

lemma bench_waiting_can:
  assumes c: "bench_at m cfg (M_Barrier t) ps cs w" and q: "bench_quiet m cfg (M_Barrier t) ps cs w"
  shows "\<exists>w'. step w w'"
proof -
  note W = bench_workers [OF c]
  have l: "length (ts w) = Suc (length ps)" and x: "exit_code w = None" using bench_lengths [OF c] bench_main_at [OF c] by simp_all
  have T: "length ps = unat (threads cfg)" "list_all before_start ps" "\<not> list_all (\<lambda>p. p = B_Barrier) ps" using bench_main_at [OF c] by simp_all
  then obtain i where i: "i < length ps" "ps ! i \<noteq> B_Barrier" by (auto simp: list_all_length)
  have "bench_unbroken (ps ! i)" "before_start (ps ! i)" using quiet_events [OF q i(1)] T(2) i(1) by (simp_all add: list_all_length)
  then have f: "ps ! i = B_Fresh" using i(2) by (cases "ps ! i") auto
  have "owner w m = None"
  proof (cases "owner w m")
    case (Some y)
    then obtain j where j: "j < length ps" "bench_holds (ps ! j)" using bench.owner_worker [OF W] by blast
    then show ?thesis using T(2) quiet_events [OF q j(1)] by (cases "ps ! j") (auto simp: list_all_length)
  qed simp
  moreover have "count_if (\<lambda>p. p = B_Barrier) ps < length ps"
    using T(3) count_if_all [of "\<lambda>p. p = B_Barrier" ps] count_if_length [of "\<lambda>p. p = B_Barrier" ps] by linarith
  moreover have "barrier_count w start_barrier = Suc (unat (threads cfg))" using c i by (auto simp: bench_at_def)
  ultimately obtain w' where "act (Suc i) (ts w ! Suc i) w w'"
    using bench_worker_can [OF c i(1), unfolded f] f bench_waiting [OF c] T(1) by auto
  then show ?thesis using x l i by (auto simp: step_def)
qed

lemma bench_goes_on:
  assumes c: "bench_at m cfg mp ps cs w" and q: "bench_quiet m cfg mp ps cs w" and x: "exit_code w = None" and some: "0 < unat (threads cfg)"
  shows "\<exists>w'. step w w'"
proof -
  have t: "ts w ! 0 = bench_main_state m cfg mp" and k: "bench_ok (unat (threads cfg)) ps mp" and e: "exit_code w = bench_exit mp"
    using bench_main_at [OF c] by simp_all
  have l: "length (ts w) = Suc (length ps)" using bench_lengths [OF c] by simp
  have main: ?thesis if "act 0 (ts w ! 0) w w'" for w' using that x l by (auto simp: step_def)
  show ?thesis
  proof (cases mp)
    case (M_Setting i)
    then consider "i = 0" | "i = 1" | "i = 2" | "i = 3" using k by force
    then show ?thesis
    proof cases
      case 2
      then show ?thesis using main t M_Setting by (simp add: setting_steps(2) [unfolded One_nat_def] act_simps)
    qed (use main t M_Setting in \<open>simp_all add: setting_steps act_simps\<close>)
  next
    case (M_Creating i)
    then have i: "i < unat (threads cfg)" using k by simp
    show ?thesis using main t unfolding M_Creating bench_main_state.simps creating_step [OF i] by (simp add: act_simps)
  next
    case M_Timing
    then show ?thesis using main t clock_can [of 0 _ w] by (simp add: bench_timed_eq del: upt_Suc) metis
  next
    case (M_Arriving t')
    have T: "length ps = unat (threads cfg)" using k M_Arriving by simp
    have "barrier_count w start_barrier = Suc (unat (threads cfg))" using c T some by (auto simp: bench_at_def)
    then have "Suc (waiting start_barrier w) < barrier_count w start_barrier \<or> Suc (waiting start_barrier w) = barrier_count w start_barrier"
      using bench_waiting [OF c] count_if_length [of "\<lambda>p. p = B_Barrier" ps] T M_Arriving by auto
    then have "\<exists>w'. act 0 (ts w ! 0) w w'" using l unfolding t M_Arriving by (auto simp: act_barrier simp del: upt_Suc intro!: exI [of _ 0])
    then show ?thesis using main by blast
  next
    case (M_Barrier t')
    show ?thesis by (rule bench_waiting_can [OF c [unfolded M_Barrier] q [unfolded M_Barrier]])
  next
    case (M_Joining t' j f)
    show ?thesis by (rule bench_joining_can [OF c [unfolded M_Joining] q [unfolded M_Joining]])
  next
    case (M_Reporting el f i)
    then have "i \<le> 5" using k by simp
    then consider "i = 0" | "i = 1" | "i = 2" | "i = 3" | "i = 4" | "i = 5" by linarith
    then show ?thesis
      by cases (use main t M_Reporting in \<open>simp_all add: report_steps report_one [unfolded One_nat_def] act_simps\<close>)
  qed (use main t e x in \<open>simp_all add: act_simps\<close>)
qed

section \<open>Outcomes\<close>

definition bench_outcome :: "uintptr \<Rightarrow> bench_config \<Rightarrow> process \<Rightarrow> bool" where
  "bench_outcome m cfg w \<longleftrightarrow> exit_code w = Some EXIT_SUCCESS \<and> vars w shared_counter = expected_ops cfg \<and>
     (\<exists>elapsed_ns. printed w 0 = report_lines cfg elapsed_ns) \<and> length (ts w) = Suc (unat (threads cfg)) \<and>
     (\<forall>i. 0 < i \<and> i \<le> unat (threads cfg) \<longrightarrow> events w i = phase_events m (unat (iterations cfg)) Ended)"

lemma bench_terminal:
  assumes "runs (bench_run m cfg) w" and some: "0 < unat (threads cfg)" "unat (threads cfg) \<le> 64"
  shows "if stuck w then bench_outcome m cfg w else exit_code w = None"
proof (cases "stuck w")
  case True
  from bench_runs_clean [OF assms] obtain mp ps cs where c: "bench_at m cfg mp ps cs w" and q: "bench_quiet m cfg mp ps cs w"
    by (auto simp: bench_clean_def)
  have "exit_code w \<noteq> None" using True bench_goes_on [OF c q _ some(1)] by (auto simp: stuck_def)
  moreover have m: "exit_code w = bench_exit mp" "bench_ok (unat (threads cfg)) ps mp" using bench_main_at [OF c] by simp_all
  ultimately obtain b where mp: "mp = M_Exited b" by (cases mp) auto
  have b and lines: "\<exists>el. printed w 0 = report_lines cfg el" using q by (auto simp: mp bench_quiet_def)
  then have e: "all_ended (unat (threads cfg)) ps" using m by (simp add: mp)
  then have T: "length ps = unat (threads cfg)" by (simp add: all_ended_def)
  have "events w i = phase_events m (unat (iterations cfg)) Ended" if i: "0 < i \<and> i \<le> unat (threads cfg)" for i
  proof -
    obtain j where j: "i = Suc j" "j < length ps" using i T by (cases i) auto
    have p: "ps ! j = B_Ended" using e j by (simp add: all_ended_def list_all_length)
    then have "cs ! j = unat (iterations cfg)" using bench.workers_nth(2) [OF bench_workers [OF c] j(2)] by simp
    then show ?thesis using quiet_events [OF q j(2)] p j by simp
  qed
  then show ?thesis
    using True m \<open>b\<close> lines bench_all_ended [OF c e] bench_lengths [OF c] T by (simp add: bench_outcome_def mp del: phase_events.simps)
qed (auto simp: stuck_def step_def)

lemma bench_silent: "silent (bench_run m cfg)"
proof -
  have says: "silent (foldr Say ls p) \<longleftrightarrow> silent p" for ls p by (induction ls) simp_all
  have report: "silent (bench_report cfg el f)" for el f by (simp add: bench_report_def bench_cleanup_def says Let_def)
  have join: "silent (bench_join hs f k)" if "\<And>f. silent (k f)" for hs f k using that by (induction hs arbitrary: f) simp_all
  have timed: "silent (bench_timed cfg hs)" for hs unfolding bench_timed_def by (simp add: join report)
  have "silent (create_workers n body hs fl cr)" if "\<And>rc. silent (fl rc)" "\<And>hs. silent (cr hs)" for n body hs fl cr
    using that by (induction n arbitrary: hs) simp_all
  then show ?thesis unfolding bench_run_def using timed by simp
qed

section \<open>Under failures\<close>

lemma bench_critical_holds:
  assumes "in_critical (bench_state m cfg v p)"
  shows "bench_holds p"
proof (cases p)
  case (B_Outside r s)
  with assms show ?thesis by (cases r) simp_all
qed (use assms in \<open>auto simp: worker_main_eq\<close>)

lemma bench_exclusive:
  assumes c: "bench_at m cfg mp ps cs w" and i: "0 < i" "i < length (ts w)" "in_critical (ts w ! i)"
    and j: "0 < j" "j < length (ts w)" "in_critical (ts w ! j)"
  shows "i = j"
proof -
  obtain i' j' where ij: "i = Suc i'" "i' < length ps" "j = Suc j'" "j' < length ps"
    using i j bench_lengths [OF c] by (cases i; cases j) auto
  then have "bench_holds (ps ! i')" "bench_holds (ps ! j')"
    using i(3) j(3) bench.workers_nth(1) [OF bench_workers [OF c]] bench_critical_holds by metis+
  then show ?thesis using bench.holder_unique [OF bench_workers [OF c] ij(2) _ ij(4)] ij by simp
qed

lemma bench_success:
  assumes c: "bench_at m cfg mp ps cs w" and x: "exit_code w = Some EXIT_SUCCESS"
  shows "length (ts w) = Suc (unat (threads cfg)) \<and> vars w shared_counter = expected_ops cfg \<and>
    (\<forall>i. 0 < i \<and> i \<le> unat (threads cfg) \<longrightarrow> ts w ! i = Finished 0)"
proof -
  have m: "exit_code w = bench_exit mp" "bench_ok (unat (threads cfg)) ps mp" using bench_main_at [OF c] by simp_all
  then have e: "all_ended (unat (threads cfg)) ps" using x by (cases mp) (auto split: if_splits)
  then have T: "length ps = unat (threads cfg)" by (simp add: all_ended_def)
  have "ts w ! i = Finished 0" if i: "0 < i \<and> i \<le> unat (threads cfg)" for i
  proof -
    obtain j where j: "i = Suc j" "j < length ps" using i T by (cases i) auto
    have "ps ! j = B_Ended" using e j by (simp add: all_ended_def list_all_length)
    then show ?thesis using bench.workers_nth(1) [OF bench_workers [OF c] j(2)] j by simp
  qed
  then show ?thesis using bench_all_ended [OF c e] bench_lengths [OF c] T by simp
qed

section \<open>Streams\<close>

lemma bench_streams:
  assumes "terminal (bench_run m cfg) w" and some: "0 < unat (threads cfg)" "unat (threads cfg) \<le> 64" and it: "0 < unat (iterations cfg)"
  shows "streams tid w = map (\<lambda>i. (tid i, phase_events m (unat (iterations cfg)) Ended)) [1..<Suc (unat (threads cfg))]"
proof -
  have w: "bench_outcome m cfg w" using bench_terminal [OF _ some] assms(1) by (simp add: terminal_def)
  have l: "[0..<Suc (unat (threads cfg))] = 0 # [1..<Suc (unat (threads cfg))]" by (simp add: upt_rec del: upt_Suc)
  have e: "events w 0 = []" "\<forall>i. 0 < i \<and> i \<le> unat (threads cfg) \<longrightarrow> events w i = phase_events m (unat (iterations cfg)) Ended"
    using w silent_terminal [OF assms(1) bench_silent] by (simp_all add: bench_outcome_def)
  have "filter (\<lambda>i. events w i \<noteq> []) (0 # [1..<Suc (unat (threads cfg))]) = [1..<Suc (unat (threads cfg))]"
    using e it by (auto intro!: filter_True)
  moreover have "length (ts w) = Suc (unat (threads cfg))" using w by (simp add: bench_outcome_def)
  moreover have "map (\<lambda>i. (tid i, events w i)) [1..<Suc (unat (threads cfg))] =
      map (\<lambda>i. (tid i, phase_events m (unat (iterations cfg)) Ended)) [1..<Suc (unat (threads cfg))]"
    using e by (intro map_cong) auto
  ultimately show ?thesis unfolding streams_def using l by (simp del: upt_Suc phase_events.simps)
qed

end
