(* ===== verification/Target_One_Worker.thy ===== *)
theory Target_One_Worker
  imports Pthread_Runs Targets
begin

text \<open>
  How every run of the targets with one worker ends, by symbolic execution: there is one
  schedule only, because the main thread waits for the worker.
\<close>

datatype scenario = Self_Deadlock | Held_At_Exit | Hold_Time

primrec scenario_main :: "scenario \<Rightarrow> uintptr \<Rightarrow> prog" where
  "scenario_main Self_Deadlock = self_deadlock_main"
| "scenario_main Held_At_Exit = held_at_exit_main"
| "scenario_main Hold_Time = hold_time_main"

text \<open>The events of the worker, and the lines it prints.\<close>

primrec scenario_events :: "scenario \<Rightarrow> uintptr \<Rightarrow> call_event list" where
  "scenario_events Self_Deadlock m = [(MONITOR_EVENT_THREAD_START, 0, 0), (MONITOR_EVENT_LOCK_REQUEST, m, 0),
     (MONITOR_EVENT_LOCK_ACQUIRED, m, 0), (MONITOR_EVENT_LOCK_REQUEST, m, 0), (MONITOR_EVENT_LOCK_FAILED, m, EDEADLK),
     (MONITOR_EVENT_UNLOCKED, m, 0), (MONITOR_EVENT_THREAD_EXIT, 0, 0)]"
| "scenario_events Held_At_Exit m = [(MONITOR_EVENT_THREAD_START, 0, 0), (MONITOR_EVENT_LOCK_REQUEST, m, 0),
     (MONITOR_EVENT_LOCK_ACQUIRED, m, 0), (MONITOR_EVENT_THREAD_EXIT, 0, 0)]"
| "scenario_events Hold_Time m = [(MONITOR_EVENT_THREAD_START, 0, 0), (MONITOR_EVENT_LOCK_REQUEST, m, 0),
     (MONITOR_EVENT_LOCK_ACQUIRED, m, 0), (MONITOR_EVENT_UNLOCKED, m, 0), (MONITOR_EVENT_THREAD_EXIT, 0, 0)]"

primrec scenario_lines :: "scenario \<Rightarrow> string list" where
  "scenario_lines Self_Deadlock = [''[WORKER] First mutex lock'', ''[WORKER] First lock acquired'',
     ''[WORKER] Requesting same mutex again'', ''[WORKER] Second lock returned 35'',
     ''[PASS] ERRORCHECK mutex rejected self-lock with EDEADLK'']"
| "scenario_lines Held_At_Exit = [''[WORKER] Locking mutex'', ''[WORKER] Mutex acquired'', ''[WORKER] Exiting without unlocking'']"
| "scenario_lines Hold_Time = [''[WORKER] Locking mutex'', ''[WORKER] Holding mutex for approximately 200 ms'', ''[WORKER] Unlocking mutex'']"

text \<open>The hold-time worker pauses after its third event, the acquisition.\<close>

primrec scenario_pauses :: "scenario \<Rightarrow> (nat \<times> u64) list" where
  "scenario_pauses Self_Deadlock = []"
| "scenario_pauses Held_At_Exit = []"
| "scenario_pauses Hold_Time = [(3, 200000000)]"

definition scenario_outcome :: "scenario \<Rightarrow> uintptr \<Rightarrow> process \<Rightarrow> bool" where
  "scenario_outcome x m w \<longleftrightarrow> exit_code w = Some EXIT_SUCCESS \<and> length (ts w) = 2 \<and> events w 1 = scenario_events x m \<and>
     printed w 1 = scenario_lines x \<and> pauses w 1 = scenario_pauses x"

lemma fmt_d_35: "fmt_d 35 = ''35''"
  by code_simp

lemma scenario_runs: "inevitable (scenario_outcome x m) (boot (scenario_main x m))"
proof (cases x)
  case Self_Deadlock
  show ?thesis unfolding Self_Deadlock
    apply (simp add: boot_def self_deadlock_main_def self_deadlock_worker_def errorcheck_mutex_def)
    apply (rule inevitable_next, (simp; fail), simp add: run_rules)+
    apply (rule inevitable_exited, simp)
    apply (simp add: scenario_outcome_def fmt_d_35)
    done
next
  case Held_At_Exit
  show ?thesis unfolding Held_At_Exit
    apply (simp add: boot_def held_at_exit_main_def held_at_exit_worker_def)
    apply (rule inevitable_next, (simp; fail), simp add: run_rules)+
    apply (rule inevitable_exited, simp)
    apply (simp add: scenario_outcome_def)
    done
next
  case Hold_Time
  show ?thesis unfolding Hold_Time
    apply (simp add: boot_def hold_time_main_def hold_time_worker_def)
    apply (rule inevitable_next, (simp; fail), simp add: run_rules)+
    apply (rule inevitable_exited, simp)
    apply (simp add: scenario_outcome_def)
    done
qed

lemma scenario_silent: "silent (scenario_main x m)"
  by (cases x) (simp_all add: self_deadlock_main_def held_at_exit_main_def hold_time_main_def errorcheck_mutex_def)

lemma scenario_streams:
  assumes "terminal (scenario_main x m) w"
  shows "streams tid w = [(tid 1, scenario_events x m)]"
proof -
  have "scenario_outcome x m w" using inevitable_terminal [OF scenario_runs assms] .
  moreover have "scenario_events x m \<noteq> []" by (cases x) simp_all
  ultimately show ?thesis using silent_terminal [OF assms scenario_silent] by (simp add: streams_def scenario_outcome_def upt_rec)
qed

end
