(* ===== verification/Target_Circular.thy ===== *)
theory Target_Circular
  imports Pthread_Runs Targets
begin

text \<open>
  How every run of the circular target ends: each thread waits for the mutex of the other
  one.
\<close>

section \<open>The circular target\<close>

definition crossing_script :: "uintptr \<Rightarrow> uintptr \<Rightarrow> call list" where
  "crossing_script x y = [C_Lock x, C_Barrier 0, C_Lock y, C_Unlock y, C_Unlock x]"

text \<open>The six points a crossing thread can reach, with its place and the events it has reported.\<close>

definition crossing_place :: "uintptr \<Rightarrow> uintptr \<Rightarrow> nat \<Rightarrow> place" where
  "crossing_place x y i = (if even i then Before else During) (drop (i div 2) (crossing_script x y))"

lemma crossing_places [simp]:
  "crossing_place x y 0 = Before (crossing_script x y)" "crossing_place x y (Suc 0) = During (crossing_script x y)"
  "crossing_place x y 2 = Before [C_Barrier 0, C_Lock y, C_Unlock y, C_Unlock x]"
  "crossing_place x y 3 = During [C_Barrier 0, C_Lock y, C_Unlock y, C_Unlock x]"
  "crossing_place x y 4 = Before [C_Lock y, C_Unlock y, C_Unlock x]"
  "crossing_place x y 5 = During [C_Lock y, C_Unlock y, C_Unlock x]"
  by (simp_all add: crossing_place_def crossing_script_def)

definition crossing_log :: "uintptr \<Rightarrow> uintptr \<Rightarrow> nat \<Rightarrow> call_event list" where
  "crossing_log x y i = take (if i = 0 then 0 else if i = 1 then 2 else if i < 5 then 3 else 4)
     [(MONITOR_EVENT_THREAD_START, 0, 0), (MONITOR_EVENT_LOCK_REQUEST, x, 0), (MONITOR_EVENT_LOCK_ACQUIRED, x, 0), (MONITOR_EVENT_LOCK_REQUEST, y, 0)]"

definition crossing :: "uintptr \<Rightarrow> uintptr \<Rightarrow> nat \<Rightarrow> nat \<Rightarrow> process \<Rightarrow> bool" where
  "crossing x y i n w \<longleftrightarrow> i < 6 \<and> n < length (ts w) \<and> located (crossing_place x y i) (ts w ! n) \<and> events w n = crossing_log x y i \<and>
     owner w x = (if 2 \<le> i then Some n else None)"

lemma less6: "(i :: nat) < 6 \<longleftrightarrow> i = 0 \<or> i = 1 \<or> i = 2 \<or> i = 3 \<or> i = 4 \<or> i = 5"
  by auto

lemma crossing_keeps:
  "crossing x y i n w \<Longrightarrow> keeps m w w' \<Longrightarrow> m \<noteq> n \<Longrightarrow> owner w' x = owner w x \<Longrightarrow> crossing x y i n w'"
  by (simp add: crossing_def keeps_def)

lemma crossing_step:
  assumes c: "crossing x y i n w" and a: "act n (ts w ! n) w w'" and "mutex_type w = (\<lambda>_. PTHREAD_MUTEX_NORMAL)" and "x \<noteq> y"
    and "i = 0 \<or> i = 1 \<or> i = 4"
  shows "crossing x y (Suc i) n w' \<and> keeps n w w' \<and> owner w' y = owner w y"
proof -
  have n: "n < length (ts w)" using c by (simp add: crossing_def)
  consider "i = 0" | "i = 1" | "i = 4" using assms(5) by blast
  then show ?thesis
  proof cases
    case 1
    then have l: "located (Before (crossing_script x y)) (ts w ! n)" using c by (simp add: crossing_def)
    from move_request [OF a l [unfolded crossing_script_def]] show ?thesis using 1 c moves_keeps moves_here [OF _ n]
      by (fastforce simp: crossing_def crossing_script_def crossing_log_def report_def keeps_def Suc_points)
  next
    case 2
    then have l: "located (During (crossing_script x y)) (ts w ! n)" using c by (simp add: crossing_def)
    from move_acquire [OF a l [unfolded crossing_script_def]] show ?thesis using 2 c assms(3,4) moves_keeps moves_here [OF _ n]
      by (fastforce simp: crossing_def crossing_script_def crossing_log_def report_def keeps_def Suc_points)
  next
    case 3
    then have l: "located (Before [C_Lock y, C_Unlock y, C_Unlock x]) (ts w ! n)" using c by (simp add: crossing_def crossing_script_def)
    from move_request [OF a l] show ?thesis using 3 c moves_keeps moves_here [OF _ n]
      by (fastforce simp: crossing_def crossing_script_def crossing_log_def report_def keeps_def Suc_points)
  qed
qed

lemma crossing_blocked:
  assumes "crossing x y i n w" and "i = 3 \<or> i = 5 \<and> owner w y \<noteq> None \<and> mutex_type w = (\<lambda>_. PTHREAD_MUTEX_NORMAL)"
  shows "\<not> act n (ts w ! n) w w'"
  using assms by (auto simp: crossing_def crossing_script_def act_simps)

lemma crossing_arrive:
  assumes c: "crossing x y 2 n w" and a: "act n (ts w ! n) w w'" and "Suc (waiting 0 w) < barrier_count w 0"
  shows "crossing x y 3 n w' \<and> keeps n w w' \<and> owner w' = owner w"
proof -
  have n: "n < length (ts w)" and l: "located (Before [C_Barrier 0, C_Lock y, C_Unlock y, C_Unlock x]) (ts w ! n)"
    using c by (simp_all add: crossing_def crossing_script_def)
  from move_arrive [OF a l assms(3)] show ?thesis using c moves_keeps moves_here [OF _ n]
    by (fastforce simp: crossing_def crossing_script_def crossing_log_def keeps_def)
qed

lemma crossing_pass:
  assumes c: "crossing x y 2 n w" and d: "crossing y x 3 m w" and "n \<noteq> m" and a: "act n (ts w ! n) w w'"
    and "Suc (waiting 0 w) = barrier_count w 0"
  shows "crossing x y 4 n w'" and "crossing y x 4 m w'" and "owner w' = owner w" and "same_setup w w'"
    and "length (ts w') = length (ts w)" and "j < length (ts w) \<Longrightarrow> j \<noteq> n \<Longrightarrow> \<not> at_barrier 0 (ts w ! j) \<Longrightarrow> ts w' ! j = ts w ! j"
proof -
  have n: "n < length (ts w)" and l: "located (Before [C_Barrier 0, C_Lock y, C_Unlock y, C_Unlock x]) (ts w ! n)"
    and m: "m < length (ts w)" "located (During [C_Barrier 0, C_Lock x, C_Unlock x, C_Unlock y]) (ts w ! m)"
    using c d by (simp_all add: crossing_def crossing_script_def)
  note p = move_pass [OF a l assms(5) n]
  show "owner w' = owner w" "same_setup w w'" "length (ts w') = length (ts w)" by (fact p)+
  show "j < length (ts w) \<Longrightarrow> j \<noteq> n \<Longrightarrow> \<not> at_barrier 0 (ts w ! j) \<Longrightarrow> ts w' ! j = ts w ! j" by (fact p)
  show "crossing x y 4 n w'" using p(2-5) c by (simp add: crossing_def crossing_script_def crossing_log_def)
  show "crossing y x 4 m w'" using p(2-4) p(6) [OF m(1) _ m(2)] d assms(3)
    by (simp add: crossing_def crossing_script_def crossing_log_def)
qed

lemma crossing_at_barrier: "crossing x y i n w \<Longrightarrow> at_barrier b (ts w ! n) \<longleftrightarrow> b = 0 \<and> i = 3"
  unfolding crossing_def less6 by (elim conjE disjE) (auto simp: crossing_script_def)

lemma crossing_not_finished: "crossing x y i n w \<Longrightarrow> ts w ! n \<noteq> Finished r"
  unfolding crossing_def less6 by (elim conjE disjE) (auto simp: crossing_script_def)

text \<open>
  The two threads pass the barrier together, so a thread reaches its second lock only when
  the other one owns the mutex.
\<close>

definition paired :: "nat \<Rightarrow> nat \<Rightarrow> bool" where
  "paired i j \<longleftrightarrow> i \<le> 3 \<and> j \<le> 3 \<and> \<not> (i = 3 \<and> j = 3) \<or> i \<in> {4, 5} \<and> j \<in> {4, 5}"

definition crossing_world :: "process \<Rightarrow> bool" where
  "crossing_world w \<longleftrightarrow> exit_code w = None \<and> barrier_count w 0 = 2 \<and> mutex_type w = (\<lambda>_. PTHREAD_MUTEX_NORMAL)"

definition one_crossing :: "uintptr \<Rightarrow> uintptr \<Rightarrow> process \<Rightarrow> bool" where
  "one_crossing a b w \<longleftrightarrow> crossing_world w \<and> (\<exists>i K k. crossing a b i 1 w \<and> i \<le> 3 \<and> length (ts w) = 2 \<and>
     ts w ! 0 = Running (Create (thread_two a b) K) \<and> snd (settle (K 0 2)) = Join 1 k \<and> owner w b = None \<and> events w 2 = [])"

definition both_crossing :: "uintptr \<Rightarrow> uintptr \<Rightarrow> process \<Rightarrow> bool" where
  "both_crossing a b w \<longleftrightarrow> crossing_world w \<and> (\<exists>i j k. crossing a b i 1 w \<and> crossing b a j 2 w \<and> length (ts w) = 3 \<and>
     ts w ! 0 = Running (Join 1 k) \<and> paired i j)"

lemma crossing_world_keeps: "crossing_world w \<Longrightarrow> same_setup w w' \<Longrightarrow> crossing_world w'"
  by (simp add: crossing_world_def same_setup_def)

lemma thread_two_script: "script (crossing_script b a) (snd (settle (thread_two a b)))"
  by (simp add: thread_two_def crossing_script_def wait_at_barrier_def)

lemma thread_one_script: "script (crossing_script a b) (snd (settle (thread_one a b)))"
  by (simp add: thread_one_def crossing_script_def wait_at_barrier_def)

lemma one_crossing_step:
  assumes I: "one_crossing a b w" and s: "step w w'" and ab: "a \<noteq> b"
  shows "one_crossing a b w' \<or> both_crossing a b w'"
proof -
  from I obtain i K k where w: "crossing_world w" and c: "crossing a b i 1 w" and i: "i \<le> 3" and l: "length (ts w) = 2"
    and m: "ts w ! 0 = Running (Create (thread_two a b) K)" "snd (settle (K 0 2)) = Join 1 k" and b: "owner w b = None" "events w 2 = []"
    by (auto simp: one_crossing_def)
  have n: "mutex_type w = (\<lambda>_. PTHREAD_MUTEX_NORMAL)" "barrier_count w 0 = 2" using w by (simp_all add: crossing_world_def)
  have "act 0 (ts w ! 0) w w' \<or> act 1 (ts w ! 1) w w'" using s l by (auto simp: step_def less_Suc_eq numeral_2_eq_2)
  then show ?thesis
  proof
    assume "act 0 (ts w ! 0) w w'"
    then have w': "w' = proceed 0 (K 0 2) (proceed 2 (thread_two a b) (w\<lparr>ts := ts w @ [Running (thread_two a b)]\<rparr>))"
      by (simp add: m act_simps l)
    have t: "ts w' ! 0 = Running (Join 1 k)" "ts w' ! 1 = ts w ! 1" "ts w' ! 2 = Running (snd (settle (thread_two a b)))" "length (ts w') = 3"
      using l m(2) by (simp_all add: w' proceed_def nth_append)
    have f: "owner w' = owner w" "events w' = events w" "same_setup w w'" by (simp_all add: w' proceed_def same_setup_def)
    have "crossing a b i 1 w'" using c t f by (simp add: crossing_def)
    moreover have "crossing b a 0 2 w'" using t f b thread_two_script [of b a] by (simp add: crossing_def crossing_log_def)
    moreover have "paired i 0" using i by (simp add: paired_def)
    ultimately show ?thesis using t crossing_world_keeps [OF w f(3)] by (auto simp: both_crossing_def)
  next
    assume a1: "act 1 (ts w ! 1) w w'"
    have "i \<noteq> 3" using crossing_blocked [OF c] a1 by auto
    then consider "i = 0 \<or> i = 1" | "i = 2" using i by linarith
    then have "crossing a b (Suc i) 1 w' \<and> keeps 1 w w' \<and> owner w' b = owner w b \<and> Suc i \<le> 3"
    proof cases
      case 1
      then show ?thesis using crossing_step [OF c a1 n(1) ab] by auto
    next
      case 2
      have "waiting 0 w = 0" using waiting2 [OF l] m crossing_at_barrier [OF c] 2 by simp
      then show ?thesis using crossing_arrive [OF c [unfolded 2] a1] n(2) 2 by (simp add: numeral_3_eq_3)
    qed
    then have "one_crossing a b w'"
      using l m b crossing_world_keeps [OF w] 
      by (auto simp: one_crossing_def keeps_def)
    then show ?thesis ..
  qed
qed

text \<open>Both threads run; the crossing of the other one is written with the roles exchanged.\<close>

lemma crossing_pair_step:
  assumes w: "crossing_world w" and c: "crossing x y i n w" and d: "crossing y x j m w" and p: "paired i j" and nm: "n \<noteq> m" "n \<noteq> 0" "m \<noteq> 0"
    and ab: "x \<noteq> y" and l: "length (ts w) = 3" and main: "ts w ! 0 = Running (Join 1 k)" and a: "act n (ts w ! n) w w'"
    and waiting: "waiting 0 w = (if i = 3 then 1 else 0) + (if j = 3 then 1 else 0)"
  shows "\<exists>i j. crossing x y i n w' \<and> crossing y x j m w' \<and> paired i j \<and> same_setup w w' \<and> length (ts w') = 3 \<and> ts w' ! 0 = Running (Join 1 k)"
proof -
  have n: "mutex_type w = (\<lambda>_. PTHREAD_MUTEX_NORMAL)" "barrier_count w 0 = 2" using w by (simp_all add: crossing_world_def)
  have moved: ?thesis if "crossing x y i' n w' \<and> keeps n w w' \<and> owner w' y = owner w y" "paired i' j" for i'
    using that crossing_keeps [OF d] nm l main by (auto simp: keeps_def)
  have six: "i < 6" using c by (simp add: crossing_def)
  have "i \<noteq> 3" using crossing_blocked [OF c] a by auto
  moreover have "i \<noteq> 5"
  proof
    assume "i = 5"
    then have "owner w y = Some m" using p d by (auto simp: paired_def crossing_def)
    then show False using crossing_blocked [OF c] a n \<open>i = 5\<close> by auto
  qed
  ultimately consider "i = 0 \<or> i = 1 \<or> i = 4" | "i = 2" "j \<noteq> 3" | "i = 2" "j = 3" using six unfolding less6 by blast
  then show ?thesis
  proof cases
    case 1
    then have "paired (Suc i) j" using p by (auto simp: paired_def)
    with 1 crossing_step [OF c a n(1) ab] show ?thesis by (intro moved [of "Suc i"]) auto
  next
    case 2
    then have "paired 3 j" using p by (auto simp: paired_def)
    with 2 crossing_arrive [OF c [unfolded 2(1)] a] waiting n show ?thesis by (intro moved [of 3]) auto
  next
    case 3
    have "Suc (waiting 0 w) = barrier_count w 0" using 3 waiting n by simp
    note q = crossing_pass [OF c [unfolded 3(1)] d [unfolded 3(2)] nm(1) a this]
    have "ts w' ! 0 = Running (Join 1 k)" using q(6) [of 0] main nm l by simp
    with q l show ?thesis by (intro exI [of _ 4]) (auto simp: paired_def)
  qed
qed

lemma paired_sym: "paired i j \<longleftrightarrow> paired j i"
  by (auto simp: paired_def)

lemma both_crossing_step:
  assumes I: "both_crossing a b w" and s: "step w w'" and ab: "a \<noteq> b"
  shows "both_crossing a b w'"
proof -
  from I obtain i j k where w: "crossing_world w" and c: "crossing a b i 1 w" and d: "crossing b a j 2 w" and l: "length (ts w) = 3"
    and main: "ts w ! 0 = Running (Join 1 k)" and p: "paired i j" by (auto simp: both_crossing_def)
  have "\<not> act 0 (ts w ! 0) w w'"
    unfolding main using main_blocked [of 1 w] crossing_not_finished [OF c] l by simp
  then have "act 1 (ts w ! 1) w w' \<or> act 2 (ts w ! 2) w w'" using s l by (auto simp: step_def less_Suc_eq numeral_3_eq_3 numeral_2_eq_2)
  moreover have wt: "waiting 0 w = (if i = 3 then 1 else 0) + (if j = 3 then 1 else 0)"
    using waiting3 [OF l] main crossing_at_barrier [OF c] crossing_at_barrier [OF d] by simp
  moreover have wt': "waiting 0 w = (if j = 3 then 1 else 0) + (if i = 3 then 1 else 0)" unfolding wt by simp
  ultimately have "\<exists>i j. crossing a b i 1 w' \<and> crossing b a j 2 w' \<and> paired i j \<and> same_setup w w' \<and> length (ts w') = 3 \<and> ts w' ! 0 = Running (Join 1 k)"
  proof (elim disjE)
    assume "act 1 (ts w ! 1) w w'"
    from crossing_pair_step [OF w c d p _ _ _ ab l main this wt] show ?thesis by simp
  next
    assume "act 2 (ts w ! 2) w w'"
    from crossing_pair_step [OF w d c _ _ _ _ ab [symmetric] l main this wt'] p
    obtain j' i' where "crossing b a j' 2 w'" "crossing a b i' 1 w'" "paired j' i'" "same_setup w w'" "length (ts w') = 3"
      "ts w' ! 0 = Running (Join 1 k)" using paired_sym [of i j] by auto
    then show ?thesis using paired_sym [of i' j'] by blast
  qed
  then show ?thesis using crossing_world_keeps [OF w] by (auto simp: both_crossing_def)
qed

lemma both_crossing_stuck:
  assumes I: "both_crossing a b w" and s: "stuck w"
  shows "crossing a b 5 1 w \<and> crossing b a 5 2 w"
proof -
  from I obtain i j k where w: "crossing_world w" and c: "crossing a b i 1 w" and d: "crossing b a j 2 w" and l: "length (ts w) = 3"
    and main: "ts w ! 0 = Running (Join 1 k)" and p: "paired i j" by (auto simp: both_crossing_def)
  have n: "exit_code w = None" "barrier_count w 0 = 2" using w by (simp_all add: crossing_world_def)
  have still: "\<not> act 1 (ts w ! 1) w w'" "\<not> act 2 (ts w ! 2) w w'" for w'
    using s n(1) l unfolding stuck_def step_def by (metis one_less_numeral_iff semiring_norm(77), metis lessI numeral_3_eq_3 numeral_2_eq_2)
  have wt: "waiting 0 w = (if i = 3 then 1 else 0) + (if j = 3 then 1 else 0)"
    using waiting3 [OF l] main crossing_at_barrier [OF c] crossing_at_barrier [OF d] by simp
  have halted: "h = 3 \<or> h = 5" if c: "crossing x y h m w" and still: "\<And>w'. \<not> act m (ts w ! m) w w'" and wt: "waiting 0 w \<le> 1" for x y h m
  proof (rule ccontr)
    assume "\<not> (h = 3 \<or> h = 5)"
    moreover have "h < 6" using c by (simp add: crossing_def)
    ultimately consider "h = 0" | "h = 1" | "h = 2" | "h = 4" unfolding less6 by blast
    then have "\<exists>w'. act m (ts w ! m) w w'"
    proof cases
      case 1
      with c have l: "located (Before [C_Lock x, C_Barrier 0, C_Lock y, C_Unlock y, C_Unlock x]) (ts w ! m)"
        by (simp add: crossing_def crossing_script_def)
      show ?thesis by (rule can_move(1) [OF l])
    next
      case 2
      with c have l: "located (During [C_Lock x, C_Barrier 0, C_Lock y, C_Unlock y, C_Unlock x]) (ts w ! m)" "owner w x = None"
        by (simp_all add: crossing_def crossing_script_def)
      show ?thesis by (rule can_move(2) [OF l])
    next
      case 3
      with c have l: "located (Before [C_Barrier 0, C_Lock y, C_Unlock y, C_Unlock x]) (ts w ! m)" "m < length (ts w)"
        by (simp_all add: crossing_def)
      from wt consider "Suc (waiting 0 w) < barrier_count w 0" | "Suc (waiting 0 w) = barrier_count w 0" using n by linarith
      then show ?thesis by cases (use l in \<open>blast intro: can_move(5,6)\<close>)+
    next
      case 4
      with c have l: "located (Before [C_Lock y, C_Unlock y, C_Unlock x]) (ts w ! m)" by (simp add: crossing_def)
      show ?thesis by (rule can_move(1) [OF l])
    qed
    with still show False by blast
  qed
  have "waiting 0 w \<le> 1" using p unfolding wt by (auto simp: paired_def)
  with halted [OF c] halted [OF d] still have "i = 3 \<or> i = 5" "j = 3 \<or> j = 5" by blast+
  with p c d show ?thesis by (auto simp: paired_def)
qed

lemma circular_starts:
  assumes "\<And>w. one_crossing a b w \<Longrightarrow> inevitable P w"
  shows "inevitable P (boot (circular_main a b))"
proof -
  let ?K = "\<lambda>rc t2. if rc \<noteq> 0 then Complain (''pthread_create(T2) failed: '' @ fmt_d rc) (Done EXIT_FAILURE)
       else Join (Suc 0) (\<lambda>_ _. Join t2 (\<lambda>_ _. Call ''pthread_barrier_destroy'' (\<lambda>_. Done EXIT_SUCCESS)))"
  show ?thesis
    apply (simp add: boot_def circular_main_def)
    apply (rule inevitable_next, (simp; fail), simp add: run_rules)
    apply (rule inevitable_next, (simp; fail), simp add: run_rules)
    apply (rule inevitable_next, (simp; fail), simp add: run_rules)
    apply (rule assms)
    apply (unfold one_crossing_def crossing_world_def crossing_def)
    apply (rule conjI, simp)
    apply (rule exI [of _ 0], rule exI [of _ ?K])
    apply (simp add: crossing_log_def thread_one_script)
    done
qed

lemma circular_outcome:
  assumes "a \<noteq> b"
  shows "inevitable (\<lambda>w. exit_code w = None \<and> crossing a b 5 1 w \<and> crossing b a 5 2 w \<and> length (ts w) = 3) (boot (circular_main a b))"
proof (rule circular_starts, rule inevitableI_inv)
  fix w
  show "one_crossing a b w \<Longrightarrow> one_crossing a b w \<or> both_crossing a b w" ..
next
  fix w w'
  show "one_crossing a b w \<or> both_crossing a b w \<Longrightarrow> step w w' \<Longrightarrow> one_crossing a b w' \<or> both_crossing a b w'"
    using one_crossing_step both_crossing_step assms by blast
next
  fix w assume I: "one_crossing a b w \<or> both_crossing a b w" and s: "stuck w"
  have "\<not> one_crossing a b w"
  proof
    assume "one_crossing a b w"
    then have "step w (proceed 0 (K 0 2) (proceed 2 (thread_two a b) (w\<lparr>ts := ts w @ [Running (thread_two a b)]\<rparr>)))"
      if "ts w ! 0 = Running (Create (thread_two a b) K)" for K
      using that by (auto simp: step_def one_crossing_def crossing_world_def act_simps intro!: exI [of _ 0])
    with s \<open>one_crossing a b w\<close> show False by (auto simp: stuck_def one_crossing_def)
  qed
  with I have B: "both_crossing a b w" by blast
  then have "exit_code w = None" "length (ts w) = 3" by (auto simp: both_crossing_def crossing_world_def)
  with both_crossing_stuck [OF B s] show "exit_code w = None \<and> crossing a b 5 1 w \<and> crossing b a 5 2 w \<and> length (ts w) = 3" by blast
qed

lemma circular_streams:
  assumes "a \<noteq> b" and t: "terminal (circular_main a b) w"
  shows "exit_code w = None" and "streams tid w = [(tid 1, crossing_log a b 5), (tid 2, crossing_log b a 5)]"
proof -
  have w: "exit_code w = None" "crossing a b 5 1 w" "crossing b a 5 2 w" "length (ts w) = 3"
    using inevitable_terminal [OF circular_outcome [OF assms(1)] t] by simp_all
  then show "exit_code w = None" by simp
  have "silent (circular_main a b)" by (simp add: circular_main_def)
  from silent_terminal [OF t this] w(2-4) show "streams tid w = [(tid 1, crossing_log a b 5), (tid 2, crossing_log b a 5)]"
    by (subst streams3) (auto simp: crossing_def crossing_log_def)
qed

end
