(* ===== verification/Target_Non_Owner.thy ===== *)
theory Target_Non_Owner
  imports Pthread_Runs Targets
begin

text \<open>
  How every run of the non-owner target ends.
\<close>

section \<open>The non-owner target\<close>

text \<open>
  The two threads as scripts; a thread stands at a point of its script, an even one before a
  call and the odd one after it inside that call, and at the end it is gone.
\<close>

definition keeper_script :: "uintptr \<Rightarrow> call list" where
  "keeper_script m = [C_Lock m, C_Barrier owner_ready, C_Barrier unlock_attempt_complete, C_Unlock m]"

definition intruder_script :: "uintptr \<Rightarrow> call list" where
  "intruder_script m = [C_Barrier owner_ready, C_Denied m, C_Barrier unlock_attempt_complete]"

definition point :: "call list \<Rightarrow> nat \<Rightarrow> place" where
  "point cs i = (if i = Suc (2 * length cs) then Gone else (if even i then Before else During) (drop (i div 2) cs))"

definition owner_events :: "uintptr \<Rightarrow> call_event list" where
  "owner_events m = [(MONITOR_EVENT_THREAD_START, 0, 0), (MONITOR_EVENT_LOCK_REQUEST, m, 0), (MONITOR_EVENT_LOCK_ACQUIRED, m, 0),
     (MONITOR_EVENT_UNLOCKED, m, 0), (MONITOR_EVENT_THREAD_EXIT, 0, 0)]"

definition non_owner_events :: "uintptr \<Rightarrow> call_event list" where
  "non_owner_events m = [(MONITOR_EVENT_THREAD_START, 0, 0), (MONITOR_EVENT_UNLOCK_FAILED, m, EPERM), (MONITOR_EVENT_THREAD_EXIT, 0, 0)]"

definition keeper_point :: "uintptr \<Rightarrow> nat \<Rightarrow> place" where
  "keeper_point m i = point (keeper_script m) i"

definition intruder_point :: "uintptr \<Rightarrow> nat \<Rightarrow> place" where
  "intruder_point m j = point (intruder_script m) j"

definition keeper :: "uintptr \<Rightarrow> nat \<Rightarrow> process \<Rightarrow> bool" where
  "keeper m i w \<longleftrightarrow> i \<in> {0, 1, 2, 3, 4, 5, 6, 8, 9} \<and> 1 < length (ts w) \<and> located (keeper_point m i) (ts w ! 1) \<and>
     events w 1 = take (if i = 0 then 0 else if i = 1 then 2 else if i < 8 then 3 else i - 4) (owner_events m) \<and>
     owner w m = (if 2 \<le> i \<and> i \<le> 6 then Some 1 else None)"

definition intruder :: "uintptr \<Rightarrow> nat \<Rightarrow> process \<Rightarrow> bool" where
  "intruder m j w \<longleftrightarrow> j \<in> {0, 1, 2, 4, 5, 6, 7} \<and> 2 < length (ts w) \<and> located (intruder_point m j) (ts w ! 2) \<and>
     events w 2 = take (if j < 4 then 0 else if j < 7 then 2 else 3) (non_owner_events m)"

text \<open>The barriers keep the threads together.\<close>

definition apart :: "nat \<Rightarrow> nat \<Rightarrow> bool" where
  "apart i j \<longleftrightarrow> i \<le> 3 \<and> j \<le> 1 \<and> \<not> (i = 3 \<and> j = 1) \<or> i \<in> {4, 5} \<and> j \<in> {2, 4, 5} \<and> \<not> (i = 5 \<and> j = 5) \<or> 6 \<le> i \<and> 6 \<le> j"

lemma duo_points:
  "keeper_point m 0 = Before [C_Lock m, C_Barrier 0, C_Barrier 1, C_Unlock m]" "keeper_point m (Suc 0) = During [C_Lock m, C_Barrier 0, C_Barrier 1, C_Unlock m]"
  "keeper_point m 2 = Before [C_Barrier 0, C_Barrier 1, C_Unlock m]" "keeper_point m 3 = During [C_Barrier 0, C_Barrier 1, C_Unlock m]"
  "keeper_point m 4 = Before [C_Barrier 1, C_Unlock m]" "keeper_point m 5 = During [C_Barrier 1, C_Unlock m]"
  "keeper_point m 6 = Before [C_Unlock m]" "keeper_point m 8 = Before []" "keeper_point m 9 = Gone"
  "intruder_point m 0 = Before [C_Barrier 0, C_Denied m, C_Barrier 1]" "intruder_point m (Suc 0) = During [C_Barrier 0, C_Denied m, C_Barrier 1]"
  "intruder_point m 2 = Before [C_Denied m, C_Barrier 1]" "intruder_point m 4 = Before [C_Barrier 1]"
  "intruder_point m 5 = During [C_Barrier 1]" "intruder_point m 6 = Before []" "intruder_point m 7 = Gone"
  by (simp_all add: keeper_point_def intruder_point_def point_def keeper_script_def intruder_script_def)

lemmas duo_rules = keeper_def intruder_def duo_points owner_events_def non_owner_events_def report_def keeps_def

lemma keeper_keeps: "keeper m i w \<Longrightarrow> keeps 2 w w' \<Longrightarrow> owner w' m = owner w m \<Longrightarrow> keeper m i w'"
  by (simp add: keeper_def keeps_def)

lemma intruder_keeps: "intruder m j w \<Longrightarrow> keeps 1 w w' \<Longrightarrow> intruder m j w'"
  by (simp add: intruder_def keeps_def)

lemma keeper_step:
  assumes c: "keeper m i w" and a: "act 1 (ts w ! 1) w w'" and i: "i \<in> {0, 1, 6, 8}"
  shows "keeper m (if i = 6 then 8 else Suc i) w' \<and> keeps 1 w w'"
proof -
  have n: "1 < length (ts w)" using c by (simp add: keeper_def)
  consider "i = 0" | "i = 1" | "i = 6" | "i = 8" using i by blast
  then show ?thesis
  proof cases
    case 1
    then have l: "located (Before [C_Lock m, C_Barrier 0, C_Barrier 1, C_Unlock m]) (ts w ! 1)" using c by (simp add: keeper_def duo_points)
    from move_request [OF a l] show ?thesis using 1 c moves_keeps moves_here [OF _ n]
      by (fastforce simp: duo_rules)
  next
    case 2
    then have l: "located (During [C_Lock m, C_Barrier 0, C_Barrier 1, C_Unlock m]) (ts w ! 1)" "owner w m \<noteq> Some 1" using c by (simp_all add: keeper_def duo_points)
    from move_acquire [OF a l(1)] show ?thesis using 2 l c moves_keeps moves_here [OF _ n]
      by (fastforce simp: duo_rules Suc_points)
  next
    case 3
    then have l: "located (Before [C_Unlock m]) (ts w ! 1)" "owner w m = Some 1" using c by (simp_all add: keeper_def duo_points)
    from move_unlock [OF a l] show ?thesis using 3 l c moves_keeps moves_here [OF _ n]
      by (fastforce simp: duo_rules)
  next
    case 4
    then have l: "located (Before []) (ts w ! 1)" using c by (simp add: keeper_def duo_points)
    from move_done [OF a l] show ?thesis using 4 l c moves_keeps moves_here [OF _ n]
      by (fastforce simp: duo_rules)
  qed
qed

lemma intruder_step:
  assumes c: "intruder m j w" and a: "act 2 (ts w ! 2) w w'" and j: "j \<in> {2, 6}" and o: "owner w m \<noteq> Some 2"
  shows "intruder m (if j = 2 then 4 else 7) w' \<and> keeps 2 w w' \<and> owner w' = owner w"
proof -
  have n: "2 < length (ts w)" using c by (simp add: intruder_def)
  consider "j = 2" | "j = 6" using j by blast
  then show ?thesis
  proof cases
    case 1
    then have l: "located (Before [C_Denied m, C_Barrier 1]) (ts w ! 2)" using c by (simp add: intruder_def duo_points)
    from move_denied [OF a l o] show ?thesis using 1 c moves_keeps moves_here [OF _ n]
      by (fastforce simp: duo_rules)
  next
    case 2
    then have l: "located (Before []) (ts w ! 2)" using c by (simp add: intruder_def duo_points)
    from move_done [OF a l] show ?thesis using 2 l c moves_keeps moves_here [OF _ n]
      by (fastforce simp: duo_rules)
  qed
qed

lemma keeper_arrive:
  assumes c: "keeper m i w" and a: "act 1 (ts w ! 1) w w'" and i: "i = 2 \<and> b = 0 \<or> i = 4 \<and> b = 1" and b: "Suc (waiting b w) < barrier_count w b"
  shows "keeper m (Suc i) w' \<and> keeps 1 w w'"
proof -
  have n: "1 < length (ts w)" using c by (simp add: keeper_def)
  from i show ?thesis
  proof
    assume i: "i = 2 \<and> b = 0"
    then have l: "located (Before [C_Barrier b, C_Barrier 1, C_Unlock m]) (ts w ! 1)" using c by (simp add: keeper_def duo_points)
    from move_arrive [OF a l b] show ?thesis using i c moves_keeps moves_here [OF _ n] by (fastforce simp: duo_rules)
  next
    assume i: "i = 4 \<and> b = 1"
    then have l: "located (Before [C_Barrier b, C_Unlock m]) (ts w ! 1)" using c by (simp add: keeper_def duo_points)
    from move_arrive [OF a l b] show ?thesis using i c moves_keeps moves_here [OF _ n] by (fastforce simp: duo_rules)
  qed
qed

lemma intruder_arrive:
  assumes c: "intruder m j w" and a: "act 2 (ts w ! 2) w w'" and j: "j = 0 \<and> b = 0 \<or> j = 4 \<and> b = 1" and b: "Suc (waiting b w) < barrier_count w b"
  shows "intruder m (Suc j) w' \<and> keeps 2 w w' \<and> owner w' = owner w"
proof -
  have n: "2 < length (ts w)" using c by (simp add: intruder_def)
  from j show ?thesis
  proof
    assume j: "j = 0 \<and> b = 0"
    then have l: "located (Before [C_Barrier b, C_Denied m, C_Barrier 1]) (ts w ! 2)" using c by (simp add: intruder_def duo_points)
    from move_arrive [OF a l b] show ?thesis using j c moves_keeps moves_here [OF _ n] by (fastforce simp: duo_rules)
  next
    assume j: "j = 4 \<and> b = 1"
    then have l: "located (Before [C_Barrier b]) (ts w ! 2)" using c by (simp add: intruder_def duo_points)
    from move_arrive [OF a l b] show ?thesis using j c moves_keeps moves_here [OF _ n] by (fastforce simp: duo_rules)
  qed
qed

text \<open>The later of the two threads opens the barrier for both.\<close>

lemma duo_pass:
  assumes a: "act n (ts w ! n) w w'" and x: "located (Before (C_Barrier b # cs)) (ts w ! n)" and y: "located (During (C_Barrier b # ds)) (ts w ! n')"
    and n: "n < length (ts w)" "n' < length (ts w)" "n \<noteq> n'" and s: "Suc (waiting b w) = barrier_count w b"
    and main: "0 \<noteq> n" "0 \<noteq> n'" "\<not> at_barrier b (ts w ! 0)"
  shows "same_setup w w' \<and> owner w' = owner w \<and> events w' = events w \<and> length (ts w') = length (ts w) \<and> ts w' ! 0 = ts w ! 0 \<and>
    located (Before cs) (ts w' ! n) \<and> located (Before ds) (ts w' ! n')"
proof -
  have "0 < length (ts w)" using n by linarith
  then show ?thesis
  using move_pass(1-5) [OF a x s n(1)] move_pass(6) [OF a x s n(1) n(2) _ y] move_pass(7) [OF a x s n(1), where j = 0] n main by auto
qed

definition duo_world :: "uintptr \<Rightarrow> process \<Rightarrow> bool" where
  "duo_world m w \<longleftrightarrow> barrier_count w 0 = 2 \<and> barrier_count w 1 = 2 \<and> mutex_type w m = PTHREAD_MUTEX_ERRORCHECK"

definition duo_pair :: "uintptr \<Rightarrow> nat \<Rightarrow> nat \<Rightarrow> process \<Rightarrow> bool" where
  "duo_pair m i j w \<longleftrightarrow> duo_world m w \<and> keeper m i w \<and> intruder m j w \<and> apart i j \<and> length (ts w) = 3"

lemma keeper_at_barrier: "keeper m i w \<Longrightarrow> at_barrier b (ts w ! 1) \<longleftrightarrow> (b = 0 \<and> i = 3 \<or> b = 1 \<and> i = 5)"
  unfolding keeper_def by (elim conjE insertE) (auto simp: duo_points)

lemma intruder_at_barrier: "intruder m j w \<Longrightarrow> at_barrier b (ts w ! 2) \<longleftrightarrow> (b = 0 \<and> j = 1 \<or> b = 1 \<and> j = 5)"
  unfolding intruder_def by (elim conjE insertE) (auto simp: duo_points)

lemma duo_waiting:
  assumes "keeper m i w" and "intruder m j w" and "length (ts w) = 3" and "\<not> at_barrier b (ts w ! 0)"
  shows "waiting b w = (if b = 0 \<and> i = 3 \<or> b = 1 \<and> i = 5 then 1 else 0) + (if b = 0 \<and> j = 1 \<or> b = 1 \<and> j = 5 then 1 else 0)"
  unfolding waiting3 [OF assms(3)] keeper_at_barrier [OF assms(1)] intruder_at_barrier [OF assms(2)] using assms(4) by simp

lemma duo_world_keeps: "duo_world m w \<Longrightarrow> same_setup w w' \<Longrightarrow> duo_world m w'"
  by (simp add: duo_world_def same_setup_def)

lemma keeper_acts:
  assumes p: "duo_pair m i j w" and a: "act 1 (ts w ! 1) w w'" and main: "\<And>b. \<not> at_barrier b (ts w ! 0)"
  shows "\<exists>i' j'. duo_pair m i' j' w' \<and> ts w' ! 0 = ts w ! 0 \<and> same_setup w w' \<and> i \<noteq> 9 \<and> (j = 7 \<longrightarrow> j' = 7)"
proof -
  note p' = p [unfolded duo_pair_def]
  have k: "keeper m i w" and r: "intruder m j w" and ap: "apart i j" and l: "length (ts w) = 3" and W: "duo_world m w" using p' by auto
  have moved: ?thesis if "keeper m i' w' \<and> keeps 1 w w'" "apart i' j" "i \<noteq> 9" for i'
    using that p' intruder_keeps [OF r] duo_world_keeps [OF W]
    by (intro exI [of _ i'] exI [of _ j]) (auto simp: duo_pair_def keeps_def)
  have i: "i \<in> {0, 1, 2, 3, 4, 5, 6, 8, 9}" using k by (simp add: keeper_def)
  have still: "i \<notin> {3, 5, 9}"
  proof
    assume "i \<in> {3, 5, 9}"
    then show False using k a by (auto simp: keeper_def duo_points act_simps)
  qed
  with i consider "i \<in> {0, 1, 6, 8}" | "i = 2 \<and> j \<noteq> 1 \<or> i = 4 \<and> j \<noteq> 5" | "i = 2 \<and> j = 1" | "i = 4 \<and> j = 5" by blast
  then show ?thesis
  proof cases
    case 1
    have ap': "apart (if i = 6 then 8 else Suc i) j" using 1 ap by (elim insertE emptyE) (simp_all add: apart_def)
    have "i \<noteq> 9" using 1 by auto
    then show ?thesis by (rule moved [OF keeper_step [OF k a 1] ap'])
  next
    case 2
    then obtain b where b: "i = 2 \<and> b = (0 :: nat) \<and> j \<noteq> 1 \<or> i = 4 \<and> b = 1 \<and> j \<noteq> 5" by blast
    then have "Suc (waiting b w) < barrier_count w b"
      using duo_waiting [OF k r l main, of b] W ap by (auto simp: duo_world_def apart_def)
    from keeper_arrive [OF k a _ this] b have "keeper m (Suc i) w' \<and> keeps 1 w w'" by blast
    then show ?thesis by (rule moved) (use b ap in \<open>auto simp: apart_def\<close>)
  next
    case 3
    then have "Suc (waiting 0 w) = barrier_count w 0" using duo_waiting [OF k r l main, of 0] W by (simp add: duo_world_def)
    from duo_pass [OF a _ _ _ _ _ this _ _ main, where n' = 2 and cs = "[C_Barrier 1, C_Unlock m]" and ds = "[C_Denied m, C_Barrier 1]"] 3 k r l
    show ?thesis using p' duo_world_keeps [OF W]
      by (intro exI [of _ 4] exI [of _ 2]) (auto simp: duo_rules duo_pair_def apart_def)
  next
    case 4
    then have "Suc (waiting 1 w) = barrier_count w 1" using duo_waiting [OF k r l main, of 1] W by (simp add: duo_world_def)
    from duo_pass [OF a _ _ _ _ _ this _ _ main, where n' = 2 and cs = "[C_Unlock m]" and ds = "[]"] 4 k r l
    show ?thesis using p' duo_world_keeps [OF W]
      by (intro exI [of _ 6] exI [of _ 6]) (auto simp: duo_rules duo_pair_def apart_def)
  qed
qed

lemma intruder_acts:
  assumes p: "duo_pair m i j w" and a: "act 2 (ts w ! 2) w w'" and main: "\<And>b. \<not> at_barrier b (ts w ! 0)"
  shows "\<exists>i' j'. duo_pair m i' j' w' \<and> ts w' ! 0 = ts w ! 0 \<and> same_setup w w' \<and> j \<noteq> 7 \<and> (i = 9 \<longrightarrow> i' = 9)"
proof -
  note p' = p [unfolded duo_pair_def]
  have k: "keeper m i w" and r: "intruder m j w" and ap: "apart i j" and l: "length (ts w) = 3" and W: "duo_world m w" using p' by auto
  have moved: ?thesis if "intruder m j' w' \<and> keeps 2 w w' \<and> owner w' = owner w" "apart i j'" "j \<noteq> 7" for j'
    using that p' keeper_keeps [OF k] duo_world_keeps [OF W]
    by (intro exI [of _ i] exI [of _ j']) (auto simp: duo_pair_def keeps_def)
  have j: "j \<in> {0, 1, 2, 4, 5, 6, 7}" and o: "owner w m \<noteq> Some 2" using r k by (simp_all add: intruder_def keeper_def)
  have still: "j \<notin> {1, 5, 7}"
  proof
    assume "j \<in> {1, 5, 7}"
    then show False using r a by (auto simp: intruder_def duo_points act_simps)
  qed
  with j consider "j \<in> {2, 6}" | "j = 0 \<and> i \<noteq> 3 \<or> j = 4 \<and> i \<noteq> 5" | "j = 0 \<and> i = 3" | "j = 4 \<and> i = 5" by blast
  then show ?thesis
  proof cases
    case 1
    have ap': "apart i (if j = 2 then 4 else 7)" using 1 ap by (elim insertE emptyE) (auto simp: apart_def)
    have "j \<noteq> 7" using 1 by auto
    then show ?thesis by (rule moved [OF intruder_step [OF r a 1 o] ap'])
  next
    case 2
    then obtain b where b: "j = 0 \<and> b = (0 :: nat) \<and> i \<noteq> 3 \<or> j = 4 \<and> b = 1 \<and> i \<noteq> 5" by blast
    then have "Suc (waiting b w) < barrier_count w b"
      using duo_waiting [OF k r l main, of b] W ap by (auto simp: duo_world_def apart_def)
    from intruder_arrive [OF r a _ this] b have "intruder m (Suc j) w' \<and> keeps 2 w w' \<and> owner w' = owner w" by blast
    then show ?thesis by (rule moved) (use b ap in \<open>auto simp: apart_def\<close>)
  next
    case 3
    then have "Suc (waiting 0 w) = barrier_count w 0" using duo_waiting [OF k r l main, of 0] W by (simp add: duo_world_def)
    from duo_pass [OF a _ _ _ _ _ this _ _ main, where n' = 1 and ds = "[C_Barrier 1, C_Unlock m]" and cs = "[C_Denied m, C_Barrier 1]"] 3 k r l
    show ?thesis using p' duo_world_keeps [OF W]
      by (intro exI [of _ 4] exI [of _ 2]) (auto simp: duo_rules duo_pair_def apart_def)
  next
    case 4
    then have "Suc (waiting 1 w) = barrier_count w 1" using duo_waiting [OF k r l main, of 1] W by (simp add: duo_world_def)
    from duo_pass [OF a _ _ _ _ _ this _ _ main, where n' = 1 and ds = "[C_Unlock m]" and cs = "[]"] 4 k r l
    show ?thesis using p' duo_world_keeps [OF W]
      by (intro exI [of _ 6] exI [of _ 6]) (auto simp: duo_rules duo_pair_def apart_def)
  qed
qed

text \<open>What the main thread has left to do once both threads run.\<close>

primrec non_owner_closing :: "nat \<Rightarrow> prog" where
  "non_owner_closing 0 = Done EXIT_SUCCESS"
| "non_owner_closing (Suc r) =
     (if r < 3 then Call (if r = 0 then ''pthread_mutex_destroy'' else ''pthread_barrier_destroy'') (\<lambda>_. non_owner_closing r)
      else Join (if r = 4 then 1 else 2) (\<lambda>_ _. non_owner_closing r))"

definition duo_starting :: "uintptr \<Rightarrow> process \<Rightarrow> bool" where
  "duo_starting m w \<longleftrightarrow> exit_code w = None \<and> duo_world m w \<and> length (ts w) = 2 \<and> events w 2 = [] \<and>
     (\<exists>i K. keeper m i w \<and> i \<le> 3 \<and> ts w ! 0 = Running (Create (non_owner_thread m) K) \<and> settle (K 0 2) = ([], non_owner_closing 5))"

definition duo_running :: "uintptr \<Rightarrow> process \<Rightarrow> bool" where
  "duo_running m w \<longleftrightarrow> exit_code w = None \<and>
     (\<exists>i j r. duo_pair m i j w \<and> ts w ! 0 = Running (non_owner_closing r) \<and> r \<le> 5 \<and> (r < 5 \<longrightarrow> i = 9) \<and> (r < 4 \<longrightarrow> j = 7))"

definition duo_over :: "uintptr \<Rightarrow> process \<Rightarrow> bool" where
  "duo_over m w \<longleftrightarrow> exit_code w = Some EXIT_SUCCESS \<and> duo_pair m 9 7 w"

lemma closing_no_barrier: "\<not> at_barrier b (Running p)"
  by simp

lemma non_owner_script: "located (Before (intruder_script m)) (Running (snd (settle (non_owner_thread m))))"
  by (simp add: non_owner_thread_def intruder_script_def)

lemma owner_script: "located (Before (keeper_script m)) (Running (snd (settle (owner_thread m))))"
  by (simp add: owner_thread_def keeper_script_def)

lemma duo_starting_step:
  assumes I: "duo_starting m w" and s: "step w w'"
  shows "duo_starting m w' \<or> duo_running m w'"
proof -
  from I obtain i K where x: "exit_code w = None" and W: "duo_world m w" and l: "length (ts w) = 2" and e: "events w 2 = []"
    and k: "keeper m i w" and i: "i \<le> 3" and t: "ts w ! 0 = Running (Create (non_owner_thread m) K)" and K: "settle (K 0 2) = ([], non_owner_closing 5)"
    by (auto simp: duo_starting_def)
  have "act 0 (ts w ! 0) w w' \<or> act 1 (ts w ! 1) w w'" using s l by (auto simp: step_def less_Suc_eq numeral_2_eq_2)
  then show ?thesis
  proof
    assume "act 0 (ts w ! 0) w w'"
    then have w': "w' = proceed 0 (K 0 2) (proceed 2 (non_owner_thread m) (w\<lparr>ts := ts w @ [Running (non_owner_thread m)]\<rparr>))"
      by (simp add: t act_simps l)
    have t': "ts w' ! 0 = Running (non_owner_closing 5)" "ts w' ! 1 = ts w ! 1" "length (ts w') = 3"
      "ts w' ! 2 = Running (snd (settle (non_owner_thread m)))"
      using l K by (simp_all add: w' proceed_def nth_append)
    have f: "owner w' = owner w" "events w' = events w" "same_setup w w'" by (simp_all add: w' proceed_def same_setup_def)
    have "keeper m i w'" using k t' f by (simp add: keeper_def)
    moreover have "intruder m 0 w'" using t' f e non_owner_script [of m] by (simp add: intruder_def duo_points intruder_script_def)
    moreover have "apart i 0" using i by (simp add: apart_def)
    ultimately have "duo_pair m i 0 w'" using t' duo_world_keeps [OF W f(3)] by (simp add: duo_pair_def)
    moreover have "exit_code w' = None" using f(3) x by (simp add: same_setup_def)
    ultimately have "duo_running m w'" using t'(1) unfolding duo_running_def by (intro conjI exI [of _ i] exI [of _ 0] exI [of _ 5]) auto
    then show ?thesis ..
  next
    assume a: "act 1 (ts w ! 1) w w'"
    have "i \<noteq> 3"
    proof
      assume "i = 3"
      then show False using k a by (auto simp: keeper_def duo_points act_simps)
    qed
    then consider "i \<in> {0, 1, 6, 8}" | "i = 2" using i by force
    then have "keeper m (Suc i) w' \<and> keeps 1 w w' \<and> Suc i \<le> 3"
    proof cases
      case 1
      then show ?thesis using keeper_step [OF k a 1] i by auto
    next
      case 2
      have wt: "Suc (waiting 0 w) < barrier_count w 0"
        using waiting2 [OF l, of 0] t keeper_at_barrier [OF k, of 0] 2 W by (simp add: duo_world_def)
      show ?thesis using keeper_arrive [OF k a _ wt] 2 by simp
    qed
    then have "duo_starting m w'"
      using l t e K x duo_world_keeps [OF W, of w'] by (auto simp: duo_starting_def keeps_def same_setup_def)
    then show ?thesis ..
  qed
qed

lemma duo_running_step:
  assumes I: "duo_running m w" and s: "step w w'"
  shows "duo_running m w' \<or> duo_over m w'"
proof -
  from I obtain i j r where x: "exit_code w = None" and p: "duo_pair m i j w" and t: "ts w ! 0 = Running (non_owner_closing r)"
    and r: "r \<le> 5" "r < 5 \<longrightarrow> i = 9" "r < 4 \<longrightarrow> j = 7" by (auto simp: duo_running_def)
  have l: "length (ts w) = 3" and k: "keeper m i w" and q: "intruder m j w" using p by (simp_all add: duo_pair_def)
  have nb: "\<not> at_barrier b (ts w ! 0)" for b by (simp add: t)
  have "act 0 (ts w ! 0) w w' \<or> act 1 (ts w ! 1) w w' \<or> act 2 (ts w ! 2) w w'"
    using s l by (auto simp: step_def less_Suc_eq numeral_3_eq_3 numeral_2_eq_2)
  then consider "act 0 (ts w ! 0) w w'" | "act 1 (ts w ! 1) w w'" | "act 2 (ts w ! 2) w w'" by blast
  then show ?thesis
  proof cases
    case 1
    have same: "duo_pair m i j w'" if "ts w' = (ts w)[0 := y]" "owner w' = owner w" "events w' = events w"
        "mutex_type w' = mutex_type w" "barrier_count w' = barrier_count w" for y
      using p that by (simp add: duo_pair_def duo_world_def keeper_def intruder_def)
    show ?thesis
    proof (cases r)
      case 0
      then have "w' = w\<lparr>ts := (ts w)[0 := Finished 0], exit_code := Some EXIT_SUCCESS\<rparr>" using 1 t by (simp add: act_simps)
      then have "duo_over m w'" using same r 0 by (simp add: duo_over_def)
      then show ?thesis ..
    next
      case (Suc r')
      have gone: "y = 9" if "keeper m y w" "ts w ! 1 = Finished v" for y v
        using that unfolding keeper_def by (elim conjE insertE) (auto simp: duo_points)
      have gone': "y = 7" if "intruder m y w" "ts w ! 2 = Finished v" for y v
        using that unfolding intruder_def by (elim conjE insertE) (auto simp: duo_points)
      have "w' = proceed 0 (non_owner_closing r') w \<and> (r' < 5 \<longrightarrow> i = 9) \<and> (r' < 4 \<longrightarrow> j = 7)"
        using 1 t r Suc gone [OF k] gone' [OF q] by (auto simp: act_simps split: if_splits)
      moreover have "snd (settle (non_owner_closing r')) = non_owner_closing r'" by (cases r') simp_all
      ultimately have "ts w' = (ts w)[0 := Running (non_owner_closing r')]" "(r' < 5 \<longrightarrow> i = 9) \<and> (r' < 4 \<longrightarrow> j = 7)"
        "exit_code w' = None" "duo_pair m i j w'" using x same by (simp_all add: proceed_def)
      then have "duo_running m w'" using r Suc l unfolding duo_running_def
        by (intro conjI exI [of _ i] exI [of _ j] exI [of _ r']) auto
      then show ?thesis ..
    qed
  next
    case 2
    from keeper_acts [OF p 2 nb] obtain i' j' where "duo_pair m i' j' w'" "ts w' ! 0 = ts w ! 0" "same_setup w w'" "i \<noteq> 9" "j = 7 \<longrightarrow> j' = 7" by blast
    then have "duo_running m w'" using t x r unfolding duo_running_def same_setup_def by (intro conjI exI [of _ i'] exI [of _ j'] exI [of _ r]) auto
    then show ?thesis ..
  next
    case 3
    from intruder_acts [OF p 3 nb] obtain i' j' where "duo_pair m i' j' w'" "ts w' ! 0 = ts w ! 0" "same_setup w w'" "j \<noteq> 7" "i = 9 \<longrightarrow> i' = 9" by blast
    then have "duo_running m w'" using t x r unfolding duo_running_def same_setup_def by (intro conjI exI [of _ i'] exI [of _ j'] exI [of _ r]) auto
    then show ?thesis ..
  qed
qed

lemma keeper_can:
  assumes p: "duo_pair m i j w" and main: "\<And>b. \<not> at_barrier b (ts w ! 0)" and i: "i \<notin> {3, 5, 9}"
  shows "\<exists>w'. act 1 (ts w ! 1) w w'"
proof -
  have k: "keeper m i w" and r: "intruder m j w" and ap: "apart i j" and l: "length (ts w) = 3" and W: "duo_world m w"
    using p by (simp_all add: duo_pair_def)
  have o: "owner w m = (if 2 \<le> i \<and> i \<le> 6 then Some 1 else None)" using k by (simp add: keeper_def)
  note wait = duo_waiting [OF k r l main]
  have "i \<in> {0, 1, 2, 4, 6, 8}" using k i by (auto simp: keeper_def)
  then consider "i = 0" | "i = 1" | "i = 2" | "i = 4" | "i = 6" | "i = 8" by blast
  then show ?thesis
  proof cases
    case 1
    with k have l: "located (Before [C_Lock m, C_Barrier 0, C_Barrier 1, C_Unlock m]) (ts w ! 1)" by (simp add: keeper_def duo_points)
    show ?thesis by (rule can_move(1) [OF l])
  next
    case 2
    with k have l: "located (During [C_Lock m, C_Barrier 0, C_Barrier 1, C_Unlock m]) (ts w ! 1)" by (simp add: keeper_def duo_points)
    show ?thesis by (rule can_move(2) [OF l]) (simp add: o 2)
  next
    case 3
    with k have l': "located (Before [C_Barrier 0, C_Barrier 1, C_Unlock m]) (ts w ! 1)" by (simp add: keeper_def duo_points)
    have "Suc (waiting 0 w) < barrier_count w 0 \<or> Suc (waiting 0 w) = barrier_count w 0" using wait [of 0] 3 W by (simp add: duo_world_def)
    then show ?thesis using can_move(5,6) [OF l'] l by auto
  next
    case 4
    with k have l': "located (Before [C_Barrier 1, C_Unlock m]) (ts w ! 1)" by (simp add: keeper_def duo_points)
    have "Suc (waiting 1 w) < barrier_count w 1 \<or> Suc (waiting 1 w) = barrier_count w 1" using wait [of 1] 4 W by (simp add: duo_world_def)
    then show ?thesis using can_move(5,6) [OF l'] l by auto
  next
    case 5
    with k have l: "located (Before [C_Unlock m]) (ts w ! 1)" by (simp add: keeper_def duo_points)
    show ?thesis by (rule can_move(3) [OF l]) (simp add: o 5)
  next
    case 6
    with k have l: "located (Before []) (ts w ! 1)" by (simp add: keeper_def duo_points)
    show ?thesis by (rule can_move(7) [OF l])
  qed
qed

lemma intruder_can:
  assumes p: "duo_pair m i j w" and main: "\<And>b. \<not> at_barrier b (ts w ! 0)" and j: "j \<notin> {1, 5, 7}"
  shows "\<exists>w'. act 2 (ts w ! 2) w w'"
proof -
  have k: "keeper m i w" and r: "intruder m j w" and ap: "apart i j" and l: "length (ts w) = 3" and W: "duo_world m w"
    using p by (simp_all add: duo_pair_def)
  note wait = duo_waiting [OF k r l main]
  have "j \<in> {0, 2, 4, 6}" using r j by (auto simp: intruder_def)
  then consider "j = 0" | "j = 2" | "j = 4" | "j = 6" by blast
  then show ?thesis
  proof cases
    case 1
    with r have l': "located (Before [C_Barrier 0, C_Denied m, C_Barrier 1]) (ts w ! 2)" by (simp add: intruder_def duo_points)
    have "Suc (waiting 0 w) < barrier_count w 0 \<or> Suc (waiting 0 w) = barrier_count w 0" using wait [of 0] 1 W by (simp add: duo_world_def)
    then show ?thesis using can_move(5,6) [OF l'] l by auto
  next
    case 2
    with r have l: "located (Before [C_Denied m, C_Barrier 1]) (ts w ! 2)" by (simp add: intruder_def duo_points)
    show ?thesis by (rule can_move(4) [OF l]) (use W in \<open>simp add: duo_world_def\<close>)
  next
    case 3
    with r have l': "located (Before [C_Barrier 1]) (ts w ! 2)" by (simp add: intruder_def duo_points)
    have "Suc (waiting 1 w) < barrier_count w 1 \<or> Suc (waiting 1 w) = barrier_count w 1" using wait [of 1] 3 W by (simp add: duo_world_def)
    then show ?thesis using can_move(5,6) [OF l'] l by auto
  next
    case 4
    with r have l: "located (Before []) (ts w ! 2)" by (simp add: intruder_def duo_points)
    show ?thesis by (rule can_move(7) [OF l])
  qed
qed

lemma duo_running_moves:
  assumes I: "duo_running m w"
  shows "\<not> stuck w"
proof -
  from I obtain i j r where x: "exit_code w = None" and p: "duo_pair m i j w" and t: "ts w ! 0 = Running (non_owner_closing r)"
    and r: "r \<le> 5" "r < 5 \<longrightarrow> i = 9" "r < 4 \<longrightarrow> j = 7" by (auto simp: duo_running_def)
  have l: "length (ts w) = 3" and k: "keeper m i w" and q: "intruder m j w" and ap: "apart i j" using p by (simp_all add: duo_pair_def)
  have nb: "\<not> at_barrier b (ts w ! 0)" for b by (simp add: t)
  have "\<exists>n < 3. \<exists>w'. act n (ts w ! n) w w'"
  proof (cases "i \<in> {3, 5, 9}")
    case False
    from keeper_can [OF p nb this] show ?thesis by (intro exI [of _ 1]) simp
  next
    case i: True
    show ?thesis
    proof (cases "j \<in> {1, 5, 7}")
      case False
      from intruder_can [OF p nb this] show ?thesis by (intro exI [of _ 2]) simp
    next
      case True
      with i ap have ij: "i = 9" "j = 7" by (auto simp: apart_def)
      then have f: "ts w ! 1 = Finished 0" "ts w ! 2 = Finished 0" using k q by (simp_all add: keeper_def intruder_def duo_points)
      have "\<exists>w'. act 0 (ts w ! 0) w w'"
      proof (cases r)
        case 0
        then show ?thesis unfolding t by (simp add: act_simps)
      next
        case (Suc r')
        then show ?thesis unfolding t using f l by (auto simp: act_simps)
      qed
      then show ?thesis by (intro exI [of _ 0]) simp
    qed
  qed
  then show ?thesis using x l by (auto simp: stuck_def step_def)
qed

lemma duo_starting_moves: "duo_starting m w \<Longrightarrow> \<not> stuck w"
  by (auto simp: duo_starting_def stuck_def step_def act_simps intro!: exI [of _ 0])

lemma non_owner_starts:
  assumes "\<And>w. duo_starting m w \<Longrightarrow> inevitable P w"
  shows "inevitable P (boot (non_owner_main m))"
proof -
  let ?K = "\<lambda>rc non_owner. if rc \<noteq> 0 then Done EXIT_FAILURE else Join (Suc 0) (\<lambda>_ _. Join non_owner (\<lambda>_ _.
       Call ''pthread_barrier_destroy'' (\<lambda>_. Call ''pthread_barrier_destroy'' (\<lambda>_. Call ''pthread_mutex_destroy'' (\<lambda>_. Done EXIT_SUCCESS)))))"
  show ?thesis
    apply (simp add: boot_def non_owner_main_def errorcheck_mutex_def)
    apply (rule inevitable_next, (simp; fail), simp add: run_rules)
    apply (rule inevitable_next, (simp; fail), simp add: run_rules)
    apply (rule inevitable_next, (simp; fail), simp add: run_rules)
    apply (rule inevitable_next, (simp; fail), simp add: run_rules)
    apply (rule inevitable_next, (simp; fail), simp add: run_rules)
    apply (rule inevitable_next, (simp; fail), simp add: run_rules)
    apply (rule inevitable_next, (simp; fail), simp add: run_rules)
    apply (rule assms)
    apply (unfold duo_starting_def duo_world_def keeper_def)
    apply (intro conjI exI [of _ 0] exI [of _ ?K])
    using owner_script [of m] apply (simp_all add: duo_points keeper_script_def eval_nat_numeral)
    done
qed

definition non_owner_outcome :: "uintptr \<Rightarrow> process \<Rightarrow> bool" where
  "non_owner_outcome m w \<longleftrightarrow> exit_code w = Some EXIT_SUCCESS \<and> length (ts w) = 3 \<and>
     events w 1 = owner_events m \<and> events w 2 = non_owner_events m"

lemma non_owner_runs: "inevitable (non_owner_outcome m) (boot (non_owner_main m))"
proof (rule non_owner_starts, rule inevitableI_inv)
  show "duo_starting m w \<Longrightarrow> duo_starting m w \<or> duo_running m w \<or> duo_over m w" for w by blast
  show "duo_starting m w' \<or> duo_running m w' \<or> duo_over m w'"
    if "duo_starting m w \<or> duo_running m w \<or> duo_over m w" "step w w'" for w w'
  proof -
    have "exit_code w = None" using that(2) by (simp add: step_def)
    then have "duo_starting m w \<or> duo_running m w" using that(1) by (auto simp: duo_over_def)
    then show ?thesis using duo_starting_step [OF _ that(2)] duo_running_step [OF _ that(2)] by blast
  qed
  show "non_owner_outcome m w" if "duo_starting m w \<or> duo_running m w \<or> duo_over m w" "stuck w" for w
    using that duo_starting_moves duo_running_moves
    by (auto simp: duo_over_def duo_pair_def keeper_def intruder_def non_owner_outcome_def owner_events_def non_owner_events_def)
qed

lemma non_owner_streams:
  assumes "terminal (non_owner_main m) w"
  shows "streams tid w = [(tid 1, owner_events m), (tid 2, non_owner_events m)]"
proof -
  have "non_owner_outcome m w" using inevitable_terminal [OF non_owner_runs assms] .
  moreover have "silent (non_owner_main m)" by (simp add: non_owner_main_def errorcheck_mutex_def)
  ultimately show ?thesis using silent_terminal [OF assms]
    by (subst streams3) (auto simp: non_owner_outcome_def owner_events_def non_owner_events_def)
qed

end
