(* ===== verification/Verifier_Capacity.thy ===== *)
theory Verifier_Capacity
  imports Verifier_Limits
begin

text \<open>
  When the fixed tables of \<^verbatim>\<open>src/monitor_verifier.c\<close> suffice: the keys in use grow only
  by those an event names, so a trace that stays within the capacities overflows nothing.
\<close>

section \<open>Keys in use\<close>

definition thread_keys :: "verifier_state \<Rightarrow> u64 set" where
  "thread_keys s = {tid. \<exists>i. thread_slot s tid i}"

definition mutex_keys :: "verifier_state \<Rightarrow> uintptr set" where
  "mutex_keys s = {a. \<exists>j. mutex_slot s a j}"

lemma card_keys:
  assumes "keys_distinct used key xs"
  shows "card {k. \<exists>i. i < length xs \<and> used (xs ! i) \<and> key (xs ! i) = k} = count_if used xs"
proof -
  let ?I = "{i. i < length xs \<and> used (xs ! i)}"
  have "{k. \<exists>i. i < length xs \<and> used (xs ! i) \<and> key (xs ! i) = k} = (\<lambda>i. key (xs ! i)) ` ?I" by auto
  moreover have "inj_on (\<lambda>i. key (xs ! i)) ?I" using assms by (auto simp: keys_distinct_def inj_on_def)
  ultimately show ?thesis by (simp add: card_image count_if_def length_filter_conv_card)
qed

lemma card_table_keys:
  assumes "verifier_wf s"
  shows "card (thread_keys s) = count_if th_used (thread_states s)"
    and "card (mutex_keys s) = count_if mx_used (mutex_states s)"
  using card_keys [OF wf_distinct(1) [OF assms]] card_keys [OF wf_distinct(2) [OF assms]]
  by (simp_all add: thread_keys_def mutex_keys_def thread_slot_def mutex_slot_def)

lemma keys_cong:
  "thread_slot s' = thread_slot s \<Longrightarrow> thread_keys s' = thread_keys s"
  "mutex_slot s' = mutex_slot s \<Longrightarrow> mutex_keys s' = mutex_keys s"
  by (simp_all add: thread_keys_def mutex_keys_def)

lemma not_full:
  assumes "finite K" and "X \<subseteq> K" and "k \<in> K" and "k \<notin> X" and "card K \<le> n"
  shows "card X \<noteq> n"
proof -
  have "X \<subset> K" using assms(2-4) by blast
  from psubset_card_mono [OF assms(1) this] assms(5) show ?thesis by simp
qed

lemma mutex_slot_upd:
  assumes "mx_used (f (mutex_states s ! k)) = mx_used (mutex_states s ! k)"
    and "mx_address (f (mutex_states s ! k)) = mx_address (mutex_states s ! k)"
  shows "mutex_slot (upd_mutex k f s) = mutex_slot s"
  using assms by (auto simp: fun_eq_iff mutex_slot_def nth_list_update_if)

lemma thread_keys_find:
  assumes "verifier_wf s" and "find_thread tid True s = (r, s')"
  shows "thread_keys s' \<subseteq> insert tid (thread_keys s)" and "mutex_slot s' = mutex_slot s"
proof -
  have l: "length (thread_states s) = VERIFIER_MAX_THREADS" using assms(1) by (simp add: verifier_wf_def)
  from assms(1) show "thread_keys s' \<subseteq> insert tid (thread_keys s)"
    by (cases rule: find_thread_create [where tid = tid])
      (use assms(2) l in \<open>auto simp: thread_keys_def thread_slot_def nth_list_update_if split: if_splits\<close>)
  show "mutex_slot s' = mutex_slot s"
    using assms(2) by (intro mutex_slot_cong) (auto simp: find_thread_def split: prod.splits option.splits if_splits)
qed

lemma mutex_keys_find:
  assumes "verifier_wf s" and "find_mutex a True s = (r, s')"
  shows "mutex_keys s' \<subseteq> insert a (mutex_keys s)"
proof -
  have l: "length (mutex_states s) = VERIFIER_MAX_MUTEXES" using assms(1) by (simp add: verifier_wf_def)
  from assms(1) show ?thesis
    by (cases rule: find_mutex_create [where addr = a])
      (use assms(2) l in \<open>auto simp: mutex_keys_def mutex_slot_def nth_list_update_if split: if_splits\<close>)
qed

lemma observe_keys:
  assumes wf: "verifier_wf s" and ob: "observe_thread_sequence e s = (Some i, s1)"
  shows "thread_keys s1 \<subseteq> insert (ev_thread_id e) (thread_keys s)" and "mutex_keys s1 = mutex_keys s"
proof -
  obtain s0 where f: "find_thread (ev_thread_id e) True s = (Some i, s0)"
    and s1: "s1 = upd_thread i (observed (ev_thread_sequence e))
           (if ev_thread_sequence e = expected_seq (thread_states s0 ! i) then s0
            else note_gap i (ev_sequence_id e) s0)"
    using ob by (auto simp: observe_eq [OF wf] split: prod.splits option.splits)
  note keys = thread_keys_find [OF wf f]
  have "thread_slot s1 = thread_slot s0" by (simp add: s1 thread_slot_upd)
  with keys show "thread_keys s1 \<subseteq> insert (ev_thread_id e) (thread_keys s)" by (simp add: thread_keys_def)
  have len: "mutex_slot (note_gap i q s0) = mutex_slot s0" for q
    by (auto simp: fun_eq_iff mutex_slot_def note_gap_def mark_thread_stream_tainted_def Let_def
        invalidate_mutexes_owned_by_thread_def)
  have "mutex_slot s1 = mutex_slot s0"
    using len by (simp add: s1 mutex_slot_def fun_eq_iff)
  with keys show "mutex_keys s1 = mutex_keys s" by (simp add: mutex_keys_def)
qed

definition names_mutex :: "monitor_event \<Rightarrow> bool" where
  "names_mutex e \<longleftrightarrow> ev_event_type e = event_code MONITOR_EVENT_LOCK_REQUEST \<or>
     ev_event_type e = event_code MONITOR_EVENT_LOCK_ACQUIRED \<or> ev_event_type e = event_code MONITOR_EVENT_UNLOCKED"

definition takes_mutex :: "monitor_event \<Rightarrow> bool" where
  "takes_mutex e \<longleftrightarrow> ev_event_type e = event_code MONITOR_EVENT_LOCK_ACQUIRED"

text \<open>The table operations of a handler, one table at a time.\<close>

lemma dispatch_keys:
  assumes wf: "verifier_wf s" and slot: "thread_slot s (ev_thread_id e) i"
  shows "thread_keys (dispatch_event e s) = thread_keys s"
    and "mutex_keys (dispatch_event e s) \<subseteq> (if names_mutex e then insert (ev_object_address e) else id) (mutex_keys s)"
proof -
  let ?a = "ev_object_address e"
  obtain m s2 where f: "find_mutex ?a True s = (m, s2)" by (cases "find_mutex ?a True s")
  obtain r s3 where r: "release_held_mutex i e s2 = (r, s3)" by (cases "release_held_mutex i e s2")
  have t: "thread_slot s2 = thread_slot s" "thread_slot s3 = thread_slot s2"
    using thread_slot_ops(9) [of ?a True s] thread_slot_ops(8) [of i e s2] f r by simp_all
  have m3: "mutex_slot s3 = mutex_slot s2" using mutex_states_ops(8) [of i e s2] r by (intro mutex_slot_cong) simp
  have cong: "mutex_slot (clear_thread_waiting k a s) = mutex_slot s" "mutex_slot (set_thread_waiting k a q s) = mutex_slot s"
     "mutex_slot (add_held_mutex k a x s) = mutex_slot s" "mutex_slot (report_self_deadlock_candidate e s) = mutex_slot s"
     "mutex_slot (report_lock_held_at_thread_exit e u s) = mutex_slot s"
     "mutex_slot (report_non_owner_unlock e s) = mutex_slot s" "mutex_slot (upd_thread k g s) = mutex_slot s"
    for k a q x u g s
    by (rule mutex_slot_cong; simp)+
  note hs = dispatch_event_def handle_thread_start_def handle_thread_exit_def handle_lock_request_def
    handle_lock_acquired_def handle_lock_failed_def handle_unlocked_def handle_unlock_failed_def
  have "thread_slot (dispatch_event e s) = thread_slot s"
    using t r by (simp add: hs thread_slot_find [OF wf slot] f Let_def thread_slot_upd split: option.splits)
  then show "thread_keys (dispatch_event e s) = thread_keys s" by (rule keys_cong)
  have "mutex_slot (dispatch_event e s) \<in> {mutex_slot s, mutex_slot s2} \<and>
      (\<not> names_mutex e \<longrightarrow> mutex_slot (dispatch_event e s) = mutex_slot s)"
    using m3 r by (simp add: hs names_mutex_def thread_slot_find [OF wf slot] f Let_def mutex_slot_upd cong split: option.splits)
  then have "mutex_keys (dispatch_event e s) \<in> {mutex_keys s, mutex_keys s2} \<and>
      (\<not> names_mutex e \<longrightarrow> mutex_keys (dispatch_event e s) = mutex_keys s)"
    unfolding mutex_keys_def by auto
  then show "mutex_keys (dispatch_event e s) \<subseteq> (if names_mutex e then insert ?a else id) (mutex_keys s)"
    using mutex_keys_find [OF wf f] by auto
qed

lemma process_keys:
  assumes wf: "verifier_wf s"
  shows "thread_keys (monitor_verifier_process_event (Some e) s) \<subseteq> insert (ev_thread_id e) (thread_keys s)"
    and "mutex_keys (monitor_verifier_process_event (Some e) s) \<subseteq>
      (if names_mutex e then insert (ev_object_address e) else id) (mutex_keys s)"
proof -
  let ?p = "monitor_verifier_process_event (Some e) s"
  have "thread_keys ?p \<subseteq> insert (ev_thread_id e) (thread_keys s) \<and>
    mutex_keys ?p \<subseteq> (if names_mutex e then insert (ev_object_address e) else id) (mutex_keys s)"
    using wf
  proof (cases rule: process_event_cases [where e = e])
    case Full
    then show ?thesis by (auto simp: thread_keys_def mutex_keys_def mutex_slot_def)
  next
    case (Ok i s1)
    let ?s = "s\<lparr>processed_events := processed_events s + 1,
        last_processed_sequence := max (last_processed_sequence s) (ev_sequence_id e)\<rparr>"
    let ?s1 = "s1\<lparr>candidate_cycle_mask := 0, candidate_cycle_confirmations := 0\<rparr>"
    have wf': "verifier_wf ?s" using wf by simp
    have base: "thread_keys ?s = thread_keys s" "mutex_keys ?s = mutex_keys s" "thread_keys ?s1 = thread_keys s1" "mutex_keys ?s1 = mutex_keys s1"
      by (simp_all add: thread_keys_def mutex_keys_def mutex_slot_def)
    have "verifier_wf ?s1" "thread_slot ?s1 (ev_thread_id e) i" using Ok by simp_all
    note d = dispatch_keys [OF this]
    note o = observe_keys [OF wf' Ok(1)]
    from d o show ?thesis unfolding Ok(2) base by simp
  qed
  then show "thread_keys ?p \<subseteq> insert (ev_thread_id e) (thread_keys s)"
    and "mutex_keys ?p \<subseteq> (if names_mutex e then insert (ev_object_address e) else id) (mutex_keys s)" by blast+
qed

section \<open>No overflow\<close>

lemma card_held:
  assumes "thread_wf t"
  shows "card (dom (held_view t)) = unat (th_held_count t)"
proof -
  have "dom (held_view t) = set (map hm_address (live_held t))"
    by (simp add: held_view_def dom_map_of_conv_image_fst image_image)
  also have "card \<dots> = length (live_held t)"
    using assms distinct_card [of "map hm_address (live_held t)"] by (simp add: thread_wf_def)
  finally show ?thesis using assms by (simp add: length_live_held)
qed

lemma add_held_fits:
  assumes wf: "verifier_wf s" and slot: "thread_slot s tid i"
    and H: "finite H" "card H \<le> VERIFIER_MAX_HELD_MUTEXES" "a \<in> H" "dom (sp_held (thread_view s tid)) \<subseteq> H"
  shows "state_overflow_events (add_held_mutex i a ts s) = state_overflow_events s"
proof -
  let ?t = "thread_states s ! i"
  have t: "thread_wf ?t" "sp_held (thread_view s tid) = held_view ?t"
    using thread_slot_wf [OF wf slot] by (simp_all add: thread_view_slot [OF wf slot])
  have "unat (th_held_count ?t) < 32" if "find_held_mutex ?t a = None"
  proof -
    have "a \<notin> dom (held_view ?t)" using held_view_None [OF that] by auto
    from not_full [OF H(1) _ H(3) this H(2)] H(4) t(2) have "card (dom (held_view ?t)) \<noteq> 32" by simp
    with thread_wf_count(1) [OF t(1)] card_held [OF t(1)] show ?thesis by simp
  qed
  then show ?thesis by (auto simp: add_held_eq Let_def word_le_nat_alt split: option.splits)
qed

lemma find_mutex_fits:
  assumes wf: "verifier_wf s" and A: "finite A" "card A \<le> VERIFIER_MAX_MUTEXES" "a \<in> A" "mutex_keys s \<subseteq> A"
  obtains j s2 where "find_mutex a True s = (Some j, s2)"
  using wf
proof (cases rule: find_mutex_create [where addr = a])
  case Full
  then have "a \<notin> mutex_keys s" "card (mutex_keys s) = VERIFIER_MAX_MUTEXES"
    using card_table_keys(2) [OF wf] by (simp_all add: mutex_keys_def)
  with not_full [OF A(1,4,3) _ A(2)] show ?thesis by blast
qed (use that in blast)+

lemma dispatch_fits:
  assumes wf: "verifier_wf s" and slot: "thread_slot s (ev_thread_id e) i"
    and A: "finite A" "card A \<le> VERIFIER_MAX_MUTEXES" "mutex_keys s \<subseteq> A" "names_mutex e \<Longrightarrow> ev_object_address e \<in> A"
    and H: "finite H" "card H \<le> VERIFIER_MAX_HELD_MUTEXES" "dom (sp_held (thread_view s (ev_thread_id e))) \<subseteq> H"
      "takes_mutex e \<Longrightarrow> ev_object_address e \<in> H"
  shows "state_overflow_events (dispatch_event e s) = state_overflow_events s"
proof (cases "names_mutex e")
  case False
  then show ?thesis
    by (simp add: dispatch_event_def handle_thread_start_def handle_thread_exit_def handle_lock_failed_def
        handle_unlock_failed_def names_mutex_def thread_slot_find [OF wf slot] Let_def)
next
  case True
  let ?a = "ev_object_address e"
  obtain j s2 where f: "find_mutex ?a True s = (Some j, s2)" by (rule find_mutex_fits [OF wf A(1,2) A(4) [OF True] A(3)])
  note s2 = find_mutex_state [OF wf slot f]
  let ?s3 = "clear_thread_waiting i ?a s2"
  have s3: "verifier_wf ?s3" "thread_slot ?s3 (ev_thread_id e) i" using s2 wf_clear_waiting by auto
  have "sp_held (thread_view ?s3 (ev_thread_id e)) = sp_held (thread_view s (ev_thread_id e))"
    unfolding view_clear_waiting [OF s2(1,2)] s2(3) by (simp add: spec_clear_waiting_def)
  then have "state_overflow_events (add_held_mutex i ?a (ev_timestamp_ns e) ?s3) = state_overflow_events s" if "takes_mutex e"
    using add_held_fits [OF s3 H(1,2) H(4) [OF that], of "ev_timestamp_ns e"] H(3) s2(7) by simp
  moreover obtain r s4 where r: "release_held_mutex i e s2 = (r, s4)" by (cases "release_held_mutex i e s2")
  moreover have "state_overflow_events s4 = state_overflow_events s" using overflow_ops(3) [of i e s2] r s2(7) by simp
  ultimately show ?thesis
    using True s2(7)
    by (auto simp: dispatch_event_def names_mutex_def takes_mutex_def handle_lock_request_def handle_lock_acquired_def
        handle_unlocked_def thread_slot_find [OF wf slot] f Let_def)
qed

text \<open>Bounds on the keys of a whole trace: thread ids, mutex addresses, and each thread's mutexes.\<close>

definition fits :: "u64 set \<Rightarrow> uintptr set \<Rightarrow> (u64 \<Rightarrow> uintptr set) \<Rightarrow> verifier_state \<Rightarrow> bool" where
  "fits T A H s \<longleftrightarrow> thread_keys s \<subseteq> T \<and> mutex_keys s \<subseteq> A \<and> (\<forall>tid. dom (sp_held (thread_view s tid)) \<subseteq> H tid)"

lemma held_after:
  "dom (sp_held (thread_event e t)) \<subseteq> (if takes_mutex e then insert (ev_object_address e) else id) (dom (sp_held t))"
  by (auto simp: thread_event_def spec_observe_def spec_thread_step_def spec_acquire_def spec_clear_waiting_def
      spec_release_def takes_mutex_def Let_def split: option.splits if_splits)

lemma process_fits:
  assumes wf: "verifier_wf s" and fits: "fits T A H s"
    and T: "finite T" "card T \<le> VERIFIER_MAX_THREADS" "ev_thread_id e \<in> T"
    and A: "finite A" "card A \<le> VERIFIER_MAX_MUTEXES" "names_mutex e \<Longrightarrow> ev_object_address e \<in> A"
    and H: "finite (H (ev_thread_id e))" "card (H (ev_thread_id e)) \<le> VERIFIER_MAX_HELD_MUTEXES"
      "takes_mutex e \<Longrightarrow> ev_object_address e \<in> H (ev_thread_id e)"
  shows "state_overflow_events (monitor_verifier_process_event (Some e) s) = state_overflow_events s"
    and "fits T A H (monitor_verifier_process_event (Some e) s)"
proof -
  let ?p = "monitor_verifier_process_event (Some e) s"
  note F = fits [unfolded fits_def]
  show ov: "state_overflow_events ?p = state_overflow_events s"
    using wf
  proof (cases rule: process_event_cases [where e = e])
    case Full
    then have "ev_thread_id e \<notin> thread_keys s" "card (thread_keys s) = VERIFIER_MAX_THREADS"
      using card_table_keys(1) [OF wf] by (simp_all add: thread_keys_def)
    with not_full [OF T(1) _ T(3) _ T(2), of "thread_keys s"] F show ?thesis by blast
  next
    case (Ok i s1)
    let ?s = "s\<lparr>processed_events := processed_events s + 1,
        last_processed_sequence := max (last_processed_sequence s) (ev_sequence_id e)\<rparr>"
    let ?s1 = "s1\<lparr>candidate_cycle_mask := 0, candidate_cycle_confirmations := 0\<rparr>"
    have wf': "verifier_wf ?s" using wf by simp
    have "abs_view ?s = abs_view s" by (rule abs_view_cong) simp_all
    with view_observe [OF wf' Ok(1)] have "abs_view s1 = spec_note e (abs_view s)" by simp
    from arg_cong [OF this, of "\<lambda>v. view_thread v (ev_thread_id e)"]
    have "thread_view s1 (ev_thread_id e) = spec_observe (ev_thread_sequence e) (thread_view s (ev_thread_id e))"
      by (simp add: spec_note_def Let_def)
    then have "dom (sp_held (thread_view s1 (ev_thread_id e))) \<subseteq> H (ev_thread_id e)"
      using F by (auto simp: spec_observe_def)
    moreover have "mutex_keys s1 = mutex_keys s"
      using observe_keys(2) [OF wf' Ok(1)] by (simp add: mutex_keys_def mutex_slot_def)
    moreover have "thread_view ?s1 = thread_view s1" by (rule thread_view_cong) simp
    moreover have "mutex_keys ?s1 = mutex_keys s1" by (simp add: mutex_keys_def mutex_slot_def)
    moreover have "state_overflow_events s1 = state_overflow_events s" using overflow_observe [OF wf' Ok(1)] by simp
    moreover have "verifier_wf ?s1" "thread_slot ?s1 (ev_thread_id e) i" using Ok(3,4) by simp_all
    ultimately show ?thesis
      unfolding Ok(2) using dispatch_fits [of ?s1 e i A "H (ev_thread_id e)"] F A H by simp
  qed
  have "abs_view ?p = spec_process e (abs_view s)" by (rule process_refines [OF wf ov])
  from arg_cong [OF this, of view_thread]
  have tv: "thread_view ?p tid = (if tid = ev_thread_id e then thread_event e (thread_view s tid) else thread_view s tid)" for tid
    by (simp add: process_view_thread)
  have "dom (sp_held (thread_view ?p tid)) \<subseteq> H tid" for tid
  proof (cases "tid = ev_thread_id e")
    case True
    have "dom (sp_held (thread_event e (thread_view s tid))) \<subseteq> H tid"
    proof (rule subset_trans [OF held_after])
      show "(if takes_mutex e then insert (ev_object_address e) else id) (dom (sp_held (thread_view s tid))) \<subseteq> H tid"
        using F H(3) True by simp
    qed
    with True show ?thesis by (simp add: tv)
  qed (use F in \<open>simp add: tv\<close>)
  moreover have "thread_keys ?p \<subseteq> T" "mutex_keys ?p \<subseteq> A"
    using process_keys [OF wf, of e] F T(3) A(3) by (auto split: if_splits)
  ultimately show "fits T A H ?p" by (simp add: fits_def)
qed

section \<open>Traces within the capacities\<close>

text \<open>
  The events of a trace name at most 16 threads and at most 128 mutexes, and no thread
  acquires more than 32 different mutexes.
\<close>

definition addresses :: "monitor_event list \<Rightarrow> uintptr list" where
  "addresses es = remdups (map ev_object_address es)"

definition within_capacity :: "monitor_event list \<Rightarrow> bool" where
  "within_capacity es \<longleftrightarrow>
     length (remdups (map ev_thread_id es)) \<le> VERIFIER_MAX_THREADS \<and>
     length (addresses (filter names_mutex es)) \<le> VERIFIER_MAX_MUTEXES \<and>
     list_all (\<lambda>tid. length (addresses (filter takes_mutex (of_thread tid es))) \<le> VERIFIER_MAX_HELD_MUTEXES)
       (remdups (map ev_thread_id es))"

lemma run_fits:
  assumes "verifier_wf s" and "fits T A H s"
    and T: "finite T" "card T \<le> VERIFIER_MAX_THREADS" and A: "finite A" "card A \<le> VERIFIER_MAX_MUTEXES"
    and H: "\<And>tid. tid \<in> T \<Longrightarrow> finite (H tid) \<and> card (H tid) \<le> VERIFIER_MAX_HELD_MUTEXES"
    and es: "\<And>e. e \<in> set es \<Longrightarrow> ev_thread_id e \<in> T \<and> (names_mutex e \<longrightarrow> ev_object_address e \<in> A) \<and>
      (takes_mutex e \<longrightarrow> ev_object_address e \<in> H (ev_thread_id e))"
  shows "state_overflow_events (process_events es s) = state_overflow_events s"
  using assms(1,2) es
proof (induction es arbitrary: s)
  case (Cons e es)
  have e: "ev_thread_id e \<in> T" "names_mutex e \<Longrightarrow> ev_object_address e \<in> A"
    "takes_mutex e \<Longrightarrow> ev_object_address e \<in> H (ev_thread_id e)" using Cons.prems(3) [of e] by simp_all
  note step = process_fits [OF Cons.prems(1,2) T e(1) A e(2) conjunct1 [OF H [OF e(1)]] conjunct2 [OF H [OF e(1)]] e(3)]
  have "state_overflow_events (process_events es (monitor_verifier_process_event (Some e) s)) =
      state_overflow_events (monitor_verifier_process_event (Some e) s)"
    using Cons.prems(3) by (intro Cons.IH wf_process_Some [OF Cons.prems(1)] step) auto
  with step(1) show ?case by simp
qed simp

lemma fits_init: "fits T A H (monitor_verifier_init env s)"
proof -
  have "thread_keys (monitor_verifier_init env s) = {}" "mutex_keys (monitor_verifier_init env s) = {}"
    by (auto simp: thread_keys_def mutex_keys_def thread_slot_def mutex_slot_def monitor_verifier_init_def zero_defs)
  moreover have "thread_view (monitor_verifier_init env s) tid = fresh_thread" for tid
    using arg_cong [OF abs_init, of "\<lambda>v. view_thread v tid" env s] by (simp add: initial_view_def)
  ultimately show ?thesis by (simp add: fits_def fresh_thread_def)
qed

lemma within_bounds:
  assumes "within_capacity es"
  defines "T \<equiv> set (map ev_thread_id es)" and "A \<equiv> set (addresses (filter names_mutex es))"
    and "H \<equiv> \<lambda>tid. set (addresses (filter takes_mutex (of_thread tid es)))"
  shows "finite T" and "card T \<le> VERIFIER_MAX_THREADS" and "finite A" and "card A \<le> VERIFIER_MAX_MUTEXES"
    and "\<And>tid. tid \<in> T \<Longrightarrow> finite (H tid) \<and> card (H tid) \<le> VERIFIER_MAX_HELD_MUTEXES"
    and "\<And>e. e \<in> set es \<Longrightarrow> ev_thread_id e \<in> T \<and> (names_mutex e \<longrightarrow> ev_object_address e \<in> A) \<and>
      (takes_mutex e \<longrightarrow> ev_object_address e \<in> H (ev_thread_id e))"
proof -
  show "finite T" "finite A" by (simp_all add: T_def A_def)
  show "card T \<le> VERIFIER_MAX_THREADS" using assms(1) by (simp only: T_def within_capacity_def length_remdups_card_conv [symmetric])
  show "card A \<le> VERIFIER_MAX_MUTEXES"
    using assms(1) card_length [of "addresses (filter names_mutex es)"] unfolding within_capacity_def A_def by linarith
  show "finite (H tid) \<and> card (H tid) \<le> VERIFIER_MAX_HELD_MUTEXES" if "tid \<in> T" for tid
  proof -
    have "length (addresses (filter takes_mutex (of_thread tid es))) \<le> VERIFIER_MAX_HELD_MUTEXES"
      using assms(1) that by (auto simp: within_capacity_def list_all_iff T_def)
    with card_length [of "addresses (filter takes_mutex (of_thread tid es))"] show ?thesis by (simp add: H_def)
  qed
qed (auto simp: addresses_def T_def A_def H_def)

lemma capacity_overflow:
  assumes "within_capacity es"
  shows "state_overflow_events (process_events es (monitor_verifier_init env s)) = 0"
proof -
  note b = within_bounds [OF assms]
  have "state_overflow_events (process_events es (monitor_verifier_init env s)) = state_overflow_events (monitor_verifier_init env s)"
    by (rule run_fits [OF wf_init fits_init b(1-4)]) (fact b(5), rule b(6))
  then show ?thesis by (simp add: init_fields)
qed

text \<open>
  (C18) The verifier never overflows a table on a trace that names at most 16 threads and at
  most 128 mutexes and in which no thread acquires more than 32 different mutexes, however
  long the trace is and however it is ordered.
\<close>

theorem capacity_suffices:
  assumes "within_capacity es"
  shows "state_overflow_events (process_events es (monitor_verifier_init env s)) = 0"
  using assms by (rule capacity_overflow)

theorem capacity_suffices_witness:
  "state_overflow_events (process_events self_trace verifier_start) = 0"
proof -
  have "within_capacity self_trace"
    by (simp add: within_capacity_def self_trace_def trace_event_def addresses_def names_mutex_def takes_mutex_def)
  then show ?thesis by (rule capacity_suffices)
qed

end
