(* ===== verification/Trace_Verdicts.thy ===== *)
theory Trace_Verdicts
  imports Verifier_Checks Verifier_Capacity Pthreads
begin

text \<open>
  The verifier on traces made of one stream of calls per thread: its verdicts thread by
  thread, the counters at the end of the trace, and the wait-for graph.
\<close>

section \<open>Streams of events\<close>

text \<open>
  The events of one thread in a trace: \<open>cs\<close> in order, numbered from 0, all under its thread
  id; sequence ids and time stamps are whatever the run gave them.
\<close>

definition carries :: "monitor_event list \<Rightarrow> u64 \<Rightarrow> call_event list \<Rightarrow> bool" where
  "carries es tid cs \<longleftrightarrow>
     map (\<lambda>e. (ev_event_type e, ev_object_address e, ev_result e)) (of_thread tid es) =
       map (\<lambda>(k, a, r). (event_code k, a, r)) cs \<and>
     map ev_thread_sequence (of_thread tid es) = map of_nat [0..<length cs]"

text \<open>The verdicts on one thread's own events.\<close>

primrec thread_verdicts :: "u64 \<Rightarrow> monitor_event list \<Rightarrow> spec_thread \<Rightarrow> violation_kind list" where
  "thread_verdicts mh [] t = []"
| "thread_verdicts mh (e # es) t =
     (case spec_violation mh e (spec_observe (ev_thread_sequence e) t) of None \<Rightarrow> [] | Some k \<Rightarrow> [k]) @
     thread_verdicts mh es (thread_event e t)"

lemma verdict_of_thread:
  "spec_verdict mh e v = spec_violation mh e (spec_observe (ev_thread_sequence e) (view_thread v (ev_thread_id e)))"
  by (simp add: spec_verdict_def spec_note_def Let_def)

lemma count_verdicts:
  assumes "finite T" and "\<forall>e \<in> set es. ev_thread_id e \<in> T"
  shows "count_list (spec_verdicts mh es v) k =
    (\<Sum>tid\<in>T. count_list (thread_verdicts mh (of_thread tid es) (view_thread v tid)) k)"
  using assms(2)
proof (induction es arbitrary: v)
  case (Cons e es)
  let ?x = "case spec_verdict mh e v of None \<Rightarrow> [] | Some k \<Rightarrow> [k]" and ?v = "spec_process e v"
  let ?old = "\<lambda>tid. count_list (thread_verdicts mh (of_thread tid es) (view_thread ?v tid)) k"
  have "count_list (thread_verdicts mh (of_thread tid (e # es)) (view_thread v tid)) k =
      (if tid = ev_thread_id e then count_list ?x k else 0) + ?old tid" for tid
    by (simp add: verdict_of_thread process_view_thread split: option.splits)
  then have "(\<Sum>tid\<in>T. count_list (thread_verdicts mh (of_thread tid (e # es)) (view_thread v tid)) k) =
      (\<Sum>tid\<in>T. if tid = ev_thread_id e then count_list ?x k else 0) + (\<Sum>tid\<in>T. ?old tid)"
    by (simp add: sum.distrib)
  moreover have "(\<Sum>tid\<in>T. if tid = ev_thread_id e then count_list ?x k else 0) = count_list ?x k"
    using assms(1) Cons.prems by (simp add: sum.delta)
  moreover have "count_list (spec_verdicts mh es ?v) k = (\<Sum>tid\<in>T. ?old tid)" using Cons by simp
  ultimately show ?case by simp
qed simp

fun matches :: "nat \<Rightarrow> monitor_event list \<Rightarrow> call_event list \<Rightarrow> bool" where
  "matches j [] cs \<longleftrightarrow> cs = []"
| "matches j (e # es) cs \<longleftrightarrow> (\<exists>k a r cs'. cs = (k, a, r) # cs' \<and> ev_event_type e = event_code k \<and>
     ev_object_address e = a \<and> ev_result e = r \<and> ev_thread_sequence e = of_nat j \<and> matches (Suc j) es cs')"

lemma matches_Cons [simp]:
  "matches j es ((k, a, r) # cs) \<longleftrightarrow> (\<exists>e es'. es = e # es' \<and> ev_event_type e = event_code k \<and>
     ev_object_address e = a \<and> ev_result e = r \<and> ev_thread_sequence e = of_nat j \<and> matches (Suc j) es' cs)"
  by (cases es) auto

lemma matches_Nil [simp]: "matches j es [] \<longleftrightarrow> es = []"
  by (cases es) auto

lemma carries_matches:
  assumes "carries es tid cs"
  shows "matches 0 (of_thread tid es) cs"
proof -
  have "matches j fs cs"
    if "map (\<lambda>e. (ev_event_type e, ev_object_address e, ev_result e)) fs = map (\<lambda>(k, a, r). (event_code k, a, r)) cs"
      "map ev_thread_sequence fs = map of_nat [j..<j + length cs]" for j fs
    using that
  proof (induction fs arbitrary: j cs)
    case (Cons e fs)
    then obtain k a r cs' where cs: "cs = (k, a, r) # cs'" by (cases cs) auto
    have "map ev_thread_sequence fs = map of_nat [Suc j..<Suc j + length cs']" "ev_thread_sequence e = of_nat j"
      using Cons.prems(2) by (simp_all add: cs upt_conv_Cons del: upt_Suc)
    with Cons.IH [of cs' "Suc j"] Cons.prems(1) show ?case by (simp add: cs)
  qed simp
  from this [of "of_thread tid es" 0] assms show ?thesis by (simp add: carries_def)
qed

lemmas thread_rules = thread_event_def spec_observe_def spec_thread_step_def spec_violation_def spec_acquire_def
  spec_clear_waiting_def spec_release_def fresh_thread_def Let_def

lemma initial_thread [simp]: "view_thread initial_view tid = fresh_thread"
  by (simp add: initial_view_def)

section \<open>Holds\<close>

text \<open>
  The holds of a trace that exceed the threshold: acquisitions that the thread's next release
  of the same mutex follows by more than it, by their time stamps.
\<close>

definition releases :: "monitor_event \<Rightarrow> monitor_event \<Rightarrow> bool" where
  "releases e f \<longleftrightarrow> ev_event_type f = event_code MONITOR_EVENT_UNLOCKED \<and> ev_thread_id f = ev_thread_id e \<and>
     ev_object_address f = ev_object_address e"

definition long_hold :: "u64 \<Rightarrow> monitor_event \<Rightarrow> monitor_event list \<Rightarrow> bool" where
  "long_hold mh e es \<longleftrightarrow> ev_event_type e = event_code MONITOR_EVENT_LOCK_ACQUIRED \<and>
     (case find (releases e) es of None \<Rightarrow> False | Some f \<Rightarrow> held_too_long mh (ev_timestamp_ns e) (ev_timestamp_ns f))"

primrec long_holds :: "u64 \<Rightarrow> monitor_event list \<Rightarrow> nat" where
  "long_holds mh [] = 0"
| "long_holds mh (e # es) = (if long_hold mh e es then 1 else 0) + long_holds mh es"

lemma find_own: "find (releases e) (of_thread (ev_thread_id e) es) = find (releases e) es"
  by (induction es) (auto simp: releases_def)

lemma long_holds_threads:
  assumes "finite T" and "\<forall>e \<in> set es. ev_thread_id e \<in> T"
  shows "long_holds mh es = (\<Sum>tid\<in>T. long_holds mh (of_thread tid es))"
  using assms(2)
proof (induction es)
  case (Cons e es)
  let ?new = "if long_hold mh e es then 1 else 0 :: nat"
  have "long_holds mh (of_thread tid (e # es)) = (if tid = ev_thread_id e then ?new else 0) + long_holds mh (of_thread tid es)" for tid
    by (simp add: long_hold_def find_own)
  then have "(\<Sum>tid\<in>T. long_holds mh (of_thread tid (e # es))) =
      (\<Sum>tid\<in>T. if tid = ev_thread_id e then ?new else 0) + (\<Sum>tid\<in>T. long_holds mh (of_thread tid es))"
    by (simp add: sum.distrib)
  moreover have "(\<Sum>tid\<in>T. if tid = ev_thread_id e then ?new else 0) = ?new"
    using assms(1) Cons.prems by (simp add: sum.delta)
  ultimately show ?case using Cons by simp
qed simp

text \<open>A thread that causes its long holds' violations and at most one other, \<open>v\<close>.\<close>

definition judged :: "u64 \<Rightarrow> violation_kind option \<Rightarrow> monitor_event list \<Rightarrow> bool" where
  "judged mh v es \<longleftrightarrow> (\<forall>k. count_list (thread_verdicts mh es fresh_thread) k =
     (if k = HOLD_TIME_VIOLATION then long_holds mh es else if v = Some k then 1 else 0))"

section \<open>Whole runs\<close>

text \<open>
  A trace made of one stream per thread: at most 16 threads, each with its own sequence of
  calls, that use at most 32 mutexes between them, in any interleaving.
\<close>

fun uses_mutexes :: "uintptr list \<Rightarrow> call_event \<Rightarrow> bool" where
  "uses_mutexes ms (k, a, r) \<longleftrightarrow> a \<in> set ms \<or> k \<notin> {MONITOR_EVENT_LOCK_REQUEST, MONITOR_EVENT_LOCK_ACQUIRED, MONITOR_EVENT_UNLOCKED}"

definition consists_of :: "monitor_event list \<Rightarrow> (u64 \<times> call_event list) list \<Rightarrow> bool" where
  "consists_of es streams \<longleftrightarrow> set (map ev_thread_id es) \<subseteq> set (map fst streams) \<and>
     distinct (map fst streams) \<and> (\<forall>(tid, cs) \<in> set streams. carries es tid cs)"

text \<open>The same without the thread sequence numbers, which the runtime adds.\<close>

definition records :: "monitor_event list \<Rightarrow> (u64 \<times> call_event list) list \<Rightarrow> bool" where
  "records es streams \<longleftrightarrow> set (map ev_thread_id es) \<subseteq> set (map fst streams) \<and> distinct (map fst streams) \<and>
     (\<forall>(tid, cs) \<in> set streams. map (\<lambda>e. (ev_event_type e, ev_object_address e, ev_result e)) (of_thread tid es) =
        map (\<lambda>(k, a, r). (event_code k, a, r)) cs)"

lemma records_consists:
  assumes "records es streams" and "\<And>tid. map ev_thread_sequence (of_thread tid es) = map of_nat [0..<length (of_thread tid es)]"
  shows "consists_of es streams"
proof -
  have "carries es tid cs" if s: "(tid, cs) \<in> set streams" for tid cs
  proof -
    have c: "map (\<lambda>e. (ev_event_type e, ev_object_address e, ev_result e)) (of_thread tid es) = map (\<lambda>(k, a, r). (event_code k, a, r)) cs"
      using assms(1) s by (auto simp: records_def)
    moreover from arg_cong [OF c, of length] have "length (of_thread tid es) = length cs" by simp
    ultimately show ?thesis using assms(2) [of tid] by (simp add: carries_def)
  qed
  then show ?thesis using assms(1) by (auto simp: records_def consists_of_def)
qed

lemma carries_call:
  assumes "carries es (ev_thread_id e) cs" and "e \<in> set es"
  obtains k a r where "(k, a, r) \<in> set cs" and "ev_event_type e = event_code k" and "ev_object_address e = a"
proof -
  have "(ev_event_type e, ev_object_address e, ev_result e) \<in>
      set (map (\<lambda>e. (ev_event_type e, ev_object_address e, ev_result e)) (of_thread (ev_thread_id e) es))"
    using assms(2) by simp
  with assms(1) that show thesis by (auto simp: carries_def simp del: set_map) auto
qed

lemma length_addresses_le:
  assumes "\<And>e. e \<in> set es \<Longrightarrow> ev_object_address e \<in> set ms"
  shows "length (addresses es) \<le> length ms"
proof -
  have "length (addresses es) = card (ev_object_address ` set es)" by (simp add: addresses_def length_remdups_card_conv)
  also have "\<dots> \<le> card (set ms)" using assms by (intro card_mono) auto
  also have "\<dots> \<le> length ms" by (rule card_length)
  finally show ?thesis .
qed

lemma consists_capacity:
  assumes c: "consists_of es streams" and n: "length streams \<le> VERIFIER_MAX_THREADS"
    and ms: "length ms \<le> VERIFIER_MAX_HELD_MUTEXES" "\<forall>(tid, cs) \<in> set streams. list_all (uses_mutexes ms) cs"
  shows "within_capacity es"
proof -
  have named: "ev_object_address e \<in> set ms" if e: "e \<in> set es" "names_mutex e" for e
  proof -
    from c e(1) obtain cs where cs: "(ev_thread_id e, cs) \<in> set streams" "carries es (ev_thread_id e) cs"
      by (fastforce simp: consists_of_def)
    from cs(2) e(1) obtain k a r where k: "(k, a, r) \<in> set cs" "ev_event_type e = event_code k" "ev_object_address e = a"
      by (rule carries_call)
    from cs(1) k(1) ms(2) have "uses_mutexes ms (k, a, r)" by (fastforce simp: list_all_iff)
    with k e(2) show ?thesis by (cases k) (simp_all add: names_mutex_def)
  qed
  have "length (remdups (map ev_thread_id es)) = card (set (map ev_thread_id es))" by (rule length_remdups_card_conv)
  also have "\<dots> \<le> card (set (map fst streams))" using c by (intro card_mono) (simp_all add: consists_of_def)
  also have "\<dots> \<le> length streams" using card_length [of "map fst streams"] by simp
  finally have "length (remdups (map ev_thread_id es)) \<le> VERIFIER_MAX_THREADS" using n by simp
  moreover have "length (addresses (filter names_mutex es)) \<le> VERIFIER_MAX_MUTEXES"
    using length_addresses_le [of "filter names_mutex es" ms] named ms(1) by simp
  moreover have "length (addresses (filter takes_mutex (of_thread tid es))) \<le> VERIFIER_MAX_HELD_MUTEXES" for tid
    using length_addresses_le [of "filter takes_mutex (of_thread tid es)" ms] named ms(1)
    by (simp add: names_mutex_def takes_mutex_def)
  ultimately show ?thesis unfolding within_capacity_def list_all_iff by blast
qed

lemma consists_contiguous:
  assumes "consists_of es streams"
  shows "map ev_thread_sequence (of_thread tid es) = map of_nat [0..<length (of_thread tid es)]"
proof (cases "tid \<in> set (map fst streams)")
  case True
  then obtain cs where "(tid, cs) \<in> set streams" by auto
  then have "carries es tid cs" using assms by (auto simp: consists_of_def)
  then have "map ev_thread_sequence (of_thread tid es) = map of_nat [0..<length cs]" by (simp add: carries_def)
  moreover from arg_cong [OF this, of length] have "length (of_thread tid es) = length cs" by simp
  ultimately show ?thesis by simp
next
  case False
  then have "of_thread tid es = []" using assms by (auto simp: consists_of_def filter_empty_conv)
  then show ?thesis by simp
qed

text \<open>The violations of kind \<open>k\<close> in the streams, taken one by one.\<close>

definition stream_count :: "u64 \<Rightarrow> monitor_event list \<Rightarrow> (u64 \<times> call_event list) list \<Rightarrow> violation_kind \<Rightarrow> nat" where
  "stream_count mh es streams k = (\<Sum>(tid, cs)\<leftarrow>streams. count_list (thread_verdicts mh (of_thread tid es) fresh_thread) k)"

lemma consists_verdicts:
  assumes "consists_of es streams"
  shows "count_list (spec_verdicts mh es initial_view) k = stream_count mh es streams k"
proof -
  have d: "distinct (map fst streams)" "\<forall>e \<in> set es. ev_thread_id e \<in> set (map fst streams)"
    using assms by (auto simp: consists_of_def)
  have "count_list (spec_verdicts mh es initial_view) k =
      (\<Sum>tid\<leftarrow>map fst streams. count_list (thread_verdicts mh (of_thread tid es) fresh_thread) k)"
    unfolding count_verdicts [OF finite_set d(2)] sum_list_distinct_conv_sum_set [OF d(1)] by simp
  then show ?thesis by (simp add: stream_count_def comp_def case_prod_unfold)
qed

lemma judged_streams:
  assumes c: "consists_of es ss" and j: "\<And>tid cs. (tid, cs) \<in> set ss \<Longrightarrow> judged mh (f tid) (of_thread tid es)"
  shows "stream_count mh es ss k =
    (if k = HOLD_TIME_VIOLATION then long_holds mh es else length (filter (\<lambda>(tid, cs). f tid = Some k) ss))"
proof -
  have d: "distinct (map fst ss)" "\<forall>e \<in> set es. ev_thread_id e \<in> set (map fst ss)" using c by (auto simp: consists_of_def)
  have "stream_count mh es ss k = (\<Sum>(tid, cs)\<leftarrow>ss. if k = HOLD_TIME_VIOLATION then long_holds mh (of_thread tid es)
      else if f tid = Some k then 1 else 0)"
    using j unfolding stream_count_def by (intro arg_cong [of _ _ sum_list] map_cong) (auto simp: judged_def)
  moreover have "long_holds mh es = (\<Sum>tid\<leftarrow>map fst ss. long_holds mh (of_thread tid es))"
    unfolding long_holds_threads [OF finite_set d(2)] sum_list_distinct_conv_sum_set [OF d(1)] by simp
  moreover have "(\<Sum>(tid, cs)\<leftarrow>ss. if f tid = Some k then 1 else 0) = length (filter (\<lambda>(tid, cs). f tid = Some k) ss)"
    by (induction ss) auto
  ultimately show ?thesis by (simp add: comp_def case_prod_unfold)
qed

lemma consists_run:
  assumes c: "consists_of es streams" and n: "length streams \<le> VERIFIER_MAX_THREADS"
    and ms: "length ms \<le> VERIFIER_MAX_HELD_MUTEXES" "\<forall>(tid, cs) \<in> set streams. list_all (uses_mutexes ms) cs"
    and len: "length es < 2 ^ 64"
    and S_def: "S = process_events es (monitor_verifier_init env s)"
  shows "abs_view S = spec_run es initial_view" and "gap_free es initial_view" and "verifier_complete S"
    and "counter k S = of_nat (stream_count (load_configuration env) es streams k)"
proof -
  have ov: "state_overflow_events S = 0" unfolding S_def by (rule capacity_overflow [OF consists_capacity [OF c n ms]])
  show v: "abs_view S = spec_run es initial_view"
    using run_refines(1) [OF wf_init [of env s], where es = es] ov len by (simp add: S_def init_fields abs_init)
  have unt: "\<forall>tid. \<not> sp_tainted (view_thread initial_view tid)" by (simp add: fresh_thread_def)
  show g: "gap_free es initial_view"
    using consists_contiguous [OF c] by (simp add: gap_free_iff [OF unt]) (simp add: fresh_thread_def)
  have wf: "verifier_wf S" unfolding S_def by (rule wf_process_events [OF wf_init])
  show "verifier_complete S"
    using ov complete_iff_untainted [OF wf] v gap_free_untainted [OF unt g] by (simp add: verifier_complete_def)
  show "counter k S = of_nat (stream_count (load_configuration env) es streams k)"
    using run_refines(2) [OF wf_init [of env s], where es = es and k = k] ov len
    by (simp add: S_def init_fields abs_init consists_verdicts [OF c])
qed

section \<open>The wait-for graph from the views\<close>

lemma thread_view_entry:
  assumes "thread_view s tid \<noteq> fresh_thread"
  obtains t where "t \<in> set (thread_states s)" and "th_used t" and "th_thread_id t = tid" and "abs_thread t = thread_view s tid"
proof (cases "fst (find_thread_loop tid 0 None (thread_states s))")
  case None
  then show ?thesis using assms by (simp add: thread_view_def slot_view_def)
next
  case (Some i)
  then show ?thesis using that [of "thread_states s ! i"] threads.scan_found [OF Some]
    by (simp add: thread_view_def slot_view_def)
qed

lemma mutex_view_entry:
  assumes "mutex_view s a \<noteq> fresh_mutex"
  obtains m where "m \<in> set (mutex_states s)" and "mx_used m" and "mx_address m = a" and "abs_mutex m = mutex_view s a"
proof (cases "fst (find_mutex_loop a 0 None (mutex_states s))")
  case None
  then show ?thesis using assms by (simp add: mutex_view_def slot_view_def)
next
  case (Some i)
  then show ?thesis using that [of "mutex_states s ! i"] mutexes.scan_found [OF Some]
    by (simp add: mutex_view_def slot_view_def)
qed

lemma running_view:
  assumes "sp_waiting (thread_view s tid) = Some m" and "\<not> sp_tainted (thread_view s tid)" and "\<not> sp_exited (thread_view s tid)"
  obtains t where "running_thread s tid t" and "th_waiting_mutex t = m" and "m \<noteq> 0"
proof -
  have "thread_view s tid \<noteq> fresh_thread" using assms(1) by (auto simp: fresh_thread_def)
  then obtain t where t: "t \<in> set (thread_states s)" "th_used t" "th_thread_id t = tid" "abs_thread t = thread_view s tid"
    by (rule thread_view_entry)
  have "ptr_opt (th_waiting_mutex t) = Some m" "\<not> th_trace_tainted t" "\<not> th_exited t"
    using assms unfolding t(4) [symmetric] by simp_all
  with t(1-3) show thesis by (intro that [of t]) (auto simp: running_thread_def ptr_opt_def split: if_splits)
qed

lemma waits_for_view:
  assumes "sp_waiting (thread_view s a) = Some m" and "\<not> sp_tainted (thread_view s a)" and "\<not> sp_exited (thread_view s a)"
    and "sm_owner (mutex_view s m) = Owned b"
    and "sp_waiting (thread_view s b) = Some m'" and "\<not> sp_tainted (thread_view s b)" and "\<not> sp_exited (thread_view s b)"
  shows "waits_for s a m b"
proof -
  obtain t where "running_thread s a t" "th_waiting_mutex t = m" "m \<noteq> 0" by (rule running_view [OF assms(1-3)])
  moreover obtain u where "running_thread s b u" by (rule running_view [OF assms(5-7)])
  moreover have "mutex_view s m \<noteq> fresh_mutex" using assms(4) by (auto simp: fresh_mutex_def)
  then obtain x where x: "x \<in> set (mutex_states s)" "mx_used x" "mx_address x = m" "abs_mutex x = mutex_view s m"
    by (rule mutex_view_entry)
  have "sm_owner (abs_mutex x) = Owned b" using assms(4) unfolding x(4) .
  then have "mx_owner_known x" "mx_owner_thread_id x = b" "b \<noteq> 0"
    by (auto simp: abs_mutex_def owner_of_def split: if_splits)
  ultimately show ?thesis using x by (auto simp: waits_for_def)
qed

text \<open>Processing events touches neither mask of the deadlock check, except to clear the candidate.\<close>

definition masks :: "verifier_state \<Rightarrow> u32 \<times> u32" where
  "masks s = (candidate_cycle_mask s, reported_cycle_mask s)"

lemma masks_ops [simp]:
  "masks (set_thread_waiting i a q s) = masks s" "masks (clear_thread_waiting i a s) = masks s"
  "masks (add_held_mutex i a t0 s) = masks s" "masks (snd (release_held_mutex i e s)) = masks s"
  "masks (snd (find_mutex a c s)) = masks s" "masks (report_self_deadlock_candidate e s) = masks s"
  "masks (report_non_owner_unlock e s) = masks s" "masks (report_lock_held_at_thread_exit e t s) = masks s"
  "masks (upd_thread i f s) = masks s" "masks (upd_mutex i g s) = masks s" "masks (note_gap i q s) = masks s"
  by (simp_all add: masks_def set_thread_waiting_def clear_thread_waiting_def add_held_eq release_held_eq find_mutex_def Let_def
      report_hold_time_violation_def report_self_deadlock_candidate_def report_non_owner_unlock_def note_gap_def
      mark_thread_stream_tainted_def invalidate_mutexes_owned_by_thread_def
      report_lock_held_at_thread_exit_def split: option.splits prod.splits)

lemma masks_dispatch:
  assumes wf: "verifier_wf s" and slot: "thread_slot s (ev_thread_id e) i"
  shows "masks (dispatch_event e s) = masks s"
proof -
  obtain m s2 where f: "find_mutex (ev_object_address e) True s = (m, s2)" by (cases "find_mutex (ev_object_address e) True s")
  have s2: "masks s2 = masks s" using masks_ops(5) [of "ev_object_address e" True s] f by simp
  obtain r s3 where r: "release_held_mutex i e s2 = (r, s3)" by (cases "release_held_mutex i e s2")
  have s3: "masks s3 = masks s2" using masks_ops(4) [of i e s2] r by simp
  show ?thesis
    using s2 s3 r
    by (simp add: dispatch_event_def handle_thread_start_def handle_thread_exit_def handle_lock_request_def
        handle_lock_acquired_def handle_lock_failed_def handle_unlocked_def handle_unlock_failed_def
        thread_slot_find [OF wf slot] f Let_def split: option.splits)
qed

lemma masks_process:
  assumes wf: "verifier_wf s" and z: "masks s = (0, 0)"
  shows "masks (monitor_verifier_process_event (Some e) s) = (0, 0)"
  using wf
proof (cases rule: process_event_cases [where e = e])
  case Full
  then show ?thesis using z by (simp add: masks_def)
next
  case (Ok i s1)
  let ?s = "s\<lparr>processed_events := processed_events s + 1,
        last_processed_sequence := max (last_processed_sequence s) (ev_sequence_id e)\<rparr>"
  have wf': "verifier_wf ?s" using wf by simp
  obtain s0 where f: "find_thread (ev_thread_id e) True ?s = (Some i, s0)"
    and s1: "s1 = upd_thread i (observed (ev_thread_sequence e))
           (if ev_thread_sequence e = expected_seq (thread_states s0 ! i) then s0 else note_gap i (ev_sequence_id e) s0)"
    using Ok(1) by (auto simp: observe_eq [OF wf'] split: prod.splits option.splits)
  have "masks s0 = masks s" using f by (auto simp: masks_def find_thread_def split: prod.splits option.splits)
  then have "masks s1 = (0, 0)" using z by (simp add: s1)
  then show ?thesis using Ok(2-) by (simp add: masks_dispatch [where i = i]) (simp add: masks_def)
qed

lemma masks_run: "verifier_wf s \<Longrightarrow> masks s = (0, 0) \<Longrightarrow> masks (process_events es s) = (0, 0)"
  by (induction es arbitrary: s) (simp_all add: masks_process wf_process_Some)

section \<open>Concrete traces\<close>

definition target_event :: "u64 \<Rightarrow> u64 \<Rightarrow> nat \<Rightarrow> call_event \<Rightarrow> monitor_event" where
  "target_event q tid n c = (case c of (k, a, r) \<Rightarrow>
     \<lparr>ev_sequence_id = q, ev_timestamp_ns = 1000 + 100 * q, ev_thread_id = tid, ev_object_address = a,
      ev_event_type = event_code k, ev_result = r, ev_flags = 0, ev_thread_sequence = of_nat n\<rparr>)"

definition target_events :: "u64 \<Rightarrow> u64 \<Rightarrow> call_event list \<Rightarrow> monitor_event list" where
  "target_events q tid cs = map (\<lambda>(n, c). target_event (q + of_nat n) tid n c) (zip [0..<length cs] cs)"

lemmas hold_simps = long_hold_def releases_def target_events_def target_event_def held_too_long_def load_configuration_def upt_rec

lemmas run_simps = consists_of_def carries_def target_events_def target_event_def held_too_long_def
  load_configuration_def upt_rec

end
