(* ===== verification/Target_Verdicts.thy ===== *)
theory Target_Verdicts
  imports Target_One_Worker Target_Circular Target_Non_Owner Target_Correct Trace_Verdicts
begin

text \<open>
  What the verifier says about each scenario target: nothing about the correct one, exactly
  the intended violation about the others, and in every case a hold-time violation for each
  hold whose time stamps lie further apart than the threshold.  Each theorem is about every
  run of the whole program that has ended, without failing library calls, under every
  schedule, and every interleaving of its threads' events in the trace.
\<close>

section \<open>The correct target\<close>

text \<open>A thread between two rounds of its work: untainted, holding and awaiting nothing.\<close>

definition at_rest :: "nat \<Rightarrow> spec_thread \<Rightarrow> bool" where
  "at_rest j t \<longleftrightarrow> \<not> sp_tainted t \<and> sp_expected t = of_nat j \<and> sp_waiting t = None \<and> sp_held t = Map.empty"

lemma rounds_Suc_left: "rounds m (Suc n) = round_events m @ rounds m n"
  by (simp add: rounds_def)

lemma round_long_holds:
  assumes "ev_event_type e1 = event_code MONITOR_EVENT_LOCK_REQUEST" and "ev_event_type e2 = event_code MONITOR_EVENT_LOCK_ACQUIRED"
    and "releases e2 e3"
  shows "long_holds mh (e1 # e2 # e3 # es) =
    (if held_too_long mh (ev_timestamp_ns e2) (ev_timestamp_ns e3) then 1 else 0) + long_holds mh es"
  using assms by (simp add: long_hold_def releases_def)

lemma correct_rounds:
  assumes "matches j es (rounds m n @ [(MONITOR_EVENT_THREAD_EXIT, 0, 0)])" and "\<forall>e \<in> set es. ev_thread_id e = tid" and "at_rest j t"
  shows "count_list (thread_verdicts mh es t) k = (if k = HOLD_TIME_VIOLATION then long_holds mh es else 0)"
  using assms
proof (induction n arbitrary: j es t)
  case 0
  then show ?case by (auto simp: at_rest_def thread_rules long_hold_def)
next
  case (Suc n)
  from Suc.prems(1) obtain e1 e2 e3 es' where es: "es = e1 # e2 # e3 # es'"
    and e: "ev_event_type e1 = event_code MONITOR_EVENT_LOCK_REQUEST" "ev_object_address e1 = m" "ev_thread_sequence e1 = of_nat j"
      "ev_event_type e2 = event_code MONITOR_EVENT_LOCK_ACQUIRED" "ev_object_address e2 = m" "ev_thread_sequence e2 = of_nat (Suc j)"
      "ev_event_type e3 = event_code MONITOR_EVENT_UNLOCKED" "ev_object_address e3 = m" "ev_thread_sequence e3 = of_nat (Suc (Suc j))"
    and rest: "matches (Suc (Suc (Suc j))) es' (rounds m n @ [(MONITOR_EVENT_THREAD_EXIT, 0, 0)])"
    unfolding rounds_Suc_left by (auto simp: round_events_def)
  let ?t = "thread_event e3 (thread_event e2 (thread_event e1 t))"
  have rel: "releases e2 e3" using e Suc.prems(2) by (simp add: es releases_def)
  have "at_rest (Suc (Suc (Suc j))) ?t" using Suc.prems(3) e
    by (auto simp: at_rest_def thread_rules ptr_opt_def fun_eq_iff)
  then have "count_list (thread_verdicts mh es' ?t) k = (if k = HOLD_TIME_VIOLATION then long_holds mh es' else 0)"
    using Suc.IH [OF rest] Suc.prems(2) by (simp add: es)
  then show ?case using Suc.prems(3) e
    by (simp add: es round_long_holds [OF e(1,4) rel] at_rest_def thread_rules ptr_opt_def del: long_holds.simps)
qed

lemma correct_stream:
  assumes "matches 0 es (phase_events m n Ended)" and "\<forall>e \<in> set es. ev_thread_id e = tid" and "n \<noteq> 0"
  shows "judged mh None es"
proof -
  have "phase_events m n Ended = (MONITOR_EVENT_THREAD_START, 0, 0) # rounds m n @ [(MONITOR_EVENT_THREAD_EXIT, 0, 0)]"
    using assms(3) by (simp add: with_start_def)
  with assms(1) obtain e es' where es: "es = e # es'" "ev_event_type e = event_code MONITOR_EVENT_THREAD_START" "ev_thread_sequence e = 0"
    and rest: "matches (Suc 0) es' (rounds m n @ [(MONITOR_EVENT_THREAD_EXIT, 0, 0)])" by auto
  have "at_rest (Suc 0) (thread_event e fresh_thread)" using es by (simp add: at_rest_def thread_rules)
  note rounds = correct_rounds [where tid = tid, OF rest _ this]
  have "count_list (thread_verdicts mh es' (thread_event e fresh_thread)) k = (if k = HOLD_TIME_VIOLATION then long_holds mh es' else 0)" for k
    by (rule rounds) (use assms(2) in \<open>simp add: es\<close>)
  then show ?thesis using es by (simp add: judged_def thread_rules long_hold_def)
qed

lemma correct_uses: "list_all (uses_mutexes [m]) (phase_events m n Ended)"
proof -
  have "list_all (uses_mutexes [m]) (rounds m n)" by (induction n) (simp_all add: rounds_Suc_left round_events_def rounds_def [of m 0])
  then show ?thesis by (simp add: with_start_def)
qed

text \<open>Threads that only take and release one mutex cause no violation but those of long holds.\<close>

lemma rounds_count:
  assumes c: "consists_of es ss" and "\<forall>(tid, cs) \<in> set ss. \<exists>n. n \<noteq> 0 \<and> cs = phase_events m n Ended"
  shows "stream_count mh es ss k = (if k = HOLD_TIME_VIOLATION then long_holds mh es else 0)"
proof -
  have "judged mh None (of_thread tid es)" if s: "(tid, cs) \<in> set ss" for tid cs
  proof -
    obtain n where n: "n \<noteq> 0" "cs = phase_events m n Ended" using assms(2) s by blast
    have "carries es tid (phase_events m n Ended)" using c s n by (fastforce simp: consists_of_def)
    from correct_stream [OF carries_matches [OF this] _ n(1), of tid] show ?thesis by simp
  qed
  then show ?thesis by (subst judged_streams [OF c, of mh "\<lambda>_. None"]) simp_all
qed

lemma rounds_clean:
  assumes c: "consists_of es ss" and ph: "\<forall>(tid, cs) \<in> set ss. \<exists>n. n \<noteq> 0 \<and> cs = phase_events m n Ended"
    and "length ss \<le> VERIFIER_MAX_THREADS" and "length es < 2 ^ 64"
  shows "verifier_complete (process_events es (monitor_verifier_init env s))"
    and "counter k (process_events es (monitor_verifier_init env s)) =
      (if k = HOLD_TIME_VIOLATION then of_nat (long_holds (load_configuration env) es) else 0)"
proof -
  have n: "length [m] \<le> VERIFIER_MAX_HELD_MUTEXES" by simp
  have u: "\<forall>(tid, cs) \<in> set ss. list_all (uses_mutexes [m]) cs" using ph correct_uses by fastforce
  note run = consists_run(3,4) [OF c assms(3) n u assms(4) refl, where env = env and s = s]
  show "verifier_complete (process_events es (monitor_verifier_init env s))" using run(1) .
  show "counter k (process_events es (monitor_verifier_init env s)) =
      (if k = HOLD_TIME_VIOLATION then of_nat (long_holds (load_configuration env) es) else 0)"
    unfolding run(2) rounds_count [OF c ph] by simp
qed

lemma correct_phases:
  assumes "terminal (correct_main m N n) w"
  shows "\<forall>(tid, cs) \<in> set (streams tid w). \<exists>n. n \<noteq> 0 \<and> cs = phase_events m n Ended"
  using correct_streams [OF assms, of tid] by (auto simp del: upt_Suc phase_events.simps split: if_splits)

text \<open>
  The correct target.  Every run ends with the exit status of success, and with up
  to 16 workers, each making any number of rounds, the verifier finds no violation except
  the holds that were longer than the configured limit, and does not degrade its summary,
  whatever the interleaving of the workers' events.
\<close>

theorem correct_target_clean:
  assumes "terminal (correct_main m N n) w" and "consists_of es (streams tid w)"
    and "N \<le> VERIFIER_MAX_THREADS" and "length es < 2 ^ 64"
  shows "exit_code w = Some EXIT_SUCCESS \<and> verifier_complete (process_events es (monitor_verifier_init env s)) \<and>
    counter k (process_events es (monitor_verifier_init env s)) =
      (if k = HOLD_TIME_VIOLATION then of_nat (long_holds (load_configuration env) es) else 0)"
proof -
  have "correct_outcome m N n w" using correct_terminal assms(1) by (simp add: terminal_def)
  moreover have "length (streams tid w) \<le> VERIFIER_MAX_THREADS"
    using correct_streams [OF assms(1), of tid] assms(3) by simp
  ultimately show ?thesis
    using rounds_clean [OF assms(2) correct_phases [OF assms(1)] _ assms(4)] by (simp add: correct_outcome_def)
qed

section \<open>Targets with one worker\<close>

primrec scenario_verdict :: "scenario \<Rightarrow> violation_kind" where
  "scenario_verdict Self_Deadlock = SELF_DEADLOCK_CANDIDATE"
| "scenario_verdict Held_At_Exit = LOCK_HELD_AT_THREAD_EXIT"
| "scenario_verdict Hold_Time = HOLD_TIME_VIOLATION"

lemma scenario_stream:
  assumes "matches 0 es (scenario_events x m)" and "\<forall>e \<in> set es. ev_thread_id e = tid"
  shows "judged mh (if x = Hold_Time then None else Some (scenario_verdict x)) es"
  using assms by (cases x) (auto simp: judged_def thread_rules long_hold_def releases_def)

lemma scenario_uses: "list_all (uses_mutexes [m]) (scenario_events x m)"
  by (cases x) simp_all

lemma scenario_alone:
  assumes "consists_of es [(t, scenario_events x m)]"
  shows "of_thread t es = es" and "\<forall>e \<in> set es. ev_thread_id e = t" and "matches 0 es (scenario_events x m)"
proof -
  have c: "carries es t (scenario_events x m)" "\<forall>e \<in> set es. ev_thread_id e = t" using assms by (auto simp: consists_of_def)
  then show t: "of_thread t es = es" and "\<forall>e \<in> set es. ev_thread_id e = t" by (simp_all add: filter_id_conv)
  show "matches 0 es (scenario_events x m)" using carries_matches [OF c(1)] unfolding t .
qed

lemma never_released: "matches 0 es (scenario_events Held_At_Exit m) \<Longrightarrow> long_holds mh es = 0"
  by (auto simp: long_hold_def releases_def)

lemma scenario_count:
  assumes c: "consists_of es [(t, scenario_events x m)]"
  shows "stream_count mh es [(t, scenario_events x m)] k =
    (if k = HOLD_TIME_VIOLATION then long_holds mh es else if k = scenario_verdict x then 1 else 0)"
proof -
  have "judged mh (if x = Hold_Time then None else Some (scenario_verdict x)) (of_thread t es)"
    unfolding scenario_alone(1) [OF c] by (rule scenario_stream [OF scenario_alone(3,2) [OF c]])
  then show ?thesis using judged_streams [OF c, of mh "\<lambda>_. if x = Hold_Time then None else Some (scenario_verdict x)"] by auto
qed

subsection \<open>Time\<close>

text \<open>
  What the clock shows of the pauses of the threads.  \<^verbatim>\<open>nanosleep\<close>, unless a signal
  interrupts it, suspends its caller for at least the time it is given, and events are
  stamped with \<^verbatim>\<open>CLOCK_MONOTONIC_RAW\<close>; the kernel may slew the clock that \<^verbatim>\<open>nanosleep\<close> goes by
  against it by up to 500 ppm, for which a thousandth is allowed.  So of two successive events
  of a thread with a pause between them, the later has a stamp later by the pause, to a
  thousandth.
\<close>

definition pauses_shown :: "(nat \<times> u64) list \<Rightarrow> monitor_event list \<Rightarrow> bool" where
  "pauses_shown ps es \<longleftrightarrow> (\<forall>(n, d) \<in> set ps. 0 < n \<longrightarrow> n < length es \<longrightarrow>
     unat (ev_timestamp_ns (es ! (n - 1))) + (unat d - unat d div 1000) \<le> unat (ev_timestamp_ns (es ! n)))"

definition clock_shows_pauses :: "(nat \<Rightarrow> u64) \<Rightarrow> process \<Rightarrow> monitor_event list \<Rightarrow> bool" where
  "clock_shows_pauses tid w es \<longleftrightarrow> (\<forall>i < length (ts w). pauses_shown (pauses w i) (of_thread (tid i) es))"

lemma long_hold_shown:
  assumes "matches 0 es (scenario_events Hold_Time m)" and "\<forall>e \<in> set es. ev_thread_id e = tid"
    and "pauses_shown [(3, 200000000)] es" and "0 < mh" and "mh < 199800000"
  shows "long_holds mh es = 1"
proof -
  obtain e0 e1 e2 e3 e4 where es: "es = [e0, e1, e2, e3, e4]"
    and e: "ev_event_type e0 = event_code MONITOR_EVENT_THREAD_START" "ev_event_type e1 = event_code MONITOR_EVENT_LOCK_REQUEST"
      "ev_event_type e2 = event_code MONITOR_EVENT_LOCK_ACQUIRED" "ev_event_type e3 = event_code MONITOR_EVENT_UNLOCKED"
      "ev_event_type e4 = event_code MONITOR_EVENT_THREAD_EXIT" "ev_object_address e2 = m" "ev_object_address e3 = m"
    using assms(1) by auto
  have "unat (ev_timestamp_ns e2) + 199800000 \<le> unat (ev_timestamp_ns e3)" using assms(3) by (simp add: es pauses_shown_def)
  moreover have "unat mh < 199800000" using assms(5) by (simp add: word_less_nat_alt)
  ultimately have "held_too_long mh (ev_timestamp_ns e2) (ev_timestamp_ns e3)"
    using assms(4) by (auto simp: held_too_long_def word_le_nat_alt word_less_nat_alt unat_sub)
  then show ?thesis using e assms(2) by (simp add: es long_hold_def releases_def)
qed

lemma hold_time_shown:
  assumes t: "terminal (scenario_main Hold_Time m) w" and c: "consists_of es (streams tid w)"
    and "clock_shows_pauses tid w es" and "0 < mh" and "mh < 199800000"
  shows "long_holds mh es = 1"
proof -
  have cs: "consists_of es [(tid 1, scenario_events Hold_Time m)]" using c unfolding scenario_streams [OF t] .
  have "scenario_outcome Hold_Time m w" using inevitable_terminal [OF scenario_runs t] .
  then have "pauses w 1 = [(3, 200000000)]" "1 < length (ts w)" by (simp_all add: scenario_outcome_def)
  then have "pauses_shown [(3, 200000000)] (of_thread (tid 1) es)"
    using assms(3) unfolding clock_shows_pauses_def by metis
  then have "pauses_shown [(3, 200000000)] es" unfolding scenario_alone(1) [OF cs] .
  from long_hold_shown [OF scenario_alone(3,2) [OF cs] this assms(4,5)] show ?thesis .
qed

text \<open>
  (C20) The targets with one worker.  Every run of the self-deadlock, held-at-exit or
  hold-time target in which no library call fails ends with the exit status of success.  The
  summary is not degraded; the violations are one of the kind the target is named after, and
  those of the holds whose time stamps are further apart than the threshold, whatever the
  time stamps are; the held-at-exit target has no such hold.  The hold-time target has
  exactly the one violation if the threshold is not 0 and below 199.8 ms, as the default is,
  and the clock shows the pause that \<^verbatim>\<open>nanosleep\<close> promises.
\<close>

theorem one_worker_targets:
  assumes "terminal (scenario_main x m) w" and "consists_of es (streams tid w)" and "length es < 2 ^ 64"
  shows "exit_code w = Some EXIT_SUCCESS \<and> printed w 1 = scenario_lines x \<and>
    verifier_complete (process_events es (monitor_verifier_init env s)) \<and>
    counter k (process_events es (monitor_verifier_init env s)) =
      (if k = HOLD_TIME_VIOLATION then of_nat (long_holds (load_configuration env) es)
       else if k = scenario_verdict x then 1 else 0) \<and>
    (x = Held_At_Exit \<longrightarrow> long_holds (load_configuration env) es = 0) \<and>
    (x = Hold_Time \<and> clock_shows_pauses tid w es \<and> 0 < load_configuration env \<and> load_configuration env < 199800000 \<longrightarrow>
      counter HOLD_TIME_VIOLATION (process_events es (monitor_verifier_init env s)) = 1)"
proof -
  have cs: "consists_of es [(tid 1, scenario_events x m)]" using assms(2) unfolding scenario_streams [OF assms(1)] .
  have u: "length [(tid 1, scenario_events x m)] \<le> VERIFIER_MAX_THREADS" "length [m] \<le> VERIFIER_MAX_HELD_MUTEXES"
    "\<forall>(tid, cs) \<in> set [(tid 1, scenario_events x m)]. list_all (uses_mutexes [m]) cs" using scenario_uses by simp_all
  note run = consists_run(3,4) [OF cs u assms(3) refl, where env = env and s = s]
  have "scenario_outcome x m w" using inevitable_terminal [OF scenario_runs assms(1)] .
  moreover have "long_holds (load_configuration env) es = 1"
    if "x = Hold_Time \<and> clock_shows_pauses tid w es \<and> 0 < load_configuration env \<and> load_configuration env < 199800000"
    using hold_time_shown [OF _ assms(2)] assms(1) that by blast
  moreover have "x = Held_At_Exit \<Longrightarrow> long_holds (load_configuration env) es = 0"
    using scenario_alone(3) [OF cs] never_released by blast
  ultimately show ?thesis using run unfolding scenario_count [OF cs] by (simp add: scenario_outcome_def)
qed

section \<open>The non-owner unlock target\<close>

lemma owner_stream:
  assumes "matches 0 es (owner_events m)" and "\<forall>e \<in> set es. ev_thread_id e = tid"
  shows "judged mh None es"
  using assms by (auto simp: owner_events_def judged_def thread_rules long_hold_def releases_def)

lemma non_owner_stream:
  assumes "matches 0 es (non_owner_events m)"
  shows "judged mh (Some NON_OWNER_UNLOCK) es"
  using assms by (auto simp: non_owner_events_def judged_def thread_rules EPERM_def long_hold_def)

lemma non_owner_count:
  assumes cs: "consists_of es [(t, owner_events m), (u, non_owner_events m)]"
  shows "stream_count mh es [(t, owner_events m), (u, non_owner_events m)] k =
    (if k = HOLD_TIME_VIOLATION then long_holds mh es else if k = NON_OWNER_UNLOCK then 1 else 0)"
proof -
  have c: "carries es t (owner_events m)" "carries es u (non_owner_events m)" and tu: "t \<noteq> u" using cs by (simp_all add: consists_of_def)
  have "judged mh None (of_thread t es)" "judged mh (Some NON_OWNER_UNLOCK) (of_thread u es)"
    using owner_stream [OF carries_matches [OF c(1)], of t] non_owner_stream [OF carries_matches [OF c(2)]] by simp_all
  then show ?thesis
    using tu by (subst judged_streams [OF cs, of mh "\<lambda>tid. if tid = u then Some NON_OWNER_UNLOCK else None"]) auto
qed

text \<open>
  (C21) The non-owner target.  Under every schedule without failing library calls the run
  ends with the exit status of success; the attempt to unlock a mutex that another thread
  holds is refused with \<^verbatim>\<open>EPERM\<close>, and is the one violation judged, as a non-owner unlock,
  however the two streams interleave; the owner's own use adds a hold-time violation exactly
  if the time stamps of its acquisition and release are further apart than the threshold,
  because the schedule delayed the other thread.
\<close>

theorem non_owner_target:
  assumes "terminal (non_owner_main m) w" and "consists_of es (streams tid w)" and "length es < 2 ^ 64"
  shows "exit_code w = Some EXIT_SUCCESS \<and> verifier_complete (process_events es (monitor_verifier_init env s)) \<and>
    counter k (process_events es (monitor_verifier_init env s)) =
      (if k = HOLD_TIME_VIOLATION then of_nat (long_holds (load_configuration env) es)
       else if k = NON_OWNER_UNLOCK then 1 else 0)"
proof -
  have cs: "consists_of es [(tid 1, owner_events m), (tid 2, non_owner_events m)]"
    using assms(2) unfolding non_owner_streams [OF assms(1)] .
  have "non_owner_outcome m w" using inevitable_terminal [OF non_owner_runs assms(1)] .
  then show ?thesis
    using consists_run(3,4) [OF cs, of "[m]"] assms(3) non_owner_count [OF cs]
    by (simp add: owner_events_def non_owner_events_def EPERM_def non_owner_outcome_def)
qed

section \<open>The circular target\<close>

lemma crossing_stream:
  assumes "matches 0 es (crossing_log a b 5)"
  obtains e0 e1 e2 e3 where "es = [e0, e1, e2, e3]" and "ev_event_type e0 = event_code MONITOR_EVENT_THREAD_START"
    and "ev_event_type e1 = event_code MONITOR_EVENT_LOCK_REQUEST" and "ev_event_type e2 = event_code MONITOR_EVENT_LOCK_ACQUIRED"
    and "ev_event_type e3 = event_code MONITOR_EVENT_LOCK_REQUEST" and "ev_object_address e1 = a" and "ev_object_address e2 = a"
    and "ev_object_address e3 = b" and "ev_thread_sequence e0 = 0" and "ev_thread_sequence e1 = 1" and "ev_thread_sequence e2 = 2"
    and "ev_thread_sequence e3 = 3"
  using assms by (auto simp: crossing_log_def)

lemma crossing_silent:
  assumes "matches 0 es (crossing_log a b 5)" and "a \<noteq> b"
  shows "thread_verdicts mh es fresh_thread = []" and "long_holds mh es = 0"
  by (rule crossing_stream [OF assms(1)]; use assms(2) in \<open>simp add: thread_rules long_hold_def releases_def\<close>)+

lemma crossing_addresses:
  assumes "matches 0 es (crossing_log a b 5)" and "a \<noteq> 0" and "b \<noteq> 0" and "e \<in> set es"
  shows "lock_address_ok e"
  by (rule crossing_stream [OF assms(1)]) (use assms(2-) in \<open>auto simp: lock_address_ok_def\<close>)

lemma circular_view:
  assumes c: "consists_of es [(t1, crossing_log a b 5), (t2, crossing_log b a 5)]"
    and d: "distinct (map ev_sequence_id es)" and g: "gap_free es initial_view"
    and nz: "a \<noteq> b" "a \<noteq> 0" "b \<noteq> 0" "t1 \<noteq> 0" "t2 \<noteq> 0"
  defines "v \<equiv> spec_run es initial_view"
  shows "sp_waiting (view_thread v t1) = Some b" and "sp_waiting (view_thread v t2) = Some a"
    and "sm_owner (view_mutex v a) = Owned t1" and "sm_owner (view_mutex v b) = Owned t2"
    and "\<not> sp_tainted (view_thread v t1)" and "\<not> sp_tainted (view_thread v t2)"
    and "\<not> sp_exited (view_thread v t1)" and "\<not> sp_exited (view_thread v t2)"
proof -
  let ?fs = "of_thread t1 es @ of_thread t2 es"
  have t: "t1 \<noteq> t2" and ids: "\<forall>e \<in> set es. ev_thread_id e = t1 \<or> ev_thread_id e = t2"
    and m: "matches 0 (of_thread t1 es) (crossing_log a b 5)" "matches 0 (of_thread t2 es) (crossing_log b a 5)"
    using c carries_matches [of es t1] carries_matches [of es t2] by (auto simp: consists_of_def)
  have "of_thread tid es = of_thread tid ?fs" for tid
  proof -
    have twice: "of_thread tid (of_thread u es) = (if tid = u then of_thread u es else [])" for u
      by (auto simp: filter_empty_conv)
    have "of_thread tid es = []" if "tid \<noteq> t1" "tid \<noteq> t2" using ids that by (auto simp: filter_empty_conv)
    then show ?thesis unfolding filter_append twice using t by auto
  qed
  then have ss: "same_streams es ?fs" unfolding same_streams_def by blast
  from streams_interleave [OF ss d same_streams_seqs(1) [OF ss d] g]
  have v: "v = spec_run ?fs initial_view" by (simp add: v_def)
  have tid: "\<forall>e \<in> set (of_thread t1 es). ev_thread_id e = t1" "\<forall>e \<in> set (of_thread t2 es). ev_thread_id e = t2" by simp_all
  obtain e0 e1 e2 e3 where e: "of_thread t1 es = [e0, e1, e2, e3]" "ev_event_type e0 = event_code MONITOR_EVENT_THREAD_START"
      "ev_event_type e1 = event_code MONITOR_EVENT_LOCK_REQUEST" "ev_event_type e2 = event_code MONITOR_EVENT_LOCK_ACQUIRED"
      "ev_event_type e3 = event_code MONITOR_EVENT_LOCK_REQUEST" "ev_object_address e1 = a" "ev_object_address e2 = a"
      "ev_object_address e3 = b" "ev_thread_sequence e0 = 0" "ev_thread_sequence e1 = 1" "ev_thread_sequence e2 = 2"
      "ev_thread_sequence e3 = 3"
    by (rule crossing_stream [OF m(1)])
  obtain f0 f1 f2 f3 where f: "of_thread t2 es = [f0, f1, f2, f3]" "ev_event_type f0 = event_code MONITOR_EVENT_THREAD_START"
      "ev_event_type f1 = event_code MONITOR_EVENT_LOCK_REQUEST" "ev_event_type f2 = event_code MONITOR_EVENT_LOCK_ACQUIRED"
      "ev_event_type f3 = event_code MONITOR_EVENT_LOCK_REQUEST" "ev_object_address f1 = b" "ev_object_address f2 = b"
      "ev_object_address f3 = a" "ev_thread_sequence f0 = 0" "ev_thread_sequence f1 = 1" "ev_thread_sequence f2 = 2"
      "ev_thread_sequence f3 = 3"
    by (rule crossing_stream [OF m(2)])
  note ids4 = tid [unfolded e(1) f(1), simplified]
  have v8: "v = spec_run [e0, e1, e2, e3, f0, f1, f2, f3] initial_view" unfolding v e(1) f(1) by simp
  show "sp_waiting (view_thread v t1) = Some b" "sp_waiting (view_thread v t2) = Some a"
    "\<not> sp_tainted (view_thread v t1)" "\<not> sp_tainted (view_thread v t2)"
    "\<not> sp_exited (view_thread v t1)" "\<not> sp_exited (view_thread v t2)"
    using nz t ids4 e(2-) f(2-) unfolding v8 by (simp_all add: process_view_thread thread_rules ptr_opt_def)
  show "sm_owner (view_mutex v a) = Owned t1" "sm_owner (view_mutex v b) = Owned t2"
    using nz t ids4 e(2-) f(2-) unfolding v8
    by (simp_all add: spec_process_def spec_note_def spec_dispatch_def spec_gap_def spec_publish_def spec_accept_def owner_of_def
        thread_rules initial_view_def fresh_mutex_def)
qed

lemma crossing_count:
  assumes c: "consists_of es [(t, crossing_log a b 5), (u, crossing_log b a 5)]" and "a \<noteq> b"
  shows "stream_count mh es [(t, crossing_log a b 5), (u, crossing_log b a 5)] k = 0" and "long_holds mh es = 0"
proof -
  have m: "matches 0 (of_thread t es) (crossing_log a b 5)" "matches 0 (of_thread u es) (crossing_log b a 5)"
    using c carries_matches [of es t] carries_matches [of es u] by (auto simp: consists_of_def)
  note silent = crossing_silent [OF m(1) assms(2)] crossing_silent [OF m(2) assms(2) [symmetric]]
  then show none: "stream_count mh es [(t, crossing_log a b 5), (u, crossing_log b a 5)] k = 0" for k by (simp add: stream_count_def)
  have "judged mh None (of_thread t es)" "judged mh None (of_thread u es)" using silent by (simp_all add: judged_def)
  then have "stream_count mh es [(t, crossing_log a b 5), (u, crossing_log b a 5)] HOLD_TIME_VIOLATION = long_holds mh es"
    by (subst judged_streams [OF c, of mh "\<lambda>_. None"]) auto
  then show "long_holds mh es = 0" unfolding none by simp
qed

lemma circular_cycle:
  assumes c: "consists_of es [(t, crossing_log a b 5), (u, crossing_log b a 5)]"
    and d: "distinct (map ev_sequence_id es)" and g: "gap_free es initial_view"
    and nz: "a \<noteq> b" "a \<noteq> 0" "b \<noteq> 0" "t \<noteq> 0" "u \<noteq> 0" and v: "abs_view s = spec_run es initial_view"
  shows "wait_cycle s [t, u] [b, a]"
proof -
  note view = circular_view [OF c d g nz]
  have "waits_for s t b u" "waits_for s u a t"
    using waits_for_view [of s t b u a] waits_for_view [of s u a t b] view
    unfolding abs_view_sel [symmetric] v by simp_all
  moreover have "t \<noteq> u" using c by (simp add: consists_of_def)
  ultimately show ?thesis by (auto simp: wait_cycle_def less_Suc_eq)
qed

text \<open>
  (C19) The circular target.  Under every schedule its run comes to a halt without ending;
  then the verifier has, in whatever order it received the two streams, no violation and a
  wait-for cycle of the two threads; the first check reports nothing, the second reports
  the deadlock, and it stays one report for ever.
\<close>

theorem circular_target:
  assumes t: "terminal (circular_main a b) w" and es: "consists_of es (streams tid w)"
    and d: "distinct (map ev_sequence_id es)" and len: "length es < 2 ^ 64"
    and nz: "a \<noteq> b" "a \<noteq> 0" "b \<noteq> 0" "tid 1 \<noteq> 0" "tid 2 \<noteq> 0"
  shows "exit_code w = None \<and> verifier_complete (process_events es (monitor_verifier_init env s)) \<and>
    counter k (process_events es (monitor_verifier_init env s)) = 0 \<and>
    wait_cycle (process_events es (monitor_verifier_init env s)) [tid 1, tid 2] [b, a] \<and>
    deadlock_cycle_violations (monitor_verifier_check_deadlocks (process_events es (monitor_verifier_init env s))) = 0 \<and>
    deadlock_cycle_violations ((monitor_verifier_check_deadlocks ^^ (2 + n)) (process_events es (monitor_verifier_init env s))) = 1"
proof -
  let ?streams = "[(tid 1, crossing_log a b 5), (tid 2, crossing_log b a 5)]"
  let ?S = "process_events es (monitor_verifier_init env s)"
  have c: "consists_of es ?streams" using es unfolding circular_streams(2) [OF nz(1) t] .
  have n: "length ?streams \<le> VERIFIER_MAX_THREADS" "length [a, b] \<le> VERIFIER_MAX_HELD_MUTEXES" by simp_all
  have u: "\<forall>(tid, cs) \<in> set ?streams. list_all (uses_mutexes [a, b]) cs" by (simp add: crossing_log_def)
  note gap = consists_run(2) [OF c n u len refl]
  note run = consists_run(1,3,4) [OF c n u len refl, where env = env and s = s]
  have cycle: "wait_cycle ?S [tid 1, tid 2] [b, a]" by (rule circular_cycle [OF c d gap nz run(1)])
  have m: "matches 0 (of_thread (tid 1) es) (crossing_log a b 5)" "matches 0 (of_thread (tid 2) es) (crossing_log b a 5)"
    using c carries_matches [of es "tid 1"] carries_matches [of es "tid 2"] by (auto simp: consists_of_def)
  have zero: "counter k' ?S = 0" for k' unfolding run(3) crossing_count(1) [OF c nz(1)] by simp
  have "verifier_reachable lock_address_ok ?S"
  proof (intro reachable_process_events verifier_reachable.init)
    fix e assume e: "e \<in> set es"
    with c have "ev_thread_id e = tid 1 \<or> ev_thread_id e = tid 2" by (auto simp: consists_of_def)
    with e have "e \<in> set (of_thread (tid 1) es) \<or> e \<in> set (of_thread (tid 2) es)" by auto
    then show "lock_address_ok e" using crossing_addresses [OF m(1)] crossing_addresses [OF m(2)] nz by blast
  qed
  moreover have "masks ?S = (0, 0)"
    by (rule masks_run [OF wf_init]) (simp add: masks_def monitor_verifier_init_def)
  ultimately show ?thesis
    using persistent_deadlock [OF _ cycle, of n] run(2) zero cycle zero [of DEADLOCK_CYCLE] circular_streams(1) [OF nz(1) t]
    by (simp add: masks_def counter_def)
qed

section \<open>Concrete runs\<close>

definition some_tid :: "nat \<Rightarrow> u64" where
  "some_tid i = 10 + of_nat i"

theorem correct_target_clean_witness:
  "counter HOLD_TIME_VIOLATION (process_events
     (target_events 0 11 (phase_events 64 1 Ended) @ target_events 10 12 (phase_events 64 1 Ended)) verifier_start) = 0"
proof -
  let ?es = "target_events 0 11 (phase_events 64 1 Ended) @ target_events 10 12 (phase_events 64 1 Ended)"
  obtain w where w: "terminal (correct_main 64 2 1) w" by (rule some_terminal)
  have "streams some_tid w = [(11, phase_events 64 1 Ended), (12, phase_events 64 1 Ended)]"
    using correct_streams [OF w, of some_tid] by (simp add: some_tid_def upt_rec numeral_2_eq_2 del: phase_events.simps)
  moreover have "consists_of ?es [(11, phase_events 64 1 Ended), (12, phase_events 64 1 Ended)]"
    by (simp add: run_simps rounds_def round_events_def with_start_def)
  moreover have "long_holds (load_configuration None) ?es = 0"
    by (simp add: hold_simps rounds_def round_events_def with_start_def)
  moreover have "length ?es < 2 ^ 64" by (simp add: run_simps rounds_def round_events_def with_start_def)
  ultimately show ?thesis using correct_target_clean [OF w, of ?es some_tid None verifier_boot HOLD_TIME_VIOLATION] by simp
qed

text \<open>A run of the hold-time target whose release is stamped 200 ms after the acquisition.\<close>

definition hold_time_trace :: "monitor_event list" where
  "hold_time_trace = [target_event 0 11 0 (MONITOR_EVENT_THREAD_START, 0, 0), target_event 1 11 1 (MONITOR_EVENT_LOCK_REQUEST, 64, 0),
     target_event 2 11 2 (MONITOR_EVENT_LOCK_ACQUIRED, 64, 0), target_event 2000002 11 3 (MONITOR_EVENT_UNLOCKED, 64, 0),
     target_event 2000003 11 4 (MONITOR_EVENT_THREAD_EXIT, 0, 0)]"

theorem one_worker_targets_witness:
  "counter HOLD_TIME_VIOLATION (process_events hold_time_trace verifier_start) = 1"
proof -
  let ?es = hold_time_trace
  obtain w where w: "terminal (scenario_main Hold_Time 64) w" by (rule some_terminal)
  note trace = hold_time_trace_def target_event_def
  have "scenario_outcome Hold_Time 64 w" using inevitable_terminal [OF scenario_runs w] .
  then have shown: "clock_shows_pauses some_tid w ?es"
    by (auto simp: clock_shows_pauses_def pauses_shown_def scenario_outcome_def less_2_cases_iff some_tid_def trace)
  have "consists_of ?es [(11, scenario_events Hold_Time 64)]" by (simp add: run_simps trace)
  then have c: "consists_of ?es (streams some_tid w)" using scenario_streams [OF w, of some_tid] by (simp add: some_tid_def)
  have len: "length ?es < 2 ^ 64" by (simp add: trace)
  have "0 < load_configuration None" "load_configuration None < 199800000" by (simp_all add: load_configuration_def)
  with shown one_worker_targets [OF w c len, of None verifier_boot] show ?thesis by blast
qed

theorem non_owner_target_witness:
  "counter NON_OWNER_UNLOCK (process_events
     (target_events 0 11 (owner_events 64) @ target_events 10 12 (non_owner_events 64)) verifier_start) = 1"
proof -
  let ?es = "target_events 0 11 (owner_events 64) @ target_events 10 12 (non_owner_events 64)"
  obtain w where w: "terminal (non_owner_main 64) w" by (rule some_terminal)
  note defs = run_simps owner_events_def non_owner_events_def EPERM_def
  have "streams some_tid w = [(11, owner_events 64), (12, non_owner_events 64)]"
    using non_owner_streams [OF w, of some_tid] by (simp add: some_tid_def)
  moreover have "consists_of ?es [(11, owner_events 64), (12, non_owner_events 64)]" by (simp add: defs)
  moreover have "length ?es < 2 ^ 64" by (simp add: defs)
  ultimately show ?thesis using non_owner_target [OF w, of ?es some_tid None verifier_boot NON_OWNER_UNLOCK] by simp
qed

theorem circular_target_witness:
  "deadlock_cycle_violations ((monitor_verifier_check_deadlocks ^^ (2 + 40)) (process_events
     (target_events 0 11 (crossing_log 64 128 5) @ target_events 10 12 (crossing_log 128 64 5)) verifier_start)) = 1"
proof -
  let ?es = "target_events 0 11 (crossing_log 64 128 5) @ target_events 10 12 (crossing_log 128 64 5)"
  obtain w where w: "terminal (circular_main 64 128) w" by (rule some_terminal)
  note defs = run_simps crossing_log_def
  have "streams some_tid w = [(11, crossing_log 64 128 5), (12, crossing_log 128 64 5)]"
    using circular_streams(2) [OF _ w, of some_tid] by (simp add: some_tid_def)
  moreover have "consists_of ?es [(11, crossing_log 64 128 5), (12, crossing_log 128 64 5)]" by (simp add: defs)
  moreover have "distinct (map ev_sequence_id ?es)" by (simp add: defs)
  moreover have "length ?es < 2 ^ 64" by (simp add: defs)
  moreover have "some_tid 1 \<noteq> 0" "some_tid 2 \<noteq> 0" by (simp_all add: some_tid_def)
  ultimately show ?thesis
    using circular_target [OF w, of ?es some_tid None verifier_boot DEADLOCK_CYCLE 40] by simp
qed

end
