(* ===== verification/Benchmark_Properties.thy ===== *)
theory Benchmark_Properties
  imports Benchmark_Ends Verifier_Limits Target_Verdicts
begin

text \<open>
  Properties of the benchmark target: numbers on the command line, the bounds every accepted
  command line guarantees, the verdict under failures, how runs without failures end, and
  what the verifier says about them.
\<close>

section \<open>Arguments\<close>

lemma fmt_nat_ne: "fmt_nat n \<noteq> []"
  by (simp add: fmt_nat_def)

lemma strtoull_big: "2 ^ 64 \<le> m \<Longrightarrow> strtoull (fmt_nat m) = (-1, True, length (fmt_nat m))"
  using strtoull_digits [OF fmt_nat_ne, of m] fmt_nat_digits by (auto simp: digits_value_fmt_nat)

lemma strtoull_minus:
  assumes "n < 2 ^ 64"
  shows "strtoull (CHR ''-'' # fmt_nat n) = (- of_nat n, False, Suc (length (fmt_nat n)))"
proof -
  have "takeWhile c_isdigit (fmt_nat n) = fmt_nat n" using fmt_nat_digits by (metis takeWhile_eq_all_conv)
  then show ?thesis
    unfolding strtoull_def using assms fmt_nat_ne [of n]
    by (simp add: c_isspace_def digits_value_fmt_nat Let_def del: takeWhile_eq_all_conv)
qed

text \<open>
  (C40) Numbers on the command line.  Every decimal number below 2^64 is read back exactly;
  an empty text, a number of 2^64 or more, or a number followed by a character that is not
  a digit is refused.  A minus sign is accepted, and the value is negated modulo 2^64.
\<close>

theorem parse_u64_roundtrip:
  assumes "n < 2 ^ 64" and "2 ^ 64 \<le> m" and "\<not> c_isdigit c"
  shows "parse_u64 (fmt_nat n) = Some (of_nat n) \<and> parse_u64 [] = None \<and> parse_u64 (fmt_nat m) = None \<and>
    parse_u64 (fmt_nat n @ c # rest) = None \<and> parse_u64 (CHR ''-'' # fmt_nat n) = Some (- of_nat n)"
proof -
  note ne = fmt_nat_ne
  have tail: "snd (snd (strtoull (fmt_nat n @ c # rest))) = length (fmt_nat n)"
    using strtoull_stops [OF ne _ assms(3)] fmt_nat_digits by blast
  then have "parse_u64 (fmt_nat n @ c # rest) = None" by (auto simp: parse_u64_def split: prod.splits)
  moreover have "parse_u64 [] = None" by (simp add: parse_u64_def strtoull_def Let_def)
  ultimately show ?thesis
    using strtoull_fmt_nat [OF assms(1)] strtoull_big [OF assms(2)] strtoull_minus [OF assms(1)] ne
    by (simp add: parse_u64_def)
qed

theorem parse_u64_roundtrip_witness:
  "parse_u64 (fmt_nat 8) = Some 8 \<and> parse_u64 (fmt_nat 8 @ ''x'') = None \<and> parse_u64 (CHR ''-'' # fmt_nat 8) = Some (- 8)"
  using parse_u64_roundtrip [of 8 "2 ^ 64" "CHR ''x''" "[]"] by (simp add: c_isdigit_def)

definition config_ok :: "bench_config \<Rightarrow> bool" where
  "config_ok cfg \<longleftrightarrow> 0 < unat (threads cfg) \<and> unat (threads cfg) \<le> 64 \<and> iterations cfg \<noteq> 0"

lemma ucast_small: "(v :: u64) \<le> 64 \<Longrightarrow> unat (ucast v :: u32) = unat v"
proof -
  assume "v \<le> 64"
  then have "unat v \<le> 64" by (simp add: word_le_nat_alt)
  then show ?thesis by (simp add: unsigned_ucast_eq take_bit_nat_eq_self)
qed

lemma parse_args_ok: "parse_args args cfg = Inr cfg' \<Longrightarrow> config_ok cfg \<Longrightarrow> config_ok cfg'"
proof (induction args cfg rule: parse_args.induct)
  case (2 a as cfg)
  have th: "config_ok (cfg\<lparr>threads := ucast v\<rparr>)" if "v \<noteq> 0" "v \<le> 64" for v :: u64
    using that "2.prems"(2) ucast_small [OF that(2)] unat_gt_0 [of v] by (auto simp: config_ok_def word_le_nat_alt)
  have it: "config_ok (cfg\<lparr>iterations := v\<rparr>)" if "v \<noteq> 0" for v using that "2.prems"(2) by (simp add: config_ok_def)
  have wk: "config_ok (cfg\<lparr>work := v\<rparr>)" for v using "2.prems"(2) by (simp add: config_ok_def)
  show ?case
    using "2.prems"(1) "2.IH" th it wk by (auto split: if_splits option.splits simp: not_less)
qed simp

lemma setup_bounds:
  assumes "bench_setup args = Inr cfg"
  shows "1 \<le> unat (threads cfg) \<and> unat (threads cfg) \<le> 64 \<and> 1 \<le> unat (iterations cfg) \<and>
    unat (expected_ops cfg) = unat (iterations cfg) * unat (threads cfg)"
proof -
  have cfg: "config_ok cfg" and fits: "iterations cfg \<le> - 1 div ucast (threads cfg)"
    using assms parse_args_ok [of args default_config cfg]
    by (auto simp: bench_setup_def config_ok_def default_config_def split: sum.splits if_splits)
  have T: "unat (ucast (threads cfg) :: u64) = unat (threads cfg)" by (simp add: unsigned_ucast_eq take_bit_nat_eq_self order.strict_trans [OF unsigned_less])
  have "unat (iterations cfg) \<le> unat (- 1 :: u64) div unat (threads cfg)"
    using fits by (simp add: word_le_nat_alt unat_div T)
  then have "unat (iterations cfg) * unat (threads cfg) \<le> unat (- 1 :: u64)"
    using mult_le_mono1 [of _ _ "unat (threads cfg)"] div_times_less_eq_dividend le_trans by blast
  then have "unat (iterations cfg) * unat (threads cfg) < 2 ^ 64" by (simp add: unsigned_minus_1_eq_mask mask_eq_exp_minus_1)
  then have "unat (expected_ops cfg) = unat (iterations cfg) * unat (threads cfg)"
    by (simp add: expected_ops_def unat_word_ariths T)
  with cfg show ?thesis using unat_gt_0 [of "iterations cfg"] by (simp add: config_ok_def Suc_le_eq)
qed

text \<open>
  Accepted arguments.  Whatever the command line, a run only starts with 1 to 64
  threads, at least one iteration, and an operation count that fits 64 bits: the expected
  counter is the exact product.
\<close>

theorem accepted_arguments:
  assumes "bench_setup args = Inr cfg"
  shows "1 \<le> unat (threads cfg) \<and> unat (threads cfg) \<le> 64 \<and> 1 \<le> unat (iterations cfg) \<and>
    unat (expected_ops cfg) = unat (iterations cfg) * unat (threads cfg)"
  by (rule setup_bounds [OF assms])

lemma setup_example: "bench_setup [''--threads'', fmt_nat 2, ''--iterations'', fmt_nat 3] = Inr \<lparr>threads = 2, iterations = 3, work = 0\<rparr>"
  using strtoull_fmt_nat [of 2] strtoull_fmt_nat [of 3]
  by (simp add: bench_setup_def parse_u64_def default_config_def fmt_nat_def word_less_nat_alt unat_div unsigned_minus_1_eq_mask mask_eq_exp_minus_1)

theorem accepted_arguments_witness: "unat (expected_ops \<lparr>threads = 2, iterations = 3, work = 0\<rparr>) = 6"
  using accepted_arguments [OF setup_example] by simp

section \<open>Runs\<close>

text \<open>
  (C38) The benchmark's verdict.  Whatever calls fail, no two workers are in the critical
  section together; and exit status 0 means that all workers were created, all returned
  null, and no increment was lost.
\<close>

theorem benchmark_verdict:
  assumes "bench_setup args = Inr cfg" and "runs_with_faults (bench_main m program args) w"
  shows "(\<forall>i j. 0 < i \<and> i < length (ts w) \<and> in_critical (ts w ! i) \<and> 0 < j \<and> j < length (ts w) \<and> in_critical (ts w ! j) \<longrightarrow> i = j) \<and>
    (exit_code w = Some EXIT_SUCCESS \<longrightarrow>
       length (ts w) = Suc (unat (threads cfg)) \<and> (\<forall>i. 0 < i \<and> i \<le> unat (threads cfg) \<longrightarrow> ts w ! i = Finished 0) \<and>
       unat (vars w shared_counter) = unat (iterations cfg) * unat (threads cfg))"
proof -
  have ok: "0 < unat (threads cfg)" "unat (threads cfg) \<le> 64" "unat (expected_ops cfg) = unat (iterations cfg) * unat (threads cfg)"
    using setup_bounds [OF assms(1)] by simp_all
  have "runs_with_faults (bench_run m cfg) w" using assms by (simp add: bench_main_def)
  from bench_runs_typed [OF this ok(1,2)] obtain mp ps cs where c: "bench_at m cfg mp ps cs w"
    by (auto simp: bench_typed_def)
  show ?thesis using bench_exclusive [OF c] bench_success [OF c] ok(3) by auto
qed

lemma single_example: "bench_setup [''--threads'', fmt_nat 1, ''--iterations'', fmt_nat 1] = Inr \<lparr>threads = 1, iterations = 1, work = 0\<rparr>"
  using strtoull_fmt_nat [of 1]
  by (simp add: bench_setup_def parse_u64_def default_config_def fmt_nat_def word_less_nat_alt unat_div unsigned_minus_1_eq_mask mask_eq_exp_minus_1)

lemma some_bench_run:
  assumes "bench_setup args = Inr cfg"
  obtains w where "terminal (bench_main m program args) w" and "runs (bench_main m program args) w" and "bench_outcome m cfg w"
proof -
  obtain w where w: "terminal (bench_main m program args) w" by (rule some_terminal)
  then have "runs (bench_run m cfg) w" "stuck w" using assms by (simp_all add: terminal_def bench_main_def)
  then have "bench_outcome m cfg w" using bench_terminal [of m cfg w] setup_bounds [OF assms] by simp
  with w that [of w] show thesis by (simp add: terminal_def)
qed

theorem benchmark_verdict_witness:
  "\<exists>w. runs (bench_main 64 ''bench'' [''--threads'', fmt_nat 2, ''--iterations'', fmt_nat 3]) w \<and> unat (vars w shared_counter) = 6"
proof -
  obtain w where w: "runs (bench_main 64 ''bench'' [''--threads'', fmt_nat 2, ''--iterations'', fmt_nat 3]) w"
    and "bench_outcome 64 \<lparr>threads = 2, iterations = 3, work = 0\<rparr> w" by (rule some_bench_run [OF setup_example])
  then have "exit_code w = Some EXIT_SUCCESS" by (simp add: bench_outcome_def)
  with benchmark_verdict [OF setup_example runs_faulty [OF w]] w show ?thesis by auto
qed

text \<open>
  (C39) Runs of the benchmark.  Under every schedule of the main thread and the workers, with
  the barrier that starts them together, a run without failures never blocks before the
  process exits, cannot go on for ever, and ends with the report that says PASS, exit status
  0, the expected counter, and the complete stream of lock events of each worker.
\<close>

theorem benchmark_runs:
  assumes "bench_setup args = Inr cfg" and "runs (bench_main m program args) w"
  shows "(exit_code w = None \<longrightarrow> (\<exists>w'. step w w')) \<and> (stuck w \<longrightarrow> bench_outcome m cfg w) \<and>
    (\<nexists>f. f 0 = w \<and> (\<forall>k. step (f k) (f (Suc k))))"
proof -
  have ok: "0 < unat (threads cfg)" "unat (threads cfg) \<le> 64" using setup_bounds [OF assms(1)] by simp_all
  have r: "runs (bench_run m cfg) w" using assms by (simp add: bench_main_def)
  from bench_runs_clean [OF r ok] have "exit_code w = None \<longrightarrow> (\<exists>w'. step w w')"
    using bench_goes_on [OF _ _ _ ok(1)] by (auto simp: bench_clean_def)
  moreover have "stuck w \<longrightarrow> bench_outcome m cfg w" using bench_terminal [OF r ok] by auto
  ultimately show ?thesis using every_run_ends by blast
qed

theorem benchmark_runs_witness:
  "\<exists>w. runs (bench_main 64 ''bench'' [''--threads'', fmt_nat 1, ''--iterations'', fmt_nat 1]) w \<and> exit_code w = Some EXIT_SUCCESS"
proof -
  obtain w where w: "terminal (bench_main 64 ''bench'' [''--threads'', fmt_nat 1, ''--iterations'', fmt_nat 1]) w" by (rule some_terminal)
  then have r: "runs (bench_main 64 ''bench'' [''--threads'', fmt_nat 1, ''--iterations'', fmt_nat 1]) w" "stuck w" by (simp_all add: terminal_def)
  from benchmark_runs [OF single_example r(1)] r show ?thesis by (auto simp: bench_outcome_def)
qed

text \<open>
  The benchmark under the monitor.  With at most 16 threads, the verifier finds no
  violation in the events of a run except the holds that were longer than the configured
  limit, and does not degrade its summary, whatever the interleaving of the workers' events.
\<close>

theorem benchmark_clean:
  assumes "bench_setup args = Inr cfg" and "terminal (bench_main m program args) w" and "consists_of es (streams tid w)"
    and "threads cfg \<le> 16" and "length es < 2 ^ 64"
  shows "verifier_complete (process_events es (monitor_verifier_init env s)) \<and>
    counter k (process_events es (monitor_verifier_init env s)) =
      (if k = HOLD_TIME_VIOLATION then of_nat (long_holds (load_configuration env) es) else 0)"
proof -
  have ok: "0 < unat (threads cfg)" "unat (threads cfg) \<le> 64" "0 < unat (iterations cfg)" using setup_bounds [OF assms(1)] by simp_all
  have T: "unat (threads cfg) \<le> VERIFIER_MAX_THREADS" using assms(4) by (simp add: word_le_nat_alt)
  have t: "terminal (bench_run m cfg) w" using assms(1,2) by (simp add: bench_main_def)
  have "length (streams tid w) \<le> VERIFIER_MAX_THREADS"
    "\<forall>(tid, cs) \<in> set (streams tid w). \<exists>n. n \<noteq> 0 \<and> cs = phase_events m n Ended"
    using T ok(3) unfolding bench_streams [OF t ok] by (auto simp del: upt_Suc phase_events.simps)
  then show ?thesis using rounds_clean [OF assms(3) _ _ assms(5), where m = m] by blast
qed

theorem benchmark_clean_witness:
  "counter HOLD_TIME_VIOLATION (process_events (target_events 0 11 (phase_events 64 1 Ended)) verifier_start) = 0"
proof -
  let ?es = "target_events 0 11 (phase_events 64 1 Ended)"
  obtain w where w: "terminal (bench_main 64 ''bench'' [''--threads'', fmt_nat 1, ''--iterations'', fmt_nat 1]) w" by (rule some_terminal)
  then have "terminal (bench_run 64 \<lparr>threads = 1, iterations = 1, work = 0\<rparr>) w" unfolding bench_main_def single_example by simp
  from bench_streams [OF this, of some_tid] have "streams some_tid w = [(11, phase_events 64 1 Ended)]"
    by (simp add: some_tid_def del: phase_events.simps)
  moreover have "consists_of ?es [(11, phase_events 64 1 Ended)]"
    by (simp add: run_simps rounds_def round_events_def with_start_def)
  moreover have "long_holds (load_configuration None) ?es = 0"
    by (simp add: hold_simps rounds_def round_events_def with_start_def)
  moreover have "length ?es < 2 ^ 64" by (simp add: run_simps rounds_def round_events_def with_start_def)
  ultimately show ?thesis using benchmark_clean [OF single_example w, of ?es some_tid None verifier_boot HOLD_TIME_VIOLATION] by simp
qed

section \<open>Refused command lines\<close>

lemma complain_and_exit:
  assumes "settle p = (ls, Done r)" and "terminal p w"
  shows "exit_code w = Some r \<and> printed w 0 = ls \<and> length (ts w) = 1 \<and> events w = (\<lambda>_. [])"
proof -
  let ?P = "\<lambda>w. exit_code w = Some r \<and> printed w 0 = ls \<and> length (ts w) = 1 \<and> events w = (\<lambda>_. [])"
  let ?v = "(boot p)\<lparr>ts := [Finished r], exit_code := Some r\<rparr>"
  have "inevitable ?P (boot p)"
  proof (rule inevitable_next [where v = ?v])
    show "exit_code (boot p) = None" by (simp add: boot_def)
    show "step (boot p) w' \<longleftrightarrow> w' = ?v" for w' using assms(1) by (auto simp: step_def boot_def act_simps)
    show "inevitable ?P ?v" using assms(1) by (intro inevitable_exited) (simp_all add: boot_def)
  qed
  then show ?thesis using assms(2) by (rule inevitable_terminal)
qed

text \<open>
  Refused command lines.  The process prints the usage text, or says that the number of
  operations overflows, and exits: with status 0 exactly when help was asked for, and without
  a thread or a monitored call.
\<close>

theorem benchmark_refuses:
  assumes "bench_setup args = Inl e" and "terminal (bench_main m program args) w"
  shows "exit_code w = Some (if e = Usage_Success then EXIT_SUCCESS else EXIT_FAILURE) \<and>
    printed w 0 = (if e = Overflow_Failure then [''Requested operation count overflows uint64_t'']
      else [''Usage: '' @ program @ '' [--threads N] [--iterations N] [--work N]'', [],
        ''  --threads     worker threads (1..64), default 4'', ''  --iterations  lock/unlock iterations per thread, default 250000'',
        ''  --work        arithmetic operations inside critical section, default 0'']) \<and>
    length (ts w) = 1 \<and> events w = (\<lambda>_. [])"
proof -
  have "fmt_u (ucast BENCH_MAX_THREADS) = ''64''" by code_simp
  then show ?thesis
    using complain_and_exit [OF _ assms(2)] assms(1) by (cases e) (simp_all add: bench_main_def usage_def)
qed

theorem benchmark_refuses_witness: "\<exists>w. runs (bench_main 64 ''bench'' [''--threads'', fmt_nat 0]) w \<and> exit_code w = Some EXIT_FAILURE"
proof -
  obtain w where w: "terminal (bench_main 64 ''bench'' [''--threads'', fmt_nat 0]) w" by (rule some_terminal)
  have "bench_setup [''--threads'', fmt_nat 0] = Inl Usage_Failure"
    using strtoull_fmt_nat [of 0] by (simp add: bench_setup_def parse_u64_def default_config_def fmt_nat_def)
  from benchmark_refuses [OF this w] w show ?thesis by (auto simp: terminal_def)
qed

end
