(* ===== verification/Target_Properties.thy ===== *)
theory Target_Properties
  imports Target_Correct
begin

text \<open>
  Properties of the correct target as a program: its typing is kept whatever fails, a run
  without failures never blocks, and every run ends.
\<close>

text \<open>
  (C22) Type safety of the correct target.  Whatever calls fail, every state the process
  reaches is typed: its threads are at a known place of the program, the count of increments
  fits the counter, and a worker that is about to read, write or unlock owns the mutex.  As
  long as nothing has failed and the process has not ended, some thread can go on.
\<close>

theorem correct_type_safety:
  assumes "runs_with_faults (correct_main m N n) w"
  shows "correct_typed m N n w \<and>
    (\<forall>i. 0 < i \<and> i < length (ts w) \<and> in_critical (ts w ! i) \<longrightarrow> owner w m = Some i) \<and>
    (runs (correct_main m N n) w \<and> exit_code w = None \<longrightarrow> (\<exists>w'. step w w'))"
proof -
  have "\<exists>w'. step w w'" if "runs (correct_main m N n) w" "exit_code w = None"
    using correct_runs_quiet [OF that(1)] correct_moves [OF _ _ that(2)] by (auto simp: correct_quiet_def)
  then show ?thesis using correct_runs_typed [OF assms] in_critical_owner by blast
qed

theorem correct_type_safety_witness: "\<exists>w'. step (boot (correct_main 64 4 250000)) w'"
  using correct_type_safety [OF faulty_boot, of 64 4 250000] runs_boot [of "correct_main 64 4 250000"] by (simp add: boot_def)

text \<open>
  (C23) Runs of the correct target.  From any state it reaches, the process cannot run for
  ever, whatever fails.  If nothing fails it ends, under every schedule, with exit status 0,
  the exact counter, the line that says PASS, and the complete streams of lock events of all
  workers; and exit status 0 is never returned with a lost increment or a failed worker, even
  if calls fail.
\<close>

theorem correct_target_runs:
  assumes "runs_with_faults (correct_main m N n) w"
  shows "(\<nexists>f. f 0 = w \<and> (\<forall>k. step (f k) (f (Suc k)) \<or> fault_step (f k) (f (Suc k)))) \<and>
    (terminal (correct_main m N n) w \<longrightarrow> correct_outcome m N n w) \<and>
    (exit_code w = Some EXIT_SUCCESS \<longrightarrow> length (ts w) = Suc N \<and> vars w shared_counter = of_nat N * of_nat n \<and>
       (\<forall>i. 0 < i \<and> i \<le> N \<longrightarrow> ts w ! i = Finished 0))"
  using every_run_ends correct_terminal [of m N n w] correct_under_faults [OF assms] unfolding terminal_def by presburger

theorem correct_target_runs_witness: "\<exists>w. runs (correct_main 64 4 250000) w \<and> vars w shared_counter = 1000000"
proof -
  obtain w where w: "terminal (correct_main 64 4 250000) w" by (rule some_terminal)
  then have "runs (correct_main 64 4 250000) w" by (simp add: terminal_def)
  with correct_target_runs [OF runs_faulty [OF this]] w show ?thesis by (auto simp: correct_outcome_def)
qed

end
