(* ===== verification/Sessions.thy ===== *)
theory Sessions
  imports Runtime_Properties Trace_Verdicts Pthread_Runs
begin

text \<open>
  A program and the monitor in one process: the threads of \<open>Pthreads\<close> make their calls, the
  interceptor passes each to the runtime, and the steps of \<open>Runtime_Steps\<close> record it.
\<close>

section \<open>Sessions\<close>

text \<open>
  The program, the monitor, and for each thread the calls the interceptor still has to pass
  on.  The counters tell the calls that left no event: refused for lack of a context, ends of
  threads the runtime has no key value for, and calls after the stop request.
\<close>

record session =
  program :: process
  monitor :: system
  calls :: "nat \<Rightarrow> call_event list"
  refused :: nat
  unnoticed :: nat
  late :: nat

abbreviation start_call :: call_event where "start_call \<equiv> (MONITOR_EVENT_THREAD_START, 0, 0)"
abbreviation exit_call :: call_event where "exit_call \<equiv> (MONITOR_EVENT_THREAD_EXIT, 0, 0)"

text \<open>A thread is busy while a call of the monitor is due or under way.\<close>

definition busy :: "session \<Rightarrow> nat \<Rightarrow> bool" where
  "busy z i \<longleftrightarrow> calls z i \<noteq> [] \<or> sys_app (monitor z) i \<noteq> A_Idle"

text \<open>The calls of the interceptor in a step of thread \<open>i\<close>; the start event is the runtime's own.\<close>

definition new_calls :: "nat \<Rightarrow> process \<Rightarrow> process \<Rightarrow> call_event list" where
  "new_calls i w w' = filter (\<lambda>c. fst c \<noteq> MONITOR_EVENT_THREAD_START) (drop (length (events w i)) (events w' i))"

definition take_call :: "nat \<Rightarrow> system \<Rightarrow> session \<Rightarrow> session" where
  "take_call i y z = z\<lparr>monitor := y, calls := (calls z)(i := tl (calls z i))\<rparr>"

definition due :: "session \<Rightarrow> nat \<Rightarrow> call_event option" where
  "due z i = (case calls z i of [] \<Rightarrow> None | c # cs \<Rightarrow> Some c)"

text \<open>
  A thread computes only when it is not inside the monitor, and joins a thread whose exit
  destructor has returned.  The kernel gives thread \<open>i\<close> the id \<open>tid i\<close>.  The library's
  destructor stops the monitor when the program has ended.
\<close>

inductive session_step :: "(nat \<Rightarrow> u64) \<Rightarrow> session \<Rightarrow> session \<Rightarrow> bool" for tid where
  computes: "exit_code (program z) = None \<Longrightarrow> i < length (ts (program z)) \<Longrightarrow> \<not> busy z i \<Longrightarrow>
    (\<And>j k. ts (program z) ! i = Running (Join j k) \<Longrightarrow> \<not> busy z j) \<Longrightarrow>
    act i (ts (program z) ! i) (program z) w \<Longrightarrow>
    session_step tid z (z\<lparr>program := w, calls := (calls z)(i := new_calls i (program z) w)\<rparr>)"
| passes: "due z i = Some c \<Longrightarrow> fst c \<noteq> MONITOR_EVENT_THREAD_EXIT \<Longrightarrow> sys_act (Calls i c) (monitor z) y \<Longrightarrow>
    session_step tid z (take_call i y z)"
| refuses: "due z i = Some c \<Longrightarrow> fst c \<noteq> MONITOR_EVENT_THREAD_EXIT \<Longrightarrow> sys_act (Refuses i) (monitor z) y \<Longrightarrow>
    session_step tid z (take_call i y z\<lparr>refused := Suc (refused z)\<rparr>)"
| comes_late: "due z i = Some c \<Longrightarrow> fst c \<noteq> MONITOR_EVENT_THREAD_EXIT \<Longrightarrow> sys_app (monitor z) i = A_Idle \<Longrightarrow>
    \<not> accept_events (sys_rt (monitor z)) \<Longrightarrow>
    session_step tid z (take_call i (monitor z) z\<lparr>late := Suc (late z)\<rparr>)"
| ends: "due z i = Some c \<Longrightarrow> fst c = MONITOR_EVENT_THREAD_EXIT \<Longrightarrow> sys_act (Ends i) (monitor z) y \<Longrightarrow>
    session_step tid z (take_call i y z)"
| ends_late: "due z i = Some c \<Longrightarrow> fst c = MONITOR_EVENT_THREAD_EXIT \<Longrightarrow> sys_act (Leaves i) (monitor z) y \<Longrightarrow>
    session_step tid z (take_call i y z\<lparr>late := Suc (late z)\<rparr>)"
| ends_unnoticed: "due z i = Some c \<Longrightarrow> fst c = MONITOR_EVENT_THREAD_EXIT \<Longrightarrow> sys_app (monitor z) i = A_Idle \<Longrightarrow>
    tls_exit_value (sys_tls (monitor z) i) = None \<Longrightarrow>
    session_step tid z (take_call i (monitor z) z\<lparr>unnoticed := Suc (unnoticed z)\<rparr>)"
| registers: "sys_act (Registers i (tid i)) (monitor z) y \<Longrightarrow> session_step tid z (z\<lparr>monitor := y\<rparr>)"
| works: "sys_act (Works i) (monitor z) y \<Longrightarrow> session_step tid z (z\<lparr>monitor := y\<rparr>)"
| consumes: "sys_act Consumes (monitor z) y \<Longrightarrow> session_step tid z (z\<lparr>monitor := y\<rparr>)"
| stops: "exit_code (program z) \<noteq> None \<Longrightarrow> sys_act Stops (monitor z) y \<Longrightarrow> session_step tid z (z\<lparr>monitor := y\<rparr>)"

text \<open>The library's constructor has started the monitor before \<open>main\<close> is called.\<close>

definition session_boot :: "string option \<Rightarrow> runtime_state \<Rightarrow> prog \<Rightarrow> session" where
  "session_boot env rt p = \<lparr>program = boot p, monitor = started env rt, calls = (\<lambda>_. []), refused = 0, unnoticed = 0, late = 0\<rparr>"

inductive session_runs :: "string option \<Rightarrow> (nat \<Rightarrow> u64) \<Rightarrow> prog \<Rightarrow> session \<Rightarrow> bool" for env tid p where
  session_start: "ring_storage rt \<Longrightarrow> session_runs env tid p (session_boot env rt p)"
| session_next: "session_runs env tid p z \<Longrightarrow> session_step tid z z' \<Longrightarrow> session_runs env tid p z'"

text \<open>A session is a run of the program and a run of the monitor.\<close>

lemma take_call_fields [simp]:
  "program (take_call i y z) = program z" "monitor (take_call i y z) = y" "refused (take_call i y z) = refused z"
  "unnoticed (take_call i y z) = unnoticed z" "late (take_call i y z) = late z"
  "calls (take_call i y z) = (calls z)(i := tl (calls z i))"
  by (simp_all add: take_call_def)

lemma session_parts:
  assumes "session_runs env tid p z"
  shows "runs p (program z)" and "sys_reachable env (monitor z)"
proof -
  have "runs p (program z) \<and> sys_reachable env (monitor z)"
    using assms
  proof (induction rule: session_runs.induct)
    case (session_start rt)
    then show ?case by (simp add: session_boot_def runs_boot sys_start)
  next
    case (session_next z z')
    note r = runs_step [of p "program z"] sys_next [of env "monitor z"] sys_stepI
    from session_next.hyps(2) session_next.IH show ?case
    proof cases
      case (computes i w)
      then have "step (program z) w" by (auto simp: step_def)
      with session_next.IH r(1) show ?thesis by (simp add: computes(1))
    qed (auto intro: r)
  qed
  then show "runs p (program z)" and "sys_reachable env (monitor z)" by simp_all
qed

section \<open>What the steps of a program report\<close>

definition finished :: "process \<Rightarrow> nat \<Rightarrow> bool" where
  "finished w i \<longleftrightarrow> i < length (ts w) \<and> (\<exists>r. ts w ! i = Finished r)"

definition reports :: "nat \<Rightarrow> process \<Rightarrow> call_event list \<Rightarrow> process \<Rightarrow> bool" where
  "reports i w cs w' \<longleftrightarrow> events w' = (events w)(i := events w i @ (if events w i = [] \<and> cs \<noteq> [] then [start_call] else []) @ cs) \<and>
     (\<forall>c \<in> set cs. fst c \<noteq> MONITOR_EVENT_THREAD_START \<and>
        (fst c = MONITOR_EVENT_THREAD_EXIT \<longrightarrow> cs = [exit_call] \<and> finished w' i \<and> events w i \<noteq> []))"

lemma events_simps [simp]:
  "events (proceed i p w) = events w" "events (open_barrier b s w) = events w"
  "events (emit i c w) = (events w)(i := events w i @ (if events w i = [] then [start_call] else []) @ [c])"
  by (simp_all add: proceed_def open_barrier_def emit_def)

lemma act_reports:
  assumes "act i t w w'" and "i < length (ts w)"
  shows "\<exists>cs. reports i w cs w'"
  using assms
proof cases
  case (request m k)
  then show ?thesis by (intro exI [of _ "[(MONITOR_EVENT_LOCK_REQUEST, m, 0)]"]) (simp add: reports_def)
next
  case (acquire m k)
  then show ?thesis by (intro exI [of _ "[(MONITOR_EVENT_LOCK_ACQUIRED, m, 0)]"]) (simp add: reports_def)
next
  case (relock m k)
  then show ?thesis by (intro exI [of _ "[(MONITOR_EVENT_LOCK_FAILED, m, EDEADLK)]"]) (simp add: reports_def)
next
  case (unlock m k)
  then show ?thesis by (intro exI [of _ "[(MONITOR_EVENT_UNLOCKED, m, 0)]"]) (simp add: reports_def)
next
  case (unlock_denied m k)
  then show ?thesis by (intro exI [of _ "[(MONITOR_EVENT_UNLOCK_FAILED, m, EPERM)]"]) (simp add: reports_def)
next
  case (finish r)
  then show ?thesis
    by (intro exI [of _ "if events w i = [] then [] else [exit_call]"]) (auto simp: reports_def finished_def fun_upd_idem assms(2))
qed (intro exI [of _ "[]"], simp add: reports_def)+

lemma act_finished:
  assumes "act i (ts w ! i) w w'" and "i < length (ts w)" and "finished w j"
  shows "finished w' j \<and> j \<noteq> i"
proof -
  obtain r where r: "j < length (ts w)" "ts w ! j = Finished r" using assms(3) by (auto simp: finished_def)
  with assms(1) have "j \<noteq> i" by (auto elim: act.cases)
  with assms r show ?thesis
    by (cases rule: act.cases) (auto simp: finished_def open_barrier_def nth_append)
qed

lemma act_length: "act i t w w' \<Longrightarrow> length (ts w) \<le> length (ts w')"
  by (erule act.cases) simp_all

lemma reports_new_calls: "reports i w cs w' \<Longrightarrow> new_calls i w w' = cs"
  by (auto simp: reports_def new_calls_def filter_id_conv)

end
