(* ===== verification/Session_Inv.thy ===== *)
theory Session_Inv
  imports Sessions
begin

text \<open>
  What the runtime has recorded of each thread at any moment of a session, and what it has
  recorded in the end when no call was lost.
\<close>

section \<open>What the steps of the monitor record\<close>

text \<open>The events recorded of thread \<open>i\<close>, and those its control point is still to record.\<close>

definition made_by :: "system \<Rightarrow> nat \<Rightarrow> monitor_event list" where
  "made_by y i = map snd (filter (\<lambda>p. sys_owner y (fst p) = Some i) (sys_made y))"

definition slots_of :: "system \<Rightarrow> nat \<Rightarrow> nat set" where
  "slots_of y i = {c. sys_owner y c = Some i}"

definition owns :: "system \<Rightarrow> nat \<Rightarrow> bool" where
  "owns y i \<longleftrightarrow> slots_of y i \<noteq> {}"

definition one_slot :: "nat set \<Rightarrow> bool" where
  "one_slot S \<longleftrightarrow> (\<forall>c \<in> S. \<forall>c' \<in> S. c = c')"

lemma one_slot_simps [simp]: "one_slot {}" "one_slot {c}"
  by (simp_all add: one_slot_def)

lemma owns_cong: "slots_of y' = slots_of y \<Longrightarrow> owns y' = owns y"
  by (simp add: owns_def fun_eq_iff)

lemma owner_owns: "sys_owner y c = Some i \<Longrightarrow> owns y i"
  by (auto simp: owns_def slots_of_def)

fun underway :: "app_pc \<Rightarrow> call_event list" where
  "underway A_Idle = []"
| "underway (A_Claimed req c) = [start_call, req]"
| "underway (A_Start req c) = [start_call, req]"
| "underway (A_StartPush req c e) = [req]"
| "underway (A_Emit req c) = [req]"
| "underway (A_Push c e) = []"
| "underway (A_Exit c) = [exit_call]"
| "underway (A_ExitPush c e) = []"

definition coded :: "call_event \<Rightarrow> u32 \<times> uintptr \<times> i32" where
  "coded c = (case c of (k, a, r) \<Rightarrow> (event_code k, a, r))"

definition call_of :: "monitor_event \<Rightarrow> u32 \<times> uintptr \<times> i32" where
  "call_of e = (ev_event_type e, ev_object_address e, ev_result e)"

definition recorded :: "system \<Rightarrow> nat \<Rightarrow> (u32 \<times> uintptr \<times> i32) list" where
  "recorded y i = map call_of (made_by y i) @ map coded (underway (sys_app y i))"

text \<open>Slots belong to threads of the program and carry their ids.\<close>

definition slots_inv :: "(nat \<Rightarrow> u64) \<Rightarrow> system \<Rightarrow> bool" where
  "slots_inv tid y \<longleftrightarrow>
     (\<forall>c i. sys_owner y c = Some i \<longrightarrow> c < unat (next_thread_slot (sys_rt y)) \<and>
        (cx_active (thread_contexts (sys_rt y) ! c) \<longrightarrow> cx_thread_id (thread_contexts (sys_rt y) ! c) = tid i)) \<and>
     (\<forall>(c, e) \<in> set (sys_made y). \<exists>i. sys_owner y c = Some i \<and> ev_thread_id e = tid i)"

definition same_for :: "nat \<Rightarrow> system \<Rightarrow> system \<Rightarrow> bool" where
  "same_for i y y' \<longleftrightarrow> sys_app y' i = sys_app y i \<and> sys_tls y' i = sys_tls y i \<and> made_by y' i = made_by y i \<and>
     slots_of y' i = slots_of y i"

fun actor :: "sys_label \<Rightarrow> nat option" where
  "actor (Calls u req) = Some u"
| "actor (Refuses u) = Some u"
| "actor (Registers u tid) = Some u"
| "actor (Works u) = Some u"
| "actor (Ends u) = Some u"
| "actor (Leaves u) = Some u"
| "actor Consumes = None"
| "actor Stops = None"

lemma made_by_fields [simp]:
  "made_by (set_app u pc y) = made_by y" "made_by (set_tls u t y) = made_by y" "made_by (y\<lparr>sys_rt := rt\<rparr>) = made_by y"
  "made_by (do_push c e y) = made_by y" "made_by (do_consume y) = made_by y"
  "slots_of (set_app u pc y) = slots_of y" "slots_of (set_tls u t y) = slots_of y" "slots_of (y\<lparr>sys_rt := rt\<rparr>) = slots_of y"
  "slots_of (do_push c e y) = slots_of y" "slots_of (do_consume y) = slots_of y"
  "owns (set_app u pc y) = owns y" "owns (set_tls u t y) = owns y"
  by (simp_all add: made_by_def owns_def slots_of_def do_push_def do_consume_def Let_def fun_eq_iff split: prod.splits)

lemma reserve_made_by:
  assumes "do_reserve c type addr result clock y = (e, y')" and "sys_owner y c = Some u"
  shows "made_by y' u = made_by y u @ [e]" and "i \<noteq> u \<Longrightarrow> made_by y' i = made_by y i" and "slots_of y' = slots_of y"
    and "call_of e = coded (type, addr, result)" and "ev_thread_id e = cx_thread_id (thread_contexts (sys_rt y) ! c)"
  using assms by (auto simp: do_reserve_def reserve_event_def made_by_def slots_of_def call_of_def coded_def Let_def fun_eq_iff split: prod.splits)

lemma claim_made_by:
  assumes inv: "sys_inv y" and slots: "slots_inv tid y" and claim: "claim_thread_slot (sys_rt y) = (Some c, rt)"
    and y': "y' = y\<lparr>sys_rt := rt, sys_owner := (sys_owner y)(c := Some u)\<rparr>"
  shows "made_by y' = made_by y" and "slots_of y' u = insert c (slots_of y u)" and "i \<noteq> u \<Longrightarrow> slots_of y' i = slots_of y i"
    and "slots_inv tid y'"
proof -
  have c: "c = unat (next_thread_slot (sys_rt y))" and rt: "rt = (sys_rt y)\<lparr>next_thread_slot := next_thread_slot (sys_rt y) + 1\<rparr>"
    and lt: "next_thread_slot (sys_rt y) < 16"
    using claim by (auto simp: claim_thread_slot_def split: if_splits)
  have c16: "c < 16" using lt c by (simp add: word_less_nat_alt)
  have nxt: "unat (next_thread_slot rt) = Suc c" using c16 c by (simp add: rt unat_Suc_u32)
  have none: "sys_owner y c = None" using slots c by (cases "sys_owner y c") (auto simp: slots_inv_def)
  have inactive: "\<not> cx_active (thread_contexts (sys_rt y) ! c)" using sys_invD(4) [OF inv, of c] c c16 by simp
  have free: "fst p \<noteq> c" if "p \<in> set (sys_made y)" for p
    using slots that none by (cases p) (auto simp: slots_inv_def)
  have "sys_owner y' (fst p) = sys_owner y (fst p)" if "p \<in> set (sys_made y)" for p
    using free [OF that] by (simp add: y')
  then show "made_by y' = made_by y" by (simp add: made_by_def fun_eq_iff y' cong: filter_cong)
  show "slots_of y' u = insert c (slots_of y u)" by (auto simp: slots_of_def y')
  show "slots_of y' i = slots_of y i" if "i \<noteq> u" using that none by (auto simp: slots_of_def y')
  show "slots_inv tid y'"
    using slots nxt c inactive free unfolding slots_inv_def y' by (auto simp: rt intro: less_SucI)
qed

text \<open>A step leaves the threads that do not take it alone.\<close>

lemma pc_owner:
  assumes "sys_inv y" and "pc_slot (sys_app y u) = Some c"
  shows "sys_owner y c = Some u" and "c < unat (next_thread_slot (sys_rt y))"
  using thread_okD(1,2) [OF sys_invD(5) [OF assms(1), of u], of c] assms(2) by (simp_all add: refers_def)

lemma reserve_others:
  assumes "sys_inv y" and "pc_slot (sys_app y u) = Some c" and "do_reserve c type addr result clock y = (e, y')" and "i \<noteq> u"
  shows "same_for i y (set_app u pc y')"
  using reserve_made_by [OF assms(3) pc_owner(1) [OF assms(1,2)]] do_reserve_fields [OF assms(3)] assms(4)
  by (simp add: same_for_def)

lemma act_others:
  assumes inv: "sys_inv y" and slots: "slots_inv tid y" and step: "sys_act l y y'" and other: "actor l \<noteq> Some i"
  shows "same_for i y y'"
  using step
proof cases
  case (emit_claim u c rt req)
  with other claim_made_by [OF inv slots emit_claim(8), of _ u] show ?thesis by (simp add: same_for_def)
next
  case (start_reserve u req c clock event y1)
  with other show ?thesis using reserve_others [OF inv _ start_reserve(4), of u] by simp
next
  case (reserve u type addr result c clock event y1)
  with other show ?thesis using reserve_others [OF inv _ reserve(4), of u] by simp
next
  case (exit_reserve u c clock event y1)
  with other show ?thesis using reserve_others [OF inv _ exit_reserve(4), of u] by simp
qed (use other in \<open>simp_all add: same_for_def\<close>)

text \<open>A working thread turns what is under way into recorded events.\<close>

lemma reserve_recorded:
  assumes inv: "sys_inv y" and pc: "pc_slot (sys_app y u) = Some c" "underway (sys_app y u) = (type, addr, result) # underway pc'"
    and res: "do_reserve c type addr result clock y = (e, y')"
  shows "recorded (set_app u pc' y') u = recorded y u" and "slots_of y' = slots_of y" and "sys_tls y' = sys_tls y"
  using reserve_made_by [OF res pc_owner(1) [OF inv pc(1)]] do_reserve_fields [OF res] pc(2)
  by (simp_all add: recorded_def)

lemma works_recorded:
  assumes inv: "sys_inv y" and step: "sys_act (Works u) y y'"
  shows "recorded y' u = recorded y u \<and> slots_of y' = slots_of y \<and> (pc_exiting (sys_app y' u) \<longrightarrow> pc_exiting (sys_app y u)) \<and>
    \<not> claimed y u \<and> (tls_context (sys_tls y' u) = tls_context (sys_tls y u) \<or> pc_exiting (sys_app y u)) \<and> sys_app y u \<noteq> A_Idle"
  using step
proof cases
  case (start_reserve req c clock event y1)
  then show ?thesis using reserve_recorded [OF inv _ _ start_reserve(3), of u "A_StartPush req c event"] by (simp add: claimed_def)
next
  case (reserve type addr result c clock event y1)
  then show ?thesis using reserve_recorded [OF inv _ _ reserve(3), of u "A_Push c event"] by (simp add: claimed_def)
next
  case (exit_reserve c clock event y1)
  then show ?thesis using reserve_recorded [OF inv _ _ exit_reserve(3), of u "A_ExitPush c event"] by (simp add: claimed_def)
qed (simp_all add: recorded_def claimed_def)

lemma registers_recorded:
  assumes "sys_act (Registers u t) y y'"
  shows "recorded y' u = recorded y u" and "slots_of y' = slots_of y" and "\<not> pc_exiting (sys_app y' u)"
    and "tls_context (sys_tls y' u) \<noteq> None"
  using assms by (cases; auto simp: recorded_def activate_context_def Let_def split: if_splits)+

text \<open>The steps keep the owners and the ids of the slots.\<close>

definition slot_ids :: "runtime_state \<Rightarrow> u32 \<times> (bool \<times> u64) list" where
  "slot_ids rt = (next_thread_slot rt, map (\<lambda>c. (cx_active c, cx_thread_id c)) (thread_contexts rt))"

lemma map_upd_context:
  assumes "\<And>c. f (g c) = f c"
  shows "map f (thread_contexts (upd_context i g rt)) = map f (thread_contexts rt)"
  by (rule nth_equalityI) (auto simp: upd_context_def assms nth_list_update_if)

lemma upd_context_ids:
  assumes "\<And>c. cx_active (g c) = cx_active c" and "\<And>c. cx_thread_id (g c) = cx_thread_id c"
  shows "slot_ids (upd_context i g rt) = slot_ids rt"
  using map_upd_context [of "\<lambda>c. (cx_active c, cx_thread_id c)" g i rt] assms by (simp add: slot_ids_def) (simp add: upd_context_def)

lemma slots_inv_cong:
  assumes slots: "slots_inv tid y" and inv: "sys_inv y" and own: "sys_owner y' = sys_owner y" and ids: "slot_ids (sys_rt y') = slot_ids (sys_rt y)"
    and made: "set (sys_made y') \<subseteq> set (sys_made y) \<union> {(c, e)}" "(c, e) \<in> set (sys_made y') \<Longrightarrow> \<exists>i. sys_owner y c = Some i \<and> ev_thread_id e = tid i"
  shows "slots_inv tid y'"
proof -
  have nxt: "next_thread_slot (sys_rt y') = next_thread_slot (sys_rt y)"
    and m: "map (\<lambda>c. (cx_active c, cx_thread_id c)) (thread_contexts (sys_rt y')) = map (\<lambda>c. (cx_active c, cx_thread_id c)) (thread_contexts (sys_rt y))"
    using ids by (simp_all add: slot_ids_def)
  have len: "length (thread_contexts (sys_rt y')) = 16" using arg_cong [OF m, of length] sys_invD(1) [OF inv] by simp
  have "cx_active (thread_contexts (sys_rt y') ! i) = cx_active (thread_contexts (sys_rt y) ! i)"
    "cx_thread_id (thread_contexts (sys_rt y') ! i) = cx_thread_id (thread_contexts (sys_rt y) ! i)" if "i < 16" for i
    using arg_cong [OF m, of "\<lambda>xs. xs ! i"] that len sys_invD(1) [OF inv] by simp_all
  moreover have "c < 16" if "sys_owner y c = Some i" for c i
    using slots that sys_invD(2) [OF inv] by (fastforce simp: slots_inv_def)
  moreover have "\<exists>i. sys_owner y c' = Some i \<and> ev_thread_id e' = tid i" if "(c', e') \<in> set (sys_made y')" for c' e'
  proof (cases "(c', e') \<in> set (sys_made y)")
    case True
    then show ?thesis using slots by (auto simp: slots_inv_def)
  next
    case False
    with made(1) that have "c' = c" "e' = e" by auto
    with made(2) that show ?thesis by simp
  qed
  ultimately show ?thesis using slots unfolding slots_inv_def own nxt by (simp add: Ball_def split_paired_All)
qed

lemma push_ids: "slot_ids (push_event c e rt) = slot_ids rt"
  by (auto simp: push_event_def intro!: upd_context_ids split: prod.splits)

lemma reserve_ids: "do_reserve c type addr result clock y = (e, y') \<Longrightarrow> slot_ids (sys_rt y') = slot_ids (sys_rt y)"
  by (auto simp: do_reserve_def reserve_event_def Let_def upd_context_ids split: prod.splits) (simp add: slot_ids_def)

lemma ids_fields [simp]:
  "slot_ids (rt\<lparr>verifier := v\<rparr>) = slot_ids rt" "slot_ids (rt\<lparr>global_sequence := q\<rparr>) = slot_ids rt"
  "slot_ids (rt\<lparr>accept_events := b\<rparr>) = slot_ids rt" "slot_ids (rt\<lparr>consumer_running := b\<rparr>) = slot_ids rt"
  "slot_ids (count_unregistered rt) = slot_ids rt"
  by (simp_all add: slot_ids_def count_unregistered_def)

lemma consume_ids: "slot_ids (sys_rt (do_consume y)) = slot_ids (sys_rt y)"
  by (auto simp: do_consume_def consumer_step_def drain_one_def upd_context_ids
      split: consumer_pc.splits prod.splits option.splits bool.splits)

lemma slots_inv_same:
  assumes "slots_inv tid y" and "sys_inv y" and "sys_owner y' = sys_owner y" and "slot_ids (sys_rt y') = slot_ids (sys_rt y)"
    and "sys_made y' = sys_made y"
  shows "slots_inv tid y'"
  by (rule slots_inv_cong [OF assms(1-4), of 0 undefined]) (use assms(1,5) in \<open>auto simp: slots_inv_def\<close>)

lemma slots_inv_reserve:
  assumes slots: "slots_inv tid y" and inv: "sys_inv y" and pc: "pc_slot (sys_app y u) = Some c" "\<not> claimed y u"
    and res: "do_reserve c type addr result clock y = (e, y')"
  shows "slots_inv tid (set_app u pc' y')"
proof -
  note o = pc_owner [OF inv pc(1)]
  have "cx_active (thread_contexts (sys_rt y) ! c)"
    using thread_okD(3) [OF sys_invD(5) [OF inv, of u], of c] pc by (simp add: refers_def)
  then have "cx_thread_id (thread_contexts (sys_rt y) ! c) = tid u" using slots o by (auto simp: slots_inv_def)
  then have id: "ev_thread_id e = tid u" using reserve_made_by(5) [OF res o(1)] by simp
  have "sys_owner y' = sys_owner y" "sys_made y' = sys_made y @ [(c, e)]"
    using res by (auto simp: do_reserve_def split: prod.splits)
  then show ?thesis
    using reserve_ids [OF res] id o by (intro slots_inv_cong [OF slots inv, of _ c e]) auto
qed

lemma activate_slots:
  assumes slots: "slots_inv tid y" and inv: "sys_inv y" and pc: "sys_app y u = A_Claimed req c"
    and act: "activate_context c (tid u) rc (sys_tls y u, sys_rt y) = (tls, rt)"
  shows "slots_inv tid (set_app u pc' (set_tls u tls (y\<lparr>sys_rt := rt\<rparr>)))"
proof -
  have o: "sys_owner y c = Some u" using pc_owner [OF inv, of u c] pc by simp
  have "next_thread_slot rt = next_thread_slot (sys_rt y)"
    "\<exists>x. thread_contexts rt = (thread_contexts (sys_rt y))[c := x] \<and> cx_thread_id x = tid u"
    using act by (auto simp: activate_context_def upd_context_def Let_def split: if_splits)
  then obtain x where x: "next_thread_slot rt = next_thread_slot (sys_rt y)"
    "thread_contexts rt = (thread_contexts (sys_rt y))[c := x]" "cx_thread_id x = tid u" by blast
  have "c < 16" using pc_owner(2) [OF inv, of u c] pc sys_invD(2) [OF inv] by simp
  then have "thread_contexts rt ! i = (if i = c then x else thread_contexts (sys_rt y) ! i)" for i
    using sys_invD(1) [OF inv] x(2) by simp
  then show ?thesis using slots o x(1,3) unfolding slots_inv_def by simp
qed

lemma act_slots:
  assumes slots: "slots_inv tid y" and inv: "sys_inv y" and step: "sys_act l y y'" and tid: "\<And>u t. l = Registers u t \<Longrightarrow> t = tid u"
  shows "slots_inv tid y'"
  using step
proof cases
  case (emit_claim u c rt req)
  have "slots_inv tid (y\<lparr>sys_rt := rt, sys_owner := (sys_owner y)(c := Some u)\<rparr>)"
    by (rule claim_made_by(4) [OF inv slots emit_claim(8) refl])
  then show ?thesis by (simp add: emit_claim(2) slots_inv_def)
next
  case (activate u req c t rc tls rt)
  then show ?thesis using activate_slots [OF slots inv activate(3)] tid by blast
next
  case (start_reserve u req c clock event y1)
  then show ?thesis using slots_inv_reserve [OF slots inv _ _ start_reserve(4)] by (simp add: claimed_def)
next
  case (reserve u type addr result c clock event y1)
  then show ?thesis using slots_inv_reserve [OF slots inv _ _ reserve(4)] by (simp add: claimed_def)
next
  case (exit_reserve u c clock event y1)
  then show ?thesis using slots_inv_reserve [OF slots inv _ _ exit_reserve(4)] by (simp add: claimed_def)
next
  case consume
  have "sys_made (do_consume y) = sys_made y" by (simp add: do_consume_def split: prod.splits)
  then show ?thesis using consume consume_ids by (intro slots_inv_same [OF slots inv]) simp_all
qed (auto intro!: slots_inv_same [OF slots inv] simp: push_ids do_push_def Let_def)

section \<open>The invariant\<close>

text \<open>
  For each thread: what is recorded and what is due make the events of the program; a thread
  that has been registered keeps its context until it has ended.
\<close>

definition thread_inv :: "process \<Rightarrow> call_event list \<Rightarrow> system \<Rightarrow> nat \<Rightarrow> bool" where
  "thread_inv w cs y i \<longleftrightarrow>
     recorded y i @ map coded (if owns y i \<or> cs = [] then cs else start_call # cs) = map coded (events w i) \<and>
     (owns y i \<longleftrightarrow> recorded y i \<noteq> []) \<and> one_slot (slots_of y i) \<and>
     (owns y i \<longrightarrow> tls_context (sys_tls y i) \<noteq> None \<or> claimed y i \<or> finished w i \<and> cs = []) \<and>
     (pc_exiting (sys_app y i) \<longrightarrow> finished w i \<and> cs = []) \<and>
     (\<forall>c \<in> set cs. fst c = MONITOR_EVENT_THREAD_EXIT \<longrightarrow> cs = [exit_call] \<and> finished w i \<and> owns y i) \<and>
     (events w i \<noteq> [] \<longrightarrow> i < length (ts w))"

definition complete :: "session \<Rightarrow> bool" where
  "complete z \<longleftrightarrow> refused z = 0 \<and> unnoticed z = 0 \<and> late z = 0"

definition session_inv :: "(nat \<Rightarrow> u64) \<Rightarrow> session \<Rightarrow> bool" where
  "session_inv tid z \<longleftrightarrow> slots_inv tid (monitor z) \<and>
     (complete z \<longrightarrow> (\<forall>i. thread_inv (program z) (calls z i) (monitor z) i))"

lemma thread_inv_cong:
  assumes "thread_inv w cs y i" and "same_for i y y'" and "events w' i = events w i"
    and "finished w i \<Longrightarrow> finished w' i" and "length (ts w) \<le> length (ts w')"
  shows "thread_inv w' cs y' i"
proof -
  have e: "recorded y' i = recorded y i" "owns y' i = owns y i" "slots_of y' i = slots_of y i" "sys_tls y' i = sys_tls y i" "claimed y' i = claimed y i"
    "sys_app y' i = sys_app y i"
    using assms(2) by (simp_all add: same_for_def recorded_def claimed_def owns_def)
  show ?thesis
    using assms(1,4,5) unfolding thread_inv_def e assms(3) by (elim conjE) (intro conjI; (assumption | blast | linarith))
qed

lemma thread_passes:
  assumes inv: "sys_inv y" and slots: "slots_inv tid y" and t: "thread_inv w (c # cs) y i"
    and c: "fst c \<noteq> MONITOR_EVENT_THREAD_EXIT" and step: "sys_act (Calls i c) y y'"
  shows "thread_inv w cs y' i"
  using step
proof cases
  case (emit_known c')
  have "sys_owner y c' = Some i"
    using thread_okD(2) [OF sys_invD(5) [OF inv, of i], of c'] emit_known by (simp add: refers_def)
  then have "owns y i" by (rule owner_owns)
  with t c emit_known show ?thesis by (auto simp: thread_inv_def recorded_def claimed_def)
next
  case (emit_claim c' rt)
  note m = claim_made_by [OF inv slots emit_claim(7) refl, of i]
  have "\<not> owns y i" using t emit_claim(2,5) by (auto simp: thread_inv_def claimed_def)
  moreover have "slots_of (y\<lparr>sys_rt := rt, sys_owner := (sys_owner y)(c' := Some i)\<rparr>) i = {c'}" using calculation m(2) by (simp add: owns_def)
  ultimately show ?thesis using t c emit_claim m(1) by (auto simp: thread_inv_def recorded_def claimed_def owns_def)
qed

lemma thread_ends:
  assumes inv: "sys_inv y" and t: "thread_inv w (c # cs) y i"
    and c: "fst c = MONITOR_EVENT_THREAD_EXIT" and step: "sys_act (Ends i) y y'"
  shows "thread_inv w cs y' i"
  using step
proof cases
  case (exit_begin c')
  have k: "tls_context (sys_tls y i) = Some c'" using thread_okD(4) [OF sys_invD(5) [OF inv, of i]] exit_begin by blast
  have "sys_owner y c' = Some i"
    using thread_okD(2) [OF sys_invD(5) [OF inv, of i], of c'] k by (simp add: refers_def)
  then have "owns y i" by (rule owner_owns)
  with t c k exit_begin show ?thesis by (auto simp: thread_inv_def recorded_def claimed_def)
qed

lemma thread_works:
  assumes "sys_inv y" and "thread_inv w cs y i" and "sys_act (Works i) y y'"
  shows "thread_inv w cs y' i"
  using works_recorded [OF assms(1,3)] owns_cong [of y' y] assms(2) by (auto simp: thread_inv_def)

lemma thread_registers:
  assumes "thread_inv w cs y i" and "sys_act (Registers i t) y y'"
  shows "thread_inv w cs y' i"
  using registers_recorded [OF assms(2)] owns_cong [of y' y] assms(1) by (auto simp: thread_inv_def)

lemma thread_computes:
  assumes t: "thread_inv w [] y i" and idle: "sys_app y i = A_Idle" and act: "act i (ts w ! i) w w'" and i: "i < length (ts w)"
    and r: "reports i w cs w'"
  shows "thread_inv w' cs y i"
proof -
  have "\<not> finished w i" using act_finished [OF act i] by blast
  then show ?thesis
    using t idle i r act_length [OF act] by (auto simp: thread_inv_def reports_def recorded_def claimed_def)
qed

lemma due_calls: "due z i = Some c \<Longrightarrow> calls z i = c # tl (calls z i)"
  by (auto simp: due_def split: list.splits)

lemma session_inv_computes:
  assumes inv: "session_inv tid z" and i: "i < length (ts (program z))" "\<not> busy z i"
    and act: "act i (ts (program z) ! i) (program z) w"
  shows "session_inv tid (z\<lparr>program := w, calls := (calls z)(i := new_calls i (program z) w)\<rparr>)" (is "session_inv tid ?z")
proof -
  obtain cs where r: "reports i (program z) cs w" using act_reports [OF act i(1)] by blast
  have "thread_inv w (calls ?z j) (monitor z) j" if c: "complete z" for j
  proof (cases "j = i")
    case True
    have t: "thread_inv (program z) [] (monitor z) i" using inv c i(2) by (simp add: session_inv_def busy_def) metis
    show ?thesis
      using thread_computes [OF t _ act i(1) r] i(2) True by (simp add: busy_def reports_new_calls [OF r])
  next
    case False
    have "thread_inv (program z) (calls z j) (monitor z) j" using inv c by (simp add: session_inv_def)
    moreover have "events w j = events (program z) j" using r False by (simp add: reports_def)
    ultimately have "thread_inv w (calls z j) (monitor z) j"
      using act_finished [OF act i(1), of j] act_length [OF act]
      by (elim thread_inv_cong) (simp_all add: same_for_def)
    then show ?thesis using False by simp
  qed
  then show ?thesis using inv by (simp add: session_inv_def complete_def)
qed

text \<open>A step of the monitor for thread \<open>i\<close>, or for none.\<close>

lemma session_inv_act:
  assumes inv: "session_inv tid z" and ok: "sys_inv (monitor z)" and step: "sys_act l (monitor z) y"
    and tid: "\<And>u t. l = Registers u t \<Longrightarrow> t = tid u"
    and prog: "program z' = program z" "monitor z' = y" and cs: "\<And>j. actor l \<noteq> Some j \<Longrightarrow> calls z' j = calls z j"
    and own: "\<And>i. actor l = Some i \<Longrightarrow> complete z' \<Longrightarrow> slots_inv tid (monitor z) \<Longrightarrow>
      thread_inv (program z) (calls z i) (monitor z) i \<Longrightarrow> thread_inv (program z) (calls z' i) y i"
    and lost: "complete z' \<Longrightarrow> complete z"
  shows "session_inv tid z'"
proof -
  have slots: "slots_inv tid (monitor z)" using inv by (simp add: session_inv_def)
  have "thread_inv (program z) (calls z' j) y j" if c: "complete z'" for j
  proof (cases "actor l = Some j")
    case True
    with own c slots inv lost show ?thesis by (auto simp: session_inv_def)
  next
    case False
    have "thread_inv (program z) (calls z j) (monitor z) j" using inv lost c by (simp add: session_inv_def)
    then show ?thesis
      using act_others [OF ok slots step False] cs [OF False] by (simp add: thread_inv_cong)
  qed
  then show ?thesis using act_slots [OF slots ok step tid] by (simp add: session_inv_def prog)
qed

lemma session_inv_step:
  assumes step: "session_step tid z z'" and inv: "session_inv tid z" and ok: "sys_inv (monitor z)"
  shows "session_inv tid z'"
  using step
proof cases
  case (computes i w)
  with session_inv_computes [OF inv] show ?thesis by blast
next
  case (passes i c y)
  note d = due_calls [OF passes(2)]
  show ?thesis
    by (rule session_inv_act [OF inv ok passes(4)])
      (use passes d thread_passes [OF ok, of tid _ c "tl (calls z i)" i y] in \<open>auto simp: complete_def\<close>)
next
  case (ends i c y)
  note d = due_calls [OF ends(2)]
  show ?thesis
    by (rule session_inv_act [OF inv ok ends(4)])
      (use ends d thread_ends [OF ok, of _ c "tl (calls z i)" i y] in \<open>auto simp: complete_def\<close>)
next
  case (refuses i c y)
  show ?thesis by (rule session_inv_act [OF inv ok refuses(4)]) (use refuses in \<open>auto simp: complete_def\<close>)
next
  case (ends_late i c y)
  show ?thesis by (rule session_inv_act [OF inv ok ends_late(4)]) (use ends_late in \<open>auto simp: complete_def\<close>)
next
  case (registers i y)
  show ?thesis by (rule session_inv_act [OF inv ok registers(2)]) (use registers thread_registers in \<open>auto simp: complete_def\<close>)
next
  case (works i y)
  show ?thesis by (rule session_inv_act [OF inv ok works(2)]) (use works thread_works [OF ok] in \<open>auto simp: complete_def\<close>)
next
  case (consumes y)
  show ?thesis by (rule session_inv_act [OF inv ok consumes(2)]) (use consumes in \<open>auto simp: complete_def\<close>)
next
  case (stops y)
  show ?thesis by (rule session_inv_act [OF inv ok stops(3)]) (use stops in \<open>auto simp: complete_def\<close>)
qed (use inv in \<open>auto simp: session_inv_def complete_def\<close>)

lemma session_invariant:
  assumes "session_runs env tid p z"
  shows "session_inv tid z"
  using assms
proof (induction rule: session_runs.induct)
  case (session_start rt)
  have "events (boot p) = (\<lambda>_. [])" by (simp add: boot_def)
  then show ?case
    by (simp add: session_inv_def session_boot_def slots_inv_def thread_inv_def recorded_def made_by_def owns_def slots_of_def started_def)
next
  case (session_next z z')
  then show ?case using session_inv_step reachable_inv [OF session_parts(2)] by blast
qed

section \<open>What has been recorded in the end\<close>

lemma session_owner:
  assumes run: "session_runs env tid p z" and c: "complete z" and idle: "\<forall>i. \<not> busy z i" and q: "q \<in> set (sys_made (monitor z))"
  obtains i where "sys_owner (monitor z) (fst q) = Some i" and "ev_thread_id (snd q) = tid i"
    and "events (program z) i \<noteq> []" and "i < length (ts (program z))"
proof -
  let ?w = "program z" and ?y = "monitor z"
  have inv: "slots_inv tid ?y" and t: "thread_inv ?w (calls z i) ?y i" for i
    using session_invariant [OF run] c by (simp_all add: session_inv_def)
  obtain i where i: "sys_owner ?y (fst q) = Some i" "ev_thread_id (snd q) = tid i" using inv q by (cases q) (auto simp: slots_inv_def)
  then have "made_by ?y i \<noteq> []" using q by (auto simp: made_by_def filter_empty_conv)
  then have "events ?w i \<noteq> []" using t [of i] idle by (auto simp: thread_inv_def recorded_def busy_def)
  with i t [of i] show thesis by (intro that) (auto simp: thread_inv_def)
qed

text \<open>A thread has one slot, so the kernel's ids tell the slots apart.\<close>

lemma session_one_slot:
  assumes run: "session_runs env tid p z" and c: "complete z" and idle: "\<forall>i. \<not> busy z i" and tid: "inj_on tid {..<length (ts (program z))}"
    and q: "(c1, e) \<in> set (sys_made (monitor z))" "(c2, f) \<in> set (sys_made (monitor z))" "ev_thread_id e = ev_thread_id f"
  shows "c1 = c2"
proof -
  obtain i where i: "sys_owner (monitor z) c1 = Some i" "ev_thread_id e = tid i" "i < length (ts (program z))"
    using session_owner [OF run c idle q(1)] by auto
  obtain j where j: "sys_owner (monitor z) c2 = Some j" "ev_thread_id f = tid j" "j < length (ts (program z))"
    using session_owner [OF run c idle q(2)] by auto
  have "i = j" using inj_onD [OF tid] i j q(3) by auto
  moreover have "one_slot (slots_of (monitor z) i)"
    using session_invariant [OF run] c by (simp add: session_inv_def thread_inv_def)
  ultimately show ?thesis using i j by (auto simp: one_slot_def slots_of_def)
qed

lemma session_records:
  assumes run: "session_runs env tid p z" and c: "complete z" and idle: "\<forall>i. \<not> busy z i" and tid: "inj_on tid {..<length (ts (program z))}"
  shows "records (map snd (sys_made (monitor z))) (streams tid (program z))"
proof -
  let ?w = "program z" and ?y = "monitor z" and ?M = "sys_made (monitor z)"
  have inv: "slots_inv tid ?y" and t: "thread_inv ?w (calls z i) ?y i" for i
    using session_invariant [OF run] c by (simp_all add: session_inv_def)
  have made: "map call_of (made_by ?y i) = map coded (events ?w i)" for i
    using t [of i] idle by (auto simp: thread_inv_def recorded_def busy_def)
  have owner: "\<exists>i. sys_owner ?y (fst q) = Some i \<and> ev_thread_id (snd q) = tid i \<and> events ?w i \<noteq> [] \<and> i < length (ts ?w)" if "q \<in> set ?M" for q
    using session_owner [OF run c idle that] by metis
  have here: "map call_of (of_thread (tid i) (map snd ?M)) = map coded (events ?w i)" if i: "i < length (ts ?w)" for i
  proof -
    have "ev_thread_id (snd q) = tid i \<longleftrightarrow> sys_owner ?y (fst q) = Some i" if "q \<in> set ?M" for q
      using owner [OF that] i inj_onD [OF tid] by fastforce
    then have "of_thread (tid i) (map snd ?M) = made_by ?y i"
      by (simp add: made_by_def filter_map comp_def cong: filter_cong)
    then show ?thesis using made by simp
  qed
  have keys: "map fst (streams tid ?w) = map tid (filter (\<lambda>i. events ?w i \<noteq> []) [0..<length (ts ?w)])"
    by (simp add: streams_def comp_def)
  have "distinct (map fst (streams tid ?w))"
    unfolding keys distinct_map using tid by (auto intro: inj_on_subset)
  moreover have "set (map ev_thread_id (map snd ?M)) \<subseteq> set (map fst (streams tid ?w))"
    unfolding keys using owner by fastforce
  ultimately show ?thesis
    using here by (auto simp: records_def streams_def call_of_def [abs_def] coded_def [abs_def])
qed

text \<open>Each thread with events has a slot of its own.\<close>

lemma session_streams_le:
  assumes run: "session_runs env tid p z" and c: "complete z" and idle: "\<forall>i. \<not> busy z i"
  shows "length (streams tid (program z)) \<le> MONITOR_MAX_THREADS"
proof -
  let ?w = "program z" and ?y = "monitor z"
  have inv: "slots_inv tid ?y" and t: "thread_inv ?w (calls z i) ?y i" for i
    using session_invariant [OF run] c by (simp_all add: session_inv_def)
  have n: "unat (next_thread_slot (sys_rt ?y)) \<le> 16" using reachable_inv [OF session_parts(2) [OF run]] by (simp add: sys_inv_def)
  have "{i. i < length (ts ?w) \<and> events ?w i \<noteq> []} \<subseteq> (\<lambda>c. the (sys_owner ?y c)) ` {..<16}"
  proof
    fix i assume "i \<in> {i. i < length (ts ?w) \<and> events ?w i \<noteq> []}"
    then have "owns ?y i" using t [of i] idle by (auto simp: thread_inv_def busy_def)
    then obtain s where s: "sys_owner ?y s = Some i" by (auto simp: owns_def slots_of_def)
    then have "s < 16" using inv n by (fastforce simp: slots_inv_def)
    with s show "i \<in> (\<lambda>c. the (sys_owner ?y c)) ` {..<16}" by (intro image_eqI [of _ _ s]) auto
  qed
  then have "card {i. i < length (ts ?w) \<and> events ?w i \<noteq> []} \<le> card {..<(16 :: nat)}"
    by (rule surj_card_le [OF finite_lessThan])
  then show ?thesis by (simp add: streams_def length_filter_conv_card conj_commute cong: conj_cong)
qed

end
