(* ===== verification/Session_Losses.thy ===== *)
theory Session_Losses
  imports Session_Inv
begin

text \<open>The calls that leave no event are counted by the runtime.\<close>

section \<open>Losses are counted\<close>

text \<open>
  A failed registration is counted, at most once for each slot, so the counter cannot wrap;
  where none failed, a thread that has a context and is not ending has a key value.
\<close>

definition life_inv :: "system \<Rightarrow> bool" where
  "life_inv y \<longleftrightarrow>
     unat (lifecycle_registration_failures (sys_rt y)) \<le> count_if fst (snd (slot_ids (sys_rt y))) \<and>
     (lifecycle_registration_failures (sys_rt y) = 0 \<longrightarrow>
        (\<forall>u c. tls_context (sys_tls y u) = Some c \<and> \<not> pc_exiting (sys_app y u) \<longrightarrow> tls_exit_value (sys_tls y u) = Some c))"

definition loss_counts :: "runtime_state \<Rightarrow> u64 \<times> u64" where
  "loss_counts rt = (unregistered_events rt, lifecycle_registration_failures rt)"

lemma reserve_counts: "do_reserve c type addr result clock y = (e, y') \<Longrightarrow> loss_counts (sys_rt y') = loss_counts (sys_rt y)"
  by (auto simp: do_reserve_def reserve_event_def loss_counts_def upd_context_def Let_def split: prod.splits)

lemma push_counts: "loss_counts (push_event c e rt) = loss_counts rt"
  by (auto simp: push_event_def loss_counts_def upd_context_def split: prod.splits)

lemma consume_counts: "loss_counts (sys_rt (do_consume y)) = loss_counts (sys_rt y)"
  by (auto simp: do_consume_def consumer_step_def drain_one_def loss_counts_def upd_context_def
      split: consumer_pc.splits prod.splits option.splits bool.splits)

lemma act_counts:
  assumes step: "sys_act l y y'" and "\<And>u t. l \<noteq> Registers u t"
  shows "loss_counts (sys_rt y') = (case l of Refuses u \<Rightarrow> (unregistered_events (sys_rt y) + 1, lifecycle_registration_failures (sys_rt y))
      | _ \<Rightarrow> loss_counts (sys_rt y)) \<and> snd (slot_ids (sys_rt y')) = snd (slot_ids (sys_rt y))"
  using step
proof cases
  case (emit_rejected u)
  then show ?thesis by (simp add: loss_counts_def count_unregistered_def slot_ids_def)
next
  case (emit_claim u c rt req)
  then show ?thesis by (auto simp: loss_counts_def claim_thread_slot_def slot_ids_def split: if_splits)
next
  case (activate u req c t rc tls rt)
  with assms(2) show ?thesis by blast
next
  case (start_reserve u req c clock event y1)
  then show ?thesis using reserve_counts reserve_ids by simp
next
  case (reserve u type addr result c clock event y1)
  then show ?thesis using reserve_counts reserve_ids by simp
next
  case (exit_reserve u c clock event y1)
  then show ?thesis using reserve_counts reserve_ids by simp
qed (simp_all add: push_counts consume_counts push_ids consume_ids do_push_def Let_def, simp_all add: loss_counts_def slot_ids_def)

lemma act_keys:
  assumes step: "sys_act l y y'" and "\<And>u t. l \<noteq> Registers u t" and c: "tls_context (sys_tls y' v) = Some c" "\<not> pc_exiting (sys_app y' v)"
    and inv: "sys_inv y"
  shows "tls_context (sys_tls y v) = Some c \<and> \<not> pc_exiting (sys_app y v) \<and> tls_exit_value (sys_tls y' v) = tls_exit_value (sys_tls y v)"
  using step
proof cases
  case (activate u req c t rc tls rt)
  with assms(2) show ?thesis by blast
next
  case (start_reserve u req c clock event y1)
  with c do_reserve_fields [OF start_reserve(4)] show ?thesis by (auto split: if_splits)
next
  case (reserve u type addr result c clock event y1)
  with c do_reserve_fields [OF reserve(4)] show ?thesis by (auto split: if_splits)
next
  case (exit_reserve u c clock event y1)
  with c do_reserve_fields [OF exit_reserve(4)] show ?thesis by (auto split: if_splits)
qed (use c in \<open>auto split: if_splits\<close>)

lemma registers_life:
  assumes life: "life_inv y" and inv: "sys_inv y" and step: "sys_act (Registers u t) y y'"
  shows "life_inv y'" and "lifecycle_registration_failures (sys_rt y) \<noteq> 0 \<Longrightarrow> lifecycle_registration_failures (sys_rt y') \<noteq> 0"
    and "unregistered_events (sys_rt y') = unregistered_events (sys_rt y)"
proof -
  from step obtain req c rc tls rt where a: "sys_app y u = A_Claimed req c"
    "activate_context c t rc (sys_tls y u, sys_rt y) = (tls, rt)" "y' = set_app u (A_Start req c) (set_tls u tls (y\<lparr>sys_rt := rt\<rparr>))"
    by cases auto
  let ?L = "lifecycle_registration_failures" and ?C = "\<lambda>rt. count_if fst (snd (slot_ids rt))"
  note d = thread_okD [OF sys_invD(5) [OF inv, of u]]
  have c: "c < 16" "\<not> cx_active (thread_contexts (sys_rt y) ! c)" "length (thread_contexts (sys_rt y)) = 16"
    using a(1) d(1,6) [of c] sys_invD(1,2) [OF inv] by (auto simp: refers_def claimed_def)
  have k: "tls_context tls = Some c" "unregistered_events rt = unregistered_events (sys_rt y)"
    and cases: "?L rt = ?L (sys_rt y) \<and> tls_exit_value tls = Some c \<or> ?L rt = ?L (sys_rt y) + 1"
    and ctx: "\<exists>x. thread_contexts rt = (thread_contexts (sys_rt y))[c := x] \<and> cx_active x"
    using a(2) by (auto simp: activate_context_def upd_context_def Let_def split: if_splits)
  from ctx obtain x where x: "thread_contexts rt = (thread_contexts (sys_rt y))[c := x]" "cx_active x" by blast
  have C: "?C rt = Suc (?C (sys_rt y))"
    using count_if_update [of c "map (\<lambda>c. (cx_active c, cx_thread_id c)) (thread_contexts (sys_rt y))" fst "(True, cx_thread_id x)"] c x
    by (simp add: slot_ids_def map_update)
  have "?C (sys_rt y) \<le> length (thread_contexts (sys_rt y))" using count_if_le [of fst "snd (slot_ids (sys_rt y))"] by (simp add: slot_ids_def)
  then have small: "unat (?L (sys_rt y)) \<le> 16" using life c(3) by (simp add: life_inv_def)
  then have plus: "unat (?L (sys_rt y) + 1) = Suc (unat (?L (sys_rt y)))" by (intro unat_Suc_u64) (auto simp: unsigned_minus_1_eq_mask mask_eq_exp_minus_1)
  then have nz: "?L (sys_rt y) + 1 \<noteq> 0" by (metis nat.distinct(1) unat_0)
  show "life_inv y'"
    using life cases k(1) C plus nz by (auto simp: life_inv_def a(3))
  show "?L (sys_rt y') \<noteq> 0" if "?L (sys_rt y) \<noteq> 0" using that cases nz by (auto simp: a(3))
  show "unregistered_events (sys_rt y') = unregistered_events (sys_rt y)" by (simp add: a(3) k(2))
qed

lemma act_life:
  assumes life: "life_inv y" and inv: "sys_inv y" and step: "sys_act l y y'"
  shows "life_inv y'" and "lifecycle_registration_failures (sys_rt y) \<noteq> 0 \<Longrightarrow> lifecycle_registration_failures (sys_rt y') \<noteq> 0"
    and "unregistered_events (sys_rt y') = (case l of Refuses u \<Rightarrow> unregistered_events (sys_rt y) + 1 | _ \<Rightarrow> unregistered_events (sys_rt y))"
proof -
  consider (reg) u t where "l = Registers u t" | (other) "\<And>u t. l \<noteq> Registers u t" by blast
  then have "life_inv y' \<and> (lifecycle_registration_failures (sys_rt y) \<noteq> 0 \<longrightarrow> lifecycle_registration_failures (sys_rt y') \<noteq> 0) \<and>
    unregistered_events (sys_rt y') = (case l of Refuses u \<Rightarrow> unregistered_events (sys_rt y) + 1 | _ \<Rightarrow> unregistered_events (sys_rt y))"
  proof cases
    case reg
    with registers_life [OF life inv] step show ?thesis by simp
  next
    case other
    have c: "lifecycle_registration_failures (sys_rt y') = lifecycle_registration_failures (sys_rt y)"
      "unregistered_events (sys_rt y') = (case l of Refuses u \<Rightarrow> unregistered_events (sys_rt y) + 1 | _ \<Rightarrow> unregistered_events (sys_rt y))"
      "snd (slot_ids (sys_rt y')) = snd (slot_ids (sys_rt y))"
      using act_counts [OF step other] by (simp_all add: loss_counts_def split: sys_label.splits)
    have "life_inv y'"
      using life act_keys [OF step other _ _ inv] unfolding life_inv_def c by metis
    with c show ?thesis by simp
  qed
  then show "life_inv y'" and "lifecycle_registration_failures (sys_rt y) \<noteq> 0 \<Longrightarrow> lifecycle_registration_failures (sys_rt y') \<noteq> 0"
    and "unregistered_events (sys_rt y') = (case l of Refuses u \<Rightarrow> unregistered_events (sys_rt y) + 1 | _ \<Rightarrow> unregistered_events (sys_rt y))"
    by blast+
qed

definition loss_inv :: "session \<Rightarrow> bool" where
  "loss_inv z \<longleftrightarrow> life_inv (monitor z) \<and> unregistered_events (sys_rt (monitor z)) = of_nat (refused z) \<and>
     (complete z \<or> refused z \<noteq> 0 \<or> late z \<noteq> 0 \<or> lifecycle_registration_failures (sys_rt (monitor z)) \<noteq> 0)"

lemma loss_inv_act:
  assumes inv: "loss_inv z" and ok: "sys_inv (monitor z)" and step: "sys_act l (monitor z) y" and y: "monitor z' = y"
    and counts: "refused z' = (case l of Refuses u \<Rightarrow> Suc (refused z) | _ \<Rightarrow> refused z)" "unnoticed z' = unnoticed z" "late z \<le> late z'"
  shows "loss_inv z'"
proof -
  have life: "life_inv (monitor z)" using inv by (simp add: loss_inv_def)
  have "unregistered_events (sys_rt y) = of_nat (refused z')"
    using act_life(3) [OF life ok step] inv counts(1) by (simp add: loss_inv_def split: sys_label.splits)
  moreover have "complete z' \<or> refused z' \<noteq> 0 \<or> late z' \<noteq> 0 \<or> lifecycle_registration_failures (sys_rt y) \<noteq> 0"
    using act_life(2) [OF life ok step] inv counts by (auto simp: loss_inv_def complete_def split: sys_label.splits)
  ultimately show ?thesis using act_life(1) [OF life ok step] by (simp add: loss_inv_def y)
qed

text \<open>A thread whose end goes unnoticed had been refused a key value.\<close>

lemma unnoticed_registration:
  assumes "session_inv tid z" and "life_inv (monitor z)" and "complete z" and "due z i = Some c"
    and "fst c = MONITOR_EVENT_THREAD_EXIT" and "sys_app (monitor z) i = A_Idle" and "tls_exit_value (sys_tls (monitor z) i) = None"
  shows "lifecycle_registration_failures (sys_rt (monitor z)) \<noteq> 0"
proof -
  note d = due_calls [OF assms(4)]
  have t: "thread_inv (program z) (calls z i) (monitor z) i" using assms(1,3) by (simp add: session_inv_def)
  have c: "c \<in> set (calls z i)" "calls z i \<noteq> []" by (subst d, simp)+
  have "owns (monitor z) i" using t c(1) assms(5) by (auto simp: thread_inv_def)
  then have "tls_context (sys_tls (monitor z) i) \<noteq> None" using t c(2) assms(6) by (auto simp: thread_inv_def claimed_def)
  with assms(2,6,7) show ?thesis by (fastforce simp: life_inv_def)
qed

lemma loss_inv_step:
  assumes step: "session_step tid z z'" and inv: "loss_inv z" and ok: "sys_inv (monitor z)" and s: "session_inv tid z"
  shows "loss_inv z'"
  using step
proof cases
  case (passes i c y)
  show ?thesis by (rule loss_inv_act [OF inv ok passes(4)]) (simp_all add: passes(1))
next
  case (refuses i c y)
  show ?thesis by (rule loss_inv_act [OF inv ok refuses(4)]) (simp_all add: refuses(1))
next
  case (ends i c y)
  show ?thesis by (rule loss_inv_act [OF inv ok ends(4)]) (simp_all add: ends(1))
next
  case (ends_late i c y)
  show ?thesis by (rule loss_inv_act [OF inv ok ends_late(4)]) (simp_all add: ends_late(1))
next
  case (ends_unnoticed i c)
  have life: "life_inv (monitor z)" using inv by (simp add: loss_inv_def)
  show ?thesis
    using inv unnoticed_registration [OF s life _ ends_unnoticed(2-5)] by (auto simp: ends_unnoticed(1) loss_inv_def complete_def)
next
  case (registers i y)
  show ?thesis by (rule loss_inv_act [OF inv ok registers(2)]) (simp_all add: registers(1))
next
  case (works i y)
  show ?thesis by (rule loss_inv_act [OF inv ok works(2)]) (simp_all add: works(1))
next
  case (consumes y)
  show ?thesis by (rule loss_inv_act [OF inv ok consumes(2)]) (simp_all add: consumes(1))
next
  case (stops y)
  show ?thesis by (rule loss_inv_act [OF inv ok stops(3)]) (simp_all add: stops(1))
qed (use inv in \<open>auto simp: loss_inv_def complete_def\<close>)

lemma session_losses:
  assumes "session_runs env tid p z"
  shows "loss_inv z"
  using assms
proof (induction rule: session_runs.induct)
  case (session_start rt)
  then show ?case
    by (simp add: loss_inv_def session_boot_def complete_def life_inv_def started_def monitor_runtime_start_def fresh_tls_def Let_def)
next
  case (session_next z z')
  then show ?case using loss_inv_step reachable_inv [OF session_parts(2)] session_invariant by blast
qed

text \<open>
  No call is under way, none came after the stop request, and fewer were refused than the
  counter can hold: then a summary that counts no loss means that every call was recorded.
\<close>

definition orderly :: "session \<Rightarrow> bool" where
  "orderly z \<longleftrightarrow> (\<forall>i. \<not> busy z i) \<and> late z = 0 \<and> refused z < 2 ^ 64"

lemma orderly_complete:
  assumes "session_runs env tid p z" and "orderly z" and "trace_complete (sys_rt (monitor z))"
  shows "complete z"
proof -
  have "of_nat (refused z) = (0 :: u64)"
    using session_losses [OF assms(1)] assms(3) by (simp_all add: loss_inv_def trace_complete_def)
  moreover have "unat (of_nat (refused z) :: u64) = refused z"
    using assms(2) by (simp add: orderly_def unsigned_of_nat take_bit_nat_eq_self)
  ultimately have "refused z = 0" by simp
  with session_losses [OF assms(1)]
  show ?thesis using assms(2,3) by (auto simp: loss_inv_def orderly_def trace_complete_def)
qed

end
