(* ===== verification/Session_Demo.thy ===== *)
theory Session_Demo
  imports Session_Losses Target_One_Worker
begin

text \<open>
  One complete session: the held-at-exit program under the monitor, from the start of the
  process to the end of \<open>main\<close>, the consumer having drained all queues.
\<close>

section \<open>Runs of a session\<close>

lemma session_run: "(session_step tid)\<^sup>*\<^sup>* z z' \<Longrightarrow> session_runs env tid p z \<Longrightarrow> session_runs env tid p z'"
  by (induction rule: rtranclp_induct) (auto intro: session_next)

lemma session_works:
  assumes "(works i (tid i))\<^sup>*\<^sup>* y y'"
  shows "(session_step tid)\<^sup>*\<^sup>* (z\<lparr>monitor := y\<rparr>) (z\<lparr>monitor := y'\<rparr>)"
  using assms
proof (induction rule: rtranclp_induct)
  case (step y1 y2)
  have "session_step tid (z\<lparr>monitor := y1\<rparr>) (z\<lparr>monitor := y1\<rparr>\<lparr>monitor := y2\<rparr>)"
    using step.hyps(2) session_step.works [of i "z\<lparr>monitor := y1\<rparr>" y2 tid] session_step.registers [of i tid "z\<lparr>monitor := y1\<rparr>" y2]
    by (auto simp: works_def)
  with step.IH show ?case by simp
qed simp

lemma session_call:
  assumes c: "due z i = Some c" and run: "call_run l i (tid i) p (monitor z) y'"
    and l: "l = Calls i c \<and> fst c \<noteq> MONITOR_EVENT_THREAD_EXIT \<or> l = Ends i \<and> fst c = MONITOR_EVENT_THREAD_EXIT"
  shows "(session_step tid)\<^sup>*\<^sup>* z (take_call i y' z)"
proof -
  obtain y where y: "sys_act l (monitor z) y" "(works i (tid i))\<^sup>*\<^sup>* y y'"
    using run by (auto simp: call_run_def path_def)
  have "session_step tid z (take_call i y z)" using y(1) c l session_step.passes session_step.ends by blast
  moreover have "take_call i y' z = take_call i y z\<lparr>monitor := y'\<rparr>" "take_call i y z\<lparr>monitor := y\<rparr> = take_call i y z"
    by (simp_all add: take_call_def)
  ultimately show ?thesis
    using session_works [where i = i and tid = tid and y = y and y' = y' and z = "take_call i y z"] y(2) by (metis converse_rtranclp_into_rtranclp)
qed

lemma session_consumes: "(session_step tid)\<^sup>*\<^sup>* z (z\<lparr>monitor := (do_consume ^^ n) (monitor z)\<rparr>)"
proof (induction n)
  case (Suc n)
  have "session_step tid (z\<lparr>monitor := (do_consume ^^ n) (monitor z)\<rparr>)
      (z\<lparr>monitor := (do_consume ^^ n) (monitor z)\<rparr>\<lparr>monitor := do_consume ((do_consume ^^ n) (monitor z))\<rparr>)"
    by (rule session_step.consumes) (simp add: sys_act.consume)
  with Suc show ?case by (simp add: rtranclp.rtrancl_into_rtrancl)
qed simp

section \<open>The program\<close>

text \<open>
  What matters of the program's state: its threads, the owner of the mutex at 64, the worker's
  events, and the exit status; and nothing has been lost.
\<close>

definition held_stage :: "tstate list \<Rightarrow> nat option \<Rightarrow> call_event list \<Rightarrow> u64 option \<Rightarrow> call_event list \<Rightarrow> session \<Rightarrow> bool" where
  "held_stage T h E x cs z \<longleftrightarrow> ts (program z) = T \<and> owner (program z) 64 = h \<and> events (program z) = (\<lambda>_. [])(1 := E) \<and>
     exit_code (program z) = x \<and> calls z = (\<lambda>_. [])(1 := cs) \<and> complete z"

section \<open>The monitor\<close>

definition held_event :: "u64 \<Rightarrow> u64 \<Rightarrow> call_event \<Rightarrow> monitor_event" where
  "held_event q clock c = (case c of (k, a, r) \<Rightarrow>
     \<lparr>ev_sequence_id = q, ev_timestamp_ns = clock, ev_thread_id = 11, ev_object_address = a,
      ev_event_type = event_code k, ev_result = r, ev_flags = 0, ev_thread_sequence = ucast q\<rparr>)"

definition held_trace :: "monitor_event list" where
  "held_trace = [demo_start, demo_request, held_event 2 12 (MONITOR_EVENT_LOCK_ACQUIRED, 64, 0), held_event 3 13 (MONITOR_EVENT_THREAD_EXIT, 0, 0)]"

definition held_context :: monitor_thread_context where
  "held_context = \<lparr>cx_active = True, cx_thread_id = 11,
     cx_queue = \<lparr>rb_head = 4, rb_tail = 0, rb_slots = (replicate SPSC_RING_CAPACITY zero_event)
       [0 := demo_start, 1 := demo_request, 2 := held_event 2 12 (MONITOR_EVENT_LOCK_ACQUIRED, 64, 0), 3 := held_event 3 13 (MONITOR_EVENT_THREAD_EXIT, 0, 0)]\<rparr>,
     cx_generated = 4, cx_dropped = 0, cx_next_thread_sequence = 4, cx_consumed = 0\<rparr>"

definition held_runtime :: runtime_state where
  "held_runtime = \<lparr>thread_contexts = (replicate MONITOR_MAX_THREADS zero_context)[0 := held_context], next_thread_slot = 1, global_sequence = 4,
      unregistered_events = 0, lifecycle_registration_failures = 0, accept_events = True,
      consumer_running = True, thread_exit_key_ready = True, verifier = verifier_start\<rparr>"

definition demo_runtime :: runtime_state where
  "demo_runtime = \<lparr>thread_contexts = (replicate MONITOR_MAX_THREADS zero_context)[0 := demo_context], next_thread_slot = 1, global_sequence = 2,
      unregistered_events = 0, lifecycle_registration_failures = 0, accept_events = True,
      consumer_running = True, thread_exit_key_ready = True, verifier = verifier_start\<rparr>"

lemma held_acquire:
  "monitor_runtime_emit MONITOR_EVENT_LOCK_ACQUIRED 64 0 11 0 None (Some (0, 12)) (fresh_tls\<lparr>tls_context := Some 0, tls_exit_value := Some 0\<rparr>, demo_runtime) =
    (fresh_tls\<lparr>tls_context := Some 0, tls_exit_value := Some 0\<rparr>, emit_event_to_context 0 MONITOR_EVENT_LOCK_ACQUIRED 64 0 (Some (0, 12)) demo_runtime)"
  by (simp add: monitor_runtime_emit_def register_current_thread_def demo_runtime_def fresh_tls_def)

lemma held_exit:
  "emit_event_to_context 0 MONITOR_EVENT_THREAD_EXIT 0 0 (Some (0, 13)) (emit_event_to_context 0 MONITOR_EVENT_LOCK_ACQUIRED 64 0 (Some (0, 12)) demo_runtime) = held_runtime"
  by (simp add: held_runtime_def held_context_def held_event_def demo_runtime_def demo_context_def
      upd_context_def emit_event_to_context_def reserve_event_def push_event_def
      spsc_ring_buffer_try_push_def timestamp_now_ns_def slot_of_def word_le_nat_alt Let_def)

lemma held_queue: "ring_contents (cx_queue held_context) = held_trace"
  by (simp add: ring_contents_def held_context_def held_trace_def slot_of_def upt_rec)

lemma held_ring: "ring_inv (cx_queue held_context)"
  by (simp add: held_context_def ring_inv_def)


lemma held_drained:
  assumes y3: "sys_rt y3 = held_runtime" "sys_consumer y3 = C_Round" "sys_log y3 = []"
  defines "y \<equiv> (do_consume ^^ 6) y3"
  shows "sys_log y = map (Pair 0) held_trace" and "verifier (sys_rt y) = process_events held_trace verifier_start"
    and "trace_complete (sys_rt y)" and "sys_made y = sys_made y3" and "sys_app y = sys_app y3"
proof -
  let ?y4 = "do_consume (do_consume y3)"
  have c: "thread_contexts held_runtime ! 0 = held_context"
     "length (thread_contexts held_runtime) = 16" "next_thread_slot held_runtime = 1" "verifier held_runtime = verifier_start"
    by (simp_all add: held_runtime_def)
  have y4: "?y4 = y3\<lparr>sys_consumer := C_Drain 1 0 0 False\<rparr>"
  proof -
    have "do_consume y3 = y3\<lparr>sys_consumer := C_Scan 1 0 False\<rparr>" using do_consume_simps(1) [OF y3(2)] by (simp add: y3(1) c)
    moreover have "cx_active held_context" by (simp add: held_context_def)
    ultimately show ?thesis using do_consume_simps(2) [of "y3\<lparr>sys_consumer := C_Scan 1 0 False\<rparr>" 1 0 False] by (simp add: y3(1) c)
  qed
  have d: "sys_consumer ?y4 = C_Drain 1 0 0 False" "queued ?y4 0 = held_trace" "ring_inv (cx_queue (thread_contexts (sys_rt ?y4) ! 0))"
     "0 < length (thread_contexts (sys_rt ?y4))" "length held_trace = 4"
    unfolding y4 by (simp_all add: y3(1) c queued_def held_queue held_ring held_trace_def)
  have "\<exists>q. (do_consume ^^ length held_trace) ?y4 = ?y4\<lparr>sys_consumer := C_Drain 1 0 (0 + length held_trace) (False \<or> held_trace \<noteq> []),
     sys_log := sys_log ?y4 @ map (Pair 0) held_trace,
     sys_rt := (sys_rt ?y4)\<lparr>verifier := process_events held_trace (verifier (sys_rt ?y4)),
       thread_contexts := (thread_contexts (sys_rt ?y4))[0 := (thread_contexts (sys_rt ?y4) ! 0)
         \<lparr>cx_queue := q, cx_consumed := cx_consumed (thread_contexts (sys_rt ?y4) ! 0) + of_nat (length held_trace)\<rparr>]\<rparr>\<rparr>"
    by (rule drain_queue [OF d(1) _ d(2-4)]) (simp add: d(5))
  then obtain q where y5: "(do_consume ^^ 4) ?y4 = ?y4\<lparr>sys_consumer := C_Drain 1 0 (0 + length held_trace) (False \<or> held_trace \<noteq> []),
     sys_log := sys_log ?y4 @ map (Pair 0) held_trace,
     sys_rt := (sys_rt ?y4)\<lparr>verifier := process_events held_trace (verifier (sys_rt ?y4)),
       thread_contexts := (thread_contexts (sys_rt ?y4))[0 := (thread_contexts (sys_rt ?y4) ! 0)
         \<lparr>cx_queue := q, cx_consumed := cx_consumed (thread_contexts (sys_rt ?y4) ! 0) + of_nat (length held_trace)\<rparr>]\<rparr>\<rparr>"
    unfolding d(5) by blast

  have y: "y = (do_consume ^^ 4) ?y4" by (simp add: y_def numeral_eq_Suc funpow_swap1)
  show "sys_log y = map (Pair 0) held_trace" unfolding y y5 unfolding y4 by (simp add: y3(3))
  show "verifier (sys_rt y) = process_events held_trace verifier_start"
      unfolding y y5 unfolding y4 by (simp add: y3(1) c(4))
  have totals: "total_of f (sys_rt y) = f (held_context\<lparr>cx_queue := q, cx_consumed := 4\<rparr>)" for f :: "monitor_thread_context \<Rightarrow> u64"
      unfolding y y5 unfolding y4 by (simp add: y3(1) c total_of_def registered_contexts_def d(5)) (simp add: held_context_def)
  have "unregistered_events (sys_rt y) = 0" "lifecycle_registration_failures (sys_rt y) = 0"
      unfolding y y5 unfolding y4 by (simp_all add: y3(1) held_runtime_def)
  then show "trace_complete (sys_rt y)"
      unfolding trace_complete_def transport_consistent_def totals by (simp add: held_context_def)

  show "sys_made y = sys_made y3" "sys_app y = sys_app y3" unfolding y y5 unfolding y4 by simp_all
qed

section \<open>The session\<close>

definition held_tid :: "nat \<Rightarrow> u64" where
  "held_tid i = (if i = 1 then 11 else 10)"

definition held_end :: "session \<Rightarrow> bool" where
  "held_end z \<longleftrightarrow> session_runs None held_tid (held_at_exit_main 64) z \<and> stuck (program z) \<and> length (ts (program z)) = 2 \<and>
     orderly z \<and> trace_complete (sys_rt (monitor z)) \<and> length (sys_made (monitor z)) \<le> 6 \<and>
     sys_log (monitor z) = map (Pair 0) held_trace \<and>
     verifier (sys_rt (monitor z)) = process_events held_trace verifier_start"

abbreviation held_join :: prog where
  "held_join \<equiv> Join 1 (\<lambda>_ _. Say ''[TARGET] Worker has exited'' (Done EXIT_SUCCESS))"

abbreviation held_locked :: "i32 \<Rightarrow> prog" where
  "held_locked \<equiv> \<lambda>rc. if rc \<noteq> 0 then Say (''[FAIL] pthread_mutex_lock returned '' @ fmt_d rc) (Done 0)
       else Say ''[WORKER] Mutex acquired'' (Say ''[WORKER] Exiting without unlocking'' (Done 0))"

abbreviation held_emitted :: runtime_state where
  "held_emitted \<equiv> emit_event_to_context 0 MONITOR_EVENT_LOCK_ACQUIRED 64 0 (Some (0, 12)) demo_runtime"

abbreviation held_tls :: thread_local where
  "held_tls \<equiv> fresh_tls\<lparr>tls_context := Some 0, tls_exit_value := Some 0\<rparr>"

text \<open>The state of the monitor between the worker's calls.\<close>

definition held_monitor :: "thread_local \<Rightarrow> runtime_state \<Rightarrow> nat \<Rightarrow> system \<Rightarrow> bool" where
  "held_monitor tls rt n y \<longleftrightarrow> sys_tls y 1 = tls \<and> sys_rt y = rt \<and> sys_app y = (\<lambda>_. A_Idle) \<and> sys_consumer y = C_Round \<and>
     sys_log y = [] \<and> length (sys_made y) \<le> n"

lemma held_monitor_run:
  assumes "held_monitor tls rt n y" and "\<exists>y'. call_run l 1 tid p y y'" and "p = (tls', rt')" and "m = n + 2"
  shows "\<exists>p y'. call_run l 1 tid p y y' \<and> held_monitor tls' rt' m y'"
proof -
  from assms(2) obtain y' where y': "call_run l 1 tid p y y'" by blast
  then have "held_monitor tls' rt' m y'" using assms(1,3,4) by (auto simp: held_monitor_def call_run_def effect_def)
  with y' show ?thesis by blast
qed

lemma held_monitor_calls:
  shows "held_monitor fresh_tls (snd (monitor_runtime_start None 0 0 runtime_boot)) 0 y \<Longrightarrow>
      \<exists>p y'. call_run (Calls 1 (MONITOR_EVENT_LOCK_REQUEST, 64, 0)) 1 11 p y y' \<and> held_monitor held_tls demo_runtime 2 y'"
    and "held_monitor held_tls demo_runtime 2 y \<Longrightarrow>
      \<exists>p y'. call_run (Calls 1 (MONITOR_EVENT_LOCK_ACQUIRED, 64, 0)) 1 11 p y y' \<and> held_monitor held_tls held_emitted 4 y'"
    and "held_monitor held_tls held_emitted 4 y \<Longrightarrow>
      \<exists>p y'. call_run (Ends 1) 1 11 p y y' \<and> held_monitor fresh_tls held_runtime 6 y'"
proof -
  let ?rt = "snd (monitor_runtime_start None 0 0 runtime_boot)"
  assume y: "held_monitor fresh_tls ?rt 0 y"
  have "accept_events ?rt" "next_thread_slot ?rt = 0" by (simp_all add: monitor_runtime_start_def Let_def)
  then have "\<exists>y'. call_run (Calls 1 (MONITOR_EVENT_LOCK_REQUEST, 64, 0)) 1 11
      (monitor_runtime_emit MONITOR_EVENT_LOCK_REQUEST 64 0 11 0 (Some (0, 9)) (Some (0, 10)) (sys_tls y 1, sys_rt y)) y y'"
    using y by (intro emit_claim_runs) (simp_all add: held_monitor_def claim_thread_slot_def fresh_tls_def)
  then show "\<exists>p y'. call_run (Calls 1 (MONITOR_EVENT_LOCK_REQUEST, 64, 0)) 1 11 p y y' \<and> held_monitor held_tls demo_runtime 2 y'"
    using y demo_emit by (intro held_monitor_run [OF y]) (simp_all add: held_monitor_def demo_runtime_def)
next
  assume y: "held_monitor held_tls demo_runtime 2 y"
  then have "\<exists>y'. call_run (Calls 1 (MONITOR_EVENT_LOCK_ACQUIRED, 64, 0)) 1 11
      (monitor_runtime_emit MONITOR_EVENT_LOCK_ACQUIRED 64 0 11 0 None (Some (0, 12)) (sys_tls y 1, sys_rt y)) y y'"
    by (intro emit_known_runs) (simp_all add: held_monitor_def demo_runtime_def fresh_tls_def)
  then show "\<exists>p y'. call_run (Calls 1 (MONITOR_EVENT_LOCK_ACQUIRED, 64, 0)) 1 11 p y y' \<and> held_monitor held_tls held_emitted 4 y'"
    using y held_acquire by (intro held_monitor_run [OF y]) (simp_all add: held_monitor_def)
next
  assume y: "held_monitor held_tls held_emitted 4 y"
  have acc: "accept_events held_emitted"
    by (simp add: demo_runtime_def emit_event_to_context_def reserve_event_def push_event_def upd_context_def Let_def split: prod.splits)
  with y have "\<exists>y'. call_run (Ends 1) 1 11 (monitor_thread_exit_destructor (Some (0, 13)) (Some 0)
      ((sys_tls y 1)\<lparr>tls_exit_value := None\<rparr>, sys_rt y)) y y'"
    by (intro destructor_emits) (simp_all add: held_monitor_def)
  then show "\<exists>p y'. call_run (Ends 1) 1 11 p y y' \<and> held_monitor fresh_tls held_runtime 6 y'"
    using y acc held_exit by (intro held_monitor_run [OF y]) (simp_all add: held_monitor_def monitor_thread_exit_destructor_def fresh_tls_def)
qed

section \<open>The steps of the session\<close>

definition held_at ::
    "tstate list \<Rightarrow> nat option \<Rightarrow> call_event list \<Rightarrow> u64 option \<Rightarrow> call_event list \<Rightarrow> thread_local \<Rightarrow> runtime_state \<Rightarrow> nat \<Rightarrow> session \<Rightarrow> bool" where
  "held_at T h E x cs tls rt n z \<longleftrightarrow> session_runs None held_tid (held_at_exit_main 64) z \<and>
     held_stage T h E x cs z \<and> held_monitor tls rt n (monitor z)"

lemma held_computes:
  assumes z: "held_at T h E None [] tls rt n z" and i: "i < length T" "act i (T ! i) (program z) w"
    and w: "ts w = T'" "owner w 64 = h'" "events w = (\<lambda>_. [])(1 := E')" "exit_code w = x"
    and cs: "new_calls i (program z) w = cs" "i = 1 \<or> cs = []"
  shows "\<exists>z'. held_at T' h' E' x cs tls rt n z'"
proof -
  let ?z = "z\<lparr>program := w, calls := (calls z)(i := new_calls i (program z) w)\<rparr>"
  have s: "held_stage T h E None [] z" and m: "held_monitor tls rt n (monitor z)" and r: "session_runs None held_tid (held_at_exit_main 64) z"
    using z by (simp_all add: held_at_def)
  have "\<not> busy z j" for j using s m by (simp add: held_stage_def held_monitor_def busy_def)
  then have "session_step held_tid z ?z" using s i by (intro session_step.computes) (simp_all add: held_stage_def)
  moreover have "held_stage T' h' E' x cs ?z" using s w cs by (auto simp: held_stage_def complete_def)
  ultimately show ?thesis using session_next [OF r] m by (intro exI [of _ ?z]) (simp add: held_at_def)
qed

lemma held_calls:
  assumes z: "held_at T h E x [c] tls rt n z" and run: "\<exists>p y'. call_run l 1 11 p (monitor z) y' \<and> held_monitor tls' rt' m y'"
    and l: "l = Calls 1 c \<and> fst c \<noteq> MONITOR_EVENT_THREAD_EXIT \<or> l = Ends 1 \<and> fst c = MONITOR_EVENT_THREAD_EXIT"
  shows "\<exists>z'. held_at T h E x [] tls' rt' m z'"
proof -
  obtain p y' where y': "call_run l 1 (held_tid 1) p (monitor z) y'" "held_monitor tls' rt' m y'" using run by (auto simp: held_tid_def)
  have s: "held_stage T h E x [c] z" and r: "session_runs None held_tid (held_at_exit_main 64) z"
    using z by (simp_all add: held_at_def)
  then have "due z 1 = Some c" by (simp add: held_stage_def due_def)
  with y'(1) l have "(session_step held_tid)\<^sup>*\<^sup>* z (take_call 1 y' z)" by (intro session_call)
  from session_run [OF this r] s y'(2) show ?thesis
    by (intro exI [of _ "take_call 1 y' z"]) (simp add: held_at_def held_stage_def complete_def)
qed

lemma held_at_monitor: "held_at T h E x cs tls rt n z \<Longrightarrow> held_monitor tls rt n (monitor z)"
  by (simp add: held_at_def)

lemmas held_simps = held_at_def held_stage_def act_simps new_calls_def emit_def proceed_def

lemma held_start: "\<exists>z. held_at [Running held_join, Running (Lock 64 held_locked)] None [] None [] fresh_tls
   (snd (monitor_runtime_start None 0 0 runtime_boot)) 0 z"
proof -
  let ?z = "session_boot None runtime_boot (held_at_exit_main 64)"
  let ?w = "proceed 0 held_join (proceed 1 (held_at_exit_worker 64) ((program ?z)\<lparr>ts := ts (program ?z) @ [Running (held_at_exit_worker 64)]\<rparr>))"
  have z: "held_at [Running (Create (held_at_exit_worker 64) (\<lambda>rc thread. if rc \<noteq> 0 then Done EXIT_FAILURE
      else Join thread (\<lambda>_ _. Say ''[TARGET] Worker has exited'' (Done EXIT_SUCCESS))))] None [] None [] fresh_tls
      (snd (monitor_runtime_start None 0 0 runtime_boot)) 0 ?z"
    unfolding held_at_def
    by (intro conjI session_start [OF boot_storage])
      (simp_all add: held_stage_def held_monitor_def session_boot_def started_def boot_def held_at_exit_main_def complete_def fun_eq_iff)
  then show ?thesis
    by (intro held_computes [OF z, of 0 ?w]) (simp_all add: held_simps held_at_exit_worker_def)
qed

lemma held_requested:
  "\<exists>z. held_at [Running held_join, Locking 64 held_locked] None [start_call, (MONITOR_EVENT_LOCK_REQUEST, 64, 0)] None []
     held_tls demo_runtime 2 z"
proof -
  obtain z where z: "held_at [Running held_join, Running (Lock 64 held_locked)] None [] None [] fresh_tls
    (snd (monitor_runtime_start None 0 0 runtime_boot)) 0 z" using held_start by blast
  then have "\<exists>z. held_at [Running held_join, Locking 64 held_locked] None [start_call, (MONITOR_EVENT_LOCK_REQUEST, 64, 0)] None
      [(MONITOR_EVENT_LOCK_REQUEST, 64, 0)] fresh_tls (snd (monitor_runtime_start None 0 0 runtime_boot)) 0 z"
    by (intro held_computes [OF z, of 1 "emit 1 (MONITOR_EVENT_LOCK_REQUEST, 64, 0) ((program z)\<lparr>ts := (ts (program z))[1 := Locking 64 held_locked]\<rparr>)"])
      (simp_all add: held_simps)
  then obtain z' where z': "held_at [Running held_join, Locking 64 held_locked] None [start_call, (MONITOR_EVENT_LOCK_REQUEST, 64, 0)] None
      [(MONITOR_EVENT_LOCK_REQUEST, 64, 0)] fresh_tls (snd (monitor_runtime_start None 0 0 runtime_boot)) 0 z'" by blast
  show ?thesis by (rule held_calls [OF z' held_monitor_calls(1) [OF held_at_monitor [OF z']]]) simp
qed

abbreviation held_events :: "call_event list" where
  "held_events \<equiv> [start_call, (MONITOR_EVENT_LOCK_REQUEST, 64, 0), (MONITOR_EVENT_LOCK_ACQUIRED, 64, 0)]"

lemma held_acquired:
  "\<exists>z. held_at [Running held_join, Running (Done 0)] (Some 1) held_events None [] held_tls held_emitted 4 z"
proof -
  obtain z where z: "held_at [Running held_join, Locking 64 held_locked] None [start_call, (MONITOR_EVENT_LOCK_REQUEST, 64, 0)] None []
     held_tls demo_runtime 2 z" using held_requested by blast
  then have "\<exists>z. held_at [Running held_join, Running (Done 0)] (Some 1) held_events None [(MONITOR_EVENT_LOCK_ACQUIRED, 64, 0)] held_tls demo_runtime 2 z"
    by (intro held_computes [OF z, of 1 "proceed 1 (held_locked 0) (emit 1 (MONITOR_EVENT_LOCK_ACQUIRED, 64, 0)
        ((program z)\<lparr>owner := (owner (program z))(64 := Some 1)\<rparr>))"])
      (simp_all add: held_simps)
  then obtain z' where z': "held_at [Running held_join, Running (Done 0)] (Some 1) held_events None [(MONITOR_EVENT_LOCK_ACQUIRED, 64, 0)]
      held_tls demo_runtime 2 z'" by blast
  show ?thesis by (rule held_calls [OF z' held_monitor_calls(2) [OF held_at_monitor [OF z']]]) simp
qed

lemma held_ended:
  "\<exists>z. held_at [Running held_join, Finished 0] (Some 1) (held_events @ [exit_call]) None [] fresh_tls held_runtime 6 z"
proof -
  obtain z where z: "held_at [Running held_join, Running (Done 0)] (Some 1) held_events None [] held_tls held_emitted 4 z"
    using held_acquired by blast
  then have "\<exists>z. held_at [Running held_join, Finished 0] (Some 1) (held_events @ [exit_call]) None [exit_call] held_tls held_emitted 4 z"
    by (intro held_computes [OF z, of 1 "(program z)\<lparr>ts := (ts (program z))[1 := Finished 0],
        events := (events (program z))(1 := events (program z) 1 @ [exit_call])\<rparr>"])
      (simp_all add: held_simps)
  then obtain z' where z': "held_at [Running held_join, Finished 0] (Some 1) (held_events @ [exit_call]) None [exit_call] held_tls held_emitted 4 z'"
    by blast
  show ?thesis by (rule held_calls [OF z' held_monitor_calls(3) [OF held_at_monitor [OF z']]]) simp
qed

lemma held_returned:
  "\<exists>z. held_at [Finished 0, Finished 0] (Some 1) (held_events @ [exit_call]) (Some 0) [] fresh_tls held_runtime 6 z"
proof -
  obtain z where z: "held_at [Running held_join, Finished 0] (Some 1) (held_events @ [exit_call]) None [] fresh_tls held_runtime 6 z"
    using held_ended by blast
  then have "\<exists>z. held_at [Running (Done 0), Finished 0] (Some 1) (held_events @ [exit_call]) None [] fresh_tls held_runtime 6 z"
    by (intro held_computes [OF z, of 0 "proceed 0 (Say ''[TARGET] Worker has exited'' (Done EXIT_SUCCESS)) (program z)"])
      (simp_all add: held_simps)
  then obtain z' where z': "held_at [Running (Done 0), Finished 0] (Some 1) (held_events @ [exit_call]) None [] fresh_tls held_runtime 6 z'" by blast
  then show ?thesis
    by (intro held_computes [OF z', of 0 "(program z')\<lparr>ts := (ts (program z'))[0 := Finished 0], exit_code := Some 0\<rparr>"])
      (simp_all add: held_simps)
qed

lemma held_session: "\<exists>z. held_end z"
proof -
  obtain z where z: "held_at [Finished 0, Finished 0] (Some 1) (held_events @ [exit_call]) (Some 0) [] fresh_tls held_runtime 6 z"
    using held_returned by blast
  let ?z = "z\<lparr>monitor := (do_consume ^^ 6) (monitor z)\<rparr>"
  have s: "held_stage [Finished 0, Finished 0] (Some 1) (held_events @ [exit_call]) (Some 0) [] z" "held_monitor fresh_tls held_runtime 6 (monitor z)"
    and r: "session_runs None held_tid (held_at_exit_main 64) z" using z by (simp_all add: held_at_def)
  have m: "sys_rt (monitor z) = held_runtime" "sys_consumer (monitor z) = C_Round" "sys_log (monitor z) = []"
    "sys_app (monitor z) = (\<lambda>_. A_Idle)" "length (sys_made (monitor z)) \<le> 6" using s(2) by (simp_all add: held_monitor_def)
  note d = held_drained [OF m(1-3)]
  have "session_runs None held_tid (held_at_exit_main 64) ?z" by (rule session_run [OF session_consumes r])
  moreover have "stuck (program z)" using s(1) by (simp add: held_stage_def stuck_def step_def)
  ultimately show ?thesis
    using s(1) m d by (intro exI [of _ ?z]) (simp add: held_end_def held_stage_def orderly_def busy_def complete_def)
qed

end
