(* ===== verification/Monitored_Targets.thy ===== *)
theory Monitored_Targets
  imports Session_Demo Benchmark_Properties
begin

text \<open>
  The target programs under the whole monitor: the calls their threads make, recorded by
  the runtime under any interleaving, drained by the consumer, and judged by the verifier.
  When the final summary calls the results authoritative, they are the intended ones.
\<close>

section \<open>Every call is recorded\<close>

text \<open>
  (C2) Complete traces.  Run any program over the pthread library together with the monitor,
  with any interleaving of its threads, of the calls they are inside and of the consumer,
  without failing library calls.  If the kernel's ids of the threads are distinct, no call is
  under way, none came after the stop request, and the summary counts no loss, then the events
  recorded are, thread by thread and in order, exactly the calls the program made.
\<close>

theorem every_call_recorded:
  assumes "session_runs env tid p z" and "orderly z" and "inj_on tid {..<length (ts (program z))}"
    and "trace_complete (sys_rt (monitor z))"
  shows "records (map snd (sys_made (monitor z))) (streams tid (program z))"
  by (rule session_records [OF assms(1) orderly_complete [OF assms(1,2,4)] _ assms(3)]) (use assms(2) in \<open>simp add: orderly_def\<close>)

theorem every_call_recorded_witness:
  "\<exists>z. session_runs None held_tid (held_at_exit_main 64) z \<and>
     records (map snd (sys_made (monitor z))) (streams held_tid (program z)) \<and> length (sys_made (monitor z)) \<le> 6"
proof -
  obtain z where z: "held_end z" using held_session by blast
  then have e: "session_runs None held_tid (held_at_exit_main 64) z" "orderly z" "trace_complete (sys_rt (monitor z))"
    by (simp_all add: held_end_def)
  have "inj_on held_tid {..<length (ts (program z))}"
    using z by (auto simp: held_end_def inj_on_def held_tid_def less_2_cases_iff)
  from every_call_recorded [OF e(1,2) this e(3)] e(1) z show ?thesis by (auto simp: held_end_def)
qed

section \<open>The programs and their verdicts\<close>

datatype monitored =
  Correct_Target nat nat | Benchmark_Target bench_config | Worker_Target scenario | Non_Owner_Target | Circular_Target uintptr

primrec monitored_main :: "monitored \<Rightarrow> uintptr \<Rightarrow> prog" where
  "monitored_main (Correct_Target N n) m = correct_main m N n"
| "monitored_main (Benchmark_Target cfg) m = bench_run m cfg"
| "monitored_main (Worker_Target x) m = scenario_main x m"
| "monitored_main Non_Owner_Target m = non_owner_main m"
| "monitored_main (Circular_Target b) m = circular_main m b"

text \<open>
  The violation each program is made for, if it has one; a deadlock is a cycle instead.
\<close>

primrec monitored_verdict :: "monitored \<Rightarrow> violation_kind option" where
  "monitored_verdict (Correct_Target N n) = None"
| "monitored_verdict (Benchmark_Target cfg) = None"
| "monitored_verdict (Worker_Target x) = Some (scenario_verdict x)"
| "monitored_verdict Non_Owner_Target = Some NON_OWNER_UNLOCK"
| "monitored_verdict (Circular_Target b) = None"

text \<open>What a run needs: a configuration the benchmark accepts, two distinct mutexes, thread ids.\<close>

primrec monitored_ok :: "monitored \<Rightarrow> uintptr \<Rightarrow> (nat \<Rightarrow> u64) \<Rightarrow> bool" where
  "monitored_ok (Correct_Target N n) m tid \<longleftrightarrow> True"
| "monitored_ok (Benchmark_Target cfg) m tid \<longleftrightarrow> config_ok cfg"
| "monitored_ok (Worker_Target x) m tid \<longleftrightarrow> True"
| "monitored_ok Non_Owner_Target m tid \<longleftrightarrow> True"
| "monitored_ok (Circular_Target b) m tid \<longleftrightarrow> m \<noteq> b \<and> m \<noteq> 0 \<and> b \<noteq> 0 \<and> tid 1 \<noteq> 0 \<and> tid 2 \<noteq> 0"

lemma monitored_count:
  assumes t: "terminal (monitored_main x m) w" and c: "consists_of es (streams tid w)" and ok: "monitored_ok x m tid"
  shows "stream_count mh es (streams tid w) k =
    (if k = HOLD_TIME_VIOLATION then long_holds mh es else if monitored_verdict x = Some k then 1 else 0)"
proof (cases x)
  case (Correct_Target N n)
  then show ?thesis using rounds_count [OF c correct_phases] t by simp
next
  case (Benchmark_Target cfg)
  then have cfg: "0 < unat (threads cfg)" "unat (threads cfg) \<le> 64" "0 < unat (iterations cfg)" and t': "terminal (bench_run m cfg) w"
    using t ok unat_gt_0 [of "iterations cfg"] by (simp_all add: config_ok_def)
  have "\<forall>(tid, cs) \<in> set (streams tid w). \<exists>n. n \<noteq> 0 \<and> cs = phase_events m n Ended"
    using cfg(3) unfolding bench_streams [OF t' cfg] by (auto simp del: upt_Suc phase_events.simps)
  from rounds_count [OF c this] show ?thesis using Benchmark_Target by simp
next
  case (Worker_Target x')
  then have s: "streams tid w = [(tid 1, scenario_events x' m)]" using scenario_streams t by simp
  show ?thesis using scenario_count [OF c [unfolded s]] Worker_Target unfolding s by auto
next
  case Non_Owner_Target
  then have s: "streams tid w = [(tid 1, owner_events m), (tid 2, non_owner_events m)]" using non_owner_streams t by simp
  show ?thesis using non_owner_count [OF c [unfolded s]] Non_Owner_Target unfolding s by auto
next
  case (Circular_Target b)
  then have b: "m \<noteq> b" and t': "terminal (circular_main m b) w" using t ok by simp_all
  note s = circular_streams(2) [OF b t', of tid]
  show ?thesis using crossing_count [OF c [unfolded s] b, of mh] Circular_Target unfolding s by simp
qed

section \<open>The authoritative summary\<close>

lemma recorded_verdict:
  assumes "terminal (monitored_main x m) w" and "records (map snd (sys_made y)) (streams tid w)"
    and "monitored_ok x m tid"
    and "sys_reachable env y" and "length (sys_made y) < 2 ^ 32"
    and "trace_complete (sys_rt y)" and "verifier_complete (verifier (sys_rt y))"
  shows "(k \<noteq> DEADLOCK_CYCLE \<longrightarrow> counter k (verifier (sys_rt y)) =
      (if k = HOLD_TIME_VIOLATION then of_nat (long_holds (load_configuration env) (map snd (sys_made y)))
       else if monitored_verdict x = Some k then 1 else 0)) \<and>
    (x = Worker_Target Hold_Time \<and> clock_shows_pauses tid w (map snd (sys_made y)) \<and>
       0 < load_configuration env \<and> load_configuration env < 199800000 \<longrightarrow>
       counter HOLD_TIME_VIOLATION (verifier (sys_rt y)) = 1) \<and>
    (x = Circular_Target b \<longrightarrow> wait_cycle (verifier (sys_rt y)) [tid 1, tid 2] [b, m] \<and>
       fst (find_any_cycle (verifier (sys_rt y)) cycle_out_init))"
proof -
  note o = authoritative_order [OF assms(4-7)] and run = authoritative_run [OF assms(4-7)]
  have c: "consists_of (map snd (sys_made y)) (streams tid w)" by (rule records_consists [OF assms(2) o(4)])
  have count: "counter k (verifier (sys_rt y)) =
      (if k = HOLD_TIME_VIOLATION then of_nat (long_holds (load_configuration env) (map snd (sys_made y)))
       else if monitored_verdict x = Some k then 1 else 0)" if "k \<noteq> DEADLOCK_CYCLE" for k
    using run(2) [OF that] monitored_count [OF assms(1) c assms(3), of _ k] consists_verdicts [OF c] by simp
  moreover have "counter HOLD_TIME_VIOLATION (verifier (sys_rt y)) = 1"
    if "x = Worker_Target Hold_Time" "clock_shows_pauses tid w (map snd (sys_made y))"
      "0 < load_configuration env" "load_configuration env < 199800000"
  proof -
    have "terminal (scenario_main Hold_Time m) w" using assms(1) that(1) by simp
    from hold_time_shown [OF this c that(2-4)] count [of HOLD_TIME_VIOLATION] show ?thesis by simp
  qed
  moreover have "wait_cycle (verifier (sys_rt y)) [tid 1, tid 2] [b, m] \<and> fst (find_any_cycle (verifier (sys_rt y)) cycle_out_init)"
    if x: "x = Circular_Target b"
  proof -
    have b: "m \<noteq> b" "m \<noteq> 0" "b \<noteq> 0" "tid 1 \<noteq> 0" "tid 2 \<noteq> 0" and t: "terminal (circular_main m b) w"
      using assms(1,3) x by simp_all
    have unt: "\<forall>tid. \<not> sp_tainted (view_thread initial_view tid)" by (simp add: fresh_thread_def)
    have g: "gap_free (map snd (sys_made y)) initial_view"
      using o(4) by (simp add: gap_free_iff [OF unt]) (simp add: fresh_thread_def)
    have w: "wait_cycle (verifier (sys_rt y)) [tid 1, tid 2] [b, m]"
      by (rule circular_cycle [OF c [unfolded circular_streams(2) [OF b(1) t]] o(5) g b run(1)])
    have wf: "verifier_wf (verifier (sys_rt y))" using reachable_follows [OF assms(4)] by (simp add: follows_spec_def)
    then show ?thesis using w find_any_cycle_complete [OF _ _ w] by (simp add: verifier_wf_def)
  qed
  ultimately show ?thesis by blast
qed

text \<open>
  (C3) The monitored program.  Run a target program together with the monitor, under any
  schedule without failing library calls and with distinct kernel ids of the threads, until
  the program has ended or, the circular one, come to its halt.  If the summary is
  authoritative (no loss counted, and the verifier degraded nothing) and no call is under way
  or came after the stop request, then the verifier has counted the violation the program is
  made for, once, and none for the correct programs; besides, as hold-time violations, exactly
  the holds whose recorded time stamps are further apart than the threshold.  The hold-time
  target has exactly one if the threshold is not 0 and below 199.8 ms and the clock shows the
  pause of \<^verbatim>\<open>nanosleep\<close>.  For the circular program the verifier's tables hold the wait-for cycle
  of the two threads, which the deadlock search finds.
\<close>

theorem authoritative_verdict:
  assumes "session_runs env tid (monitored_main x m) z" and "stuck (program z)" and "orderly z"
    and "inj_on tid {..<length (ts (program z))}"
    and "monitored_ok x m tid"
    and "length (sys_made (monitor z)) < 2 ^ 32"
    and "trace_complete (sys_rt (monitor z))" and "verifier_complete (verifier (sys_rt (monitor z)))"
  shows "(k \<noteq> DEADLOCK_CYCLE \<longrightarrow> counter k (verifier (sys_rt (monitor z))) =
      (if k = HOLD_TIME_VIOLATION then of_nat (long_holds (load_configuration env) (map snd (sys_made (monitor z))))
       else if monitored_verdict x = Some k then 1 else 0)) \<and>
    (x = Worker_Target Hold_Time \<and> clock_shows_pauses tid (program z) (map snd (sys_made (monitor z))) \<and>
       0 < load_configuration env \<and> load_configuration env < 199800000 \<longrightarrow>
       counter HOLD_TIME_VIOLATION (verifier (sys_rt (monitor z))) = 1) \<and>
    (x = Circular_Target b \<longrightarrow> wait_cycle (verifier (sys_rt (monitor z))) [tid 1, tid 2] [b, m] \<and>
       fst (find_any_cycle (verifier (sys_rt (monitor z))) cycle_out_init))"
proof -
  have "terminal (monitored_main x m) (program z)" using session_parts(1) [OF assms(1)] assms(2) by (simp add: terminal_def)
  moreover have "records (map snd (sys_made (monitor z))) (streams tid (program z))"
    using session_records [OF assms(1) orderly_complete [OF assms(1,3,7)] _ assms(4)] assms(3) by (simp add: orderly_def)
  ultimately show ?thesis using recorded_verdict session_parts(2) [OF assms(1)] assms(5-8) by blast
qed

lemma held_complete: "verifier_complete (process_events held_trace verifier_start)"
proof -
  have c: "consists_of held_trace [(11, scenario_events Held_At_Exit 64)]" by (simp add: held_trace_def held_event_def demo_start_def demo_request_def run_simps)
  have u: "length [(11 :: u64, scenario_events Held_At_Exit 64)] \<le> VERIFIER_MAX_THREADS" "length [64 :: uintptr] \<le> VERIFIER_MAX_HELD_MUTEXES"
    "\<forall>(tid, cs) \<in> set [(11 :: u64, scenario_events Held_At_Exit 64)]. list_all (uses_mutexes [64]) cs" using scenario_uses by simp_all
  show ?thesis by (rule consists_run(3) [OF c u _ refl]) (simp add: held_trace_def)
qed

theorem authoritative_verdict_witness:
  "\<exists>z. session_runs None held_tid (held_at_exit_main 64) z \<and> exit_code (program z) \<noteq> None \<and>
     counter LOCK_HELD_AT_THREAD_EXIT (verifier (sys_rt (monitor z))) = 1"
proof -
  obtain z where z: "held_end z" using held_session by blast
  let ?x = "Worker_Target Held_At_Exit"
  have e: "session_runs None held_tid (monitored_main ?x 64) z" "stuck (program z)" "orderly z" "trace_complete (sys_rt (monitor z))"
    "length (sys_made (monitor z)) < 2 ^ 32" "verifier_complete (verifier (sys_rt (monitor z)))"
    using z held_complete by (simp_all add: held_end_def)
  have tid: "inj_on held_tid {..<length (ts (program z))}"
    using z by (auto simp: held_end_def inj_on_def held_tid_def less_2_cases_iff)
  have ok: "monitored_ok ?x 64 held_tid" by simp
  have "terminal (scenario_main Held_At_Exit 64) (program z)" using session_parts(1) [OF e(1)] e(2) by (simp add: terminal_def)
  from inevitable_terminal [OF scenario_runs this] have ended: "exit_code (program z) \<noteq> None" by (simp add: scenario_outcome_def)
  with authoritative_verdict [OF e(1-3) tid ok e(5,4,6), of LOCK_HELD_AT_THREAD_EXIT 0] e(1) show ?thesis by auto
qed

end
