(* ===== verification/Runtime_Capacity.thy ===== *)
theory Runtime_Capacity
  imports Runtime_Log Verifier_Capacity Trace_Verdicts
begin

text \<open>
  The verifier behind the consumer overflows no table as long as the events it is given stay
  within the capacities, whatever deadlock checks come in between; on a complete trace it then
  degrades nothing.
\<close>

lemma check_fits: "fits T A H s \<Longrightarrow> fits T A H (monitor_verifier_check_deadlocks s)"
  using same_tables_check [of s] same_tables_view [OF same_tables_check [of s]]
  by (simp add: fits_def same_tables_def thread_keys_def mutex_keys_def thread_slot_def mutex_slot_def thread_view_def)

text \<open>One event within the capacities, or none.\<close>

lemma consume_fits:
  assumes wf: "verifier_wf (verifier (sys_rt y))" and f: "fits T A H (verifier (sys_rt y))"
    and T: "finite T" "card T \<le> VERIFIER_MAX_THREADS" and A: "finite A" "card A \<le> VERIFIER_MAX_MUTEXES"
    and H: "\<And>tid. tid \<in> T \<Longrightarrow> finite (H tid) \<and> card (H tid) \<le> VERIFIER_MAX_HELD_MUTEXES"
    and es: "\<And>e. e \<in> set (map snd (sys_log (do_consume y))) \<Longrightarrow> ev_thread_id e \<in> T \<and> (names_mutex e \<longrightarrow> ev_object_address e \<in> A) \<and>
      (takes_mutex e \<longrightarrow> ev_object_address e \<in> H (ev_thread_id e))"
  shows "fits T A H (verifier (sys_rt (do_consume y))) \<and>
    state_overflow_events (verifier (sys_rt (do_consume y))) = state_overflow_events (verifier (sys_rt y))"
proof (cases "sys_consumer y")
  case (C_Drain count i n any)
  obtain r q where pop: "spsc_ring_buffer_try_pop (cx_queue (thread_contexts (sys_rt y) ! i)) = (r, q)"
    by (cases "spsc_ring_buffer_try_pop (cx_queue (thread_contexts (sys_rt y) ! i))")
  show ?thesis
  proof (cases "n < MONITOR_DRAIN_BATCH \<and> r \<noteq> None")
    case True
    then obtain e where r: "r = Some e" and n: "n < MONITOR_DRAIN_BATCH" by auto
    have "e \<in> set (map snd (sys_log (do_consume y)))"
      using pop r n C_Drain by (simp add: do_consume_def consumer_step_def consumed_now_def drain_one_def upd_context_def)
    note e = es [OF this]
    from e process_fits [OF wf f T conjunct1 [OF e] A _ conjunct1 [OF H] conjunct2 [OF H]] show ?thesis
      using pop r n C_Drain by (simp add: do_consume_def consumer_step_def consumed_now_def drain_one_def upd_context_def)
  next
    case False
    then show ?thesis
      using f pop C_Drain by (auto simp: do_consume_def consumer_step_def drain_one_def upd_context_def)
  qed
qed (use f check_fits [OF f] in \<open>simp_all add: do_consume_simps check_keeps\<close>)

lemma reachable_fits:
  assumes "sys_reachable env y"
    and T: "finite T" "card T \<le> VERIFIER_MAX_THREADS" and A: "finite A" "card A \<le> VERIFIER_MAX_MUTEXES"
    and H: "\<And>tid. tid \<in> T \<Longrightarrow> finite (H tid) \<and> card (H tid) \<le> VERIFIER_MAX_HELD_MUTEXES"
    and "\<And>e. e \<in> set (map snd (sys_log y)) \<Longrightarrow> ev_thread_id e \<in> T \<and> (names_mutex e \<longrightarrow> ev_object_address e \<in> A) \<and>
      (takes_mutex e \<longrightarrow> ev_object_address e \<in> H (ev_thread_id e))"
  shows "fits T A H (verifier (sys_rt y)) \<and> state_overflow_events (verifier (sys_rt y)) = 0"
  using assms(1,7)
proof (induction rule: sys_reachable.induct)
  case (sys_start rt)
  then show ?case by (simp add: started_def monitor_runtime_start_def Let_def fits_init init_fields)
next
  case (sys_next y y')
  have wf: "verifier_wf (verifier (sys_rt y))" using reachable_follows [OF sys_next.hyps(1)] by (simp add: follows_spec_def)
  show ?case
  proof (cases "y' = do_consume y")
    case True
    have "set (sys_log y) \<subseteq> set (sys_log (do_consume y))" by (auto simp: do_consume_def split: prod.splits)
    then have IH: "fits T A H (verifier (sys_rt y)) \<and> state_overflow_events (verifier (sys_rt y)) = 0"
      using sys_next.prems unfolding True by (intro sys_next.IH) auto
    show ?thesis
      using consume_fits [OF wf conjunct1 [OF IH] T A H sys_next.prems [unfolded True]] IH unfolding True by simp
  next
    case False
    with step_verifier [OF sys_next.hyps(2)] sys_next.IH sys_next.prems show ?thesis by simp
  qed
qed

lemma reachable_within:
  assumes "sys_reachable env y" and "within_capacity (map snd (sys_log y))"
  shows "state_overflow_events (verifier (sys_rt y)) = 0"
proof -
  note b = within_bounds [OF assms(2)]
  show ?thesis by (rule conjunct2 [OF reachable_fits [OF assms(1) b(1-4)]]) (fact b(5), rule b(6))
qed

text \<open>A complete trace that carries streams within the capacities.\<close>

lemma complete_log:
  assumes r: "sys_reachable env y" and n: "length (sys_made y) < 2 ^ 64" and t: "trace_complete (sys_rt y)"
    and c: "consists_of (map snd (sys_made y)) streams"
    and one: "\<And>i j e f. (i, e) \<in> set (sys_made y) \<Longrightarrow> (j, f) \<in> set (sys_made y) \<Longrightarrow> ev_thread_id e = ev_thread_id f \<Longrightarrow> i = j"
  shows "consists_of (map snd (sys_log y)) streams" and "length (sys_log y) = length (sys_made y)"
proof -
  have inv: "sys_inv y" using reachable_inv [OF r] by simp
  have all: "log_at y i = made_at y i" for i using complete_streams [OF inv n t] .
  have "set (sys_log y) = set (sys_made y)" by (auto simp: history_set all)
  with c log_same_streams [OF inv all one] show "consists_of (map snd (sys_log y)) streams"
    by (auto simp: consists_of_def carries_def same_streams_def)
  show "length (sys_log y) = length (sys_made y)" by (simp add: history_lengths [OF inv] all)
qed

text \<open>A context numbers its events from 0, so a thread with one context does.\<close>

lemma one_slot_numbers:
  assumes inv: "sys_inv y"
    and one: "\<And>i j e f. (i, e) \<in> set (sys_made y) \<Longrightarrow> (j, f) \<in> set (sys_made y) \<Longrightarrow> ev_thread_id e = ev_thread_id f \<Longrightarrow> i = j"
  shows "map ev_thread_sequence (of_thread tid (map snd (sys_made y))) = map of_nat [0..<length (of_thread tid (map snd (sys_made y)))]"
proof (cases "of_thread tid (map snd (sys_made y)) = []")
  case False
  then obtain i e where e: "(i, e) \<in> set (sys_made y)" "ev_thread_id e = tid" by (auto simp: filter_empty_conv)
  then have "of_thread tid (map snd (sys_made y)) = made_at y i"
    using thread_stream_slot [OF inv e(1) refl one] by (simp add: made_at_def)
  then show ?thesis using slot_stream(3) [OF inv made_active [OF inv e(1)]] by simp
qed simp

lemma complete_verifier:
  assumes r: "sys_reachable env y" and n: "length (sys_made y) < 2 ^ 64" and t: "trace_complete (sys_rt y)"
    and c: "consists_of (map snd (sys_made y)) streams"
    and one: "\<And>i j e f. (i, e) \<in> set (sys_made y) \<Longrightarrow> (j, f) \<in> set (sys_made y) \<Longrightarrow> ev_thread_id e = ev_thread_id f \<Longrightarrow> i = j"
    and cap: "length streams \<le> VERIFIER_MAX_THREADS" "length ms \<le> VERIFIER_MAX_HELD_MUTEXES" "\<forall>(tid, cs) \<in> set streams. list_all (uses_mutexes ms) cs"
  shows "verifier_complete (verifier (sys_rt y))"
proof -
  let ?s = "verifier (sys_rt y)" and ?L = "map snd (sys_log y)"
  note l = complete_log [OF r n t c one]
  have ov: "state_overflow_events ?s = 0" by (rule reachable_within [OF r consists_capacity [OF l(1) cap]])
  have f: "verifier_wf ?s" "abs_view ?s = spec_run ?L initial_view"
    using reachable_follows [OF r] n l(2) ov by (simp_all add: follows_spec_def)
  have unt: "\<forall>tid. \<not> sp_tainted (view_thread initial_view tid)" by (simp add: fresh_thread_def)
  have "gap_free ?L initial_view"
    using consists_contiguous [OF l(1)] by (simp add: gap_free_iff [OF unt]) (simp add: fresh_thread_def)
  then show ?thesis
    using ov complete_iff_untainted [OF f(1)] f(2) gap_free_untainted [OF unt] by (simp add: verifier_complete_def)
qed

end
