(* ===== verification/Session_Shutdown.thy ===== *)
theory Session_Shutdown
  imports Session_Demo Runtime_Capacity
begin

text \<open>
  The end of a session: once the program has ended and no thread is inside the monitor, only
  the consumer and the stop request run, and the shutdown completes the trace.
\<close>

section \<open>After the end of the program\<close>

definition ended :: "session \<Rightarrow> bool" where
  "ended z \<longleftrightarrow> exit_code (program z) \<noteq> None \<and> (\<forall>i. \<not> busy z i)"

text \<open>The counters of the summary show no loss.\<close>

definition no_loss :: "runtime_state \<Rightarrow> bool" where
  "no_loss rt \<longleftrightarrow> total_of cx_dropped rt = 0 \<and> unregistered_events rt = 0 \<and> lifecycle_registration_failures rt = 0"

lemma ended_idle: "ended z \<Longrightarrow> due z i = None \<and> sys_app (monitor z) i = A_Idle"
  by (simp add: ended_def busy_def due_def)

lemma ended_step:
  assumes step: "session_step tid z z'" and e: "ended z" and inv: "sys_inv (monitor z)"
  obtains l where "l = Consumes \<or> l = Stops" and "sys_act l (monitor z) (monitor z')" and "z' = z\<lparr>monitor := monitor z'\<rparr>"
  using step
proof cases
  case (computes i w)
  then show ?thesis using e by (simp add: ended_def)
next
  case (registers i y)
  then show ?thesis using ended_idle [OF e] by (auto elim: sys_act.cases)
next
  case (works i y)
  then show ?thesis using works_recorded [OF inv works(2)] ended_idle [OF e] by simp
qed (use ended_idle [OF e] that in auto)

text \<open>What these steps leave alone.\<close>

lemma shutdown_act:
  assumes "sys_act l y y'" and "l = Consumes \<or> l = Stops"
  shows "sys_app y' = sys_app y" and "sys_made y' = sys_made y" and "sys_drops y' = sys_drops y"
    and "loss_counts (sys_rt y') = loss_counts (sys_rt y)" and "sys_inv y \<Longrightarrow> scan_clean y \<Longrightarrow> scan_clean y'"
proof -
  have "sys_made (do_consume y) = sys_made y" "sys_drops (do_consume y) = sys_drops y"
    by (simp_all add: do_consume_def split: prod.splits)
  moreover have stop: "loss_counts (rt\<lparr>accept_events := b\<rparr>) = loss_counts rt" "loss_counts (rt\<lparr>consumer_running := b\<rparr>) = loss_counts rt" for rt b
    by (simp_all add: loss_counts_def)
  moreover have "scan_clean (y\<lparr>sys_rt := (sys_rt y)\<lparr>accept_events := b\<rparr>\<rparr>) = scan_clean y"
    "scan_clean (y\<lparr>sys_rt := (sys_rt y)\<lparr>consumer_running := b\<rparr>\<rparr>) = scan_clean y" for b
    by (simp_all add: scan_clean_def empty_below_def queued_def split: consumer_pc.split)
  ultimately show "sys_app y' = sys_app y" and "sys_made y' = sys_made y" and "sys_drops y' = sys_drops y"
    and "loss_counts (sys_rt y') = loss_counts (sys_rt y)" and "sys_inv y \<Longrightarrow> scan_clean y \<Longrightarrow> scan_clean y'"
    using assms by (auto elim!: sys_act.cases simp: consume_counts scan_clean_consume)
qed

definition shutting_down :: "session \<Rightarrow> session \<Rightarrow> bool" where
  "shutting_down z z' \<longleftrightarrow> z' = z\<lparr>monitor := monitor z'\<rparr> \<and> sys_app (monitor z') = sys_app (monitor z) \<and>
     sys_made (monitor z') = sys_made (monitor z) \<and> sys_drops (monitor z') = sys_drops (monitor z) \<and>
     loss_counts (sys_rt (monitor z')) = loss_counts (sys_rt (monitor z)) \<and> scan_clean (monitor z')"

lemma shutting_down:
  assumes "(session_step tid)\<^sup>*\<^sup>* z z'" and r: "session_runs env tid p z" and e: "ended z" and c: "scan_clean (monitor z)"
  shows "shutting_down z z' \<and> session_runs env tid p z' \<and> ended z'"
  using assms(1)
proof (induction rule: rtranclp_induct)
  case base
  then show ?case using r e c by (simp add: shutting_down_def)
next
  case (step z1 z2)
  have inv: "sys_inv (monitor z1)" using reachable_inv [OF session_parts(2)] step.IH by blast
  obtain l where l: "l = Consumes \<or> l = Stops" "sys_act l (monitor z1) (monitor z2)" "z2 = z1\<lparr>monitor := monitor z2\<rparr>"
    using ended_step [OF step.hyps(2) _ inv] step.IH by blast
  note a = shutdown_act [OF l(2,1)]
  obtain y where y: "z1 = z\<lparr>monitor := y\<rparr>" using step.IH by (auto simp: shutting_down_def)
  obtain y' where y': "z2 = z1\<lparr>monitor := y'\<rparr>" using l(3) by blast
  have "shutting_down z z2" using step.IH a inv by (simp add: shutting_down_def y y')
  moreover have "ended z2" using step.IH a(1) by (simp add: ended_def busy_def y y')
  ultimately show ?case using session_next [OF _ step.hyps(2)] step.IH by blast
qed

section \<open>The stopped consumer\<close>

lemma stopped_complete:
  assumes inv: "sys_inv y" and n: "length (sys_made y) < 2 ^ 64" and c: "scan_clean y" "sys_consumer y = C_Stopped"
    and idle: "\<forall>i. sys_app y i = A_Idle" and loss: "no_loss (sys_rt y)"
  shows "trace_complete (sys_rt y)"
proof -
  have "in_flight y i = 0" if "i < 16" for i
    using stopped_empty [OF inv c that] idle that
    by (auto simp: in_flight_def pending_def split: option.splits)
  with consistent_iff [OF inv n] loss show ?thesis by (simp add: trace_complete_def no_loss_def)
qed

lemma no_loss_iff:
  assumes "sys_inv y" and "length (sys_made y) < 2 ^ 64"
  shows "no_loss (sys_rt y) \<longleftrightarrow> (\<forall>i<16. sys_drops y i = 0) \<and> loss_counts (sys_rt y) = (0, 0)"
  by (simp add: no_loss_def loss_counts_def no_drops_iff [OF assms])

lemma shut_down:
  assumes run: "session_runs env tid p z" and e: "ended z" and c: "scan_clean (monitor z)" and n: "length (sys_made (monitor z)) < 2 ^ 64"
    and loss: "no_loss (sys_rt (monitor z))" and z': "(session_step tid)\<^sup>*\<^sup>* z z'" "sys_consumer (monitor z') = C_Stopped"
  shows "trace_complete (sys_rt (monitor z'))"
proof -
  have s: "shutting_down z z'" "session_runs env tid p z'" "ended z'" using shutting_down [OF z'(1) run e c] by blast+
  have inv: "sys_inv (monitor z)" "sys_inv (monitor z')" using reachable_inv session_parts(2) run s(2) by blast+
  have n': "length (sys_made (monitor z')) < 2 ^ 64" using s(1) n by (simp add: shutting_down_def)
  have "no_loss (sys_rt (monitor z'))"
    using loss s(1) by (simp add: no_loss_iff [OF inv(1) n] no_loss_iff [OF inv(2) n'] shutting_down_def)
  with s n' z'(2) show ?thesis
    by (intro stopped_complete [OF inv(2)]) (simp_all add: shutting_down_def ended_def busy_def)
qed

lemma shutdown_run:
  assumes run: "session_runs env tid p z" and e: "ended z"
  shows "\<exists>z'. (session_step tid)\<^sup>*\<^sup>* z z' \<and> sys_consumer (monitor z') = C_Stopped"
proof -
  let ?y = "(monitor z)\<lparr>sys_rt := (sys_rt (monitor z))\<lparr>consumer_running := False\<rparr>\<rparr>"
  have s: "session_step tid z (z\<lparr>monitor := ?y\<rparr>)"
    using e by (intro session_step.stops sys_act.stop_running) (simp add: ended_def)
  have "sys_inv ?y" using reachable_inv [OF session_parts(2) [OF session_next [OF run s]]] by simp
  then obtain n where "sys_consumer ((do_consume ^^ n) ?y) = C_Stopped" using consumer_stops [of ?y] by auto
  moreover have "(session_step tid)\<^sup>*\<^sup>* z (z\<lparr>monitor := (do_consume ^^ n) ?y\<rparr>)"
    using converse_rtranclp_into_rtranclp [of "session_step tid", OF s] session_consumes [of tid "z\<lparr>monitor := ?y\<rparr>" n] by simp
  ultimately show ?thesis by (intro exI [of _ "z\<lparr>monitor := (do_consume ^^ n) ?y\<rparr>"]) simp
qed

text \<open>
  (C4) The shutdown.  When the program has ended, no call is under way or came late, no loss
  has been counted, and the consumer is about to start a round, then the shutdown can finish,
  and however it is scheduled, once the consumer has stopped nothing more has been recorded
  and the trace is complete; and if the program used at most 32 mutexes, the summary calls the
  results authoritative.
\<close>

theorem orderly_shutdown:
  assumes "session_runs env tid p z" and "exit_code (program z) \<noteq> None" and "orderly z"
    and "inj_on tid {..<length (ts (program z))}"
    and "sys_consumer (monitor z) = C_Round" and "length (sys_made (monitor z)) < 2 ^ 64" and "no_loss (sys_rt (monitor z))"
    and "length ms \<le> VERIFIER_MAX_HELD_MUTEXES" and "\<forall>(t, cs) \<in> set (streams tid (program z)). list_all (uses_mutexes ms) cs"
  shows "(\<exists>z'. (session_step tid)\<^sup>*\<^sup>* z z' \<and> sys_consumer (monitor z') = C_Stopped) \<and>
    (\<forall>z'. (session_step tid)\<^sup>*\<^sup>* z z' \<and> sys_consumer (monitor z') = C_Stopped \<longrightarrow>
       sys_made (monitor z') = sys_made (monitor z) \<and> orderly z' \<and> program z' = program z \<and>
       trace_complete (sys_rt (monitor z')) \<and> verifier_complete (verifier (sys_rt (monitor z'))))"
proof (intro conjI allI impI)
  have e: "ended z" using assms(2,3) by (simp add: ended_def orderly_def)
  have c: "scan_clean (monitor z)" using assms(5) by (simp add: scan_clean_def)
  show "\<exists>z'. (session_step tid)\<^sup>*\<^sup>* z z' \<and> sys_consumer (monitor z') = C_Stopped" by (rule shutdown_run [OF assms(1) e])
  fix z' assume z': "(session_step tid)\<^sup>*\<^sup>* z z' \<and> sys_consumer (monitor z') = C_Stopped"
  then have s: "shutting_down z z'" "session_runs env tid p z'" "ended z'" using shutting_down [OF _ assms(1) e c] by blast+
  then obtain y where y: "z' = z\<lparr>monitor := y\<rparr>" by (auto simp: shutting_down_def)
  show made: "sys_made (monitor z') = sys_made (monitor z)" and prog: "program z' = program z"
    using s(1) by (simp_all add: shutting_down_def y)
  show o: "orderly z'" using assms(3) s(3) by (simp add: orderly_def ended_def y)
  show t: "trace_complete (sys_rt (monitor z'))" using shut_down [OF assms(1) e c assms(6,7)] z' by blast
  have tid: "inj_on tid {..<length (ts (program z'))}" using assms(4) prog by simp
  have idle: "\<forall>i. \<not> busy z' i" using o by (simp add: orderly_def)
  note co = orderly_complete [OF s(2) o t]
  have r: "sys_reachable env (monitor z')" using session_parts(2) [OF s(2)] .
  have inv: "sys_inv (monitor z')" using reachable_inv [OF r] by simp
  note one = session_one_slot [OF s(2) co idle tid]
  have "consists_of (map snd (sys_made (monitor z'))) (streams tid (program z'))"
    by (rule records_consists [OF session_records [OF s(2) co idle tid] one_slot_numbers [OF inv one]])
  then show "verifier_complete (verifier (sys_rt (monitor z')))"
    using complete_verifier [OF r _ t _ one session_streams_le [OF s(2) co idle]] assms(6,8,9) made prog by simp
qed

theorem orderly_shutdown_witness:
  "\<exists>z z'. session_runs None held_tid (held_at_exit_main 64) z \<and> sys_log (monitor z) = [] \<and>
     (session_step held_tid)\<^sup>*\<^sup>* z z' \<and> verifier_complete (verifier (sys_rt (monitor z')))"
proof -
  obtain z where z: "held_at [Finished 0, Finished 0] (Some 1) (held_events @ [exit_call]) (Some 0) [] fresh_tls held_runtime 6 z"
    using held_returned by blast
  have h: "session_runs None held_tid (held_at_exit_main 64) z" "exit_code (program z) \<noteq> None" "orderly z"
    "sys_consumer (monitor z) = C_Round" "length (sys_made (monitor z)) < 2 ^ 64" "sys_log (monitor z) = []"
    and rt: "sys_rt (monitor z) = held_runtime" and ts: "length (ts (program z)) = 2" and ev: "events (program z) = (\<lambda>_. [])(1 := held_events @ [exit_call])"
    using z by (simp_all add: held_at_def held_stage_def held_monitor_def orderly_def busy_def complete_def)
  have tid: "inj_on held_tid {..<length (ts (program z))}" by (auto simp: ts inj_on_def held_tid_def less_2_cases_iff)
  have loss: "no_loss (sys_rt (monitor z))"
    by (simp add: rt no_loss_def total_of_def registered_contexts_def held_runtime_def held_context_def)
  have "\<forall>(t, cs) \<in> set (streams held_tid (program z)). list_all (uses_mutexes [64]) cs"
    by (auto simp: streams_def ev)
  from orderly_shutdown [OF h(1-3) tid h(4,5) loss _ this] h show ?thesis by auto
qed

end
