(* ===== verification/Spec2Isabelle.thy ===== *)
theory Spec2Isabelle
  imports Ring_Concurrent Verifier_Checks Verifier_Limits Runtime_Properties Interceptor_Properties
    Benchmark_Properties Target_Properties Target_Verdicts Monitored_Targets Session_Shutdown
begin

text \<open>
  A verification library for the runtime monitor, a shared library that is loaded before the
  C library, observes the mutex calls of a program and reports locking errors.

  \<^bold>\<open>The program.\<close>  Its parts, from the application inwards:

  \<^item> \<^verbatim>\<open>src/interceptor.c\<close> wraps \<open>pthread_mutex_lock\<close> and
    \<open>pthread_mutex_unlock\<close>: it emits an event before and after the real call.
  \<^item> \<^verbatim>\<open>src/monitor_runtime.c\<close> gives every application thread a context with a ring
    buffer, numbers the events, and runs a consumer thread that drains the rings into the
    verifier; at the end it prints a transport summary.
  \<^item> \<^verbatim>\<open>src/ring_buffer.c\<close> is the bounded queue between one thread and the consumer.
  \<^item> \<^verbatim>\<open>src/monitor_verifier.c\<close> keeps tables of threads and mutexes, reports
    violations and searches the wait-for graph for cycles.
  \<^item> \<^verbatim>\<open>targets/\<close> holds the programs the monitor is tried on.

  \<^bold>\<open>Theories and source.\<close>  Machine integers are words of their width, a pointer into a
  static array is its index, a null pointer is \<^const>\<open>None\<close>, the static variables of a file
  are the fields of one record, and what the operating system answers is an argument.

  \<^item> \<open>Monitor_Prelude\<close>, \<open>C_Stdio\<close>: words, lists, counting; \<^verbatim>\<open>snprintf\<close>,
    \<^verbatim>\<open>write\<close> to standard error, \<^verbatim>\<open>strtoull\<close>.
  \<^item> \<open>Monitor_Event\<close>: \<^verbatim>\<open>include/monitor_event.h\<close>.
  \<^item> \<open>Fifo_Spec\<close> (the locale \<open>bounded_fifo\<close>, the contract of a queue), \<open>Ring_Buffer\<close>
    (the two calls as functions and the interpretation of the locale), \<open>Ring_Concurrent\<close>
    (their atomic accesses interleaved, with stale reads of the other side's counter).
  \<^item> \<open>Slot_Table\<close> (the locale for the tables searched by key), \<open>Verifier_State\<close>,
    \<open>Verifier_Ops\<close>, \<open>Verifier_Deadlock\<close>, \<open>Verifier_Events\<close>: the definitions of
    \<^verbatim>\<open>src/monitor_verifier.c\<close>, in its order, with the text of every report.
  \<^item> \<open>Monitor_Spec\<close>: what the verifier promises, without tables and capacities: a view per
    thread, a view per mutex, a verdict per event.
  \<^item> \<open>Verifier_Inv\<close>, \<open>Verifier_Waiting\<close>, \<open>Verifier_Refine\<close>, \<open>Verifier_Reports\<close>,
    \<open>Verifier_Run\<close>: the table invariant and the refinement of the specification, event by
    event and for sequences; \<open>Verifier_Trace\<close>, \<open>Verifier_Checks\<close>, \<open>Verifier_Limits\<close>:
    the verifier's properties.
  \<^item> \<open>Runtime\<close>: the functions of \<^verbatim>\<open>src/monitor_runtime.c\<close>; \<open>Runtime_Steps\<close>: the
    same code as a step relation of application threads, consumer and stopping thread, with
    history variables for the events made, consumed and dropped; \<open>Runtime_Inv\<close>: its
    invariant; \<open>Runtime_Log\<close>: what the histories say about counters and verifier;
    \<open>Runtime_Runs\<close>: whole calls, termination of the consumer, a concrete run;
    \<open>Runtime_Properties\<close>: the properties.
  \<^item> \<open>Interceptor\<close>, \<open>Interceptor_Properties\<close>: \<^verbatim>\<open>src/interceptor.c\<close> over arbitrary
    real functions; the locale \<open>event_emitter\<close> is what the wrappers need of the runtime.
  \<^item> \<open>Pthreads\<close>: programs over the pthread library as trees of calls, a process as its
    threads, mutexes, barriers and shared variables, and the steps POSIX documents for each
    call: interleaved, blocking, and, as separate steps, failing for reasons outside the
    program.  Each step appends to the events of its thread what the interceptor reports, and
    to its pauses, with their place among the events, the times it sleeps.
    \<open>Pthread_Runs\<close>: every run ends, what holds at the end of all runs, threads that follow a
    script, the streams of events of a run.  \<open>Guarded_Counter\<close>: the locale of programs whose
    workers increment a counter under one mutex.
  \<^item> \<open>Targets\<close>: the six scenario programs under \<^verbatim>\<open>targets/\<close>, threads and main functions.
    \<open>Target_Correct\<close> interprets \<open>guarded_counter\<close> on the correct one and types its processes;
    \<open>Target_One_Worker\<close>, \<open>Target_Non_Owner\<close>, \<open>Target_Circular\<close>: how the runs of the others
    end.  \<open>Verifier_Capacity\<close>: when the verifier's tables suffice; \<open>Trace_Verdicts\<close>: the
    violations counted over a trace that carries given streams, and the holds of a trace that
    exceed the threshold.  \<open>Target_Properties\<close> and
    \<open>Target_Verdicts\<close>: the properties of the programs, and of the verifier on their runs.
  \<^item> \<open>Benchmark\<close>: \<^verbatim>\<open>targets/benchmark_mutex/benchmark_mutex.c\<close>; \<open>Benchmark_Runs\<close>,
    \<open>Benchmark_Steps\<close>, \<open>Benchmark_Ends\<close>: its invariant, through a second interpretation of
    \<open>guarded_counter\<close>; \<open>Benchmark_Properties\<close>: the properties.
  \<^item> \<open>Sessions\<close>: a program and the monitor in one process.  A step of a program's thread leaves
    the calls the interceptor makes for it, the labelled steps of \<open>Runtime_Steps\<close> take them up
    one at a time, and the thread goes on only when the call has returned; other threads and
    the consumer run in between, and the calls that leave no event are counted by the kind of
    loss.  \<open>Session_Inv\<close>: what is recorded of each thread at any moment; \<open>Session_Losses\<close>: losses
    show in the runtime's counters; \<open>Session_Demo\<close>: a session from start to end;
    \<open>Monitored_Targets\<close>: the properties of sessions and of the target programs in them;
    \<open>Runtime_Capacity\<close> and \<open>Session_Shutdown\<close>: the verifier's capacity behind the consumer, and
    the shutdown.

  \<^bold>\<open>What is shown.\<close>  For the queue: first-in first-out without loss under every
  interleaving, no two accesses to one slot, wait-freedom of the producer.  For the verifier:
  every operation keeps the tables well-formed; a run without table overflow computes
  exactly the views and verdicts of the specification, independent of how the consumer
  interleaves the threads; sequence gaps are detected exactly; the bounded cycle search finds
  a cycle if and only if there is one; a deadlock is reported once, after confirmation;
  reports are never truncated.  For the runtime, under every interleaving: no event is lost
  uncounted, delivery is in order, contexts have one producer, the consumer terminates after
  a stop request, and when the final summary calls the results authoritative they are the
  specification's results on all events the application made, in their global order.  For
  the interceptor: the application sees exactly the real calls, and each monitored call
  leaves the right events in the caller's stream.  For the target programs, from the start of
  \<^verbatim>\<open>main\<close> and under every schedule: no run goes on for ever; without failing calls the
  circular one halts in a deadlock and every other one ends with exit status 0; the correct
  one and the benchmark are well-typed even when calls fail, exclude their workers from each
  other, and never report success with a lost increment.  For each of these runs, and every
  interleaving of its events in the trace, the verifier judges the correct programs clean, each
  other one with the violation it is named after, and the circular one as a deadlock, once;
  and it counts a hold-time violation for exactly those holds whose time stamps are further
  apart than the threshold, whatever the time stamps are.  For any program and the monitor in one process: a summary that counts no loss means
  that the recorded events are exactly the program's calls, thread by thread; so an
  authoritative summary on a target program shows the program's intended verdict; and a
  shutdown after the program's end, with no loss counted and the consumer at the start of a
  round, leads to such a summary under every schedule.  Some theorems show where the code does less than its comments say: a
  reused thread id taints a stream, a reported cycle hides others, an event emitted just
  before the stop request can stay in its queue.

  \<^bold>\<open>Bounds.\<close>  Loops of the source that are bounded by a constant are recursions that count
  to that constant: 16 steps of the cycle search, 64 events per drained batch.  The consumer's
  outer loop is a step function; that it ends is a theorem.  Loops of the target programs are
  recursions on the number of rounds left, which is any number.  Counters wrap as in C;
  theorems that need it assume fewer than 2^64 (or, for thread sequence numbers, 2^32)
  events.

  \<^bold>\<open>Not modelled.\<close>  The C memory model beyond the stale counter reads of the ring: the steps
  of the runtime are sequentially consistent at the cuts chosen, and the transport summary
  reads its counters at one moment.  The sizes printed in the summary are those of x86-64
  Linux.  In the target programs: unlocking a default mutex that the thread does not own,
  which is undefined; spurious or timed behaviour beyond the failures of calls; the memory of
  the benchmark's thread array and the system's text after \<^verbatim>\<open>perror\<close>.  In a session, calls
  of the interceptor that are under way when \<^verbatim>\<open>main\<close> returns, or that come after the stop
  request, are modelled, but the theorems on complete traces exclude them by hypothesis, and
  failures of library calls are left out of sessions.  Time: the time stamps are whatever the
  clock returns; only the theorem that the hold-time target is judged a violation (and only
  that part of it) relates them to the program, by the hypothesis that the clock shows the
  pauses \<^verbatim>\<open>nanosleep\<close> promises.  A stop request between the two reads of a first emission, of
  \<open>accept_events\<close> and of the next free slot, which are one step.  The unit tests, whose subject
  is proved for all inputs; the Python scripts that drive experiments and draw plots.
\<close>

end
